(* ===== verification/Prelude.thy ===== *)
theory Prelude
  imports Main
begin

text \<open>
  Shared material of the development: the result type and its sequencing, JavaScript's
  truthiness on optional values, time in milliseconds, decimal rendering, ASCII letter case,
  and the row tables that stand for the TypeORM repositories, with the interface
  \<open>repository\<close> the services rely on.
\<close>

named_theorems table_simps \<open>how find, save and remove act on a table\<close>
named_theorems access_simps \<open>the access predicates unfolded\<close>

section \<open>Results\<close>

text \<open>
  A method that can throw returns \<open>'e + 'a\<close>: \<open>Inl e\<close> is the exception, \<open>Inr a\<close> the value.
  A method that can throw after it has written returns the state beside such a value.
\<close>

definition and_then :: "'e + 'a \<Rightarrow> ('a \<Rightarrow> 'e + 'b) \<Rightarrow> 'e + 'b" where
  "and_then r f = (case r of Inl e \<Rightarrow> Inl e | Inr a \<Rightarrow> f a)"

lemma and_then_simps [simp]:
  "and_then (Inl e) f = Inl e"
  "and_then (Inr a) f = f a"
  by (simp_all add: and_then_def)

lemma and_then_Inr_iff: "and_then r f = Inr b \<longleftrightarrow> (\<exists>a. r = Inr a \<and> f a = Inr b)"
  by (cases r) auto

lemma and_then_Inl_iff:
  "and_then r f = Inl e \<longleftrightarrow> r = Inl e \<or> (\<exists>a. r = Inr a \<and> f a = Inl e)"
  by (cases r) auto

section \<open>JavaScript truthiness and defaults\<close>

text \<open>
  \<open>a ?? b\<close> takes \<open>b\<close> only where \<open>a\<close> is null or undefined; \<open>a || b\<close> also where \<open>a\<close> is
  0 or the empty string.
\<close>

definition nullish :: "'a option \<Rightarrow> 'a \<Rightarrow> 'a" where
  "nullish a b = (case a of None \<Rightarrow> b | Some x \<Rightarrow> x)"

definition nullish_opt :: "'a option \<Rightarrow> 'a option \<Rightarrow> 'a option" where
  "nullish_opt a b = (case a of None \<Rightarrow> b | Some x \<Rightarrow> Some x)"

definition truthy_str :: "string option \<Rightarrow> bool" where
  "truthy_str s = (case s of None \<Rightarrow> False | Some x \<Rightarrow> x \<noteq> [])"

definition truthy_num :: "int option \<Rightarrow> bool" where
  "truthy_num n = (case n of None \<Rightarrow> False | Some x \<Rightarrow> x \<noteq> 0)"

definition or_default :: "int option \<Rightarrow> int \<Rightarrow> int" where
  "or_default n d = (case n of None \<Rightarrow> d | Some x \<Rightarrow> if x = 0 then d else x)"

lemma nullish_simps [simp]:
  "nullish None b = b" "nullish (Some x) b = x"
  "nullish_opt None c = c" "nullish_opt (Some x) c = Some x"
  by (simp_all add: nullish_def nullish_opt_def)

lemma truthy_str_simps [simp]:
  "\<not> truthy_str None" "truthy_str (Some x) \<longleftrightarrow> x \<noteq> []"
  by (simp_all add: truthy_str_def)

lemma truthy_num_simps [simp]:
  "\<not> truthy_num None" "truthy_num (Some n) \<longleftrightarrow> n \<noteq> 0"
  by (simp_all add: truthy_num_def)

lemma or_default_simps [simp]:
  "or_default None d = d" "or_default (Some n) d = (if n = 0 then d else n)"
  by (simp_all add: or_default_def)

lemma truthy_str_iff: "truthy_str s \<longleftrightarrow> (\<exists>x. s = Some x \<and> x \<noteq> [])"
  by (cases s) auto

section \<open>Time\<close>

text \<open>Instants are epoch milliseconds (\<open>Date.now()\<close>, \<open>Date.getTime()\<close>).\<close>

type_synonym instant = int

abbreviation ms_per_day :: int where
  "ms_per_day \<equiv> 86400000"

section \<open>Text\<close>

type_synonym str = string

text \<open>Decimal rendering of an integer, as a template literal gives it.\<close>

fun digits_of :: "nat \<Rightarrow> str" where
  "digits_of n =
     (if n < 10 then [char_of (48 + n)]
      else digits_of (n div 10) @ [char_of (48 + n mod 10)])"

declare digits_of.simps [simp del]

definition show_int :: "int \<Rightarrow> str" where
  "show_int i = (if i < 0 then CHR ''-'' # digits_of (nat (- i)) else digits_of (nat i))"

lemma digits_of_nonempty [simp]: "digits_of n \<noteq> []"
  by (subst digits_of.simps) simp

text \<open>
  Letter case on the ASCII range, which is what currency codes, roles and e-mail addresses
  are compared on.
\<close>

definition lower_char :: "char \<Rightarrow> char" where
  "lower_char c = (let n = of_char c :: nat in if 65 \<le> n \<and> n \<le> 90 then char_of (n + 32) else c)"

definition upper_char :: "char \<Rightarrow> char" where
  "upper_char c = (let n = of_char c :: nat in if 97 \<le> n \<and> n \<le> 122 then char_of (n - 32) else c)"

definition to_lower :: "str \<Rightarrow> str" where
  "to_lower s = map lower_char s"

definition to_upper :: "str \<Rightarrow> str" where
  "to_upper s = map upper_char s"

lemma upper_char_idem [simp]: "upper_char (upper_char c) = upper_char c"
proof -
  have "of_char (char_of (n - 32) :: char) = n - (32::nat)" if "97 \<le> n" "n \<le> 122" for n
    using that by (simp add: of_char_of)
  then show ?thesis by (auto simp: upper_char_def Let_def)
qed

lemma lower_char_idem [simp]: "lower_char (lower_char c) = lower_char c"
proof -
  have "of_char (char_of (n + 32) :: char) = n + (32::nat)" if "65 \<le> n" "n \<le> 90" for n
    using that by (simp add: of_char_of)
  then show ?thesis by (auto simp: lower_char_def Let_def)
qed

lemma to_upper_idem [simp]: "to_upper (to_upper s) = to_upper s"
  by (simp add: to_upper_def)

lemma to_lower_idem [simp]: "to_lower (to_lower s) = to_lower s"
  by (simp add: to_lower_def)

text \<open>White space of \<open>String.prototype.trim\<close> within ASCII, and trimming.\<close>

definition is_ws :: "char \<Rightarrow> bool" where
  "is_ws c \<longleftrightarrow> of_char c \<in> {9, 10, 11, 12, 13, 32 :: nat}"

definition trim :: "str \<Rightarrow> str" where
  "trim s = rev (dropWhile is_ws (rev (dropWhile is_ws s)))"

text \<open>The em dash of the messages, as the UTF-8 bytes of U+2014.\<close>

definition em_dash :: str where
  "em_dash = [CHR 0xE2, CHR 0x80, CHR 0x94]"

section \<open>Tables\<close>

text \<open>
  A repository is a table: the list of its rows. \<open>find_one\<close> and \<open>find_where\<close> are
  \<open>Repository.findOne\<close> and \<open>Repository.find\<close> with the \<open>where\<close> clause as a predicate,
  \<open>save_row\<close> is \<open>Repository.save\<close> (update the row with this primary key, insert it when
  there is none), \<open>remove_row\<close> is \<open>Repository.remove\<close> or \<open>delete\<close> by primary key.
\<close>

definition find_where :: "('r \<Rightarrow> bool) \<Rightarrow> 'r list \<Rightarrow> 'r list" where
  "find_where P t = filter P t"

definition find_one :: "('r \<Rightarrow> bool) \<Rightarrow> 'r list \<Rightarrow> 'r option" where
  "find_one P t = List.find P t"

fun save_row :: "('r \<Rightarrow> 'k) \<Rightarrow> 'r \<Rightarrow> 'r list \<Rightarrow> 'r list" where
  "save_row key r [] = [r]"
| "save_row key r (x # xs) = (if key x = key r then r # xs else x # save_row key r xs)"

definition remove_row :: "('r \<Rightarrow> 'k) \<Rightarrow> 'k \<Rightarrow> 'r list \<Rightarrow> 'r list" where
  "remove_row key k t = filter (\<lambda>x. key x \<noteq> k) t"

definition by_key :: "('r \<Rightarrow> 'k) \<Rightarrow> 'r list \<Rightarrow> 'k \<Rightarrow> 'r option" where
  "by_key key t k = List.find (\<lambda>x. key x = k) t"

abbreviation keys_distinct :: "('r \<Rightarrow> 'k) \<Rightarrow> 'r list \<Rightarrow> bool" where
  "keys_distinct key t \<equiv> distinct (map key t)"

lemma by_key_simps [simp]:
  "by_key key [] k = None"
  "by_key key (x # xs) k = (if key x = k then Some x else by_key key xs k)"
  by (simp_all add: by_key_def)

lemma find_one_simps [simp]:
  "find_one P [] = None"
  "find_one P (x # xs) = (if P x then Some x else find_one P xs)"
  by (simp_all add: find_one_def)

lemma find_one_SomeD: "find_one P t = Some r \<Longrightarrow> r \<in> set t \<and> P r"
  by (induction t) (auto split: if_splits)

lemma find_one_None_iff: "find_one P t = None \<longleftrightarrow> (\<forall>r \<in> set t. \<not> P r)"
  by (induction t) auto

lemma by_key_SomeD: "by_key key t k = Some r \<Longrightarrow> r \<in> set t \<and> key r = k"
  by (induction t) (auto split: if_splits)

lemma by_key_None_iff [table_simps]: "by_key key t k = None \<longleftrightarrow> k \<notin> key ` set t"
  by (induction t) auto

lemma by_key_mem: "keys_distinct key t \<Longrightarrow> r \<in> set t \<Longrightarrow> by_key key t (key r) = Some r"
  by (induction t) auto

lemma by_key_save [table_simps]:
  "by_key key (save_row key r t) k = (if k = key r then Some r else by_key key t k)"
  by (induction t) auto

lemma by_key_remove [table_simps]:
  "by_key key (remove_row key k' t) k = (if k = k' then None else by_key key t k)"
  by (induction t) (auto simp: remove_row_def)

lemma keys_save [table_simps]: "key ` set (save_row key r t) = insert (key r) (key ` set t)"
  by (induction t) auto

lemma keys_distinct_save [table_simps]:
  "keys_distinct key t \<Longrightarrow> keys_distinct key (save_row key r t)"
proof (induction t)
  case (Cons x xs)
  have "key ` set (save_row key r xs) = insert (key r) (key ` set xs)"
    by (rule keys_save)
  with Cons show ?case by auto
qed simp

lemma keys_distinct_remove [table_simps]:
  "keys_distinct key t \<Longrightarrow> keys_distinct key (remove_row key k t)"
  by (simp add: remove_row_def distinct_map inj_on_filter_key_eq inj_on_def)

lemma save_row_new: "key r \<notin> key ` set t \<Longrightarrow> save_row key r t = t @ [r]"
  by (induction t) auto

lemma set_save_row:
  "keys_distinct key t \<Longrightarrow> set (save_row key r t) = insert r {x \<in> set t. key x \<noteq> key r}"
proof (induction t)
  case (Cons x xs)
  show ?case
  proof (cases "key x = key r")
    case True
    with Cons.prems have "\<forall>y \<in> set xs. key y \<noteq> key r" by (metis distinct.simps(2) image_eqI list.simps(9) set_map)
    with True show ?thesis by auto
  next
    case False
    with Cons show ?thesis by auto
  qed
qed simp

lemma set_remove_row: "set (remove_row key k t) = {x \<in> set t. key x \<noteq> k}"
  by (auto simp: remove_row_def)

lemma set_find_where: "set (find_where P t) = {x \<in> set t. P x}"
  by (auto simp: find_where_def)

text \<open>\<open>new Map(xs.map((x) => [key(x), x])).get(k)\<close>: the last entry under a key wins.\<close>

definition map_get :: "('a \<Rightarrow> str) \<Rightarrow> 'a list \<Rightarrow> str \<Rightarrow> 'a option" where
  "map_get key xs k = find_one (\<lambda>x. key x = k) (rev xs)"

lemma map_get_SomeD: "map_get key xs k = Some x \<Longrightarrow> x \<in> set xs \<and> key x = k"
  unfolding map_get_def by (auto dest!: find_one_SomeD)

lemma map_get_None_iff: "map_get key xs k = None \<longleftrightarrow> k \<notin> key ` set xs"
  by (auto simp: map_get_def find_one_None_iff)

section \<open>The repository interface\<close>

text \<open>
  What a service relies on when it reads, saves and removes rows by primary key. Each service
  theory interprets it on its own table.
\<close>

locale repository =
  fixes key :: "'r \<Rightarrow> 'k"
    and look :: "'t \<Rightarrow> 'k \<Rightarrow> 'r option"
    and save :: "'r \<Rightarrow> 't \<Rightarrow> 't"
    and remove :: "'k \<Rightarrow> 't \<Rightarrow> 't"
    and wf :: "'t \<Rightarrow> bool"
  assumes look_save: "look (save r t) k = (if k = key r then Some r else look t k)"
    and look_remove: "look (remove k' t) k = (if k = k' then None else look t k)"
    and look_key: "look t k = Some r \<Longrightarrow> key r = k"
    and wf_save: "wf t \<Longrightarrow> wf (save r t)"
    and wf_remove: "wf t \<Longrightarrow> wf (remove k t)"
begin

lemma look_save_same [simp]: "look (save r t) (key r) = Some r"
  by (simp add: look_save)

lemma save_frame: "k \<noteq> key r \<Longrightarrow> look (save r t) k = look t k"
  by (simp add: look_save)

lemma save_overwrites: "key r' = key r \<Longrightarrow> look (save r' (save r t)) = look (save r' t)"
  by (auto simp: look_save fun_eq_iff)

lemma save_commutes:
  "key r \<noteq> key r' \<Longrightarrow> look (save r (save r' t)) = look (save r' (save r t))"
  by (auto simp: look_save fun_eq_iff)

text \<open>Every row satisfies \<open>P\<close>, said through lookups.\<close>

definition all_rows :: "('r \<Rightarrow> bool) \<Rightarrow> 't \<Rightarrow> bool" where
  "all_rows P t \<longleftrightarrow> (\<forall>k r. look t k = Some r \<longrightarrow> P r)"

lemma all_rowsD: "all_rows P t \<Longrightarrow> look t k = Some r \<Longrightarrow> P r"
  by (auto simp: all_rows_def)

lemma all_rows_save [intro]: "all_rows P t \<Longrightarrow> P r \<Longrightarrow> all_rows P (save r t)"
  by (auto simp: all_rows_def look_save)

lemma all_rows_remove [intro]: "all_rows P t \<Longrightarrow> all_rows P (remove k t)"
  by (auto simp: all_rows_def look_remove)

end

section \<open>Loops that can throw\<close>

text \<open>A \<open>for\<close> loop over the items with a body that can throw: the first exception ends it.\<close>

fun try_loop :: "('i \<Rightarrow> 's \<Rightarrow> ('e + unit) \<times> 's) \<Rightarrow> 'i list \<Rightarrow> 's \<Rightarrow> ('e + unit) \<times> 's" where
  "try_loop body [] s = (Inr (), s)"
| "try_loop body (x # xs) s =
     (case body x s of (Inl e, s') \<Rightarrow> (Inl e, s') | (Inr _, s') \<Rightarrow> try_loop body xs s')"

lemma try_loop_Cons_cases:
  assumes "try_loop body (x # xs) s = (r, s')"
  obtains e where "body x s = (Inl e, s')" "r = Inl e"
  | s1 where "body x s = (Inr (), s1)" "try_loop body xs s1 = (r, s')"
  using assms that by (cases "body x s") (auto split: sum.splits)

lemma try_loop_invariant:
  assumes "try_loop body xs s = (r, s')" "I s"
    "\<And>x s r s'. x \<in> set xs \<Longrightarrow> I s \<Longrightarrow> body x s = (r, s') \<Longrightarrow> I s'"
  shows "I s'"
  using assms
proof (induction xs arbitrary: s)
  case (Cons x xs)
  from Cons.prems(1) show ?case
  proof (cases rule: try_loop_Cons_cases)
    case (1 e)
    then show ?thesis using Cons.prems(2,3) by (meson list.set_intros(1))
  next
    case (2 s1)
    have "I s1" using Cons.prems(2,3) 2(1) by (meson list.set_intros(1))
    then show ?thesis using Cons.IH [OF 2(2)] Cons.prems(3) by (meson list.set_intros(2))
  qed
qed simp

lemma try_loop_total:
  assumes "\<And>x s. x \<in> set xs \<Longrightarrow> \<exists>s'. body x s = (Inr (), s')"
  shows "\<exists>s'. try_loop body xs s = (Inr (), s')"
  using assms
proof (induction xs arbitrary: s)
  case (Cons x xs)
  obtain s1 where "body x s = (Inr (), s1)" using Cons.prems by (meson list.set_intros(1))
  then show ?case using Cons by simp
qed simp

section \<open>Status machines\<close>

text \<open>
  A row with a status, and a command that moves it: \<open>next_of\<close> is the move when the command is
  accepted. The provider promises that an accepted command takes the status along an allowed
  edge; the lemmas lift that to runs of commands, where a refused command leaves the row alone.
\<close>

locale status_machine =
  fixes status :: "'r \<Rightarrow> 's"
    and next_of :: "'c \<Rightarrow> 'r \<Rightarrow> 'r option"
    and allowed :: "'s \<Rightarrow> 's set"
  assumes moves_allowed: "next_of c r = Some r' \<Longrightarrow> status r' \<in> allowed (status r)"
begin

primrec run :: "'c list \<Rightarrow> 'r \<Rightarrow> 'r" where
  "run [] r = r"
| "run (c # cs) r = run cs (case next_of c r of None \<Rightarrow> r | Some r' \<Rightarrow> r')"

lemma terminal_refuses: "allowed (status r) = {} \<Longrightarrow> next_of c r = None"
  using moves_allowed by (cases "next_of c r") auto

lemma terminal_absorbing: "allowed (status r) = {} \<Longrightarrow> run cs r = r"
  by (induction cs) (auto simp: terminal_refuses)

lemma run_reaches:
  "(status r, status (run cs r)) \<in> {(s, s'). s' \<in> allowed s}\<^sup>*"
proof (induction cs arbitrary: r)
  case (Cons c cs)
  show ?case
  proof (cases "next_of c r")
    case None
    with Cons show ?thesis by simp
  next
    case (Some r')
    then have "(status r, status r') \<in> {(s, s'). s' \<in> allowed s}"
      using moves_allowed by simp
    with Cons [of r'] Some show ?thesis by (simp add: converse_rtrancl_into_rtrancl)
  qed
qed simp

lemma run_invariant:
  assumes "\<And>c r r'. P r \<Longrightarrow> next_of c r = Some r' \<Longrightarrow> P r'" and "P r"
  shows "P (run cs r)"
  using assms(2) by (induction cs arbitrary: r) (auto intro: assms(1) split: option.splits)

lemma run_stays:
  assumes "\<And>s. s \<in> S \<Longrightarrow> allowed s \<subseteq> S" and "status r \<in> S"
  shows "status (run cs r) \<in> S"
  using assms(2)
  by (induction cs arbitrary: r) (use assms(1) moves_allowed in \<open>fastforce split: option.splits\<close>)+

end

end
