(* ===== verification/JsValue.thy ===== *)
theory JsValue
  imports Prelude
begin

text \<open>
  JavaScript values as they come out of request bodies and \<open>jsonb\<close> columns, the object
  operations the services use on them (own-property read, assignment, \<open>delete\<close>, spread), and
  the text forms the standard library gives: \<open>Date.prototype.toISOString\<close> and
  \<open>JSON.stringify\<close>.

  A number is carried as the decimal text \<open>Number.prototype.toString\<close> gives it: the code that
  handles these values stores, compares or prints numbers and never computes with them. An
  object is the list of its own properties in the order they were added, which is the order of \<open>Object.entries\<close>
  for names that are not array indices. A date is
  an instant, or \<open>None\<close> for an invalid date.
\<close>

datatype js =
    JUndef
  | JNull
  | JBool bool
  | JNum str
  | JStr str
  | JDate "instant option"
  | JArr "js list"
  | JObj "(str \<times> js) list"

type_synonym js_obj = "(str \<times> js) list"

section \<open>Objects\<close>

fun obj_get :: "str \<Rightarrow> js_obj \<Rightarrow> js option" where
  "obj_get k [] = None"
| "obj_get k ((k', v) # o') = (if k' = k then Some v else obj_get k o')"

fun obj_set :: "str \<Rightarrow> js \<Rightarrow> js_obj \<Rightarrow> js_obj" where
  "obj_set k v [] = [(k, v)]"
| "obj_set k v ((k', v') # o') = (if k' = k then (k, v) # o' else (k', v') # obj_set k v o')"

definition obj_del :: "str \<Rightarrow> js_obj \<Rightarrow> js_obj" where
  "obj_del k ob = filter (\<lambda>kv. fst kv \<noteq> k) ob"

text \<open>\<open>{ ...a, ...b }\<close>: the properties of \<open>b\<close> assigned over those of \<open>a\<close>.\<close>

definition obj_spread :: "js_obj \<Rightarrow> js_obj \<Rightarrow> js_obj" where
  "obj_spread a b = fold (\<lambda>(k, v) ob. obj_set k v ob) b a"

abbreviation obj_wf :: "js_obj \<Rightarrow> bool" where
  "obj_wf ob \<equiv> distinct (map fst ob)"

text \<open>A property that is text.\<close>

definition text_of :: "str \<Rightarrow> js_obj \<Rightarrow> str option" where
  "text_of k p = (case obj_get k p of Some (JStr s) \<Rightarrow> Some s | _ \<Rightarrow> None)"

lemma obj_get_set [simp]: "obj_get k (obj_set k' v ob) = (if k = k' then Some v else obj_get k ob)"
  by (induction k' v ob rule: obj_set.induct) auto

lemma obj_get_del [simp]: "obj_get k (obj_del k' ob) = (if k = k' then None else obj_get k ob)"
  by (induction ob) (auto simp: obj_del_def)

lemma keys_obj_set: "fst ` set (obj_set k v ob) = insert k (fst ` set ob)"
  by (induction k v ob rule: obj_set.induct) auto

lemma keys_obj_del: "fst ` set (obj_del k ob) = fst ` set ob - {k}"
  by (auto simp: obj_del_def)

lemma obj_wf_set [simp]: "obj_wf ob \<Longrightarrow> obj_wf (obj_set k v ob)"
proof (induction k v ob rule: obj_set.induct)
  case (2 k v k' v' o')
  then show ?case using keys_obj_set [of k v o'] by auto
qed simp

lemma obj_wf_del [simp]: "obj_wf ob \<Longrightarrow> obj_wf (obj_del k ob)"
  by (simp add: obj_del_def distinct_map inj_on_def)

lemma obj_get_None_iff: "obj_get k ob = None \<longleftrightarrow> k \<notin> fst ` set ob"
  by (induction k ob rule: obj_get.induct) auto

lemma obj_get_spread:
  "obj_wf b \<Longrightarrow>
   obj_get k (obj_spread a b) = (case obj_get k b of None \<Rightarrow> obj_get k a | Some v \<Rightarrow> Some v)"
proof (induction b arbitrary: a)
  case (Cons kv b)
  obtain k' v where [simp]: "kv = (k', v)" by (cases kv)
  have "obj_get k (obj_spread a (kv # b)) = obj_get k (obj_spread (obj_set k' v a) b)"
    by (simp add: obj_spread_def)
  moreover have "obj_get k' b = None"
    using Cons.prems by (simp add: obj_get_None_iff)
  ultimately show ?case
    using Cons by (cases "k' = k") (auto split: option.split)
qed (simp add: obj_spread_def)

section \<open>\<open>toISOString\<close>\<close>

text \<open>
  The calendar date of a day number counted from 1970-01-01, in the proleptic Gregorian
  calendar of ECMAScript: 400-year eras of 146097 days that start on 1 March.
\<close>

definition civil_of_days :: "int \<Rightarrow> int \<times> int \<times> int" where
  "civil_of_days days =
     (let z = days + 719468; era = z div 146097; doe = z mod 146097;
          yoe = (doe - doe div 1460 + doe div 36524 - doe div 146096) div 365;
          doy = doe - (365 * yoe + yoe div 4 - yoe div 100);
          mp = (5 * doy + 2) div 153;
          d = doy - (153 * mp + 2) div 5 + 1;
          m = (if mp < 10 then mp + 3 else mp - 9);
          y = yoe + era * 400 + (if m \<le> 2 then 1 else 0)
      in (y, m, d))"

definition days_of_civil :: "int \<Rightarrow> int \<Rightarrow> int \<Rightarrow> int" where
  "days_of_civil y m d =
     (let y' = (if m \<le> 2 then y - 1 else y); era = y' div 400; yoe = y' mod 400;
          doy = (153 * (if m > 2 then m - 3 else m + 9) + 2) div 5 + d - 1;
          doe = yoe * 365 + yoe div 4 - yoe div 100 + doy
      in era * 146097 + doe - 719468)"

definition pad_int :: "nat \<Rightarrow> int \<Rightarrow> str" where
  "pad_int w n = (let s = digits_of (nat n) in replicate (w - length s) (CHR ''0'') @ s)"

definition iso_string :: "instant \<Rightarrow> str" where
  "iso_string t =
     (let days = t div ms_per_day; ms = t mod ms_per_day; (y, m, d) = civil_of_days days;
          year = (if 0 \<le> y \<and> y \<le> 9999 then pad_int 4 y
                  else if y < 0 then CHR ''-'' # pad_int 6 (- y) else CHR ''+'' # pad_int 6 y)
      in year @ ''-'' @ pad_int 2 m @ ''-'' @ pad_int 2 d @ ''T'' @
         pad_int 2 (ms div 3600000) @ '':'' @ pad_int 2 (ms div 60000 mod 60) @ '':'' @
         pad_int 2 (ms div 1000 mod 60) @ ''.'' @ pad_int 3 (ms mod 1000) @ ''Z'')"

lemma iso_string_example: "iso_string 1709210096123 = ''2024-02-29T12:34:56.123Z''"
  by code_simp

section \<open>\<open>JSON.stringify\<close>\<close>

definition hex_digit :: "nat \<Rightarrow> char" where
  "hex_digit n = (if n < 10 then char_of (48 + n) else char_of (87 + n))"

definition json_char :: "char \<Rightarrow> str" where
  "json_char c =
     (let n = of_char c :: nat in
      if n = 34 then [CHR 0x5C, CHR 0x22] else if n = 92 then [CHR 0x5C, CHR 0x5C]
      else if n = 8 then [CHR 0x5C, CHR ''b''] else if n = 12 then [CHR 0x5C, CHR ''f'']
      else if n = 10 then [CHR 0x5C, CHR ''n''] else if n = 13 then [CHR 0x5C, CHR ''r'']
      else if n = 9 then [CHR 0x5C, CHR ''t'']
      else if n < 32 then [CHR 0x5C] @ ''u00'' @ [hex_digit (n div 16), hex_digit (n mod 16)]
      else [c])"

definition json_quote :: "str \<Rightarrow> str" where
  "json_quote s = [CHR 0x22] @ concat (map json_char s) @ [CHR 0x22]"

fun join :: "str \<Rightarrow> str list \<Rightarrow> str" where
  "join sep [] = []"
| "join sep [x] = x"
| "join sep (x # xs) = x @ sep @ join sep xs"

fun json_str :: "js \<Rightarrow> str" where
  "json_str JUndef = ''null''"
| "json_str JNull = ''null''"
| "json_str (JBool b) = (if b then ''true'' else ''false'')"
| "json_str (JNum n) = (if n \<in> {''NaN'', ''Infinity'', ''-Infinity''} then ''null'' else n)"
| "json_str (JStr s) = json_quote s"
| "json_str (JDate d) = (case d of None \<Rightarrow> ''null'' | Some t \<Rightarrow> json_quote (iso_string t))"
| "json_str (JArr xs) = ''['' @ join '','' (map json_str xs) @ '']''"
| "json_str (JObj kvs) =
     ''{'' @ join '','' (map (\<lambda>kv. json_quote (fst kv) @ '':'' @ json_str (snd kv))
                           (filter (\<lambda>kv. snd kv \<noteq> JUndef) kvs)) @ ''}''"

section \<open>Inherited names\<close>

text \<open>
  The names every object inherits from \<open>Object.prototype\<close>: \<open>k in o\<close> holds for them on any \<open>o\<close>.
\<close>

definition inherited_keys :: "str list" where
  "inherited_keys =
     [''constructor'', ''__defineGetter__'', ''__defineSetter__'', ''hasOwnProperty'',
      ''__lookupGetter__'', ''__lookupSetter__'', ''isPrototypeOf'', ''propertyIsEnumerable'',
      ''toString'', ''valueOf'', ''__proto__'', ''toLocaleString'']"

definition key_in :: "str \<Rightarrow> js_obj \<Rightarrow> bool" where
  "key_in k obj \<longleftrightarrow> k \<in> fst ` set obj \<or> k \<in> set inherited_keys"

text \<open>\<open>o[k] = v\<close>: assigning \<open>__proto__\<close> sets the prototype and no own key.\<close>

definition obj_assign :: "str \<Rightarrow> js \<Rightarrow> js_obj \<Rightarrow> js_obj" where
  "obj_assign k v obj = (if k = ''__proto__'' then obj else obj_set k v obj)"

lemma obj_get_assign:
  "obj_get k (obj_assign k' v obj) = (if k = k' \<and> k \<noteq> ''__proto__'' then Some v else obj_get k obj)"
  by (auto simp: obj_assign_def obj_get_set)

text \<open>\<open>String.prototype.split\<close> on one character.\<close>

fun split_on :: "char \<Rightarrow> str \<Rightarrow> str list" where
  "split_on c [] = [[]]"
| "split_on c (x # xs) =
     (if x = c then [] # split_on c xs
      else case split_on c xs of [] \<Rightarrow> [[x]] | p # ps \<Rightarrow> (x # p) # ps)"

end
