(* ===== verification/DeepMerge.thy ===== *)
theory DeepMerge
  imports JsValue
begin

text \<open>
  \<^verbatim>\<open>src/common/deep-merge.ts\<close>: the recursive merge behind a PATCH of \<open>verticalAttributes\<close>.
  \<open>deep_merge\<close> is the loop over the entries of the patch; \<open>merged\<close> is the entry-wise
  specification it implements.
\<close>

definition FORBIDDEN_KEYS :: "str set" where
  "FORBIDDEN_KEYS = {''__proto__'', ''constructor'', ''prototype''}"

text \<open>
  Only object literals are traversed: arrays, dates and primitives are values.
\<close>

fun isPlainObject :: "js \<Rightarrow> bool" where
  "isPlainObject (JObj _) = True"
| "isPlainObject _ = False"

fun obj_of :: "js \<Rightarrow> js_obj" where
  "obj_of (JObj ob) = ob"
| "obj_of _ = []"

lemma size_obj_of: "isPlainObject v \<Longrightarrow> size_list (\<lambda>kv. size (snd kv)) (obj_of v) < Suc (size v)"
proof (cases v)
  case (JObj ob)
  have "size_list (\<lambda>kv. size (snd kv)) ob \<le> size_list (size_prod (\<lambda>_. 0) size) ob"
    by (induction ob) auto
  with JObj show ?thesis by simp
qed auto

text \<open>\<open>out\<close> starts as a copy of the base; each entry of the patch is applied to it in turn.\<close>

function deep_merge :: "js_obj \<Rightarrow> js_obj \<Rightarrow> js_obj" where
  "deep_merge out [] = out"
| "deep_merge out ((key, value) # rest) =
     (if key \<in> FORBIDDEN_KEYS then deep_merge out rest
      else if value = JUndef then deep_merge out rest
      else if value = JNull then deep_merge (obj_del key out) rest
      else case obj_get key out of
          Some old \<Rightarrow>
            (if isPlainObject value \<and> isPlainObject old
             then deep_merge (obj_set key (JObj (deep_merge (obj_of old) (obj_of value))) out) rest
             else deep_merge (obj_set key value out) rest)
        | None \<Rightarrow> deep_merge (obj_set key value out) rest)"
  by pat_completeness auto
termination
  by (relation "measure (\<lambda>(out, patch). size_list (\<lambda>kv. size (snd kv)) patch)")
     (auto dest: size_obj_of)

text \<open>What one key of the result is, from the base's and the patch's value of that key.\<close>

definition merged :: "js option \<Rightarrow> js option \<Rightarrow> js option" where
  "merged old new =
     (case new of
        None \<Rightarrow> old
      | Some v \<Rightarrow>
          (if v = JUndef then old
           else if v = JNull then None
           else case old of
               Some ov \<Rightarrow> (if isPlainObject v \<and> isPlainObject ov
                            then Some (JObj (deep_merge (obj_of ov) (obj_of v))) else Some v)
             | None \<Rightarrow> Some v))"

lemma merged_None [simp]: "merged old None = old"
  by (simp add: merged_def)

lemma deep_merge_get:
  "obj_wf patch \<Longrightarrow>
   obj_get k (deep_merge base patch) =
     (if k \<in> FORBIDDEN_KEYS then obj_get k base else merged (obj_get k base) (obj_get k patch))"
proof (induction patch arbitrary: base)
  case (Cons kv rest)
  obtain key v where kv: "kv = (key, v)" by (cases kv)
  from Cons.prems have none: "obj_get key rest = None" and wf: "obj_wf rest"
    by (auto simp: kv obj_get_None_iff)
  show ?case
    using none by (auto simp: kv Cons.IH [OF wf] merged_def split: option.split)
qed simp

lemma deep_merge_wf: "obj_wf base \<Longrightarrow> obj_wf (deep_merge base patch)"
proof (induction patch arbitrary: base)
  case (Cons kv rest)
  then show ?case by (cases kv) (auto split: option.split)
qed simp

lemma deep_merge_keys:
  "fst ` set (deep_merge base patch) \<subseteq> fst ` set base \<union> (fst ` set patch - FORBIDDEN_KEYS)"
proof (induction patch arbitrary: base)
  case (Cons kv rest)
  obtain key v where kv: "kv = (key, v)" by (cases kv)
  have "\<exists>b. deep_merge base ((key, v) # rest) = deep_merge b rest
          \<and> fst ` set b \<subseteq> fst ` set base \<union> ({key} - FORBIDDEN_KEYS)"
  proof (cases "key \<in> FORBIDDEN_KEYS \<or> v = JUndef")
    case True
    then show ?thesis by (intro exI [of _ base]) auto
  next
    case False
    have upd: "fst ` set (obj_set key w base) \<subseteq> fst ` set base \<union> ({key} - FORBIDDEN_KEYS)" for w
      using False by (auto simp: keys_obj_set)
    show ?thesis
    proof (cases "v = JNull")
      case True
      with False show ?thesis by (intro exI [of _ "obj_del key base"]) (auto simp: keys_obj_del)
    next
      case not_null: False
      have "\<exists>w. deep_merge base ((key, v) # rest) = deep_merge (obj_set key w base) rest"
        using False not_null by (auto split: option.split)
      then obtain w where "deep_merge base ((key, v) # rest) = deep_merge (obj_set key w base) rest" ..
      with upd [of w] show ?thesis by blast
    qed
  qed
  then obtain b where eq: "deep_merge base ((key, v) # rest) = deep_merge b rest"
    and b: "fst ` set b \<subseteq> fst ` set base \<union> ({key} - FORBIDDEN_KEYS)" by blast
  have "fst ` set (deep_merge b rest) \<subseteq> fst ` set b \<union> (fst ` set rest - FORBIDDEN_KEYS)"
    by (rule Cons)
  with b have "fst ` set (deep_merge b rest)
      \<subseteq> fst ` set base \<union> (insert key (fst ` set rest) - FORBIDDEN_KEYS)" by blast
  then show ?case by (simp only: kv eq list.set image_insert fst_conv)
qed simp

section \<open>Applying the same patch again\<close>

text \<open>Distinct keys at every level an object literal is traversed at.\<close>

fun deep_wf :: "js \<Rightarrow> bool" where
  "deep_wf (JObj kvs) = (obj_wf kvs \<and> (\<forall>kv \<in> set kvs. deep_wf (snd kv)))"
| "deep_wf _ = True"

fun null_free :: "js \<Rightarrow> bool" where
  "null_free (JObj kvs) = (\<forall>kv \<in> set kvs. snd kv \<noteq> JNull \<and> null_free (snd kv))"
| "null_free _ = True"

lemma obj_set_same: "obj_get k ob = Some v \<Longrightarrow> obj_set k v ob = ob"
  by (induction k v ob rule: obj_set.induct) (auto split: if_splits)

lemma obj_del_absent: "obj_get k ob = None \<Longrightarrow> obj_del k ob = ob"
  by (force simp: obj_get_None_iff obj_del_def filter_id_conv)

lemma obj_get_in_set: "obj_get k ob = Some v \<Longrightarrow> (k, v) \<in> set ob"
  by (induction k ob rule: obj_get.induct) (auto split: if_splits)

lemma deep_merge_fixed:
  assumes "obj_wf p"
    and "\<And>k v. obj_get k p = Some v \<Longrightarrow> k \<notin> FORBIDDEN_KEYS \<Longrightarrow> merged (obj_get k ob) (Some v) = obj_get k ob"
  shows "deep_merge ob p = ob"
  using assms
proof (induction p)
  case (Cons kv rest)
  obtain key v where kv: "kv = (key, v)" by (cases kv)
  from Cons.prems(1) have wf: "obj_wf rest" and none: "obj_get key rest = None"
    by (auto simp: kv obj_get_None_iff)
  have "merged (obj_get k ob) (Some w) = obj_get k ob"
    if "obj_get k rest = Some w" "k \<notin> FORBIDDEN_KEYS" for k w
    using Cons.prems(2) [of k w] that none by (cases "k = key") (auto simp: kv)
  then have rest: "deep_merge ob rest = ob" by (rule Cons.IH [OF wf])
  have here: "key \<notin> FORBIDDEN_KEYS \<Longrightarrow> merged (obj_get key ob) (Some v) = obj_get key ob"
    using Cons.prems(2) [of key v] by (simp add: kv)
  show ?case
  proof (cases "obj_get key ob")
    case None
    with here rest show ?thesis
      by (auto simp: kv merged_def obj_del_absent split: if_splits)
  next
    case (Some old)
    with here rest show ?thesis
      by (auto simp: kv merged_def obj_set_same split: if_splits)
  qed
qed simp

lemma deep_wf_entry: "deep_wf (JObj q) \<Longrightarrow> obj_get k q = Some v \<Longrightarrow> deep_wf v"
  by (force dest: obj_get_in_set)

lemma null_free_entry: "null_free (JObj q) \<Longrightarrow> obj_get k q = Some v \<Longrightarrow> v \<noteq> JNull \<and> null_free v"
  by (force dest: obj_get_in_set)

lemma size_obj_entry: "obj_get k q = Some v \<Longrightarrow> size v < size (JObj q)"
  by (induction k q rule: obj_get.induct) (auto split: if_splits)

lemma deep_merge_self: "deep_wf (JObj q) \<Longrightarrow> null_free (JObj q) \<Longrightarrow> deep_merge q q = q"
proof (induction "size (JObj q)" arbitrary: q rule: less_induct)
  case less
  show ?case
  proof (rule deep_merge_fixed)
    show "obj_wf q" using less.prems by simp
    fix k v assume get: "obj_get k q = Some v"
    note nf = null_free_entry [OF less.prems(2) get] and wf = deep_wf_entry [OF less.prems(1) get]
    have "deep_merge q' q' = q'" if "v = JObj q'" for q'
      using less.hyps [of q'] size_obj_entry [OF get] nf wf that by simp
    with nf show "merged (obj_get k q) (Some v) = obj_get k q"
      by (cases v) (auto simp: merged_def get)
  qed
qed

lemma deep_merge_again:
  assumes "deep_wf (JObj p)" and "\<And>k v. obj_get k p = Some v \<Longrightarrow> null_free v"
  shows "deep_merge (deep_merge base p) p = deep_merge base p"
  using assms
proof (induction "size (JObj p)" arbitrary: p base rule: less_induct)
  case less
  have wf: "obj_wf p" using less.prems(1) by simp
  show ?case
  proof (rule deep_merge_fixed [OF wf])
    fix k v assume get: "obj_get k p = Some v" and k: "k \<notin> FORBIDDEN_KEYS"
    note nf = less.prems(2) [OF get] and dwf = deep_wf_entry [OF less.prems(1) get]
    have obj: "deep_merge (deep_merge ov q) q = deep_merge ov q \<and> deep_merge q q = q"
      if v: "v = JObj q" for ov q
    proof -
      have "null_free w" if "obj_get j q = Some w" for j w
        using null_free_entry [OF _ that] nf v by simp
      then show ?thesis
        using less.hyps [of q ov] size_obj_entry [OF get] nf dwf v by (simp add: deep_merge_self)
    qed
    have "merged (merged (obj_get k base) (Some v)) (Some v) = merged (obj_get k base) (Some v)"
    proof (cases v)
      case (JObj q)
      with obj [of q] show ?thesis
        by (cases "obj_get k base") (auto simp: merged_def)
    qed (auto simp: merged_def split: option.splits)
    then show "merged (obj_get k (deep_merge base p)) (Some v) = obj_get k (deep_merge base p)"
      by (simp add: deep_merge_get [OF wf] k get)
  qed
qed

section \<open>Properties\<close>

text \<open>
  A PATCH decides every attribute from the stored value and the sent value of that
  attribute alone: reserved keys are skipped, undefined keeps, null deletes, two object literals
  merge, and anything else replaces. The other keys of the record survive.
\<close>

theorem deep_merge_pointwise:
  assumes "obj_wf patch"
  shows "obj_get k (deep_merge base patch) =
    (if k \<in> {''__proto__'', ''constructor'', ''prototype''} then obj_get k base
     else case obj_get k patch of
         None \<Rightarrow> obj_get k base
       | Some JUndef \<Rightarrow> obj_get k base
       | Some JNull \<Rightarrow> None
       | Some (JObj p) \<Rightarrow>
           (case obj_get k base of
              Some (JObj b) \<Rightarrow> Some (JObj (deep_merge b p))
            | _ \<Rightarrow> Some (JObj p))
       | Some v \<Rightarrow> Some v)"
proof -
  have "merged old new =
    (case new of None \<Rightarrow> old | Some JUndef \<Rightarrow> old | Some JNull \<Rightarrow> None
       | Some (JObj p) \<Rightarrow>
           (case old of Some (JObj b) \<Rightarrow> Some (JObj (deep_merge b p)) | _ \<Rightarrow> Some (JObj p))
       | Some v \<Rightarrow> Some v)" for old new
    by (auto simp: merged_def split: option.split js.split)
  then show ?thesis
    using deep_merge_get [OF assms, of k base] by (simp add: FORBIDDEN_KEYS_def)
qed

theorem deep_merge_pointwise_witness:
  "obj_wf [(''lead'', JObj [(''status'', JStr ''won'')]), (''note'', JNull)]
   \<and> obj_get ''lead'' (deep_merge
        [(''lead'', JObj [(''name'', JStr ''Ada'')]), (''note'', JStr ''x'')]
        [(''lead'', JObj [(''status'', JStr ''won'')]), (''note'', JNull)])
     = Some (JObj [(''name'', JStr ''Ada''), (''status'', JStr ''won'')])"
proof -
  have wf: "obj_wf [(''lead'', JObj [(''status'', JStr ''won'')]), (''note'', JNull)]" by simp
  show ?thesis
    using wf deep_merge_pointwise [OF wf, of "''lead''"
        "[(''lead'', JObj [(''name'', JStr ''Ada'')]), (''note'', JStr ''x'')]"]
    by (simp add: FORBIDDEN_KEYS_def)
qed

text \<open>
  Sending the same patch twice is the same as sending it once, entry order included,
  as long as no null sits inside a nested object of the patch.
\<close>

theorem deep_merge_idempotent:
  assumes "deep_wf (JObj patch)" and "\<forall>kv \<in> set patch. null_free (snd kv)"
  shows "deep_merge (deep_merge base patch) patch = deep_merge base patch"
  using assms by (intro deep_merge_again) (auto dest!: obj_get_in_set)

theorem deep_merge_idempotent_witness:
  "deep_wf (JObj [(''a'', JNull), (''b'', JObj [(''c'', JBool True)])])
   \<and> deep_merge (deep_merge [(''a'', JStr ''x'')] [(''a'', JNull), (''b'', JObj [(''c'', JBool True)])])
       [(''a'', JNull), (''b'', JObj [(''c'', JBool True)])]
     = deep_merge [(''a'', JStr ''x'')] [(''a'', JNull), (''b'', JObj [(''c'', JBool True)])]"
  using deep_merge_idempotent [of "[(''a'', JNull), (''b'', JObj [(''c'', JBool True)])]"
      "[(''a'', JStr ''x'')]"]
  by simp

text \<open>
  Null deletes, and reserved keys are skipped, only below objects the record already
  has. A nested object that is new to the record is stored verbatim, with the nulls and the
  reserved keys inside it; a second send of the same patch then strips the null.
\<close>

theorem deep_merge_new_subtree_verbatim:
  "obj_get ''lead'' base = None \<or> (\<exists>s. obj_get ''lead'' base = Some (JStr s)) \<Longrightarrow>
   obj_get ''lead'' (deep_merge base [(''lead'', JObj [(''phone'', JNull), (''__proto__'', JObj [])])])
     = Some (JObj [(''phone'', JNull), (''__proto__'', JObj [])])
   \<and> obj_get ''lead'' (deep_merge (deep_merge base [(''lead'', JObj [(''phone'', JNull), (''__proto__'', JObj [])])])
        [(''lead'', JObj [(''phone'', JNull), (''__proto__'', JObj [])])])
     = Some (JObj [(''__proto__'', JObj [])])"
  by (auto simp: FORBIDDEN_KEYS_def obj_del_def)

theorem deep_merge_new_subtree_verbatim_witness:
  "obj_get ''lead'' [] = None
   \<and> obj_get ''lead'' (deep_merge [] [(''lead'', JObj [(''phone'', JNull), (''__proto__'', JObj [])])])
     = Some (JObj [(''phone'', JNull), (''__proto__'', JObj [])])"
  using deep_merge_new_subtree_verbatim [of "[]"] by simp

end
