(* ===== verification/Csv.thy ===== *)
theory Csv
  imports JsValue
begin

text \<open>
  \<^verbatim>\<open>src/common/csv.ts\<close>: RFC 4180 writing with formula-injection defusing. \<open>csvField\<close> and
  \<open>toCsv\<close> are the code; \<open>parse_csv\<close> is an RFC 4180 reader used to state that a document
  reads back as the texts that were written.
\<close>

datatype csv_error = RangeError

definition FORMULA_PREFIXES :: "char list" where
  "FORMULA_PREFIXES = [CHR ''='', CHR ''+'', CHR ''-'', CHR ''@'', CHR 0x09, CHR 0x0D]"

text \<open>\<open>toISOString\<close> raises \<open>RangeError\<close> on an invalid date.\<close>

fun field_text :: "js \<Rightarrow> csv_error + str" where
  "field_text (JDate (Some t)) = Inr (iso_string t)"
| "field_text (JDate None) = Inl RangeError"
| "field_text (JArr xs) = Inr (json_str (JArr xs))"
| "field_text (JObj kvs) = Inr (json_str (JObj kvs))"
| "field_text (JBool b) = Inr (if b then ''true'' else ''false'')"
| "field_text (JNum n) = Inr n"
| "field_text (JStr s) = Inr s"
| "field_text JNull = Inr []"
| "field_text JUndef = Inr []"

definition defuse :: "str \<Rightarrow> str" where
  "defuse s = (if s \<noteq> [] \<and> hd s \<in> set FORMULA_PREFIXES then CHR 0x27 # s else s)"

definition needs_quotes :: "str \<Rightarrow> bool" where
  "needs_quotes s \<longleftrightarrow> (\<exists>c \<in> set s. c \<in> {CHR 0x22, CHR '','', CHR 0x0A, CHR 0x0D})"

definition double_quotes :: "str \<Rightarrow> str" where
  "double_quotes s = concat (map (\<lambda>c. if c = CHR 0x22 then [CHR 0x22, CHR 0x22] else [c]) s)"

definition encode_field :: "str \<Rightarrow> str" where
  "encode_field s = (if needs_quotes s then [CHR 0x22] @ double_quotes s @ [CHR 0x22] else s)"

definition csvField :: "js \<Rightarrow> csv_error + str" where
  "csvField v =
     (if v = JNull \<or> v = JUndef then Inr []
      else and_then (field_text v) (\<lambda>s. Inr (encode_field (defuse s))))"

fun map_res :: "('a \<Rightarrow> 'e + 'b) \<Rightarrow> 'a list \<Rightarrow> 'e + 'b list" where
  "map_res f [] = Inr []"
| "map_res f (x # xs) = and_then (f x) (\<lambda>y. and_then (map_res f xs) (\<lambda>ys. Inr (y # ys)))"

definition csv_line :: "js list \<Rightarrow> csv_error + str" where
  "csv_line vs = and_then (map_res csvField vs) (\<lambda>fs. Inr (join '','' fs))"

definition crlf :: str where
  "crlf = [CHR 0x0D, CHR 0x0A]"

definition toCsv :: "str list \<Rightarrow> js list list \<Rightarrow> csv_error + str" where
  "toCsv headers rows =
     and_then (map_res csv_line (map JStr headers # rows)) (\<lambda>ls. Inr (join crlf ls))"

section \<open>Reading back\<close>

text \<open>
  A reader for RFC 4180: \<open>quoted\<close> reads the inside of a quoted field, \<open>plain\<close> an unquoted
  one; both return the field and what follows it. A record ends at CRLF.
\<close>

fun read_quoted :: "str \<Rightarrow> str \<times> str" where
  "read_quoted [] = ([], [])"
| "read_quoted (c # cs) =
     (if c = CHR 0x22
      then (case cs of
              d # ds \<Rightarrow> (if d = CHR 0x22 then (let (f, r) = read_quoted ds in (CHR 0x22 # f, r)) else ([], cs))
            | [] \<Rightarrow> ([], []))
      else (let (f, r) = read_quoted cs in (c # f, r)))"

fun read_plain :: "str \<Rightarrow> str \<times> str" where
  "read_plain [] = ([], [])"
| "read_plain (c # cs) =
     (if c = CHR '','' \<or> c = CHR 0x0D then ([], c # cs)
      else (let (f, r) = read_plain cs in (c # f, r)))"

definition read_field :: "str \<Rightarrow> str \<times> str" where
  "read_field s = (case s of c # cs \<Rightarrow> (if c = CHR 0x22 then read_quoted cs else read_plain s) | [] \<Rightarrow> ([], []))"

text \<open>The fuel is the number of fields read; the length of the document plus one is enough.\<close>

fun parse_records :: "nat \<Rightarrow> str \<Rightarrow> str list list" where
  "parse_records 0 s = []"
| "parse_records (Suc n) s =
     (case read_field s of
        (f, r) \<Rightarrow>
          (case r of
             [] \<Rightarrow> [[f]]
           | c # cs \<Rightarrow>
               (if c = CHR '','' then (case parse_records n cs of (fs # rs) \<Rightarrow> (f # fs) # rs | [] \<Rightarrow> [[f]])
                else [f] # parse_records n (drop 1 cs))))"

definition parse_csv :: "str \<Rightarrow> str list list" where
  "parse_csv s = parse_records (Suc (length s)) s"


lemma read_quoted_double:
  assumes "rest = [] \<or> hd rest \<noteq> CHR 0x22"
  shows "read_quoted (double_quotes s @ CHR 0x22 # rest) = (s, rest)"
  using assms
proof (induction s)
  case Nil
  then show ?case by (cases rest) (auto simp: double_quotes_def)
next
  case (Cons c s)
  then show ?case by (simp add: double_quotes_def)
qed

lemma read_plain_append:
  assumes "\<forall>c \<in> set s. c \<noteq> CHR '','' \<and> c \<noteq> CHR 0x0D"
    and "rest = [] \<or> hd rest \<in> {CHR '','', CHR 0x0D}"
  shows "read_plain (s @ rest) = (s, rest)"
  using assms
proof (induction s)
  case Nil
  then show ?case by (cases rest) auto
qed simp

lemma read_field_encode:
  assumes rest: "rest = [] \<or> hd rest \<in> {CHR '','', CHR 0x0D}"
  shows "read_field (encode_field s @ rest) = (s, rest)"
proof (cases "needs_quotes s")
  case True
  from rest have "rest = [] \<or> hd rest \<noteq> CHR 0x22" by auto
  with True show ?thesis
    by (simp add: encode_field_def read_field_def read_quoted_double)
next
  case False
  then have clean: "\<forall>c \<in> set s. c \<noteq> CHR 0x22 \<and> c \<noteq> CHR '','' \<and> c \<noteq> CHR 0x0D"
    by (auto simp: needs_quotes_def)
  have "read_plain (s @ rest) = (s, rest)"
    using clean rest by (intro read_plain_append) auto
  moreover have "read_field (s @ rest) = read_plain (s @ rest)"
  proof (cases s)
    case Nil
    with rest show ?thesis by (cases rest) (auto simp: read_field_def)
  next
    case (Cons c s')
    with clean show ?thesis by (simp add: read_field_def)
  qed
  ultimately show ?thesis using False by (simp add: encode_field_def)
qed

definition encode_line :: "str list \<Rightarrow> str" where
  "encode_line fs = join '','' (map encode_field fs)"

lemma encode_line_Cons:
  "fs \<noteq> [] \<Longrightarrow> encode_line (f # fs) = encode_field f @ CHR '','' # encode_line fs"
  by (cases fs) (auto simp: encode_line_def)

lemma parse_last_line:
  "fs \<noteq> [] \<Longrightarrow> length fs \<le> n \<Longrightarrow> parse_records n (encode_line fs) = [fs]"
proof (induction fs arbitrary: n rule: list_nonempty_induct)
  case (single f)
  then obtain m where "n = Suc m" by (cases n) auto
  then show ?case using read_field_encode [of "[]" f] by (simp add: encode_line_def)
next
  case (cons f fs)
  then obtain m where n: "n = Suc m" and "length fs \<le> m" by (cases n) auto
  with cons have "parse_records m (encode_line fs) = [fs]" by simp
  with n cons.hyps show ?case
    using read_field_encode [of "CHR '','' # encode_line fs" f] by (simp add: encode_line_Cons)
qed

lemma parse_inner_line:
  "fs \<noteq> [] \<Longrightarrow> length fs \<le> n \<Longrightarrow>
   parse_records n (encode_line fs @ crlf @ rest) = fs # parse_records (n - length fs) rest"
proof (induction fs arbitrary: n rule: list_nonempty_induct)
  case (single f)
  then obtain m where "n = Suc m" by (cases n) auto
  then show ?case
    using read_field_encode [of "crlf @ rest" f] by (simp add: encode_line_def crlf_def)
next
  case (cons f fs)
  then obtain m where n: "n = Suc m" and "length fs \<le> m" by (cases n) auto
  with cons have "parse_records m (encode_line fs @ crlf @ rest) = fs # parse_records (m - length fs) rest"
    by simp
  with n cons.hyps show ?case
    using read_field_encode [of "CHR '','' # encode_line fs @ crlf @ rest" f]
    by (simp add: encode_line_Cons)
qed

lemma parse_document:
  "ls \<noteq> [] \<Longrightarrow> \<forall>fs \<in> set ls. fs \<noteq> [] \<Longrightarrow> sum_list (map length ls) \<le> n \<Longrightarrow>
   parse_records n (join crlf (map encode_line ls)) = ls"
proof (induction ls arbitrary: n rule: list_nonempty_induct)
  case (single fs)
  then show ?case by (simp add: parse_last_line)
next
  case (cons fs ls)
  then have "join crlf (map encode_line (fs # ls)) = encode_line fs @ crlf @ join crlf (map encode_line ls)"
    by (cases ls) auto
  moreover have "parse_records (n - length fs) (join crlf (map encode_line ls)) = ls"
    using cons by (intro cons.IH) auto
  ultimately show ?case using cons.prems by (simp add: parse_inner_line)
qed

lemma length_encode_line: "fs \<noteq> [] \<Longrightarrow> length fs \<le> Suc (length (encode_line fs))"
proof (induction fs rule: list_nonempty_induct)
  case (cons f fs)
  then show ?case by (simp add: encode_line_Cons)
qed simp

lemma length_document:
  "ls \<noteq> [] \<Longrightarrow> \<forall>fs \<in> set ls. fs \<noteq> [] \<Longrightarrow>
   sum_list (map length ls) \<le> Suc (length (join crlf (map encode_line ls)))"
proof (induction ls rule: list_nonempty_induct)
  case (single fs)
  then show ?case by (simp add: length_encode_line)
next
  case (cons fs ls)
  have "length fs \<le> Suc (length (encode_line fs))"
    using cons.prems by (simp add: length_encode_line)
  moreover have "length (join crlf (map encode_line (fs # ls)))
      = length (encode_line fs) + 2 + length (join crlf (map encode_line ls))"
    using cons.hyps by (cases ls) (auto simp: crlf_def)
  ultimately show ?case using cons by simp
qed

lemma parse_csv_document:
  assumes "ls \<noteq> []" and "\<forall>fs \<in> set ls. fs \<noteq> []"
  shows "parse_csv (join crlf (map encode_line ls)) = ls"
  unfolding parse_csv_def by (rule parse_document) (use assms length_document in auto)

section \<open>What is written\<close>

text \<open>The text a reader should get back for one value.\<close>

definition cell_text :: "js \<Rightarrow> csv_error + str" where
  "cell_text v = and_then (field_text v) (\<lambda>s. Inr (defuse s))"

lemma csvField_cell: "csvField v = and_then (cell_text v) (\<lambda>s. Inr (encode_field s))"
  by (cases v rule: field_text.cases)
     (auto simp: csvField_def cell_text_def defuse_def encode_field_def needs_quotes_def)

lemma map_res_Inr_iff: "map_res f xs = Inr ys \<longleftrightarrow> list_all2 (\<lambda>x y. f x = Inr y) xs ys"
  by (induction xs arbitrary: ys) (auto simp: and_then_Inr_iff list_all2_Cons1)

lemma map_res_compose:
  assumes "\<And>x. f x = and_then (g x) (\<lambda>y. Inr (h y))" and "map_res g xs = Inr ys"
  shows "map_res f xs = Inr (map h ys)"
  using assms(2) by (induction xs arbitrary: ys) (auto simp: and_then_Inr_iff assms(1))

lemma csv_fields_cells:
  "map_res csvField vs = and_then (map_res cell_text vs) (\<lambda>fs. Inr (map encode_field fs))"
proof (induction vs)
  case (Cons v vs)
  then show ?case
    by (cases "cell_text v"; cases "map_res cell_text vs") (simp_all add: csvField_cell)
qed simp

lemma csv_line_cells: "csv_line vs = and_then (map_res cell_text vs) (\<lambda>fs. Inr (encode_line fs))"
  by (cases "map_res cell_text vs") (simp_all add: csv_line_def csv_fields_cells encode_line_def)

lemma defuse_safe: "defuse s \<noteq> [] \<Longrightarrow> hd (defuse s) \<notin> set FORMULA_PREFIXES"
  by (auto simp: defuse_def FORMULA_PREFIXES_def)

lemma map_res_mem: "map_res f xs = Inr ys \<Longrightarrow> y \<in> set ys \<Longrightarrow> \<exists>x \<in> set xs. f x = Inr y"
  by (induction xs arbitrary: ys) (auto simp: and_then_Inr_iff)

lemma csv_lines_cells:
  "map_res csv_line vss = Inr ls \<Longrightarrow>
   \<exists>cs. map_res (map_res cell_text) vss = Inr cs \<and> ls = map encode_line cs"
proof (induction vss arbitrary: ls)
  case (Cons vs vss)
  then obtain l ls' where l: "csv_line vs = Inr l" and ls': "map_res csv_line vss = Inr ls'"
    and ls: "ls = l # ls'" by (auto simp: and_then_Inr_iff)
  from Cons.IH [OF ls'] obtain cs where "map_res (map_res cell_text) vss = Inr cs"
    and "ls' = map encode_line cs" by blast
  moreover from l obtain c where "map_res cell_text vs = Inr c" and "l = encode_line c"
    by (auto simp: csv_line_cells and_then_Inr_iff)
  ultimately show ?case by (simp add: ls)
qed simp

lemma toCsv_cells:
  assumes doc: "toCsv headers rows = Inr doc"
    and ne: "headers \<noteq> []" "\<forall>r \<in> set rows. r \<noteq> []"
  shows "map_res (map_res cell_text) (map JStr headers # rows) = Inr (parse_csv doc)"
proof -
  let ?all = "map JStr headers # rows"
  from doc obtain ls where ls: "map_res csv_line ?all = Inr ls" and d: "doc = join crlf ls"
    by (auto simp: toCsv_def and_then_Inr_iff simp del: map_res.simps)
  from csv_lines_cells [OF ls] obtain cs where cs: "map_res (map_res cell_text) ?all = Inr cs"
    and enc: "ls = map encode_line cs" by blast
  have "cs \<noteq> []" using cs by (auto simp: and_then_Inr_iff)
  moreover have "\<forall>c \<in> set cs. c \<noteq> []"
  proof
    fix c assume "c \<in> set cs"
    from map_res_mem [OF cs this] obtain vs where "vs \<in> set ?all" and "map_res cell_text vs = Inr c"
      by blast
    moreover from this have "vs \<noteq> []" using ne by auto
    ultimately show "c \<noteq> []" by (auto simp: neq_Nil_conv and_then_Inr_iff)
  qed
  ultimately show ?thesis using cs d enc parse_csv_document by simp
qed

lemma cell_text_safe: "cell_text v = Inr t \<Longrightarrow> t \<noteq> [] \<Longrightarrow> hd t \<notin> set FORMULA_PREFIXES"
  by (auto simp: cell_text_def and_then_Inr_iff defuse_safe)

section \<open>Properties\<close>

text \<open>
  An exported document reads back, record by record and cell by cell, as the texts of
  the values that were written, whatever commas, quotes and line breaks they hold: no value
  shifts a column or a row.
\<close>

theorem csv_roundtrip:
  assumes "toCsv headers rows = Inr doc"
    and "headers \<noteq> []" and "\<forall>r \<in> set rows. r \<noteq> []"
  shows "map_res (map_res cell_text) (map JStr headers # rows) = Inr (parse_csv doc)"
  using assms by (rule toCsv_cells)

theorem csv_roundtrip_witness:
  "\<exists>doc. toCsv [''name'', ''note''] [[JStr ''Doe, Jane'', JStr [CHR 0x22, CHR 0x0D, CHR 0x0A]], [JNull, JNum ''3'']]
      = Inr doc
   \<and> parse_csv doc =
       [[''name'', ''note''], [''Doe, Jane'', [CHR 0x22, CHR 0x0D, CHR 0x0A]], [[], ''3'']]"
proof -
  let ?rows = "[[JStr ''Doe, Jane'', JStr [CHR 0x22, CHR 0x0D, CHR 0x0A]], [JNull, JNum ''3'']]"
  have "\<exists>doc. toCsv [''name'', ''note''] ?rows = Inr doc"
    by (simp add: toCsv_def csv_line_def csvField_def)
  then obtain doc where doc: "toCsv [''name'', ''note''] ?rows = Inr doc" ..
  have "map_res (map_res cell_text) (map JStr [''name'', ''note''] # ?rows) = Inr (parse_csv doc)"
    by (rule csv_roundtrip [OF doc]) auto
  then show ?thesis
    using doc by (simp add: cell_text_def defuse_def FORMULA_PREFIXES_def)
qed

text \<open>
  No cell of an exported document starts with a character a spreadsheet reads as the
  start of a formula, whatever the values are.
\<close>

theorem csv_no_formula:
  assumes "toCsv headers rows = Inr doc"
    and "headers \<noteq> []" and "\<forall>r \<in> set rows. r \<noteq> []"
    and "record \<in> set (parse_csv doc)" and "cell \<in> set record" and "cell \<noteq> []"
  shows "hd cell \<notin> {CHR ''='', CHR ''+'', CHR ''-'', CHR ''@'', CHR 0x09, CHR 0x0D}"
proof -
  from map_res_mem [OF toCsv_cells [OF assms(1-3)] assms(4)]
  obtain vs where "map_res cell_text vs = Inr record" by blast
  from map_res_mem [OF this assms(5)] obtain v where "cell_text v = Inr cell" by blast
  from cell_text_safe [OF this assms(6)] show ?thesis by (simp add: FORMULA_PREFIXES_def)
qed

theorem csv_no_formula_witness:
  "toCsv [''n''] [[JStr ''=HYPERLINK(1)'']] = Inr (''n'' @ crlf @ [CHR 0x27] @ ''=HYPERLINK(1)'')
   \<and> hd (CHR 0x27 # ''=HYPERLINK(1)'') \<notin> {CHR ''='', CHR ''+'', CHR ''-'', CHR ''@'', CHR 0x09, CHR 0x0D}"
proof -
  let ?doc = "''n'' @ crlf @ [CHR 0x27] @ ''=HYPERLINK(1)''"
  have doc: "toCsv [''n''] [[JStr ''=HYPERLINK(1)'']] = Inr ?doc"
    by (simp add: toCsv_def csv_line_def csvField_def defuse_def FORMULA_PREFIXES_def
        encode_field_def needs_quotes_def crlf_def)
  have "parse_csv ?doc = [[''n''], [CHR 0x27 # ''=HYPERLINK(1)'']]"
    by code_simp
  then have rec: "[CHR 0x27 # ''=HYPERLINK(1)''] \<in> set (parse_csv ?doc)" by simp
  show ?thesis
    using doc csv_no_formula [OF doc _ _ rec, of "CHR 0x27 # ''=HYPERLINK(1)''"] by simp
qed

end
