(* ===== verification/Tenancy.thy ===== *)
theory Tenancy
  imports Prelude
begin

text \<open>
  \<^verbatim>\<open>src/core/tenancy\<close>: the per-request tenant context (\<^verbatim>\<open>tenant-context.ts\<close>), the audited
  operator path (\<^verbatim>\<open>tenancy.service.ts\<close>) and the sweep that runs scheduled work tenant by
  tenant (\<^verbatim>\<open>tenant-bound-sweep.ts\<close>).

  The asynchronous local storage holds one store per unit of work, so a unit of work is a
  function of the store it runs under and of the world it changes.
\<close>

section \<open>Tenant context\<close>

datatype bypass_kind = SystemBypass | GodBypass

record bypass =
  bp_kind :: bypass_kind
  bp_reason :: str
  bp_actorId :: "str option"

record tenant_store =
  ts_tenantId :: "str option"
  ts_bypass :: "bypass option"

type_synonym als = "tenant_store option"

definition tc_run :: "tenant_store \<Rightarrow> (als \<Rightarrow> 'a) \<Rightarrow> als \<Rightarrow> 'a" where
  "tc_run store f ctx = f (Some store)"

definition getTenantId :: "als \<Rightarrow> str option" where
  "getTenantId ctx = (case ctx of None \<Rightarrow> None | Some s \<Rightarrow> ts_tenantId s)"

text \<open>The store is mutable: the new context is returned beside the success flag.\<close>

definition setTenantId :: "str option \<Rightarrow> als \<Rightarrow> bool \<times> als" where
  "setTenantId t ctx =
     (case ctx of None \<Rightarrow> (False, None) | Some s \<Rightarrow> (True, Some (s\<lparr>ts_tenantId := t\<rparr>)))"

definition getBypass :: "als \<Rightarrow> bypass option" where
  "getBypass ctx = (case ctx of None \<Rightarrow> None | Some s \<Rightarrow> ts_bypass s)"

definition isBypassed :: "als \<Rightarrow> bool" where
  "isBypassed ctx \<longleftrightarrow> getBypass ctx \<noteq> None"

definition spread_store :: "als \<Rightarrow> tenant_store" where
  "spread_store ctx =
     (case ctx of None \<Rightarrow> \<lparr>ts_tenantId = None, ts_bypass = None\<rparr> | Some s \<Rightarrow> s)"

definition runAsSystem :: "str \<Rightarrow> (als \<Rightarrow> 'a) \<Rightarrow> als \<Rightarrow> 'a" where
  "runAsSystem reason f ctx =
     f (Some ((spread_store ctx)\<lparr>ts_bypass :=
           Some \<lparr>bp_kind = SystemBypass, bp_reason = reason, bp_actorId = None\<rparr>\<rparr>))"

definition tc_runAsGod :: "str \<Rightarrow> str \<Rightarrow> (als \<Rightarrow> 'a) \<Rightarrow> als \<Rightarrow> 'a" where
  "tc_runAsGod actorId reason f ctx =
     f (Some ((spread_store ctx)\<lparr>ts_bypass :=
           Some \<lparr>bp_kind = GodBypass, bp_reason = reason, bp_actorId = Some actorId\<rparr>\<rparr>))"

text \<open>What the row-level security of the database lets a connection under this context see.\<close>

definition rls_visible :: "als \<Rightarrow> str \<Rightarrow> bool" where
  "rls_visible ctx tenant \<longleftrightarrow> isBypassed ctx \<or> getTenantId ctx = Some tenant"

section \<open>The audited operator path\<close>

datatype severity = SevInfo | SevWarning | SevCritical

record god_audit =
  ga_tenantId :: str
  ga_userId :: str
  ga_description :: str
  ga_severity :: severity
  ga_reason :: str

text \<open>
  \<open>logEvent\<close> is the audit service: given the context it is called under, it writes or raises.
  The entry is written first, under a system bypass; when it cannot be written the error is
  rethrown and the work is not run.
\<close>

definition runAsGod ::
  "(god_audit \<Rightarrow> als \<Rightarrow> 'w \<Rightarrow> ('e + unit) \<times> 'w) \<Rightarrow> str \<Rightarrow> str \<Rightarrow> str
   \<Rightarrow> (als \<Rightarrow> 'w \<Rightarrow> ('e + 'a) \<times> 'w) \<Rightarrow> als \<Rightarrow> 'w \<Rightarrow> ('e + 'a) \<times> 'w" where
  "runAsGod logEvent actorId targetTenantId reason f ctx w =
     (let entry = \<lparr>ga_tenantId = targetTenantId, ga_userId = actorId,
                   ga_description = ''Cross-tenant (god mode) access: '' @ reason,
                   ga_severity = SevCritical, ga_reason = reason\<rparr>
      in case runAsSystem ''write god-mode audit entry'' (logEvent entry) ctx w of
           (Inl e, w') \<Rightarrow> (Inl e, w')
         | (Inr _, w') \<Rightarrow> tc_runAsGod actorId reason f ctx w')"

section \<open>Tenant-bound sweeps\<close>

text \<open>
  What a unit of work throws: an \<open>Error\<close> with the name of its class, its own name, an
  optional \<open>code\<close> and its message, or some other value with its string form.
\<close>

datatype thrown =
    ThrownError (te_class: str) (te_name: str) (te_code: "str option") (te_message: str)
  | ThrownValue str

definition MAX_FAILURE_MESSAGE_LENGTH :: nat where
  "MAX_FAILURE_MESSAGE_LENGTH = 300"

fun summariseFailure :: "thrown \<Rightarrow> str" where
  "summariseFailure (ThrownValue s) = take MAX_FAILURE_MESSAGE_LENGTH s"
| "summariseFailure (ThrownError cls nm code msg) =
     (let name = (if cls \<noteq> [] then cls else if nm \<noteq> [] then nm else ''Error'');
          summary = (if truthy_str code then name @ '' ('' @ the code @ '')'' else name)
      in take MAX_FAILURE_MESSAGE_LENGTH summary)"

record sweep_failure =
  sf_tenantId :: str
  sf_itemId :: "str option"
  sf_message :: str

record sweep_scope =
  sw_eligible :: nat
  sw_scanned :: nat
  sw_itemsFound :: nat
  sw_itemsProcessed :: nat
  sw_failures :: "sweep_failure list"

text \<open>The store an item is processed under: its own tenant and no bypass, whatever the caller's is.\<close>

definition item_store :: "str \<Rightarrow> tenant_store" where
  "item_store t = \<lparr>ts_tenantId = Some t, ts_bypass = None\<rparr>"

text \<open>The loop over the items: tenants scanned, items processed, failures, and the world.\<close>

fun sweep_loop ::
  "('i \<Rightarrow> str) \<Rightarrow> ('i \<Rightarrow> str option) \<Rightarrow> ('i \<Rightarrow> als \<Rightarrow> 'w \<Rightarrow> (thrown + unit) \<times> 'w)
   \<Rightarrow> als \<Rightarrow> 'i list \<Rightarrow> str list \<times> nat \<times> sweep_failure list \<times> 'w
   \<Rightarrow> str list \<times> nat \<times> sweep_failure list \<times> 'w" where
  "sweep_loop tenantOf idOf body ctx [] acc = acc"
| "sweep_loop tenantOf idOf body ctx (i # is) (scanned, processed, failures, w) =
     (case tc_run (item_store (tenantOf i)) (body i) ctx w of
        (Inr _, w') \<Rightarrow>
          sweep_loop tenantOf idOf body ctx is (tenantOf i # scanned, Suc processed, failures, w')
      | (Inl e, w') \<Rightarrow>
          sweep_loop tenantOf idOf body ctx is
            (scanned, processed,
             failures @ [\<lparr>sf_tenantId = tenantOf i, sf_itemId = idOf i,
                          sf_message = summariseFailure e\<rparr>], w'))"

definition runTenantBoundSweep ::
  "('i \<Rightarrow> str) \<Rightarrow> ('i \<Rightarrow> str option) \<Rightarrow> str
   \<Rightarrow> (als \<Rightarrow> 'w \<Rightarrow> (thrown + 'i list) \<times> 'w)
   \<Rightarrow> ('i \<Rightarrow> als \<Rightarrow> 'w \<Rightarrow> (thrown + unit) \<times> 'w)
   \<Rightarrow> als \<Rightarrow> 'w \<Rightarrow> (thrown + sweep_scope) \<times> 'w" where
  "runTenantBoundSweep tenantOf idOf reason enum body ctx w =
     (case runAsSystem (reason @ '': enumerate'') enum ctx w of
        (Inl e, w') \<Rightarrow> (Inl e, w')
      | (Inr items, w') \<Rightarrow>
          (case sweep_loop tenantOf idOf body ctx items ([], 0, [], w') of
             (scanned, processed, failures, w'') \<Rightarrow>
               (Inr \<lparr>sw_eligible = card (set (map tenantOf items)),
                     sw_scanned = card (set scanned),
                     sw_itemsFound = length items,
                     sw_itemsProcessed = processed,
                     sw_failures = failures\<rparr>, w'')))"

lemma sweep_loop_counts:
  "sweep_loop tenantOf idOf body ctx is (scanned, processed, failures, w)
     = (scanned', processed', failures', w') \<Longrightarrow>
   processed' + length failures' = processed + length failures + length is
   \<and> set scanned' \<subseteq> set scanned \<union> tenantOf ` set is
   \<and> length scanned' + processed = length scanned + processed'"
proof (induction "is" arbitrary: scanned processed failures w)
  case (Cons i "is")
  show ?case
  proof (cases "tc_run (item_store (tenantOf i)) (body i) ctx w")
    case (Pair r w1)
    with Cons show ?thesis by (cases r) (fastforce simp: algebra_simps)+
  qed
qed auto

text \<open>The loop runs the body of an item under no store but the item's own.\<close>

lemma sweep_loop_own_store:
  assumes "\<And>i w. i \<in> set is \<Longrightarrow> body i (Some (item_store (tenantOf i))) w
                                = body' i (Some (item_store (tenantOf i))) w"
  shows "sweep_loop tenantOf idOf body ctx is acc = sweep_loop tenantOf idOf body' ctx' is acc"
  using assms
proof (induction "is" arbitrary: acc)
  case (Cons i "is")
  obtain scanned processed failures w where acc: "acc = (scanned, processed, failures, w)"
    by (cases acc)
  show ?case
    using Cons.prems [of i w] Cons.IH Cons.prems
    by (auto simp: acc tc_run_def split: prod.split sum.split)
qed simp

text \<open>Failure texts carry the class and the code of an error, never its message.\<close>

definition redact :: "thrown \<Rightarrow> thrown" where
  "redact e = (case e of ThrownError c n k m \<Rightarrow> ThrownError c n k [] | ThrownValue s \<Rightarrow> ThrownValue s)"

lemma summarise_redact: "summariseFailure (redact e) = summariseFailure e"
  by (cases e) (simp_all add: redact_def)

lemma length_summarise: "length (summariseFailure e) \<le> 300"
  by (cases e) (simp_all add: MAX_FAILURE_MESSAGE_LENGTH_def Let_def)

lemma sweep_loop_short:
  "sweep_loop tenantOf idOf body ctx is (s, p, f, w) = (s', p', f', w') \<Longrightarrow>
   \<forall>x \<in> set f. length (sf_message x) \<le> 300 \<Longrightarrow> \<forall>x \<in> set f'. length (sf_message x) \<le> 300"
proof (induction "is" arbitrary: s p f w)
  case (Cons i "is")
  obtain r w1 where r: "body i (Some (item_store (tenantOf i))) w = (r, w1)"
    by (cases "body i (Some (item_store (tenantOf i))) w")
  show ?case
  proof (cases r)
    case (Inl e)
    let ?f = "f @ [\<lparr>sf_tenantId = tenantOf i, sf_itemId = idOf i, sf_message = summariseFailure e\<rparr>]"
    have "sweep_loop tenantOf idOf body ctx is (s, p, ?f, w1) = (s', p', f', w')"
      using Cons.prems(1) r Inl by (simp add: tc_run_def)
    then show ?thesis by (rule Cons.IH) (use Cons.prems(2) length_summarise in auto)
  next
    case (Inr u)
    then have "sweep_loop tenantOf idOf body ctx is (tenantOf i # s, Suc p, f, w1) = (s', p', f', w')"
      using Cons.prems(1) r by (simp add: tc_run_def)
    then show ?thesis using Cons.prems(2) by (rule Cons.IH)
  qed
qed simp

section \<open>The interface of a sweep body\<close>

text \<open>
  What a scheduled job promises of the body it gives the sweep: run under an item's own
  store on an item that is in order, it keeps the invariant of the world, whether it returns or raises, and leaves
  the other items in order.
\<close>

locale sweep_items =
  fixes tenantOf :: "'i \<Rightarrow> str"
    and body :: "'i \<Rightarrow> als \<Rightarrow> 'w \<Rightarrow> (thrown + unit) \<times> 'w"
    and inv :: "'w \<Rightarrow> bool"
    and item_ok :: "'w \<Rightarrow> 'i \<Rightarrow> bool"
  assumes item_keeps: "inv w \<Longrightarrow> item_ok w i \<Longrightarrow> body i (Some (item_store (tenantOf i))) w = (r, w')
      \<Longrightarrow> inv w' \<and> (\<forall>j. item_ok w j \<longrightarrow> item_ok w' j)"
begin

lemma loop_keeps_items:
  "inv w \<Longrightarrow> \<forall>i \<in> set is. item_ok w i \<Longrightarrow>
   sweep_loop tenantOf idOf body ctx is (s, p, f, w) = (s', p', f', w') \<Longrightarrow> inv w'"
proof (induction "is" arbitrary: s p f w)
  case (Cons i "is")
  obtain r w1 where r: "body i (Some (item_store (tenantOf i))) w = (r, w1)"
    by (cases "body i (Some (item_store (tenantOf i))) w")
  have "inv w1 \<and> (\<forall>j. item_ok w j \<longrightarrow> item_ok w1 j)"
    by (rule item_keeps [OF Cons.prems(1) _ r]) (use Cons.prems(2) in simp)
  then have w1: "inv w1" "\<forall>i \<in> set is. item_ok w1 i" using Cons.prems(2) by simp_all
  show ?case
  proof (cases r)
    case (Inl e)
    with r Cons.prems(3) show ?thesis by (simp add: tc_run_def) (rule Cons.IH [OF w1])
  next
    case (Inr u)
    with r Cons.prems(3) show ?thesis by (simp add: tc_run_def) (rule Cons.IH [OF w1])
  qed
qed simp

lemma sweep_keeps_items:
  assumes "\<And>c w r w'. inv w \<Longrightarrow> enum c w = (r, w') \<Longrightarrow>
      inv w' \<and> (\<forall>is. r = Inr is \<longrightarrow> (\<forall>i \<in> set is. item_ok w' i))"
    and "inv w" and "runTenantBoundSweep tenantOf idOf reason enum body ctx w = (r, w')"
  shows "inv w'"
proof -
  obtain r0 w0 where enum: "runAsSystem (reason @ '': enumerate'') enum ctx w = (r0, w0)" by fastforce
  then have w0: "inv w0" "\<forall>is. r0 = Inr is \<longrightarrow> (\<forall>i \<in> set is. item_ok w0 i)"
    using assms(1) [OF assms(2)] by (auto simp: runAsSystem_def)
  show ?thesis
  proof (cases r0)
    case (Inr items)
    obtain s p f w1 where "sweep_loop tenantOf idOf body ctx items ([], 0, [], w0) = (s, p, f, w1)"
      by (metis prod_cases4)
    with loop_keeps_items [OF w0(1) _ this] w0(2) enum Inr assms(3) show ?thesis
      by (simp add: runTenantBoundSweep_def)
  qed (use enum w0 assms(3) in \<open>simp add: runTenantBoundSweep_def\<close>)
qed

end

text \<open>The same of a body that is safe on every item.\<close>

locale sweep_body =
  fixes tenantOf :: "'i \<Rightarrow> str"
    and body :: "'i \<Rightarrow> als \<Rightarrow> 'w \<Rightarrow> (thrown + unit) \<times> 'w"
    and inv :: "'w \<Rightarrow> bool"
  assumes body_keeps: "inv w \<Longrightarrow> body i (Some (item_store (tenantOf i))) w = (r, w') \<Longrightarrow> inv w'"

sublocale sweep_body \<subseteq> sweep_items tenantOf body inv "\<lambda>_ _. True"
  by unfold_locales (blast intro: body_keeps)

context sweep_body
begin

lemma loop_keeps:
  "inv w \<Longrightarrow> sweep_loop tenantOf idOf body ctx is (s, p, f, w) = (s', p', f', w') \<Longrightarrow> inv w'"
  by (rule loop_keeps_items) simp_all

lemma sweep_keeps:
  assumes "\<And>c w r w'. inv w \<Longrightarrow> enum c w = (r, w') \<Longrightarrow> inv w'"
    and "inv w" and "runTenantBoundSweep tenantOf idOf reason enum body ctx w = (r, w')"
  shows "inv w'"
  by (rule sweep_keeps_items [OF _ assms(2,3)]) (simp add: assms(1))

end

section \<open>Properties\<close>

text \<open>
  Every item a sweep found is accounted for exactly once, as processed or as a failure,
  and the tenants it reports as scanned are tenants it found work for; it reports zero scanned
  tenants exactly when no item succeeded.
\<close>

theorem sweep_accounts_for_every_item:
  assumes "runTenantBoundSweep tenantOf idOf reason enum body ctx w = (Inr scope, w')"
  shows "sw_itemsProcessed scope + length (sw_failures scope) = sw_itemsFound scope
       \<and> sw_scanned scope \<le> sw_eligible scope
       \<and> (sw_scanned scope = 0 \<longleftrightarrow> sw_itemsProcessed scope = 0)"
proof -
  obtain items w1 where items: "runAsSystem (reason @ '': enumerate'') enum ctx w = (Inr items, w1)"
    using assms by (auto simp: runTenantBoundSweep_def split: prod.splits sum.splits)
  obtain scanned processed failures w2
    where loop: "sweep_loop tenantOf idOf body ctx items ([], 0, [], w1) = (scanned, processed, failures, w2)"
    by (cases "sweep_loop tenantOf idOf body ctx items ([], 0, [], w1)")
  note counts = sweep_loop_counts [OF loop]
  have "card (set scanned) \<le> card (tenantOf ` set items)"
    using counts by (intro card_mono) auto
  moreover have "card (set scanned) = 0 \<longleftrightarrow> processed = 0"
    using counts by auto
  moreover have "scope = \<lparr>sw_eligible = card (tenantOf ` set items), sw_scanned = card (set scanned),
      sw_itemsFound = length items, sw_itemsProcessed = processed, sw_failures = failures\<rparr>"
    using assms items loop by (simp add: runTenantBoundSweep_def)
  ultimately show ?thesis using counts by simp
qed

theorem sweep_accounts_for_every_item_witness:
  "\<exists>scope w'. runTenantBoundSweep fst (\<lambda>i. Some (snd i)) ''r''
      (\<lambda>c w. (Inr [(''t1'', ''a''), (''t2'', ''b'')], w))
      (\<lambda>i c w. if fst i = ''t1'' then (Inr (), w + 1) else (Inl (ThrownValue ''x''), w))
      None (0::nat) = (Inr scope, w')
    \<and> sw_itemsProcessed scope = 1 \<and> length (sw_failures scope) = 1
    \<and> sw_itemsProcessed scope + length (sw_failures scope) = sw_itemsFound scope
    \<and> sw_scanned scope \<le> sw_eligible scope"
proof -
  let ?run = "runTenantBoundSweep fst (\<lambda>i. Some (snd i)) ''r''
      (\<lambda>c w. (Inr [(''t1'', ''a''), (''t2'', ''b'')], w))
      (\<lambda>i c w. if fst i = ''t1'' then (Inr (), w + 1) else (Inl (ThrownValue ''x''), w))
      None (0::nat)"
  obtain scope w' where run: "?run = (Inr scope, w')"
    and "sw_itemsProcessed scope = 1" "length (sw_failures scope) = 1"
    by (simp add: runTenantBoundSweep_def runAsSystem_def tc_run_def)
  with sweep_accounts_for_every_item [OF run] show ?thesis by blast
qed

text \<open>
  An item is processed under the store of its own tenant with no bypass, even when the
  sweep was started inside an operator's god context: two bodies that agree under those stores
  give the same outcome and the same world, from any two contexts that enumerate alike.
\<close>

theorem sweep_binds_items_to_their_tenant:
  assumes "\<And>i w. body i (Some \<lparr>ts_tenantId = Some (tenantOf i), ts_bypass = None\<rparr>) w
                  = body' i (Some \<lparr>ts_tenantId = Some (tenantOf i), ts_bypass = None\<rparr>) w"
    and "runAsSystem (reason @ '': enumerate'') enum ctx w
         = runAsSystem (reason @ '': enumerate'') enum ctx' w"
  shows "runTenantBoundSweep tenantOf idOf reason enum body ctx w
       = runTenantBoundSweep tenantOf idOf reason enum body' ctx' w"
proof -
  have "sweep_loop tenantOf idOf body ctx items acc = sweep_loop tenantOf idOf body' ctx' items acc"
    for items acc
    by (rule sweep_loop_own_store) (simp add: assms(1) item_store_def)
  then show ?thesis by (simp add: runTenantBoundSweep_def assms(2) split: prod.split sum.split)
qed

theorem sweep_binds_items_to_their_tenant_witness:
  "runTenantBoundSweep (\<lambda>i. i) (\<lambda>i. None) ''r'' (\<lambda>c w. (Inr [''t1''], w))
      (\<lambda>i c w. (Inr (), w @ [(getTenantId c, isBypassed c)]))
      (Some \<lparr>ts_tenantId = Some ''op'',
             ts_bypass = Some \<lparr>bp_kind = GodBypass, bp_reason = [], bp_actorId = Some ''u''\<rparr>\<rparr>) []
   = runTenantBoundSweep (\<lambda>i. i) (\<lambda>i. None) ''r'' (\<lambda>c w. (Inr [''t1''], w))
      (\<lambda>i c w. (Inr (), w @ [(Some i, False)])) None []"
  by (rule sweep_binds_items_to_their_tenant)
     (simp_all add: getTenantId_def isBypassed_def getBypass_def runAsSystem_def)

text \<open>
  What a sweep stores about a failure does not depend on the message of the error, which
  may interpolate tenant data, and is at most 300 characters long.
\<close>

theorem sweep_failures_redacted:
  "runTenantBoundSweep tenantOf idOf reason enum body ctx w
   = runTenantBoundSweep tenantOf idOf reason enum
       (\<lambda>i c w. case body i c w of (r, w') \<Rightarrow> (map_sum redact id r, w')) ctx w
   \<and> (\<forall>scope w'. runTenantBoundSweep tenantOf idOf reason enum body ctx w = (Inr scope, w') \<longrightarrow>
        (\<forall>f \<in> set (sw_failures scope). length (sf_message f) \<le> 300))"
proof -
  let ?body' = "\<lambda>i c w. case body i c w of (r, w') \<Rightarrow> (map_sum redact id r, w')"
  have same: "sweep_loop tenantOf idOf body ctx items acc = sweep_loop tenantOf idOf ?body' ctx items acc"
    for items acc
  proof (induction items arbitrary: acc)
    case (Cons i items)
    obtain s p f v where acc: "acc = (s, p, f, v)" by (cases acc)
    show ?case
      by (cases "body i (Some (item_store (tenantOf i))) v"; cases "fst (body i (Some (item_store (tenantOf i))) v)")
         (auto simp: acc tc_run_def Cons summarise_redact)
  qed simp
  have "\<forall>f \<in> set (sw_failures scope). length (sf_message f) \<le> 300"
    if run: "runTenantBoundSweep tenantOf idOf reason enum body ctx w = (Inr scope, w')" for scope w'
  proof -
    obtain items w1 s' p' f' w2 where "sweep_loop tenantOf idOf body ctx items ([], 0, [], w1) = (s', p', f', w2)"
      and "sw_failures scope = f'"
      using run by (auto simp: runTenantBoundSweep_def split: prod.splits sum.splits)
    then show ?thesis using sweep_loop_short by fastforce
  qed
  moreover have "runTenantBoundSweep tenantOf idOf reason enum body ctx w
      = runTenantBoundSweep tenantOf idOf reason enum ?body' ctx w"
  proof -
    have "sweep_loop tenantOf idOf ?body' ctx = sweep_loop tenantOf idOf body ctx"
      by (intro ext) (rule same [symmetric])
    then show ?thesis unfolding runTenantBoundSweep_def by (rule ssubst) (rule refl)
  qed
  ultimately show ?thesis by blast
qed

end
