(* ===== verification/Access.thy ===== *)
theory Access
  imports Tenancy
begin

text \<open>
  Who may see and grant what: the platform roles (\<^verbatim>\<open>src/iam/enums/platform-role.enum.ts\<close>),
  the reach of a caller inside a tenant (\<^verbatim>\<open>src/common/access.ts\<close>), and the two services that
  decide about CRM records (\<^verbatim>\<open>src/crm/crm-access.service.ts\<close>) and documents
  (\<^verbatim>\<open>src/documents/document-access.service.ts\<close>). A query narrowed by \<open>applyScope\<close> is modelled
  by the row filter its \<open>WHERE\<close> clause adds.
\<close>

section \<open>Roles\<close>

abbreviation PLATFORM_ADMIN :: str where "PLATFORM_ADMIN \<equiv> ''platform_admin''"
abbreviation FIRM_ADMIN :: str where "FIRM_ADMIN \<equiv> ''firm_admin''"
abbreviation STAFF :: str where "STAFF \<equiv> ''staff''"
abbreviation CLIENT :: str where "CLIENT \<equiv> ''client''"

definition ROLE_PRECEDENCE :: "str list" where
  "ROLE_PRECEDENCE = [PLATFORM_ADMIN, FIRM_ADMIN, STAFF, CLIENT]"

text \<open>\<open>Array.prototype.findIndex\<close>, with \<open>None\<close> for -1.\<close>

fun find_index :: "('a \<Rightarrow> bool) \<Rightarrow> 'a list \<Rightarrow> nat option" where
  "find_index P [] = None"
| "find_index P (x # xs) = (if P x then Some 0 else map_option Suc (find_index P xs))"

definition canGrantRole :: "str list \<Rightarrow> str \<Rightarrow> bool" where
  "canGrantRole actorRoles targetRole =
     (case find_index (\<lambda>r. r = targetRole) ROLE_PRECEDENCE of
        None \<Rightarrow> False
      | Some targetRank \<Rightarrow>
          (case find_index (\<lambda>r. r \<in> set actorRoles) ROLE_PRECEDENCE of
             None \<Rightarrow> False
           | Some actorRank \<Rightarrow> actorRank \<le> targetRank))"

definition resolvePrimaryRole :: "str list \<Rightarrow> str" where
  "resolvePrimaryRole roles =
     (case List.find (\<lambda>r. r \<in> set roles) ROLE_PRECEDENCE of Some r \<Rightarrow> r | None \<Rightarrow> STAFF)"

section \<open>Reach of a caller\<close>

record actor =
  ac_id :: str
  ac_roles :: "str list"
  ac_email :: "str option"

definition TENANT_STAFF_ROLES :: "str list" where
  "TENANT_STAFF_ROLES = [FIRM_ADMIN, STAFF]"

definition isGodContext :: "als \<Rightarrow> bool" where
  "isGodContext ctx = (case getBypass ctx of None \<Rightarrow> False | Some b \<Rightarrow> bp_kind b = GodBypass)"

definition isTenantStaff :: "str list \<Rightarrow> bool" where
  "isTenantStaff roles = (\<exists>r \<in> set roles. r \<in> set TENANT_STAFF_ROLES)"

definition isClientOnly :: "str list \<Rightarrow> bool" where
  "isClientOnly roles = (CLIENT \<in> set roles \<and> \<not> isTenantStaff roles)"

datatype access_scope = ScopeGod | ScopeTenant | ScopeOwn

definition scopeOf :: "als \<Rightarrow> actor \<Rightarrow> access_scope" where
  "scopeOf ctx a =
     (if isGodContext ctx then ScopeGod
      else if isTenantStaff (ac_roles a) then ScopeTenant else ScopeOwn)"

definition hasTenantWideReach :: "als \<Rightarrow> actor \<Rightarrow> bool" where
  "hasTenantWideReach ctx a = (isGodContext ctx \<or> isTenantStaff (ac_roles a))"

definition SYSTEM_ACTOR :: actor where
  "SYSTEM_ACTOR = \<lparr>ac_id = ''system'', ac_roles = [FIRM_ADMIN], ac_email = None\<rparr>"

section \<open>Records and people\<close>

text \<open>The columns of \<open>universal_entities\<close> and \<open>users\<close> the modelled services read.\<close>

datatype entity_type =
    Person | Organization | Case | Note | Tag | Asset | Obligation | Breach | Lead
  | KnowledgeArticle | TrainingModule | Vendor | ControlTest | RiskScenario | Milestone
  | TurnoverRecord | Rfi | ScreeningMatch | Sar | TradeInstrument

record entity =
  en_id :: str
  en_tenantId :: str
  en_type :: entity_type
  en_email :: "str option"
  en_firstName :: "str option"
  en_assignedTo :: "str option"
  en_subjectEmail :: "str option"

record user =
  us_id :: str
  us_tenantId :: str
  us_email :: str
  us_roles :: "str list option"

text \<open>\<open>x?.trim().toLowerCase()\<close> in JavaScript, and \<open>LOWER(TRIM(x))\<close> in SQL, which trims spaces only.\<close>

definition js_norm :: "str option \<Rightarrow> str option" where
  "js_norm x = map_option (\<lambda>s. to_lower (trim s)) x"

definition sql_trim :: "str \<Rightarrow> str" where
  "sql_trim s = rev (dropWhile (\<lambda>c. c = CHR '' '') (rev (dropWhile (\<lambda>c. c = CHR '' '') s)))"

definition sql_norm :: "str option \<Rightarrow> str option" where
  "sql_norm x = map_option (\<lambda>s. to_lower (sql_trim s)) x"

section \<open>The interface of an access decision\<close>

text \<open>
  Both services decide by reach first, then by ownership, and give ownership read access at
  least where they give it any. \<open>assert\<close> refuses with 404 what the caller may not read and with
  403 what the caller may read but not do.
\<close>

datatype access_error = NotFoundException | ForbiddenException

locale access_decision =
  fixes can :: "als \<Rightarrow> actor \<Rightarrow> 'act \<Rightarrow> 'r \<Rightarrow> bool"
    and reads :: 'act
    and check :: "als \<Rightarrow> actor \<Rightarrow> 'act \<Rightarrow> 'r \<Rightarrow> access_error + unit"
  assumes wide_reach: "hasTenantWideReach ctx a \<Longrightarrow> can ctx a act r"
    and read_widest: "can ctx a act r \<Longrightarrow> can ctx a reads r"
    and check_eq: "check ctx a act r =
      (if can ctx a act r then Inr () else if \<not> can ctx a reads r then Inl NotFoundException
       else Inl ForbiddenException)"
begin

lemma check_ok_iff: "check ctx a act r = Inr () \<longleftrightarrow> can ctx a act r"
  by (simp add: check_eq)

lemma check_not_found_iff: "check ctx a act r = Inl NotFoundException \<longleftrightarrow> \<not> can ctx a reads r"
  using read_widest by (auto simp: check_eq)

lemma check_forbidden_iff:
  "check ctx a act r = Inl ForbiddenException \<longleftrightarrow> can ctx a reads r \<and> \<not> can ctx a act r"
  by (auto simp: check_eq)

text \<open>A caller who cannot read a record gets the same answer whatever the action is.\<close>

lemma unreadable_uniform:
  "\<not> can ctx a reads r \<Longrightarrow> check ctx a act r = check ctx a act' r"
  by (simp add: check_not_found_iff [THEN iffD2])

lemma wide_never_refused: "hasTenantWideReach ctx a \<Longrightarrow> check ctx a act r = Inr ()"
  by (simp add: check_ok_iff wide_reach)

end

section \<open>CRM records\<close>

datatype crm_action = CrmRead | CrmWrite | CrmDelete

definition crm_ownsEntity :: "entity \<Rightarrow> actor \<Rightarrow> bool" where
  "crm_ownsEntity e a =
     (if truthy_str (en_assignedTo e) \<and> en_assignedTo e = Some (ac_id a) then True
      else (let actorEmail = js_norm (ac_email a); subject = js_norm (en_subjectEmail e)
            in truthy_str actorEmail \<and> truthy_str subject \<and> actorEmail = subject))"

definition crm_canAccess :: "als \<Rightarrow> actor \<Rightarrow> crm_action \<Rightarrow> entity \<Rightarrow> bool" where
  "crm_canAccess ctx a act e =
     (if hasTenantWideReach ctx a then True
      else if act \<noteq> CrmRead then False else crm_ownsEntity e a)"

definition crm_assert :: "als \<Rightarrow> actor \<Rightarrow> crm_action \<Rightarrow> entity \<Rightarrow> access_error + unit" where
  "crm_assert ctx a act e =
     (if crm_canAccess ctx a act e then Inr ()
      else if \<not> crm_canAccess ctx a CrmRead e then Inl NotFoundException
      else Inl ForbiddenException)"

definition crm_applyScope :: "als \<Rightarrow> actor \<Rightarrow> entity \<Rightarrow> bool" where
  "crm_applyScope ctx a e =
     (if hasTenantWideReach ctx a then True
      else (let actorEmail = js_norm (ac_email a)
            in if truthy_str actorEmail
               then en_assignedTo e = Some (ac_id a) \<or> sql_norm (en_subjectEmail e) = actorEmail
               else en_assignedTo e = Some (ac_id a)))"

definition mayReadInternalNotes :: "als \<Rightarrow> actor \<Rightarrow> bool" where
  "mayReadInternalNotes ctx a = hasTenantWideReach ctx a"

interpretation crm: access_decision crm_canAccess CrmRead crm_assert
  by unfold_locales (auto simp: crm_canAccess_def crm_assert_def split: if_splits)

section \<open>Documents\<close>

datatype document_action = DocRead | DocWrite | DocDelete | DocShare

record doc =
  dc_id :: str
  dc_tenantId :: str
  dc_uploadedById :: str
  dc_rbacOwner :: "str option"
  dc_linkedEntityId :: "str option"
  dc_createdAt :: instant

definition doc_ownedEntityIds :: "entity list \<Rightarrow> str \<Rightarrow> actor \<Rightarrow> str list" where
  "doc_ownedEntityIds entities tenantId a =
     (let email = js_norm (ac_email a)
      in map en_id
           (find_where (\<lambda>e. en_tenantId e = tenantId \<and>
              (if truthy_str email
               then en_assignedTo e = Some (ac_id a) \<or> sql_norm (en_subjectEmail e) = email
               else en_assignedTo e = Some (ac_id a))) entities))"

definition doc_assertOwnsEntity ::
  "entity list \<Rightarrow> als \<Rightarrow> str \<Rightarrow> str \<Rightarrow> actor \<Rightarrow> access_error + unit" where
  "doc_assertOwnsEntity entities ctx tenantId entityId a =
     (if hasTenantWideReach ctx a then Inr ()
      else if entityId \<notin> set (doc_ownedEntityIds entities tenantId a)
      then Inl NotFoundException else Inr ())"

definition doc_canAccess :: "entity list \<Rightarrow> als \<Rightarrow> actor \<Rightarrow> document_action \<Rightarrow> doc \<Rightarrow> bool" where
  "doc_canAccess entities ctx a act d =
     (if hasTenantWideReach ctx a then True
      else if dc_uploadedById d = ac_id a \<or> dc_rbacOwner d = Some (ac_id a) then True
      else if act \<noteq> DocRead then False
      else if \<not> truthy_str (dc_linkedEntityId d) then False
      else the (dc_linkedEntityId d) \<in> set (doc_ownedEntityIds entities (dc_tenantId d) a))"

definition doc_assert ::
  "entity list \<Rightarrow> als \<Rightarrow> actor \<Rightarrow> document_action \<Rightarrow> doc \<Rightarrow> access_error + unit" where
  "doc_assert entities ctx a act d =
     (if doc_canAccess entities ctx a act d then Inr ()
      else if \<not> doc_canAccess entities ctx a DocRead d then Inl NotFoundException
      else Inl ForbiddenException)"

definition doc_applyScope :: "entity list \<Rightarrow> als \<Rightarrow> str \<Rightarrow> actor \<Rightarrow> doc \<Rightarrow> bool" where
  "doc_applyScope entities ctx tenantId a d =
     (if hasTenantWideReach ctx a then True
      else (let owned = doc_ownedEntityIds entities tenantId a
            in if owned = [] then dc_uploadedById d = ac_id a
               else dc_uploadedById d = ac_id a \<or>
                    (case dc_linkedEntityId d of None \<Rightarrow> False | Some e \<Rightarrow> e \<in> set owned)))"

text \<open>The operator inventory: the documents of a tenant that exists, newest first.\<close>

definition doc_listMetadataForTenant ::
  "str list \<Rightarrow> doc list \<Rightarrow> str \<Rightarrow> access_error + doc list" where
  "doc_listMetadataForTenant tenants documents tenantId =
     (if tenantId \<notin> set tenants then Inl NotFoundException
      else Inr (sort_key (\<lambda>d. - dc_createdAt d) (find_where (\<lambda>d. dc_tenantId d = tenantId) documents)))"

interpretation documents: access_decision "doc_canAccess entities" DocRead "doc_assert entities"
  for entities
  by unfold_locales (auto simp: doc_canAccess_def doc_assert_def split: if_splits)

section \<open>Lemmas\<close>

lemma find_index_Some: "find_index P xs = Some i \<Longrightarrow> i < length xs \<and> P (xs ! i) \<and> (\<forall>j<i. \<not> P (xs ! j))"
proof (induction xs arbitrary: i)
  case (Cons x xs)
  show ?case
  proof (cases "P x")
    case False
    with Cons.prems obtain j where "find_index P xs = Some j" and "i = Suc j" by auto
    with Cons.IH [of j] False show ?thesis by (auto simp: nth_Cons split: nat.split)
  qed (use Cons.prems in auto)
qed simp

lemma find_index_None: "find_index P xs = None \<longleftrightarrow> (\<forall>x \<in> set xs. \<not> P x)"
  by (induction xs) auto

text \<open>How privileged a list of roles is: the position of its best known role.\<close>

definition best_rank :: "str list \<Rightarrow> nat option" where
  "best_rank roles = find_index (\<lambda>r. r \<in> set roles) ROLE_PRECEDENCE"

lemma best_rank_single: "best_rank [t] = find_index (\<lambda>r. r = t) ROLE_PRECEDENCE"
  by (simp add: best_rank_def)

lemma canGrantRole_ranks:
  "canGrantRole rs t \<longleftrightarrow> (\<exists>i j. best_rank rs = Some i \<and> best_rank [t] = Some j \<and> i \<le> j)"
  by (auto simp: canGrantRole_def best_rank_def split: option.splits)

lemma best_rank_primary:
  "best_rank rs \<noteq> None \<Longrightarrow> best_rank [resolvePrimaryRole rs] = best_rank rs"
  by (cases "PLATFORM_ADMIN \<in> set rs"; cases "FIRM_ADMIN \<in> set rs"; cases "STAFF \<in> set rs";
      cases "CLIENT \<in> set rs")
     (simp_all add: best_rank_def resolvePrimaryRole_def ROLE_PRECEDENCE_def)

text \<open>
  A run of grants: someone who may grant a role replaces a user's roles by it, as inviting a
  user and changing a user's role do.
\<close>

inductive grant_step :: "(nat \<Rightarrow> str list) \<Rightarrow> (nat \<Rightarrow> str list) \<Rightarrow> bool" where
  grant: "canGrantRole (roles granter) t \<Longrightarrow> grant_step roles (roles(target := [t]))"

inductive_cases grant_stepE: "grant_step roles roles'"

lemma grant_step_rank:
  "grant_step roles roles' \<Longrightarrow> best_rank (roles' u) = Some k \<Longrightarrow>
   \<exists>v i. best_rank (roles v) = Some i \<and> i \<le> k"
  by (erule grant_stepE) (auto simp: canGrantRole_ranks split: if_splits)

lemma grants_rank:
  "grant_step\<^sup>*\<^sup>* roles roles' \<Longrightarrow> best_rank (roles' u) = Some k \<Longrightarrow>
   \<exists>v i. best_rank (roles v) = Some i \<and> i \<le> k"
proof (induction arbitrary: u k rule: rtranclp_induct)
  case (step y z)
  from grant_step_rank [OF step.hyps(2) step.prems] obtain v i
    where "best_rank (y v) = Some i" and "i \<le> k" by blast
  with step.IH show ?case by (meson order_trans)
qed auto

lemma best_rank_0: "best_rank roles = Some 0 \<longleftrightarrow> PLATFORM_ADMIN \<in> set roles"
  by (auto simp: best_rank_def ROLE_PRECEDENCE_def)

section \<open>Properties\<close>

text \<open>
  Claim C33: no sequence of role grants creates a platform administrator in a population that has
  none: whoever holds the role after any run of grants, someone held it before.
\<close>

theorem no_platform_admin_by_grants:
  assumes "grant_step\<^sup>*\<^sup>* roles roles'" and "PLATFORM_ADMIN \<in> set (roles' u)"
  shows "\<exists>v. PLATFORM_ADMIN \<in> set (roles v)"
proof -
  from assms(2) have "best_rank (roles' u) = Some 0" by (simp add: best_rank_0)
  from grants_rank [OF assms(1) this] show ?thesis by (auto simp: best_rank_0)
qed

theorem no_platform_admin_by_grants_witness:
  "\<exists>roles roles' :: nat \<Rightarrow> str list. grant_step\<^sup>*\<^sup>* roles roles' \<and> roles \<noteq> roles'
     \<and> PLATFORM_ADMIN \<in> set (roles' 1) \<and> (\<exists>v. PLATFORM_ADMIN \<in> set (roles v))"
proof -
  define roles where "roles = (\<lambda>n::nat. if n = 0 then [PLATFORM_ADMIN] else [CLIENT])"
  define roles' where "roles' = roles(1 := [PLATFORM_ADMIN])"
  have "grant_step roles roles'"
    unfolding roles'_def
    by (rule grant_step.grant [where granter = 0])
       (simp add: roles_def canGrantRole_def ROLE_PRECEDENCE_def)
  then have run: "grant_step\<^sup>*\<^sup>* roles roles'" by blast
  moreover have "PLATFORM_ADMIN \<in> set (roles' 1)" by (simp add: roles'_def)
  moreover have "roles 1 \<noteq> roles' 1" by (simp add: roles_def roles'_def)
  then have "roles \<noteq> roles'" by metis
  ultimately show ?thesis using no_platform_admin_by_grants [OF run, of 1] by blast
qed

text \<open>
  A caller may grant exactly the known roles that are not above their own primary role;
  a caller without a known role may grant nothing, and an unknown role can never be granted.
\<close>

theorem canGrantRole_iff_primary:
  "canGrantRole actorRoles target \<longleftrightarrow>
     target \<in> set ROLE_PRECEDENCE
     \<and> (\<exists>r \<in> set ROLE_PRECEDENCE. r \<in> set actorRoles)
     \<and> target \<in> set (dropWhile (\<lambda>r. r \<noteq> resolvePrimaryRole actorRoles) ROLE_PRECEDENCE)"
proof (cases "best_rank actorRoles")
  case None
  then have "\<not> (\<exists>r \<in> set ROLE_PRECEDENCE. r \<in> set actorRoles)"
    by (simp add: best_rank_def find_index_None)
  with None show ?thesis unfolding canGrantRole_ranks by auto
next
  case (Some i)
  define p where "p = resolvePrimaryRole actorRoles"
  have rank: "best_rank [p] = Some i"
    using best_rank_primary [of actorRoles] Some by (simp add: p_def)
  have known: "\<exists>r \<in> set ROLE_PRECEDENCE. r \<in> set actorRoles"
    using Some find_index_None [of "\<lambda>r. r \<in> set actorRoles" ROLE_PRECEDENCE]
    by (auto simp: best_rank_def)
  have "p \<in> set ROLE_PRECEDENCE"
    using rank find_index_None [of "\<lambda>r. r = p" ROLE_PRECEDENCE] by (auto simp: best_rank_single)
  then have "(\<exists>j. best_rank [target] = Some j \<and> i \<le> j) \<longleftrightarrow>
      target \<in> set ROLE_PRECEDENCE \<and> target \<in> set (dropWhile (\<lambda>r. r \<noteq> p) ROLE_PRECEDENCE)"
    using rank by (auto simp: best_rank_single ROLE_PRECEDENCE_def split: if_splits)
  then show ?thesis using Some known by (auto simp: canGrantRole_ranks p_def)
qed

text \<open>
  A user who holds only unknown roles is given the primary role of staff, which is not
  the least privileged role: it ranks above client.
\<close>

theorem unknown_roles_resolve_to_staff:
  "resolvePrimaryRole [''support''] = STAFF
   \<and> canGrantRole [STAFF] CLIENT \<and> \<not> canGrantRole [CLIENT] STAFF
   \<and> isTenantStaff [resolvePrimaryRole [''support'']] \<and> \<not> isTenantStaff [''support'']"
  by (simp add: resolvePrimaryRole_def canGrantRole_def ROLE_PRECEDENCE_def isTenantStaff_def
      TENANT_STAFF_ROLES_def)

text \<open>
  Tenant-wide reach is exactly a scope other than \<open>own\<close>, and a caller confined to their
  own records is neither in a god context nor staff, whatever other roles they hold; a bare
  platform administrator is confined.
\<close>

theorem wide_reach_iff_scope:
  "(hasTenantWideReach ctx a \<longleftrightarrow> scopeOf ctx a \<noteq> ScopeOwn)
   \<and> (scopeOf ctx a = ScopeOwn \<longleftrightarrow>
        (\<forall>b. getBypass ctx = Some b \<longrightarrow> bp_kind b \<noteq> GodBypass)
        \<and> FIRM_ADMIN \<notin> set (ac_roles a) \<and> STAFF \<notin> set (ac_roles a))
   \<and> (scopeOf None \<lparr>ac_id = i, ac_roles = [PLATFORM_ADMIN], ac_email = m\<rparr> = ScopeOwn)"
  by (auto simp: hasTenantWideReach_def scopeOf_def isGodContext_def isTenantStaff_def
      TENANT_STAFF_ROLES_def getBypass_def split: option.splits)

text \<open>
  Operator work runs only after its audit entry was written, at critical severity and for
  the target tenant, and it then runs in a god context; if the entry cannot be written, the work
  is not run and the error is returned.
\<close>

theorem god_work_audited_first:
  "\<exists>entry sys r w'. ga_tenantId entry = tenant \<and> ga_userId entry = actorId \<and> ga_reason entry = reason
     \<and> ga_severity entry = SevCritical \<and> isBypassed sys \<and> \<not> isGodContext sys
     \<and> logEvent entry sys w = (r, w')
     \<and> (case r of
          Inl e \<Rightarrow> runAsGod logEvent actorId tenant reason work ctx w = (Inl e, w')
        | Inr _ \<Rightarrow> (\<exists>god. isGodContext god \<and> getTenantId god = getTenantId ctx
            \<and> map_option bp_actorId (getBypass god) = Some (Some actorId)
            \<and> runAsGod logEvent actorId tenant reason work ctx w = work god w'))"
proof -
  define entry where "entry = \<lparr>ga_tenantId = tenant, ga_userId = actorId,
      ga_description = ''Cross-tenant (god mode) access: '' @ reason,
      ga_severity = SevCritical, ga_reason = reason\<rparr>"
  define sys where "sys = Some ((spread_store ctx)\<lparr>ts_bypass := Some \<lparr>bp_kind = SystemBypass,
      bp_reason = ''write god-mode audit entry'', bp_actorId = None\<rparr>\<rparr>)"
  define god where "god = Some ((spread_store ctx)\<lparr>ts_bypass := Some \<lparr>bp_kind = GodBypass,
      bp_reason = reason, bp_actorId = Some actorId\<rparr>\<rparr>)"
  obtain r w' where log: "logEvent entry sys w = (r, w')" by (cases "logEvent entry sys w")
  have god: "isGodContext god" "getTenantId god = getTenantId ctx"
      "map_option bp_actorId (getBypass god) = Some (Some actorId)"
    by (auto simp: god_def isGodContext_def getBypass_def getTenantId_def spread_store_def split: option.split)
  have sys: "isBypassed sys" "\<not> isGodContext sys"
    by (simp_all add: sys_def isBypassed_def isGodContext_def getBypass_def)
  have entry: "ga_tenantId entry = tenant" "ga_userId entry = actorId" "ga_reason entry = reason"
      "ga_severity entry = SevCritical"
    by (simp_all add: entry_def)
  have run: "runAsGod logEvent actorId tenant reason work ctx w
      = (case r of Inl e \<Rightarrow> (Inl e, w') | Inr _ \<Rightarrow> work god w')"
    using log unfolding entry_def sys_def god_def
    by (cases r) (simp_all add: runAsGod_def runAsSystem_def tc_runAsGod_def)
  have "case r of
          Inl e \<Rightarrow> runAsGod logEvent actorId tenant reason work ctx w = (Inl e, w')
        | Inr _ \<Rightarrow> (\<exists>god. isGodContext god \<and> getTenantId god = getTenantId ctx
            \<and> map_option bp_actorId (getBypass god) = Some (Some actorId)
            \<and> runAsGod logEvent actorId tenant reason work ctx w = work god w')"
  proof (cases r)
    case (Inr u)
    with run have "runAsGod logEvent actorId tenant reason work ctx w = work god w'" by simp
    with Inr god show ?thesis by (simp only: sum.case) blast
  qed (simp add: run)
  with entry sys log show ?thesis by blast
qed

text \<open>
  Access to a CRM record is refused with 404 exactly when the caller may not read it, so
  the answer does not tell a record of somebody else from one that does not exist, and with 403
  exactly when they may read it but not do what they asked; a client may change nothing.
\<close>

theorem crm_refusals:
  "(crm_assert ctx a act e = Inl NotFoundException \<longleftrightarrow> \<not> crm_canAccess ctx a CrmRead e)
   \<and> (crm_assert ctx a act e = Inl ForbiddenException \<longleftrightarrow>
        crm_canAccess ctx a CrmRead e \<and> act \<noteq> CrmRead \<and> \<not> hasTenantWideReach ctx a)
   \<and> (crm_assert ctx a act e = Inr () \<longleftrightarrow>
        hasTenantWideReach ctx a \<or> act = CrmRead \<and> crm_ownsEntity e a)"
  using crm.check_not_found_iff [of ctx a act e] crm.check_forbidden_iff [of ctx a act e]
    crm.check_ok_iff [of ctx a act e]
  by (auto simp: crm_canAccess_def)

text \<open>
  The CRM list shows a caller exactly the records they may read one by one, for records
  whose subject e-mail has no tab or line break at its ends (SQL trims spaces only) and callers
  with a non-empty id.
\<close>

theorem crm_list_matches_read:
  assumes "ac_id a \<noteq> []" and "sql_norm (en_subjectEmail e) = js_norm (en_subjectEmail e)"
  shows "crm_applyScope ctx a e \<longleftrightarrow> crm_canAccess ctx a CrmRead e"
  using assms
  by (auto simp: crm_applyScope_def crm_canAccess_def crm_ownsEntity_def Let_def truthy_str_iff)

theorem crm_list_matches_read_witness:
  "\<exists>e a. crm_applyScope None a e \<and> crm_canAccess None a CrmRead e
     \<and> (crm_applyScope None a e \<longleftrightarrow> crm_canAccess None a CrmRead e)"
proof -
  let ?e = "\<lparr>en_id = ''e1'', en_tenantId = ''t1'', en_type = Case, en_email = None, en_firstName = None,
             en_assignedTo = Some ''staff1'', en_subjectEmail = Some '' Ada@X.org ''\<rparr>"
  let ?a = "\<lparr>ac_id = ''u1'', ac_roles = [CLIENT], ac_email = Some ''ada@x.org''\<rparr>"
  have norm: "sql_norm (en_subjectEmail ?e) = js_norm (en_subjectEmail ?e)" by code_simp
  have "crm_applyScope None ?a ?e" by code_simp
  moreover have "crm_applyScope None ?a ?e \<longleftrightarrow> crm_canAccess None ?a CrmRead ?e"
    by (rule crm_list_matches_read) (simp, rule norm)
  ultimately show ?thesis by blast
qed

text \<open>
  The document list never shows a caller a document they may not read one by one; it
  misses exactly the readable documents that were handed to them through \<open>rbac.owner\<close> without
  being uploaded by them or linked to a record of theirs.
\<close>

theorem doc_list_within_read:
  assumes "\<forall>e \<in> set entities. en_id e \<noteq> []"
  shows "doc_canAccess entities ctx a DocRead d \<longleftrightarrow>
     doc_applyScope entities ctx (dc_tenantId d) a d \<or> dc_rbacOwner d = Some (ac_id a)"
proof -
  have "[] \<notin> set (doc_ownedEntityIds entities (dc_tenantId d) a)"
    using assms by (auto simp: doc_ownedEntityIds_def find_where_def Let_def)
  then show ?thesis
    by (cases "dc_linkedEntityId d")
       (auto simp: doc_canAccess_def doc_applyScope_def Let_def)
qed

theorem doc_list_within_read_witness:
  "doc_canAccess [] None \<lparr>ac_id = ''u1'', ac_roles = [CLIENT], ac_email = None\<rparr> DocRead
      \<lparr>dc_id = ''d'', dc_tenantId = ''t'', dc_uploadedById = ''u2'', dc_rbacOwner = Some ''u1'',
       dc_linkedEntityId = None, dc_createdAt = 0\<rparr>
   \<and> \<not> doc_applyScope [] None ''t'' \<lparr>ac_id = ''u1'', ac_roles = [CLIENT], ac_email = None\<rparr>
      \<lparr>dc_id = ''d'', dc_tenantId = ''t'', dc_uploadedById = ''u2'', dc_rbacOwner = Some ''u1'',
       dc_linkedEntityId = None, dc_createdAt = 0\<rparr>"
proof -
  let ?a = "\<lparr>ac_id = ''u1'', ac_roles = [CLIENT], ac_email = None\<rparr>"
  let ?d = "\<lparr>dc_id = ''d'', dc_tenantId = ''t'', dc_uploadedById = ''u2'', dc_rbacOwner = Some ''u1'',
       dc_linkedEntityId = None, dc_createdAt = 0\<rparr>"
  have "\<not> doc_applyScope [] None ''t'' ?a ?d" by code_simp
  then show ?thesis using doc_list_within_read [of "[]" None ?a ?d] by simp
qed

end
