(* ===== verification/Guards.thy ===== *)
theory Guards
  imports Access
begin

text \<open>
  The two request guards that decide after authentication: \<^verbatim>\<open>src/iam/guards/policy.guard.ts\<close>
  (roles, then the policy of the tenant's vertical, \<^verbatim>\<open>src/core/verticals/vertical-policy.service.ts\<close>)
  and \<^verbatim>\<open>src/iam/entitlements/module-entitlement.guard.ts\<close> (the modules of the tenant's plan).
  Both keep an in-process cache with a time to live, which is part of their state here.
\<close>

section \<open>Caches with a time to live\<close>

text \<open>
  An entry is a value and the instant it expires at. \<open>coherent\<close> says that every entry holds
  what the source holds now.
\<close>

type_synonym ('k, 'v) ttl_cache = "'k \<Rightarrow> ('v \<times> instant) option"

definition coherent :: "('k \<Rightarrow> 'v) \<Rightarrow> ('k, 'v) ttl_cache \<Rightarrow> bool" where
  "coherent source cache \<longleftrightarrow> (\<forall>k v e. cache k = Some (v, e) \<longrightarrow> source k = v)"

text \<open>
  The interface of a cached lookup: over a coherent cache it answers what the source holds and
  leaves a coherent cache.
\<close>

locale cached_source =
  fixes lookup :: "instant \<Rightarrow> ('k, 'v) ttl_cache \<Rightarrow> 'k \<Rightarrow> 'a \<times> ('k, 'v) ttl_cache"
    and source :: "'k \<Rightarrow> 'v"
    and answer :: "'k \<Rightarrow> 'a"
  assumes lookup_answer: "coherent source c \<Longrightarrow> fst (lookup now c k) = answer k"
    and lookup_coherent: "coherent source c \<Longrightarrow> coherent source (snd (lookup now c k))"
begin

fun lookups :: "(instant \<times> 'k) list \<Rightarrow> ('k, 'v) ttl_cache \<Rightarrow> 'a list" where
  "lookups [] c = []"
| "lookups ((now, k) # qs) c = (case lookup now c k of (a, c') \<Rightarrow> a # lookups qs c')"

lemma lookups_transparent: "coherent source c \<Longrightarrow> lookups qs c = map (answer \<circ> snd) qs"
proof (induction qs arbitrary: c)
  case (Cons q qs)
  obtain now k where q: "q = (now, k)" by (cases q)
  show ?case
    using lookup_answer [OF Cons.prems, of now k] lookup_coherent [OF Cons.prems, of now k] Cons.IH
    by (cases "lookup now c k") (simp add: q)
qed simp

end

section \<open>Policy guard\<close>

datatype vertical = Immigration | Grc | Labour | Fintech | Legal

record policy_rules =
  pr_mfaRequired :: bool
  pr_ipWhitelist :: "str list option"
  pr_businessHours :: "(int \<times> int) option"
  pr_dataRetentionDays :: int

definition shipped_rules :: "bool \<Rightarrow> int \<Rightarrow> policy_rules" where
  "shipped_rules mfa retention =
     \<lparr>pr_mfaRequired = mfa, pr_ipWhitelist = Some [], pr_businessHours = Some (0, 24),
      pr_dataRetentionDays = retention\<rparr>"

fun verticalConfigs :: "vertical \<Rightarrow> policy_rules" where
  "verticalConfigs Grc = shipped_rules True 2555"
| "verticalConfigs Immigration = shipped_rules False 3650"
| "verticalConfigs Labour = shipped_rules True 1825"
| "verticalConfigs Fintech = shipped_rules True 2555"
| "verticalConfigs Legal = shipped_rules False 3650"

text \<open>The cache manager of the policy service is a map; a policy is stored on its first use.\<close>

definition getPolicy ::
  "(vertical \<Rightarrow> policy_rules option) \<Rightarrow> vertical \<Rightarrow> policy_rules \<times> (vertical \<Rightarrow> policy_rules option)" where
  "getPolicy cache v =
     (case cache v of
        Some p \<Rightarrow> (p, cache)
      | None \<Rightarrow> (verticalConfigs v, cache(v := Some (verticalConfigs v))))"

record guard_user =
  gu_roles :: "str list"
  gu_tenantVertical :: "vertical option"
  gu_tenantId :: "str option"

datatype guard_error =
    Unauthorized
  | InsufficientRole
  | IpNotWhitelisted str
  | OutsideBusinessHours int int

definition VERTICAL_CACHE_TTL_MS :: int where
  "VERTICAL_CACHE_TTL_MS = 5 * 60000"

text \<open>\<open>tenants\<close> is the \<open>vertical\<close> column by tenant id; a missing row has no vertical and is not cached.\<close>

definition cached_vertical ::
  "(str \<Rightarrow> vertical option) \<Rightarrow> instant \<Rightarrow> (str, vertical option) ttl_cache \<Rightarrow> str
   \<Rightarrow> vertical option \<times> (str, vertical option) ttl_cache" where
  "cached_vertical tenants now cache tenantId =
     (case cache tenantId of
        Some (v, expires) \<Rightarrow>
          (if expires > now then (v, cache)
           else (case tenants tenantId of
                   None \<Rightarrow> (None, cache)
                 | Some v' \<Rightarrow> (Some v', cache(tenantId := Some (Some v', now + VERTICAL_CACHE_TTL_MS)))))
      | None \<Rightarrow>
          (case tenants tenantId of
             None \<Rightarrow> (None, cache)
           | Some v' \<Rightarrow> (Some v', cache(tenantId := Some (Some v', now + VERTICAL_CACHE_TTL_MS)))))"

definition resolveVertical ::
  "(str \<Rightarrow> vertical option) \<Rightarrow> instant \<Rightarrow> (str, vertical option) ttl_cache \<Rightarrow> guard_user
   \<Rightarrow> vertical option \<times> (str, vertical option) ttl_cache" where
  "resolveVertical tenants now cache u =
     (case gu_tenantVertical u of
        Some v \<Rightarrow> (Some v, cache)
      | None \<Rightarrow>
          (if truthy_str (gu_tenantId u) then cached_vertical tenants now cache (the (gu_tenantId u))
           else (None, cache)))"

definition policy_check :: "policy_rules \<Rightarrow> str \<Rightarrow> int \<Rightarrow> guard_error + unit" where
  "policy_check p ip hour =
     (case pr_ipWhitelist p of
        Some allowed \<Rightarrow>
          if allowed \<noteq> [] \<and> ip \<notin> set allowed then Inl (IpNotWhitelisted ip)
          else (case pr_businessHours p of
                  Some (start, close) \<Rightarrow>
                    if hour < start \<or> hour \<ge> close then Inl (OutsideBusinessHours start close) else Inr ()
                | None \<Rightarrow> Inr ())
      | None \<Rightarrow>
          (case pr_businessHours p of
             Some (start, close) \<Rightarrow>
               if hour < start \<or> hour \<ge> close then Inl (OutsideBusinessHours start close) else Inr ()
           | None \<Rightarrow> Inr ()))"

text \<open>
  \<open>canActivate\<close>: the vertical attached to the request and the caches are returned beside the
  verdict; \<open>hour\<close> is the server's local hour.
\<close>

definition policy_canActivate ::
  "(str \<Rightarrow> vertical option) \<Rightarrow> instant \<Rightarrow> int \<Rightarrow> str \<Rightarrow> str list option \<Rightarrow> guard_user option
   \<Rightarrow> (str, vertical option) ttl_cache \<times> (vertical \<Rightarrow> policy_rules option)
   \<Rightarrow> (guard_error + vertical option) \<times> (str, vertical option) ttl_cache \<times> (vertical \<Rightarrow> policy_rules option)" where
  "policy_canActivate tenants now hour ip requiredRoles user caches =
     (case user of
        None \<Rightarrow> (Inl Unauthorized, caches)
      | Some u \<Rightarrow>
          (if \<exists>required. requiredRoles = Some required \<and> \<not> (\<exists>r \<in> set required. r \<in> set (gu_roles u))
           then (Inl InsufficientRole, caches)
           else (case resolveVertical tenants now (fst caches) u of
                   (None, vcache) \<Rightarrow> (Inr None, vcache, snd caches)
                 | (Some v, vcache) \<Rightarrow>
                     (case getPolicy (snd caches) v of
                        (p, pcache) \<Rightarrow>
                          (and_then (policy_check p ip hour) (\<lambda>_. Inr (Some v)), vcache, pcache)))))"

interpretation vertical_cache:
  cached_source "cached_vertical tenants" tenants "\<lambda>k. tenants k" for tenants
proof unfold_locales
  fix c :: "(str, vertical option) ttl_cache" and now k
  assume "coherent tenants c"
  then show "fst (cached_vertical tenants now c k) = tenants k"
    by (auto simp: cached_vertical_def coherent_def split: option.split)
  show "coherent tenants (snd (cached_vertical tenants now c k))"
    using \<open>coherent tenants c\<close>
    by (auto simp: cached_vertical_def coherent_def split: option.split)
qed

section \<open>Module entitlement guard\<close>

definition GRC_MODULE_CODES :: "str list" where
  "GRC_MODULE_CODES = [''screening'', ''trade_finance'', ''vessel_tracking'']"

definition GRANT_CACHE_TTL_MS :: int where
  "GRANT_CACHE_TTL_MS = 60000"

text \<open>
  \<open>grants\<close> is the stored grant by tenant id: \<open>None\<close> when there is no tenant row or no list. The
  lookup caches an absent grant as well.
\<close>

definition grantFor ::
  "(str \<Rightarrow> str list option) \<Rightarrow> instant \<Rightarrow> (str, str list option) ttl_cache \<Rightarrow> str
   \<Rightarrow> str list option \<times> (str, str list option) ttl_cache" where
  "grantFor grants now cache tenantId =
     (case cache tenantId of
        Some (modules, expires) \<Rightarrow>
          (if expires > now then (modules, cache)
           else (grants tenantId, cache(tenantId := Some (grants tenantId, now + GRANT_CACHE_TTL_MS))))
      | None \<Rightarrow>
          (grants tenantId, cache(tenantId := Some (grants tenantId, now + GRANT_CACHE_TTL_MS))))"

datatype entitlement_error = ModuleEntitlementException "str list" "str list"

text \<open>The verdict on a grant: error 402 with the missing and the granted modules.\<close>

definition entitlement_verdict :: "str list \<Rightarrow> str list \<Rightarrow> entitlement_error + unit" where
  "entitlement_verdict required granted =
     (let issuedUnderGrcVocabulary = (\<exists>m \<in> set granted. m \<in> set GRC_MODULE_CODES);
          missing = filter (\<lambda>m. m \<notin> set granted) required
      in if missing = [] then Inr ()
         else if (\<forall>m \<in> set missing. m \<in> set GRC_MODULE_CODES) \<and> \<not> issuedUnderGrcVocabulary
         then Inr ()
         else Inl (ModuleEntitlementException missing granted))"

definition entitlement_canActivate ::
  "(str \<Rightarrow> str list option) \<Rightarrow> instant \<Rightarrow> str list option \<Rightarrow> str option \<Rightarrow> als
   \<Rightarrow> (str, str list option) ttl_cache
   \<Rightarrow> (entitlement_error + unit) \<times> (str, str list option) ttl_cache" where
  "entitlement_canActivate grants now required userTenantId ctx cache =
     (case required of
        None \<Rightarrow> (Inr (), cache)
      | Some req \<Rightarrow>
          (if req = [] then (Inr (), cache)
           else (let tenantId = nullish_opt userTenantId (getTenantId ctx)
                 in if \<not> truthy_str tenantId then (Inr (), cache)
                    else (case grantFor grants now cache (the tenantId) of
                            (None, cache') \<Rightarrow> (Inr (), cache')
                          | (Some granted, cache') \<Rightarrow> (entitlement_verdict req granted, cache')))))"

interpretation grant_cache: cached_source "grantFor grants" grants "\<lambda>k. grants k" for grants
proof unfold_locales
  fix c :: "(str, str list option) ttl_cache" and now k
  assume "coherent grants c"
  then show "fst (grantFor grants now c k) = grants k"
    by (auto simp: grantFor_def coherent_def split: option.split)
  show "coherent grants (snd (grantFor grants now c k))"
    using \<open>coherent grants c\<close> by (auto simp: grantFor_def coherent_def split: option.split)
qed

section \<open>Properties\<close>

text \<open>
  With the policies the service ships, the guard lets a request through exactly when it
  has a user and, on a route that names roles, the user holds one of them; the policy checks
  never refuse, whatever the vertical, the address and the hour of the day.
\<close>

theorem policy_guard_is_role_check:
  assumes "0 \<le> hour" and "hour < 24" and "\<forall>v p. snd caches v = Some p \<longrightarrow> p = verticalConfigs v"
  shows "(\<exists>v. fst (policy_canActivate tenants now hour ip requiredRoles user caches) = Inr v) \<longleftrightarrow>
     (\<exists>u. user = Some u \<and>
        (requiredRoles = None \<or> (\<exists>r \<in> set (the requiredRoles). r \<in> set (gu_roles u))))"
proof -
  have "fst (getPolicy (snd caches) v) = verticalConfigs v" for v
    using assms(3) by (auto simp: getPolicy_def split: option.split)
  moreover have "policy_check (verticalConfigs v) ip hour = Inr ()" for v
    using assms(1,2) by (cases v) (simp_all add: policy_check_def shipped_rules_def)
  ultimately have ok: "policy_check p ip hour = Inr ()" if "getPolicy (snd caches) v = (p, c)" for v p c
    using that by (metis fst_conv)
  show ?thesis
    by (cases user; cases requiredRoles)
       (auto simp: policy_canActivate_def ok split: prod.split option.split)
qed

theorem policy_guard_is_role_check_witness:
  "(\<exists>v. fst (policy_canActivate (\<lambda>t. Some Grc) 0 3 ''10.1.1.1'' (Some [STAFF, FIRM_ADMIN])
      (Some \<lparr>gu_roles = [STAFF], gu_tenantVertical = None, gu_tenantId = Some ''t1''\<rparr>)
      (\<lambda>_. None, \<lambda>_. None)) = Inr v) = True"
  using policy_guard_is_role_check [of 3 "(\<lambda>_. None, \<lambda>_. None)" "\<lambda>t. Some Grc" 0 "''10.1.1.1''"
      "Some [STAFF, FIRM_ADMIN]" "Some \<lparr>gu_roles = [STAFF], gu_tenantVertical = None, gu_tenantId = Some ''t1''\<rparr>"]
  by simp

text \<open>
  The entitlement guard refuses a request exactly when the tenant has a grant, a required
  module is not in it, and either some missing module is not a GRC module or the grant already
  names a GRC module; the error lists exactly the missing modules. Its cache does not change the
  verdict as long as the stored grants have not changed since they were cached.
\<close>

theorem entitlement_refused_iff:
  assumes "coherent grants cache"
  shows "fst (entitlement_canActivate grants now (Some required) (Some tenant) ctx cache)
           = Inl (ModuleEntitlementException missing granted) \<longleftrightarrow>
     tenant \<noteq> [] \<and> grants tenant = Some granted
     \<and> missing = filter (\<lambda>m. m \<notin> set granted) required \<and> missing \<noteq> []
     \<and> ((\<exists>m \<in> set missing. m \<notin> set GRC_MODULE_CODES) \<or> (\<exists>m \<in> set granted. m \<in> set GRC_MODULE_CODES))"
proof -
  have grant: "fst (grantFor grants now cache tenant) = grants tenant"
    using grant_cache.lookup_answer [OF assms] .
  show ?thesis
  proof (cases "required = [] \<or> tenant = []")
    case True
    then show ?thesis by (auto simp: entitlement_canActivate_def)
  next
    case False
    then have "fst (entitlement_canActivate grants now (Some required) (Some tenant) ctx cache)
        = (case grants tenant of None \<Rightarrow> Inr () | Some g \<Rightarrow> entitlement_verdict required g)"
      using grant by (cases "grantFor grants now cache tenant")
        (auto simp: entitlement_canActivate_def split: option.split)
    then show ?thesis
      using False by (auto simp: entitlement_verdict_def Let_def split: option.split)
  qed
qed

theorem entitlement_refused_iff_witness:
  "coherent (\<lambda>t. Some [''crm'', ''screening'']) (\<lambda>_. None)
   \<and> fst (entitlement_canActivate (\<lambda>t. Some [''crm'', ''screening'']) 0 (Some [''vessel_tracking'', ''crm''])
        (Some ''t1'') None (\<lambda>_. None))
     = Inl (ModuleEntitlementException [''vessel_tracking''] [''crm'', ''screening''])"
proof -
  have c: "coherent (\<lambda>t. Some [''crm'', ''screening'']) (\<lambda>_. None)" by (simp add: coherent_def)
  show ?thesis
    using c entitlement_refused_iff [OF c, of 0 "[''vessel_tracking'', ''crm'']" "''t1''" None
        "[''vessel_tracking'']" "[''crm'', ''screening'']"]
    by (simp add: GRC_MODULE_CODES_def)
qed

text \<open>
  However many requests a guard has answered, at whatever times, its cache answers the
  vertical of a tenant as the table holds it, for tables that have not changed since the cache
  was filled.
\<close>

theorem vertical_cache_transparent:
  assumes "coherent tenants cache"
  shows "vertical_cache.lookups tenants queries cache = map (\<lambda>q. tenants (snd q)) queries"
  using vertical_cache.lookups_transparent [OF assms, of queries] by (simp add: comp_def)

theorem vertical_cache_transparent_witness:
  "vertical_cache.lookups (\<lambda>t. if t = ''t1'' then Some Legal else None)
      [(0, ''t1''), (1000, ''t1''), (400000, ''t1''), (400001, ''t2'')] (\<lambda>_. None)
   = [Some Legal, Some Legal, Some Legal, None]"
  by (subst vertical_cache_transparent) (simp_all add: coherent_def)

end
