(* ===== verification/Payments.thy ===== *)
theory Payments
  imports Access JsValue
begin

text \<open>
  \<^verbatim>\<open>src/billing/payments.service.ts\<close> over the \<open>payments\<close> table of
  \<^verbatim>\<open>src/billing/entities/payment.entity.ts\<close>: who a charge is raised against, the list, the
  ledger totals, single reads, creation and settlement.

  Amounts are integers of minor units. The \<open>bigint\<close> column passes through JavaScript as a
  string and \<open>Number\<close>, which is exact up to \<open>2^53 - 1\<close>, the largest amount the DTO admits.
  The database draws the id and the creation time of a new row; they are arguments here.
\<close>

section \<open>Rows\<close>

datatype pay_direction = Inbound | Outbound

datatype pay_status = PayPending | PayPaid | PayFailed | PayRefunded | PayCancelled

datatype fee_kind = Government | Firm | Disbursement

record payment =
  pm_id :: str
  pm_tenantId :: str
  pm_clientId :: "str option"
  pm_direction :: pay_direction
  pm_payee :: "str option"
  pm_entityId :: "str option"
  pm_amountMinor :: int
  pm_currency :: str
  pm_status :: pay_status
  pm_description :: str
  pm_reference :: "str option"
  pm_dueDate :: "instant option"
  pm_paidAt :: "instant option"
  pm_feeKind :: "fee_kind option"
  pm_feeKey :: "str option"
  pm_planKey :: "str option"
  pm_atStep :: "str option"
  pm_metadata :: js_obj
  pm_createdAt :: instant

interpretation payment_repo:
  repository pm_id "by_key pm_id" "save_row pm_id" "remove_row pm_id" "keys_distinct pm_id"
  by unfold_locales (auto simp: table_simps dest: by_key_SomeD)

datatype pay_error =
    StaffAccount
  | ClientNotFound
  | NoEmailOnFile str
  | NotInvited str
  | ClientIdRequired
  | PayeeRequired
  | PaymentNotFound
  | BadTransition pay_status pay_status "pay_status list"

section \<open>Who owes a charge\<close>

definition resolveClientUserId ::
  "user list \<Rightarrow> entity list \<Rightarrow> str \<Rightarrow> str \<Rightarrow> pay_error + str" where
  "resolveClientUserId users entities tenantId clientId =
     (case find_one (\<lambda>u. us_id u = clientId \<and> us_tenantId u = tenantId) users of
        Some u \<Rightarrow>
          (if CLIENT \<notin> set (nullish (us_roles u) []) then Inl StaffAccount else Inr (us_id u))
      | None \<Rightarrow>
          (case find_one (\<lambda>e. en_id e = clientId \<and> en_tenantId e = tenantId \<and> en_type e = Person) entities of
             None \<Rightarrow> Inl ClientNotFound
           | Some person \<Rightarrow>
               (if \<not> truthy_str (en_email person)
                then Inl (NoEmailOnFile (nullish (en_firstName person) ''This client''))
                else (case find_one (\<lambda>u. us_tenantId u = tenantId
                             \<and> to_lower (us_email u) = to_lower (the (en_email person))) users of
                        None \<Rightarrow> Inl (NotInvited (nullish (en_firstName person) ''This client''))
                      | Some u \<Rightarrow> Inr (us_id u)))))"

section \<open>Reading\<close>

record list_query =
  lq_status :: "pay_status option"
  lq_direction :: "pay_direction option"
  lq_clientId :: "str option"
  lq_entityId :: "str option"
  lq_page :: "nat option"
  lq_limit :: "nat option"

text \<open>
  The \<open>WHERE\<close> clause \<open>list\<close> and \<open>summary\<close> share: the forced client replaces the one asked
  for, and forces inbound rows.
\<close>

definition client_filter :: "str option \<Rightarrow> list_query \<Rightarrow> payment \<Rightarrow> bool" where
  "client_filter forceClientId q p =
     (let clientId = nullish_opt forceClientId (lq_clientId q)
      in truthy_str clientId \<longrightarrow> pm_clientId p = clientId)"

definition direction_filter :: "str option \<Rightarrow> list_query \<Rightarrow> payment \<Rightarrow> bool" where
  "direction_filter forceClientId q p =
     (case (if truthy_str forceClientId then Some Inbound else lq_direction q) of
        None \<Rightarrow> True | Some d \<Rightarrow> pm_direction p = d)"

definition list_where :: "str \<Rightarrow> list_query \<Rightarrow> str option \<Rightarrow> payment \<Rightarrow> bool" where
  "list_where tenantId q forceClientId p \<longleftrightarrow>
     pm_tenantId p = tenantId \<and> client_filter forceClientId q p \<and> direction_filter forceClientId q p
     \<and> (case lq_status q of None \<Rightarrow> True | Some s \<Rightarrow> pm_status p = s)
     \<and> (truthy_str (lq_entityId q) \<longrightarrow> pm_entityId p = lq_entityId q)"

record payment_page =
  pp_items :: "payment list"
  pp_total :: nat
  pp_page :: nat
  pp_limit :: nat

definition newest_first :: "payment list \<Rightarrow> payment list" where
  "newest_first ps = sort_key (\<lambda>p. - pm_createdAt p) ps"

definition list_payments ::
  "payment list \<Rightarrow> str \<Rightarrow> list_query \<Rightarrow> str option \<Rightarrow> payment_page" where
  "list_payments t tenantId q forceClientId =
     (let page = nullish (lq_page q) 1; limit = nullish (lq_limit q) 25;
          matching = newest_first (find_where (list_where tenantId q forceClientId) t)
      in \<lparr>pp_items = take limit (drop ((page - 1) * limit) matching),
          pp_total = length matching, pp_page = page, pp_limit = limit\<rparr>)"

definition findOne :: "payment list \<Rightarrow> str \<Rightarrow> str \<Rightarrow> str option \<Rightarrow> pay_error + payment" where
  "findOne t tenantId i forceClientId =
     (case find_one (\<lambda>p. pm_tenantId p = tenantId \<and> pm_id p = i) t of
        None \<Rightarrow> Inl PaymentNotFound
      | Some p \<Rightarrow>
          (if truthy_str forceClientId \<and> (pm_clientId p \<noteq> forceClientId \<or> pm_direction p \<noteq> Inbound)
           then Inl PaymentNotFound else Inr p))"

section \<open>Ledger totals\<close>

record status_row =
  sr_currency :: str
  sr_status :: pay_status
  sr_direction :: pay_direction
  sr_amountMinor :: int
  sr_count :: nat

definition summary_where :: "str \<Rightarrow> list_query \<Rightarrow> str option \<Rightarrow> payment \<Rightarrow> bool" where
  "summary_where tenantId q forceClientId p \<longleftrightarrow>
     pm_tenantId p = tenantId \<and> client_filter forceClientId q p
     \<and> (truthy_str (lq_entityId q) \<longrightarrow> pm_entityId p = lq_entityId q)
     \<and> direction_filter forceClientId q p"

definition group_key :: "payment \<Rightarrow> str \<times> pay_status \<times> pay_direction" where
  "group_key p = (pm_currency p, pm_status p, pm_direction p)"

text \<open>\<open>GROUP BY currency, status, direction\<close> with \<open>SUM\<close> and \<open>COUNT\<close>.\<close>

definition group_rows :: "payment list \<Rightarrow> status_row list" where
  "group_rows ps =
     map (\<lambda>k. let grp = filter (\<lambda>p. group_key p = k) ps
              in \<lparr>sr_currency = fst k, sr_status = fst (snd k), sr_direction = snd (snd k),
                  sr_amountMinor = sum_list (map pm_amountMinor grp), sr_count = length grp\<rparr>)
         (remdups (map group_key ps))"

text \<open>\<open>acc[c] = (acc[c] ?? 0) + n\<close>.\<close>

definition add_at :: "str \<Rightarrow> int \<Rightarrow> (str \<Rightarrow> int option) \<Rightarrow> (str \<Rightarrow> int option)" where
  "add_at c n acc = acc(c \<mapsto> nullish (acc c) 0 + n)"

definition totalFor :: "pay_direction \<Rightarrow> status_row list \<Rightarrow> (str \<Rightarrow> int option)" where
  "totalFor d rows =
     fold (\<lambda>r acc. add_at (sr_currency r) (sr_amountMinor r) acc)
       (filter (\<lambda>r. sr_direction r = d) rows) Map.empty"

record ledger_summary =
  ls_byStatus :: "status_row list"
  ls_receivableMinor :: "str \<Rightarrow> int option"
  ls_payableMinor :: "str \<Rightarrow> int option"

definition summary ::
  "payment list \<Rightarrow> str \<Rightarrow> list_query \<Rightarrow> str option \<Rightarrow> ledger_summary" where
  "summary t tenantId q forceClientId =
     (let byStatus = group_rows (find_where (summary_where tenantId q forceClientId) t)
      in \<lparr>ls_byStatus = byStatus,
          ls_receivableMinor = totalFor Inbound byStatus,
          ls_payableMinor = totalFor Outbound byStatus\<rparr>)"

section \<open>Writing\<close>

record create_dto =
  cd_direction :: "pay_direction option"
  cd_clientId :: "str option"
  cd_payee :: "str option"
  cd_entityId :: "str option"
  cd_amountMinor :: int
  cd_currency :: str
  cd_description :: str
  cd_reference :: "str option"
  cd_dueDate :: "instant option"
  cd_feeKind :: "fee_kind option"

definition create_payment ::
  "user list \<Rightarrow> entity list \<Rightarrow> str \<Rightarrow> instant \<Rightarrow> str \<Rightarrow> create_dto \<Rightarrow> payment list
   \<Rightarrow> pay_error + payment \<times> payment list" where
  "create_payment users entities newId now tenantId dto t =
     (let direction = nullish (cd_direction dto) Inbound
      in if direction = Inbound \<and> \<not> truthy_str (cd_clientId dto) then Inl ClientIdRequired
         else if direction = Outbound \<and> \<not> truthy_str (cd_payee dto) then Inl PayeeRequired
         else and_then
           (if truthy_str (cd_clientId dto)
            then and_then (resolveClientUserId users entities tenantId (the (cd_clientId dto))) (\<lambda>u. Inr (Some u))
            else Inr None)
           (\<lambda>clientId.
              let p = \<lparr>pm_id = newId, pm_tenantId = tenantId, pm_clientId = clientId,
                       pm_direction = direction, pm_payee = cd_payee dto, pm_entityId = cd_entityId dto,
                       pm_amountMinor = cd_amountMinor dto, pm_currency = to_upper (cd_currency dto),
                       pm_status = PayPending, pm_description = cd_description dto,
                       pm_reference = cd_reference dto, pm_dueDate = cd_dueDate dto, pm_paidAt = None,
                       pm_feeKind = cd_feeKind dto, pm_feeKey = None, pm_planKey = None,
                       pm_atStep = None, pm_metadata = [], pm_createdAt = now\<rparr>
              in Inr (p, save_row pm_id p t)))"

fun allowed_settlements :: "pay_status \<Rightarrow> pay_status list" where
  "allowed_settlements PayPending = [PayPaid, PayFailed, PayCancelled]"
| "allowed_settlements PayFailed = [PayPaid, PayPending, PayCancelled]"
| "allowed_settlements PayPaid = [PayRefunded]"
| "allowed_settlements PayRefunded = []"
| "allowed_settlements PayCancelled = []"

record settle_dto =
  sd_status :: pay_status
  sd_method :: "str option"
  sd_reference :: "str option"
  sd_note :: "str option"

definition opt_prop :: "str \<Rightarrow> str option \<Rightarrow> js_obj" where
  "opt_prop k v = (if truthy_str v then [(k, JStr (the v))] else [])"

text \<open>The change of the row: status, settlement time, metadata, reference.\<close>

definition settle_row :: "settle_dto \<Rightarrow> instant \<Rightarrow> payment \<Rightarrow> pay_error + payment" where
  "settle_row dto now p =
     (if sd_status dto \<notin> set (allowed_settlements (pm_status p))
      then Inl (BadTransition (pm_status p) (sd_status dto) (allowed_settlements (pm_status p)))
      else Inr (p\<lparr>pm_status := sd_status dto,
                  pm_paidAt := (if sd_status dto = PayPaid then Some (nullish (pm_paidAt p) now)
                                else pm_paidAt p),
                  pm_metadata := obj_spread (obj_spread (pm_metadata p) (opt_prop ''method'' (sd_method dto)))
                                   (opt_prop ''note'' (sd_note dto)),
                  pm_reference := nullish_opt (sd_reference dto) (pm_reference p)\<rparr>))"

definition settle ::
  "str \<Rightarrow> str \<Rightarrow> settle_dto \<Rightarrow> instant \<Rightarrow> payment list \<Rightarrow> pay_error + payment \<times> payment list" where
  "settle tenantId i dto now t =
     (case find_one (\<lambda>p. pm_tenantId p = tenantId \<and> pm_id p = i) t of
        None \<Rightarrow> Inl PaymentNotFound
      | Some p \<Rightarrow> and_then (settle_row dto now p) (\<lambda>p'. Inr (p', save_row pm_id p' t)))"

definition settle_move :: "settle_dto \<times> instant \<Rightarrow> payment \<Rightarrow> payment option" where
  "settle_move c p = (case settle_row (fst c) (snd c) p of Inl _ \<Rightarrow> None | Inr p' \<Rightarrow> Some p')"

interpretation settlement:
  status_machine pm_status settle_move "\<lambda>s. set (allowed_settlements s)"
  by unfold_locales (auto simp: settle_move_def settle_row_def split: if_splits)

section \<open>Lemmas\<close>

lemma resolveClientUserId_Inr:
  assumes "resolveClientUserId users entities tenantId clientId = Inr uid"
  shows "\<exists>u \<in> set users. us_id u = uid \<and> us_tenantId u = tenantId
     \<and> ((clientId = uid \<and> CLIENT \<in> set (nullish (us_roles u) []))
        \<or> (\<exists>person \<in> set entities. en_id person = clientId \<and> en_tenantId person = tenantId
             \<and> en_type person = Person \<and> truthy_str (en_email person)
             \<and> to_lower (us_email u) = to_lower (the (en_email person))))"
  using assms
  by (fastforce simp: resolveClientUserId_def split: option.splits if_splits dest!: find_one_SomeD)

lemma set_newest_first [simp]: "set (newest_first ps) = set ps"
  by (simp add: newest_first_def)

text \<open>Consecutive windows of a list are the list.\<close>

lemma windows_prefix:
  "concat (map (\<lambda>i. take l (drop (i * l) xs)) [0..<n]) = take (n * l) xs"
proof (induction n)
  case (Suc n)
  have "take (n * l) xs @ take l (drop (n * l) xs) = take (n * l + l) xs"
    by (simp add: take_add)
  with Suc show ?case by (simp add: algebra_simps)
qed simp

text \<open>The total of a map-valued fold at one key.\<close>

lemma add_at_value: "nullish (add_at k n acc c) 0 = nullish (acc c) 0 + (if k = c then n else 0)"
  by (simp add: add_at_def)

lemma totalFor_at:
  "nullish (fold (\<lambda>r acc. add_at (f r) (g r) acc) rs acc c) 0
     = nullish (acc c) 0 + sum_list (map g (filter (\<lambda>r. f r = c) rs))"
proof (induction rs arbitrary: acc)
  case (Cons r rs)
  show ?case by (simp add: Cons add_at_value)
qed simp

lemma sum_groups:
  assumes "finite K" and "\<And>p. p \<in> set ps \<Longrightarrow> k p \<in> K"
  shows "(\<Sum>x \<in> K. sum_list (map g (filter (\<lambda>p. k p = x) ps))) = (sum_list (map g ps) :: int)"
  using assms(2)
proof (induction ps)
  case (Cons p ps)
  have "(\<Sum>x \<in> K. sum_list (map g (filter (\<lambda>q. k q = x) (p # ps))))
      = (\<Sum>x \<in> K. (if k p = x then g p else 0) + sum_list (map g (filter (\<lambda>q. k q = x) ps)))"
    by (intro sum.cong) auto
  also have "\<dots> = (\<Sum>x \<in> K. if k p = x then g p else 0)
      + (\<Sum>x \<in> K. sum_list (map g (filter (\<lambda>q. k q = x) ps)))"
    by (rule sum.distrib)
  also have "(\<Sum>x \<in> K. if k p = x then g p else 0) = g p"
    using Cons.prems assms(1) by (simp add: sum.delta')
  finally show ?case using Cons by simp
qed simp

text \<open>The groups of one currency and direction add up to the rows of that currency and direction.\<close>

lemma group_rows_total:
  "sum_list (map sr_amountMinor
      (filter (\<lambda>r. sr_direction r = d \<and> sr_currency r = c) (group_rows ps)))
   = sum_list (map pm_amountMinor (filter (\<lambda>p. pm_currency p = c \<and> pm_direction p = d) ps))"
proof -
  let ?Q = "\<lambda>k :: str \<times> pay_status \<times> pay_direction. fst k = c \<and> snd (snd k) = d"
  let ?ps = "filter (\<lambda>p. pm_currency p = c \<and> pm_direction p = d) ps"
  let ?K = "set (filter ?Q (remdups (map group_key ps)))"
  have "sum_list (map sr_amountMinor
      (filter (\<lambda>r. sr_direction r = d \<and> sr_currency r = c) (group_rows ps)))
    = sum_list (map (\<lambda>k. sum_list (map pm_amountMinor (filter (\<lambda>p. group_key p = k) ps)))
        (filter ?Q (remdups (map group_key ps))))"
    by (simp add: group_rows_def filter_map comp_def Let_def conj_commute)
  also have "\<dots> = (\<Sum>k \<in> ?K. sum_list (map pm_amountMinor (filter (\<lambda>p. group_key p = k) ps)))"
    by (rule sum_list_distinct_conv_sum_set) simp
  also have "\<dots> = (\<Sum>k \<in> ?K. sum_list (map pm_amountMinor (filter (\<lambda>p. group_key p = k) ?ps)))"
  proof (rule sum.cong)
    fix k assume "k \<in> ?K"
    then have "filter (\<lambda>p. group_key p = k) ?ps = filter (\<lambda>p. group_key p = k) ps"
      by (auto simp: group_key_def intro!: filter_cong)
    then show "sum_list (map pm_amountMinor (filter (\<lambda>p. group_key p = k) ps))
        = sum_list (map pm_amountMinor (filter (\<lambda>p. group_key p = k) ?ps))" by simp
  qed simp
  also have "\<dots> = sum_list (map pm_amountMinor ?ps)"
    by (rule sum_groups) (auto simp: group_key_def)
  finally show ?thesis .
qed

text \<open>What settlement keeps of a row.\<close>

definition paid_ok :: "payment \<Rightarrow> bool" where
  "paid_ok p \<longleftrightarrow> (pm_status p \<in> {PayPaid, PayRefunded} \<longrightarrow> pm_paidAt p \<noteq> None)"

lemma settle_move_keeps:
  "settle_move c p = Some p' \<Longrightarrow>
   pm_id p' = pm_id p \<and> pm_tenantId p' = pm_tenantId p \<and> pm_clientId p' = pm_clientId p
   \<and> pm_amountMinor p' = pm_amountMinor p \<and> pm_currency p' = pm_currency p \<and> pm_direction p' = pm_direction p"
  by (auto simp: settle_move_def settle_row_def split: if_splits)

lemma settle_move_paid_ok: "paid_ok p \<Longrightarrow> settle_move c p = Some p' \<Longrightarrow> paid_ok p'"
  by (cases "pm_status p"; cases "sd_status (fst c)")
     (auto simp: settle_move_def settle_row_def paid_ok_def)

section \<open>Properties\<close>

text \<open>
  A client's list cannot be widened by the query: with the caller's own id forced, the
  client and direction asked for have no effect at all, and every row shown is an inbound row of
  that tenant and that client.
\<close>

theorem list_confined_to_client:
  assumes "me \<noteq> []"
  shows "list_payments t tenant q (Some me) =
           list_payments t tenant (q\<lparr>lq_clientId := c, lq_direction := d\<rparr>) (Some me)
     \<and> (\<forall>p \<in> set (pp_items (list_payments t tenant q (Some me))).
          pm_tenantId p = tenant \<and> pm_clientId p = Some me \<and> pm_direction p = Inbound)"
proof -
  have "list_where tenant q (Some me) = list_where tenant (q\<lparr>lq_clientId := c, lq_direction := d\<rparr>) (Some me)"
    using assms by (intro ext) (simp add: list_where_def client_filter_def direction_filter_def)
  moreover have "p \<in> set (pp_items (list_payments t tenant q (Some me))) \<Longrightarrow> list_where tenant q (Some me) p" for p
    by (auto simp: list_payments_def Let_def set_find_where dest!: in_set_takeD in_set_dropD)
  ultimately show ?thesis
    using assms by (auto simp: list_payments_def list_where_def client_filter_def direction_filter_def)
qed

theorem list_confined_to_client_witness:
  "list_payments [] ''t'' \<lparr>lq_status = None, lq_direction = Some Outbound, lq_clientId = Some ''other'',
       lq_entityId = None, lq_page = None, lq_limit = None\<rparr> (Some ''me'')
   = list_payments [] ''t'' \<lparr>lq_status = None, lq_direction = None, lq_clientId = None,
       lq_entityId = None, lq_page = None, lq_limit = None\<rparr> (Some ''me'')"
  using list_confined_to_client [of "''me''" "[]" "''t''"
      "\<lparr>lq_status = None, lq_direction = Some Outbound, lq_clientId = Some ''other'',
        lq_entityId = None, lq_page = None, lq_limit = None\<rparr>" None None]
  by simp

text \<open>
  A client can open by id exactly the rows their list is drawn from, and the answer for a
  row of somebody else is the answer for a row that does not exist.
\<close>

theorem find_one_matches_list:
  assumes "keys_distinct pm_id t" and "me \<noteq> []" and "lq_status q = None" and "lq_entityId q = None"
  shows "(findOne t tenant i (Some me) = Inr p \<longleftrightarrow>
            p \<in> set (find_where (list_where tenant q (Some me)) t) \<and> pm_id p = i)
     \<and> (findOne t tenant i (Some me) = Inl PaymentNotFound \<longleftrightarrow>
            (\<forall>p \<in> set (find_where (list_where tenant q (Some me)) t). pm_id p \<noteq> i))"
proof -
  have sel: "list_where tenant q (Some me) p \<longleftrightarrow>
      pm_tenantId p = tenant \<and> pm_clientId p = Some me \<and> pm_direction p = Inbound" for p
    using assms(2-4) by (auto simp: list_where_def client_filter_def direction_filter_def)
  have unique: "p = p'" if "p \<in> set t" "p' \<in> set t" "pm_id p = pm_id p'" for p p'
    using that assms(1) by (metis by_key_mem option.inject)
  have A: "findOne t tenant i (Some me) = Inr p \<longleftrightarrow>
      p \<in> set (find_where (list_where tenant q (Some me)) t) \<and> pm_id p = i" for p
  proof (cases "find_one (\<lambda>p. pm_tenantId p = tenant \<and> pm_id p = i) t")
    case None
    then have "findOne t tenant i (Some me) = Inl PaymentNotFound" by (simp add: findOne_def)
    with None show ?thesis by (auto simp: find_one_None_iff set_find_where sel)
  next
    case (Some p0)
    then have "p0 \<in> set t" "pm_tenantId p0 = tenant" "pm_id p0 = i" by (auto dest: find_one_SomeD)
    with Some unique assms(2) show ?thesis
      by (auto simp: findOne_def set_find_where sel split: if_splits)
  qed
  have "findOne t tenant i (Some me) = Inl PaymentNotFound \<longleftrightarrow>
      (\<forall>p \<in> set (find_where (list_where tenant q (Some me)) t). pm_id p \<noteq> i)"
  proof (cases "findOne t tenant i (Some me)")
    case (Inl e)
    then have "e = PaymentNotFound" by (auto simp: findOne_def split: option.splits if_splits)
    with Inl A show ?thesis by fastforce
  next
    case (Inr p)
    with A [of p] show ?thesis by auto
  qed
  with A show ?thesis by blast
qed

definition sample_payment :: "str \<Rightarrow> pay_status \<Rightarrow> payment" where
  "sample_payment i st =
     \<lparr>pm_id = i, pm_tenantId = ''t'', pm_clientId = Some ''me'', pm_direction = Inbound, pm_payee = None,
      pm_entityId = None, pm_amountMinor = 500, pm_currency = ''AUD'', pm_status = st,
      pm_description = ''fee'', pm_reference = None, pm_dueDate = None, pm_paidAt = None,
      pm_feeKind = None, pm_feeKey = None, pm_planKey = None, pm_atStep = None, pm_metadata = [],
      pm_createdAt = 1\<rparr>"

theorem find_one_matches_list_witness:
  "findOne [sample_payment ''p1'' PayPending] ''t'' ''p1'' (Some ''me'') = Inr (sample_payment ''p1'' PayPending)
   \<and> findOne [sample_payment ''p1'' PayPending] ''t'' ''p1'' (Some ''you'') = Inl PaymentNotFound"
proof -
  let ?q = "\<lparr>lq_status = None, lq_direction = None, lq_clientId = None, lq_entityId = None,
              lq_page = None, lq_limit = None\<rparr>"
  let ?t = "[sample_payment ''p1'' PayPending]"
  have me: "set (find_where (list_where ''t'' ?q (Some ''me'')) ?t) = set ?t"
    and you: "set (find_where (list_where ''t'' ?q (Some ''you'')) ?t) = {}"
    by (auto simp: find_where_def list_where_def client_filter_def direction_filter_def sample_payment_def)
  show ?thesis
    using find_one_matches_list [of ?t "''me''" ?q "''t''" "''p1''" "sample_payment ''p1'' PayPending"]
      find_one_matches_list [of ?t "''you''" ?q "''t''" "''p1''" "sample_payment ''p1'' PayPending"]
    unfolding me you by (simp add: sample_payment_def)
qed

text \<open>
  The pages of a list, put together, are the matching rows, newest first, each exactly
  once, and the total counts them all.
\<close>

theorem pages_partition_the_list:
  assumes "lq_limit q = Some limit" and "0 < limit"
  shows "concat (map (\<lambda>page. pp_items (list_payments t tenant (q\<lparr>lq_page := Some page\<rparr>) f)) [1..<Suc n])
     = take (n * limit) (newest_first (find_where (list_where tenant q f) t))
   \<and> pp_total (list_payments t tenant q f) = length (find_where (list_where tenant q f) t)"
proof -
  have page: "list_where tenant (q\<lparr>lq_page := Some p\<rparr>) f = list_where tenant q f" for p
    by (intro ext) (simp add: list_where_def client_filter_def direction_filter_def)
  have "map (\<lambda>page. pp_items (list_payments t tenant (q\<lparr>lq_page := Some page\<rparr>) f)) [1..<Suc n]
    = map (\<lambda>i. take limit (drop (i * limit) (newest_first (find_where (list_where tenant q f) t)))) [0..<n]"
    using assms(1) by (simp add: list_payments_def Let_def page map_Suc_upt [symmetric] del: upt_Suc)
  then show ?thesis
    by (simp only: windows_prefix) (simp add: list_payments_def newest_first_def Let_def)
qed

theorem pages_partition_the_list_witness:
  "concat (map (\<lambda>page. pp_items (list_payments [] ''t'' \<lparr>lq_status = None, lq_direction = None,
       lq_clientId = None, lq_entityId = None, lq_page = Some page, lq_limit = Some 2\<rparr> None)) [1..<Suc 3])
   = take (3 * 2) (newest_first (find_where (list_where ''t'' \<lparr>lq_status = None, lq_direction = None,
       lq_clientId = None, lq_entityId = None, lq_page = None, lq_limit = Some 2\<rparr> None) []))"
  using pages_partition_the_list [of "\<lparr>lq_status = None, lq_direction = None,
       lq_clientId = None, lq_entityId = None, lq_page = None, lq_limit = Some 2\<rparr>" 2 "[]" "''t''" None 3]
  by simp

text \<open>
  The ledger totals are the sums of the rows the caller sees, per currency and per
  direction: the receivable total of a currency adds inbound rows of that currency only, and the
  payable total outbound rows only, with nothing lost or counted twice by the grouping.
\<close>

theorem summary_totals:
  "nullish (ls_receivableMinor (summary t tenant q f) c) 0 =
     sum_list (map pm_amountMinor (filter (\<lambda>p. pm_currency p = c \<and> pm_direction p = Inbound)
       (find_where (summary_where tenant q f) t)))
   \<and> nullish (ls_payableMinor (summary t tenant q f) c) 0 =
     sum_list (map pm_amountMinor (filter (\<lambda>p. pm_currency p = c \<and> pm_direction p = Outbound)
       (find_where (summary_where tenant q f) t)))"
  by (simp add: summary_def totalFor_def totalFor_at group_rows_total Let_def)

text \<open>
  Claim C2: once a payment is refunded or cancelled no sequence of settlements changes anything of
  it; and along any sequence a payment that is or was paid carries the time it was paid, while its
  client, amount, currency and direction never change.
\<close>

theorem settlement_runs:
  assumes "pm_status p = PayPending \<or> paid_ok p"
  shows "(pm_status p \<in> {PayRefunded, PayCancelled} \<longrightarrow> settlement.run cmds p = p)
     \<and> (pm_status p = PayPaid \<longrightarrow> pm_status (settlement.run cmds p) \<in> {PayPaid, PayRefunded})
     \<and> paid_ok (settlement.run cmds p)
     \<and> pm_clientId (settlement.run cmds p) = pm_clientId p
     \<and> pm_amountMinor (settlement.run cmds p) = pm_amountMinor p
     \<and> pm_currency (settlement.run cmds p) = pm_currency p
     \<and> pm_direction (settlement.run cmds p) = pm_direction p"
proof -
  let ?keep = "\<lambda>p'. pm_clientId p' = pm_clientId p \<and> pm_amountMinor p' = pm_amountMinor p
      \<and> pm_currency p' = pm_currency p \<and> pm_direction p' = pm_direction p"
  have "paid_ok p" using assms by (auto simp: paid_ok_def)
  then have "paid_ok (settlement.run cmds p)"
    by (rule settlement.run_invariant [rotated]) (rule settle_move_paid_ok)
  moreover have "?keep (settlement.run cmds p)"
    by (rule settlement.run_invariant [where P = ?keep]) (auto dest: settle_move_keeps)
  moreover have "pm_status p \<in> {PayRefunded, PayCancelled} \<Longrightarrow> settlement.run cmds p = p"
    by (rule settlement.terminal_absorbing) auto
  moreover have "pm_status (settlement.run cmds p) \<in> {PayPaid, PayRefunded}" if "pm_status p = PayPaid"
    by (rule settlement.run_stays) (use that in auto)
  ultimately show ?thesis by blast
qed

theorem settlement_runs_witness:
  "pm_status (settlement.run
      [(\<lparr>sd_status = PayPaid, sd_method = Some ''card'', sd_reference = None, sd_note = None\<rparr>, 7)]
      (sample_payment ''p1'' PayPending)) = PayPaid
   \<and> paid_ok (settlement.run
      [(\<lparr>sd_status = PayPaid, sd_method = Some ''card'', sd_reference = None, sd_note = None\<rparr>, 7)]
      (sample_payment ''p1'' PayPending))"
proof -
  have "pm_status (sample_payment ''p1'' PayPending) = PayPending" by (simp add: sample_payment_def)
  with settlement_runs [of "sample_payment ''p1'' PayPending"]
  have "paid_ok (settlement.run
      [(\<lparr>sd_status = PayPaid, sd_method = Some ''card'', sd_reference = None, sd_note = None\<rparr>, 7)]
      (sample_payment ''p1'' PayPending))" by blast
  then show ?thesis by (simp add: settle_move_def settle_row_def sample_payment_def)
qed

text \<open>
  Every row \<open>create\<close> stores is a pending row with a payee or a client: an inbound row has
  a client, and a client is a user of the tenant, who either holds the client role and was named
  directly or shares the e-mail address of the named person record; no other row of the table
  changes.
\<close>

theorem created_payment:
  assumes "create_payment users entities newId now tenant dto t = Inr (p, t')"
    and "newId \<notin> pm_id ` set t"
  shows "t' = t @ [p] \<and> pm_status p = PayPending \<and> pm_tenantId p = tenant
     \<and> (pm_direction p = Outbound \<longrightarrow> truthy_str (pm_payee p))
     \<and> (pm_direction p = Inbound \<longrightarrow> pm_clientId p \<noteq> None)
     \<and> (\<forall>uid. pm_clientId p = Some uid \<longrightarrow>
          (\<exists>u \<in> set users. us_id u = uid \<and> us_tenantId u = tenant
             \<and> (CLIENT \<in> set (nullish (us_roles u) [])
                \<or> (\<exists>person \<in> set entities. cd_clientId dto = Some (en_id person) \<and> en_type person = Person
                     \<and> to_lower (us_email u) = to_lower (the (en_email person))))))"
proof -
  obtain clientId where c: "(if truthy_str (cd_clientId dto)
      then and_then (resolveClientUserId users entities tenant (the (cd_clientId dto))) (\<lambda>u. Inr (Some u))
      else Inr None) = Inr clientId"
    and p: "pm_id p = newId" "pm_status p = PayPending" "pm_tenantId p = tenant"
      "pm_clientId p = clientId" "pm_payee p = cd_payee dto" "pm_direction p = nullish (cd_direction dto) Inbound"
    and t': "t' = save_row pm_id p t"
    and guards: "pm_direction p = Inbound \<longrightarrow> truthy_str (cd_clientId dto)"
      "pm_direction p = Outbound \<longrightarrow> truthy_str (cd_payee dto)"
    using assms(1) by (auto simp: create_payment_def Let_def and_then_Inr_iff split: if_splits)
  have resolved: "\<exists>s. cd_clientId dto = Some s \<and> resolveClientUserId users entities tenant s = Inr uid"
    if "clientId = Some uid" for uid
    using c that by (auto simp: and_then_Inr_iff truthy_str_iff split: if_splits)
  have "t' = t @ [p]" using t' p(1) assms(2) by (simp add: save_row_new)
  moreover have "pm_direction p = Inbound \<longrightarrow> pm_clientId p \<noteq> None"
    using c guards(1) p(4) by (auto simp: and_then_Inr_iff) (metis)
  moreover have "\<exists>u \<in> set users. us_id u = uid \<and> us_tenantId u = tenant
      \<and> (CLIENT \<in> set (nullish (us_roles u) [])
         \<or> (\<exists>person \<in> set entities. cd_clientId dto = Some (en_id person) \<and> en_type person = Person
              \<and> to_lower (us_email u) = to_lower (the (en_email person))))"
    if uid: "pm_clientId p = Some uid" for uid
  proof -
    obtain s where s: "cd_clientId dto = Some s" "resolveClientUserId users entities tenant s = Inr uid"
      using resolved [of uid] p(4) uid by auto
    from resolveClientUserId_Inr [OF s(2)] show ?thesis using s(1) by blast
  qed
  ultimately show ?thesis using p guards by simp
qed

theorem created_payment_witness:
  "\<exists>p t'. create_payment [\<lparr>us_id = ''u9'', us_tenantId = ''t'', us_email = ''Ada@x.org'', us_roles = Some [CLIENT]\<rparr>]
      [\<lparr>en_id = ''e1'', en_tenantId = ''t'', en_type = Person, en_email = Some ''ada@X.org'',
        en_firstName = None, en_assignedTo = None, en_subjectEmail = None\<rparr>]
      ''p1'' 5 ''t''
      \<lparr>cd_direction = None, cd_clientId = Some ''e1'', cd_payee = None, cd_entityId = None,
       cd_amountMinor = 900, cd_currency = ''aud'', cd_description = ''fee'', cd_reference = None,
       cd_dueDate = None, cd_feeKind = None\<rparr> [] = Inr (p, t')
    \<and> t' = [] @ [p] \<and> pm_clientId p = Some ''u9'' \<and> pm_currency p = ''AUD''"
proof -
  let ?users = "[\<lparr>us_id = ''u9'', us_tenantId = ''t'', us_email = ''Ada@x.org'', us_roles = Some [CLIENT]\<rparr>]"
  let ?entities = "[\<lparr>en_id = ''e1'', en_tenantId = ''t'', en_type = Person, en_email = Some ''ada@X.org'',
        en_firstName = None, en_assignedTo = None, en_subjectEmail = None\<rparr>]"
  let ?dto = "\<lparr>cd_direction = None, cd_clientId = Some ''e1'', cd_payee = None, cd_entityId = None,
       cd_amountMinor = 900, cd_currency = ''aud'', cd_description = ''fee'', cd_reference = None,
       cd_dueDate = None, cd_feeKind = None\<rparr>"
  have "resolveClientUserId ?users ?entities ''t'' ''e1'' = Inr ''u9''" by code_simp
  then obtain p t' where run: "create_payment ?users ?entities ''p1'' 5 ''t'' ?dto [] = Inr (p, t')"
    and "pm_clientId p = Some ''u9''" "pm_currency p = to_upper ''aud''"
    by (auto simp: create_payment_def Let_def)
  moreover have "to_upper ''aud'' = ''AUD''" by code_simp
  ultimately show ?thesis using created_payment [OF run] by (intro exI [of _ p] exI [of _ t']) simp
qed

text \<open>
  Naming a person record resolves a charge to whichever user of the tenant has that
  e-mail address, with no look at their roles: a staff account is refused when its id is given
  directly and accepted when a person record shares its address.
\<close>

theorem person_record_resolves_to_staff:
  "resolveClientUserId [\<lparr>us_id = ''s1'', us_tenantId = ''t'', us_email = ''sam@firm.org'', us_roles = Some [STAFF]\<rparr>]
      entities ''t'' ''s1'' = Inl StaffAccount
   \<and> resolveClientUserId [\<lparr>us_id = ''s1'', us_tenantId = ''t'', us_email = ''sam@firm.org'', us_roles = Some [STAFF]\<rparr>]
      [\<lparr>en_id = ''e1'', en_tenantId = ''t'', en_type = Person, en_email = Some ''sam@firm.org'',
        en_firstName = None, en_assignedTo = None, en_subjectEmail = None\<rparr>] ''t'' ''e1'' = Inr ''s1''"
  by (simp add: resolveClientUserId_def)

end
