(* ===== verification/FeeSchedule.thy ===== *)
theory FeeSchedule
  imports Payments
begin

text \<open>
  \<^verbatim>\<open>src/billing/fee-schedule.service.ts\<close>: the expansion of a pack's fees and payment plans
  into rows of the payments table, the tenant's own prices for firm fees, and the rows that hold
  a case at a workflow step.

  The pack is what \<open>VerticalPackService.section\<close> returns for the vertical: an argument. Amounts
  are integers; the code's numbers hold them exactly while \<open>amount * 10000\<close> and
  \<open>amount * applicants\<close> stay within \<open>2^53\<close>.
\<close>

section \<open>The pack's price list\<close>

datatype fee_basis = Per_case | Per_applicant | Per_dependent

record fee_def =
  fd_key :: str
  fd_label :: str
  fd_kind :: "fee_kind option"
  fd_amountMinor :: int
  fd_currency :: str
  fd_basis :: "fee_basis option"
  fd_refundable :: "bool option"
  fd_reference :: "str option"
  fd_atStep :: "str option"

datatype plan_type = Upfront | Installments | Stage_gated

record plan_stage =
  ps_atStep :: str
  ps_portionBps :: int
  ps_label :: "str option"

record plan_def =
  pd_key :: str
  pd_label :: str
  pd_type :: "plan_type option"
  pd_installmentCount :: "int option"
  pd_intervalDays :: "int option"
  pd_stages :: "plan_stage list option"
  pd_blockProgressOnArrears :: "bool option"

record price_pack =
  pk_fees :: "fee_def list option"
  pk_paymentPlans :: "plan_def list option"

record fee_override =
  fo_id :: str
  fo_tenantId :: str
  fo_feeKey :: str
  fo_amountMinor :: int
  fo_currency :: str
  fo_active :: bool
  fo_updatedBy :: str

interpretation override_repo:
  repository fo_id "by_key fo_id" "save_row fo_id" "remove_row fo_id" "keys_distinct fo_id"
  by unfold_locales (auto simp: table_simps dest: by_key_SomeD)

datatype fee_error =
    FeesNotDefined "str option" "str list"
  | PlanNotDefined "str option" str
  | MixedCurrencies "str list"
  | StagesDoNotSum str int
  | ClientRefused pay_error
  | FeeNotDefined "str option" str
  | NotAFirmFee str "fee_kind option"
  | DuplicateOverride str str

section \<open>Tenant prices\<close>

definition withOverrides :: "fee_override list \<Rightarrow> str \<Rightarrow> fee_def list \<Rightarrow> fee_def list" where
  "withOverrides ovs tenantId fees =
     (let firmKeys = map fd_key (filter (\<lambda>f. fd_kind f = Some Firm) fees)
      in if firmKeys = [] then fees
         else let overrides = find_where (\<lambda>o'. fo_tenantId o' = tenantId
                    \<and> fo_feeKey o' \<in> set firmKeys \<and> fo_active o') ovs
              in if overrides = [] then fees
                 else map (\<lambda>f. case (if fd_kind f = Some Firm
                                      then map_get fo_feeKey overrides (fd_key f) else None) of
                                  Some ov \<Rightarrow> f\<lparr>fd_amountMinor := fo_amountMinor ov,
                                               fd_currency := fo_currency ov\<rparr>
                                | None \<Rightarrow> f) fees)"

definition catalogue ::
  "(str option \<Rightarrow> price_pack) \<Rightarrow> fee_override list \<Rightarrow> str option \<Rightarrow> str
   \<Rightarrow> fee_def list \<times> plan_def list" where
  "catalogue packs ovs vertical tenantId =
     (withOverrides ovs tenantId (nullish (pk_fees (packs vertical)) []),
      nullish (pk_paymentPlans (packs vertical)) [])"

definition feesFor ::
  "(str option \<Rightarrow> price_pack) \<Rightarrow> fee_override list \<Rightarrow> str \<Rightarrow> str option \<Rightarrow> str list
   \<Rightarrow> fee_error + fee_def list" where
  "feesFor packs ovs tenantId vertical keys =
     (let all = nullish (pk_fees (packs vertical)) [];
          missing = filter (\<lambda>k. map_get fd_key all k = None) keys
      in if missing \<noteq> [] then Inl (FeesNotDefined vertical missing)
         else Inr (withOverrides ovs tenantId (map (\<lambda>k. the (map_get fd_key all k)) keys)))"

definition planFor ::
  "(str option \<Rightarrow> price_pack) \<Rightarrow> str option \<Rightarrow> str \<Rightarrow> fee_error + plan_def" where
  "planFor packs vertical key =
     (case find_one (\<lambda>p. pd_key p = key) (nullish (pk_paymentPlans (packs vertical)) []) of
        None \<Rightarrow> Inl (PlanNotDefined vertical key) | Some p \<Rightarrow> Inr p)"

section \<open>Splitting one fee\<close>

record expand_request =
  er_tenantId :: str
  er_vertical :: "str option"
  er_entityId :: str
  er_clientId :: str
  er_feeKeys :: "str list"
  er_planKey :: "str option"
  er_applicants :: "int option"
  er_dependents :: "int option"
  er_startDate :: "instant option"
  er_reference :: "str option"

definition amountFor :: "fee_def \<Rightarrow> expand_request \<Rightarrow> int" where
  "amountFor fee request =
     (case nullish (fd_basis fee) Per_case of
        Per_applicant \<Rightarrow> fd_amountMinor fee * max 1 (nullish (er_applicants request) 1)
      | Per_dependent \<Rightarrow> fd_amountMinor fee * max 0 (nullish (er_dependents request) 0)
      | Per_case \<Rightarrow> fd_amountMinor fee)"

record portion =
  po_amountMinor :: int
  po_label :: str
  po_dueDate :: "instant option"
  po_atStep :: "str option"

definition stage_label :: "fee_def \<Rightarrow> plan_stage \<Rightarrow> str" where
  "stage_label fee stage =
     fd_label fee @ '' '' @ em_dash @ '' '' @
       (if truthy_str (ps_label stage) then the (ps_label stage) else ''at '' @ ps_atStep stage)"

text \<open>The stages in order, with what the earlier ones took.\<close>

fun stage_portions :: "fee_def \<Rightarrow> int \<Rightarrow> int \<Rightarrow> plan_stage list \<Rightarrow> portion list" where
  "stage_portions fee amount allocated [] = []"
| "stage_portions fee amount allocated (stage # rest) =
     (let p = (if rest = [] then amount - allocated else amount * ps_portionBps stage div 10000)
      in \<lparr>po_amountMinor = p, po_label = stage_label fee stage, po_dueDate = None,
          po_atStep = Some (ps_atStep stage)\<rparr>
         # stage_portions fee amount (allocated + p) rest)"

definition single_portion :: "fee_def \<Rightarrow> int \<Rightarrow> portion" where
  "single_portion fee amount =
     \<lparr>po_amountMinor = amount, po_label = fd_label fee, po_dueDate = None, po_atStep = fd_atStep fee\<rparr>"

definition instalment ::
  "fee_def \<Rightarrow> int \<Rightarrow> int \<Rightarrow> int \<Rightarrow> instant \<Rightarrow> nat \<Rightarrow> portion" where
  "instalment fee amount count intervalDays start i =
     (let base = amount div count; remainder = amount - base * count
      in \<lparr>po_amountMinor = (if i = 0 then base + remainder else base),
          po_label = fd_label fee @ '' '' @ em_dash @ '' instalment '' @ show_int (int i + 1)
                       @ '' of '' @ show_int count,
          po_dueDate = Some (start + int i * intervalDays * ms_per_day),
          po_atStep = fd_atStep fee\<rparr>)"

definition split_fee ::
  "fee_def \<Rightarrow> int \<Rightarrow> plan_def option \<Rightarrow> instant \<Rightarrow> fee_error + portion list" where
  "split_fee fee amount plan start =
     (let single = [single_portion fee amount]
      in case plan of
           None \<Rightarrow> Inr single
         | Some pl \<Rightarrow>
             (case nullish (pd_type pl) Upfront of
                Upfront \<Rightarrow> Inr single
              | Installments \<Rightarrow>
                  (let count = max 1 (nullish (pd_installmentCount pl) 1)
                   in if count = 1 then Inr single
                      else Inr (map (instalment fee amount count (nullish (pd_intervalDays pl) 30) start)
                                  [0..<nat count]))
              | Stage_gated \<Rightarrow>
                  (let stages = nullish (pd_stages pl) []
                   in if stages = [] then Inr single
                      else let totalBps = sum_list (map ps_portionBps stages)
                           in if totalBps \<noteq> 10000 then Inl (StagesDoNotSum (pd_key pl) totalBps)
                              else Inr (stage_portions fee amount 0 stages))))"

section \<open>Expanding a schedule\<close>

text \<open>
  The row built for one portion. The id and creation time come from the database at the save;
  the direction is the column's default.
\<close>

definition fee_row ::
  "expand_request \<Rightarrow> str \<Rightarrow> plan_def option \<Rightarrow> fee_def \<Rightarrow> portion \<Rightarrow> payment" where
  "fee_row request clientUserId plan fee portion =
     \<lparr>pm_id = [], pm_tenantId = er_tenantId request, pm_clientId = Some clientUserId,
      pm_direction = Inbound, pm_payee = None, pm_entityId = Some (er_entityId request),
      pm_amountMinor = po_amountMinor portion, pm_currency = to_upper (fd_currency fee),
      pm_status = PayPending, pm_description = po_label portion,
      pm_reference = er_reference request, pm_dueDate = po_dueDate portion, pm_paidAt = None,
      pm_feeKind = Some (nullish (fd_kind fee) Firm), pm_feeKey = Some (fd_key fee),
      pm_planKey = map_option pd_key plan, pm_atStep = po_atStep portion,
      pm_metadata = opt_prop ''feeReference'' (fd_reference fee)
        @ [(''refundable'', JBool (nullish (fd_refundable fee) False))],
      pm_createdAt = 0\<rparr>"

fun build_rows ::
  "expand_request \<Rightarrow> str \<Rightarrow> plan_def option \<Rightarrow> instant \<Rightarrow> fee_def list
   \<Rightarrow> fee_error + payment list" where
  "build_rows request clientUserId plan start [] = Inr []"
| "build_rows request clientUserId plan start (fee # fees) =
     (let amount = amountFor fee request
      in if amount \<le> 0 then build_rows request clientUserId plan start fees
         else and_then (split_fee fee amount plan start)
           (\<lambda>portions. and_then (build_rows request clientUserId plan start fees)
             (\<lambda>rows. Inr (map (fee_row request clientUserId plan fee) portions @ rows))))"

text \<open>\<open>save(rows)\<close>: one insert per row, each with its own id.\<close>

definition insert_rows ::
  "(nat \<Rightarrow> str) \<Rightarrow> instant \<Rightarrow> payment list \<Rightarrow> payment list" where
  "insert_rows newIds now rows =
     map (\<lambda>(i, r). r\<lparr>pm_id := newIds i, pm_createdAt := now\<rparr>) (enumerate 0 rows)"

definition existing_where :: "expand_request \<Rightarrow> payment \<Rightarrow> bool" where
  "existing_where request p \<longleftrightarrow>
     pm_tenantId p = er_tenantId request \<and> pm_entityId p = Some (er_entityId request)
     \<and> (\<exists>k \<in> set (er_feeKeys request). pm_feeKey p = Some k)"

text \<open>The world \<open>expand\<close> reads: packs, overrides, users, person records, the clock, new ids.\<close>

record fee_world =
  fw_packs :: "str option \<Rightarrow> price_pack"
  fw_overrides :: "fee_override list"
  fw_users :: "user list"
  fw_entities :: "entity list"
  fw_now :: instant
  fw_newIds :: "nat \<Rightarrow> str"

definition expand ::
  "fee_world \<Rightarrow> expand_request \<Rightarrow> payment list \<Rightarrow> fee_error + payment list \<times> payment list" where
  "expand w request t =
     and_then (feesFor (fw_packs w) (fw_overrides w) (er_tenantId request) (er_vertical request)
                 (er_feeKeys request)) (\<lambda>fees.
     and_then (if truthy_str (er_planKey request)
               then and_then (planFor (fw_packs w) (er_vertical request) (the (er_planKey request)))
                      (\<lambda>p. Inr (Some p))
               else Inr None) (\<lambda>plan.
     let existing = find_where (existing_where request) t
     in if existing \<noteq> [] then Inr (existing, t)
        else let currencies = remdups (map (\<lambda>f. to_upper (fd_currency f)) fees)
             in if 1 < length currencies then Inl (MixedCurrencies currencies)
                else and_then
                  (if er_clientId request \<noteq> []
                   then (case resolveClientUserId (fw_users w) (fw_entities w) (er_tenantId request)
                                (er_clientId request) of
                           Inl e \<Rightarrow> Inl (ClientRefused e) | Inr u \<Rightarrow> Inr u)
                   else Inr (er_clientId request)) (\<lambda>clientUserId.
                and_then (build_rows request clientUserId plan
                            (nullish (er_startDate request) (fw_now w)) fees) (\<lambda>rows.
                let saved = insert_rows (fw_newIds w) (fw_now w) rows
                in Inr (saved, t @ saved)))))"

section \<open>Rows that hold a step\<close>

definition arrearsBlocking ::
  "(str option \<Rightarrow> price_pack) \<Rightarrow> payment list \<Rightarrow> str \<Rightarrow> str option \<Rightarrow> str \<Rightarrow> str
   \<Rightarrow> payment list" where
  "arrearsBlocking packs t tenantId vertical entityId stepKey =
     (let plans = nullish (pk_paymentPlans (packs vertical)) [];
          gating = set (map pd_key (filter (\<lambda>p. nullish (pd_blockProgressOnArrears p) False) plans))
      in if gating = {} then []
         else let unpaid = find_where (\<lambda>p. pm_tenantId p = tenantId \<and> pm_entityId p = Some entityId
                    \<and> pm_atStep p = Some stepKey \<and> pm_status p \<in> {PayPending, PayFailed}) t
              in filter (\<lambda>p. truthy_str (pm_planKey p) \<and> the (pm_planKey p) \<in> gating) unpaid)"

section \<open>Setting the tenant's prices\<close>

record override_request =
  ov_feeKey :: str
  ov_amountMinor :: int
  ov_currency :: str

datatype audit_action = AuditCreate | AuditUpdate | AuditDelete

record override_event =
  oe_tenantId :: str
  oe_userId :: str
  oe_action :: audit_action
  oe_entityId :: "str option"
  oe_description :: str
  oe_feeKey :: str
  oe_amountMinor :: "int option"
  oe_currency :: "str option"
  oe_previousAmountMinor :: "int option"

record override_state =
  os_rows :: "fee_override list"
  os_events :: "override_event list"

text \<open>The first entry of the batch that may not be overridden.\<close>

fun check_overrides ::
  "fee_def list \<Rightarrow> str option \<Rightarrow> override_request list \<Rightarrow> fee_error option" where
  "check_overrides packFees vertical [] = None"
| "check_overrides packFees vertical (r # rs) =
     (case map_get fd_key packFees (ov_feeKey r) of
        None \<Rightarrow> Some (FeeNotDefined vertical (ov_feeKey r))
      | Some def \<Rightarrow> (if fd_kind def \<noteq> Some Firm then Some (NotAFirmFee (ov_feeKey r) (fd_kind def))
                    else check_overrides packFees vertical rs))"

text \<open>
  The removals. The id in the event is read from the entity after \<open>Repository.remove\<close>;
  \<open>idAfterRemove\<close> is what TypeORM leaves there.
\<close>

definition removed_event ::
  "(str \<Rightarrow> str option) \<Rightarrow> str \<Rightarrow> str \<Rightarrow> fee_override \<Rightarrow> override_event" where
  "removed_event idAfterRemove tenantId updatedBy row =
     \<lparr>oe_tenantId = tenantId, oe_userId = updatedBy, oe_action = AuditDelete,
      oe_entityId = idAfterRemove (fo_id row),
      oe_description = ''Fee override for '' @ [CHR 0x27] @ fo_feeKey row @ [CHR 0x27]
        @ '' removed '' @ em_dash @ '' reverting to the pack default.'',
      oe_feeKey = fo_feeKey row, oe_amountMinor = None, oe_currency = None,
      oe_previousAmountMinor = Some (fo_amountMinor row)\<rparr>"

fun remove_stale ::
  "(str \<Rightarrow> str option) \<Rightarrow> str \<Rightarrow> str \<Rightarrow> str set \<Rightarrow> fee_override list \<Rightarrow> override_state
   \<Rightarrow> override_state" where
  "remove_stale idAfterRemove tenantId updatedBy desiredKeys [] st = st"
| "remove_stale idAfterRemove tenantId updatedBy desiredKeys (row # rows) st =
     remove_stale idAfterRemove tenantId updatedBy desiredKeys rows
       (if fo_feeKey row \<in> desiredKeys then st
        else st\<lparr>os_rows := remove_row fo_id (fo_id row) (os_rows st),
                os_events := os_events st @ [removed_event idAfterRemove tenantId updatedBy row]\<rparr>)"

definition stored_event ::
  "str \<Rightarrow> str \<Rightarrow> fee_override option \<Rightarrow> fee_override \<Rightarrow> override_request \<Rightarrow> override_event" where
  "stored_event tenantId updatedBy prior stored r =
     \<lparr>oe_tenantId = tenantId, oe_userId = updatedBy,
      oe_action = (if prior = None then AuditCreate else AuditUpdate),
      oe_entityId = Some (fo_id stored),
      oe_description = ''Fee override set for '' @ [CHR 0x27] @ ov_feeKey r @ [CHR 0x27] @ '': ''
        @ show_int (ov_amountMinor r) @ '' '' @ fo_currency stored @ ''.'',
      oe_feeKey = ov_feeKey r, oe_amountMinor = Some (ov_amountMinor r),
      oe_currency = Some (fo_currency stored),
      oe_previousAmountMinor = map_option fo_amountMinor prior\<rparr>"

text \<open>
  The upserts. \<open>existingByKey\<close> is the map read before the loop: its entries are the entities
  the loop writes to (so are those already in \<open>saved\<close>), and a key that had no row stays absent
  from it. The unique index on
  \<open>(tenantId, feeKey)\<close> refuses a second insert.
\<close>

fun upsert_all ::
  "(nat \<Rightarrow> str) \<Rightarrow> str \<Rightarrow> str \<Rightarrow> nat \<Rightarrow> override_request list \<Rightarrow> (str \<Rightarrow> fee_override option)
   \<Rightarrow> override_state \<Rightarrow> fee_override list \<Rightarrow> override_state \<times> (fee_error + fee_override list)" where
  "upsert_all newIds tenantId updatedBy n [] existingByKey st saved = (st, Inr saved)"
| "upsert_all newIds tenantId updatedBy n (r # rs) existingByKey st saved =
     (case existingByKey (ov_feeKey r) of
        Some prior \<Rightarrow>
          (let row = prior\<lparr>fo_amountMinor := ov_amountMinor r, fo_currency := to_upper (ov_currency r),
                           fo_active := True, fo_updatedBy := updatedBy\<rparr>
           in upsert_all newIds tenantId updatedBy n rs (existingByKey(ov_feeKey r \<mapsto> row))
                (st\<lparr>os_rows := save_row fo_id row (os_rows st),
                    os_events := os_events st @ [stored_event tenantId updatedBy (Some prior) row r]\<rparr>)
                (map (\<lambda>x. if fo_id x = fo_id row then row else x) saved @ [row]))
      | None \<Rightarrow>
          (let row = \<lparr>fo_id = newIds n, fo_tenantId = tenantId, fo_feeKey = ov_feeKey r,
                      fo_amountMinor = ov_amountMinor r, fo_currency = to_upper (ov_currency r),
                      fo_active = True, fo_updatedBy = updatedBy\<rparr>
           in if \<exists>x \<in> set (os_rows st). fo_tenantId x = tenantId \<and> fo_feeKey x = ov_feeKey r
              then (st, Inl (DuplicateOverride tenantId (ov_feeKey r)))
              else upsert_all newIds tenantId updatedBy (Suc n) rs existingByKey
                (st\<lparr>os_rows := save_row fo_id row (os_rows st),
                    os_events := os_events st @ [stored_event tenantId updatedBy None row r]\<rparr>)
                (saved @ [row])))"

definition setOverrides ::
  "(str option \<Rightarrow> price_pack) \<Rightarrow> (str \<Rightarrow> str option) \<Rightarrow> (nat \<Rightarrow> str) \<Rightarrow> str \<Rightarrow> str option
   \<Rightarrow> override_request list \<Rightarrow> str \<Rightarrow> override_state
   \<Rightarrow> override_state \<times> (fee_error + fee_override list)" where
  "setOverrides packs idAfterRemove newIds tenantId vertical overrides updatedBy st =
     (case check_overrides (nullish (pk_fees (packs vertical)) []) vertical overrides of
        Some e \<Rightarrow> (st, Inl e)
      | None \<Rightarrow>
          (let existing = find_where (\<lambda>x. fo_tenantId x = tenantId) (os_rows st);
               st' = remove_stale idAfterRemove tenantId updatedBy (set (map ov_feeKey overrides))
                       existing st
           in upsert_all newIds tenantId updatedBy 0 overrides (map_get fo_feeKey existing) st' []))"


section \<open>Lemmas on splitting\<close>

lemma stage_portions_sum:
  "stages \<noteq> [] \<Longrightarrow> sum_list (map po_amountMinor (stage_portions fee amount allocated stages))
     = amount - allocated"
proof (induction stages arbitrary: allocated)
  case (Cons s stages)
  show ?case
  proof (cases "stages = []")
    case False
    with Cons.IH show ?thesis by (simp add: Let_def)
  qed (simp add: Let_def)
qed simp

lemma length_stage_portions [simp]: "length (stage_portions fee amount a stages) = length stages"
  by (induction stages arbitrary: a) (simp_all add: Let_def)

lemma instalments_sum:
  assumes "0 < count"
  shows "sum_list (map (\<lambda>i. po_amountMinor (instalment fee amount count d start i)) [0..<nat count]) = amount"
proof -
  define base where "base = amount div count"
  define n where "n = nat count - 1"
  have n: "nat count = Suc n" "int n = count - 1" using assms by (simp_all add: n_def)
  have tail: "map (\<lambda>i. po_amountMinor (instalment fee amount count d start i)) [1..<Suc n] = replicate n base"
  proof -
    have "map (\<lambda>i. po_amountMinor (instalment fee amount count d start i)) [1..<Suc n]
        = map (\<lambda>_. base) [1..<Suc n]"
      by (rule map_cong [OF refl]) (auto simp: instalment_def Let_def base_def)
    then show ?thesis by (simp only: map_replicate_const length_upt diff_Suc_1)
  qed
  have "[0..<nat count] = 0 # [1..<Suc n]" unfolding n by (subst upt_conv_Cons) simp_all
  then have "sum_list (map (\<lambda>i. po_amountMinor (instalment fee amount count d start i)) [0..<nat count])
      = (base + (amount - base * count)) + int n * base"
    using tail by (simp add: instalment_def Let_def base_def sum_list_replicate)
  also have "\<dots> = amount" by (simp add: n algebra_simps)
  finally show ?thesis .
qed

text \<open>The three shapes a split can take.\<close>

lemma split_fee_cases:
  assumes "split_fee fee amount plan start = Inr ps"
  obtains (single) "ps = [single_portion fee amount]"
  | (instalments) pl count d where "plan = Some pl" "pd_type pl = Some Installments"
      "count = max 1 (nullish (pd_installmentCount pl) 1)" "1 < count"
      "d = nullish (pd_intervalDays pl) 30"
      "ps = map (instalment fee amount count d start) [0..<nat count]"
  | (stages) pl stages where "plan = Some pl" "pd_type pl = Some Stage_gated" "stages = nullish (pd_stages pl) []"
      "stages \<noteq> []" "sum_list (map ps_portionBps stages) = 10000"
      "ps = stage_portions fee amount 0 stages"
proof (cases plan)
  case None
  with assms single show ?thesis by (simp add: split_fee_def)
next
  case (Some pl)
  note pl = this
  show ?thesis
  proof (cases "nullish (pd_type pl) Upfront")
    case Upfront
    with assms pl single show ?thesis by (simp add: split_fee_def Let_def)
  next
    case Installments
    then have ty: "pd_type pl = Some Installments" by (cases "pd_type pl") auto
    define count where "count = max 1 (nullish (pd_installmentCount pl) 1)"
    show ?thesis
    proof (cases "count = 1")
      case True
      with assms pl Installments single show ?thesis by (simp add: split_fee_def Let_def count_def)
    next
      case False
      then have "1 < count" by (simp add: count_def)
      moreover have "ps = map (instalment fee amount count (nullish (pd_intervalDays pl) 30) start) [0..<nat count]"
        using assms pl Installments False by (simp add: split_fee_def Let_def flip: count_def)
      ultimately show ?thesis using instalments [OF pl ty count_def _ refl] by blast
    qed
  next
    case Stage_gated
    then have ty: "pd_type pl = Some Stage_gated" by (cases "pd_type pl") auto
    show ?thesis
    proof (cases "nullish (pd_stages pl) [] = []")
      case True
      with assms pl Stage_gated single show ?thesis by (simp add: split_fee_def Let_def)
    next
      case False
      with assms pl Stage_gated have "sum_list (map ps_portionBps (nullish (pd_stages pl) [])) = 10000"
        "ps = stage_portions fee amount 0 (nullish (pd_stages pl) [])"
        by (auto simp: split_fee_def Let_def split: if_splits)
      with stages [OF pl ty refl False] show ?thesis by blast
    qed
  qed
qed

lemma split_sum:
  assumes "split_fee fee amount plan start = Inr ps"
  shows "sum_list (map po_amountMinor ps) = amount"
  using assms
proof (cases rule: split_fee_cases)
  case single
  then show ?thesis by (simp add: single_portion_def)
next
  case (instalments pl count d)
  then show ?thesis using instalments_sum [of count] by (simp add: comp_def)
next
  case (stages pl stages)
  then show ?thesis by (simp add: stage_portions_sum)
qed

lemma carry_allocated:
  fixes a q x y z :: int
  shows "10000 * a + x + y \<le> z \<Longrightarrow> 10000 * q \<le> x \<Longrightarrow> 10000 * (a + q) + y \<le> z"
  by simp

lemma carry_room:
  fixes a q y m :: int
  shows "10000 * (a + q) + y \<le> 10000 * m \<Longrightarrow> 0 \<le> y \<Longrightarrow> 0 \<le> q \<Longrightarrow> a + q \<le> m \<and> a \<le> m"
  by simp

lemma stage_portions_bounds:
  assumes "\<And>s. s \<in> set stages \<Longrightarrow> 0 \<le> ps_portionBps s" and "0 \<le> amount"
    and "10000 * allocated + amount * sum_list (map ps_portionBps stages) \<le> 10000 * amount"
    and "p \<in> set (stage_portions fee amount allocated stages)" and "0 \<le> allocated"
  shows "0 \<le> po_amountMinor p \<and> po_amountMinor p \<le> amount"
  using assms
proof (induction stages arbitrary: allocated)
  case (Cons s stages)
  define q where "q = amount * ps_portionBps s div 10000"
  have bps: "0 \<le> ps_portionBps s" "0 \<le> sum_list (map ps_portionBps stages)"
    using Cons.prems(1) by (auto intro!: sum_list_nonneg)
  have pos: "0 \<le> amount * ps_portionBps s" "0 \<le> amount * sum_list (map ps_portionBps stages)"
    using bps Cons.prems(2) by simp_all
  have q: "0 \<le> q" "10000 * q \<le> amount * ps_portionBps s" using pos by (simp_all add: q_def)
  have bound: "10000 * allocated + amount * ps_portionBps s + amount * sum_list (map ps_portionBps stages)
      \<le> 10000 * amount"
    using Cons.prems(3) by (simp add: distrib_left)
  have le: "10000 * (allocated + q) + amount * sum_list (map ps_portionBps stages) \<le> 10000 * amount"
    by (rule carry_allocated [OF bound q(2)])
  have room: "allocated + q \<le> amount" "allocated \<le> amount" using carry_room [OF le pos(2) q(1)] by simp_all
  show ?case
  proof (cases "stages = []")
    case True
    with Cons.prems(4,5) room show ?thesis by (auto simp: Let_def)
  next
    case False
    with Cons.prems(4) have "po_amountMinor p = q \<or> p \<in> set (stage_portions fee amount (allocated + q) stages)"
      by (auto simp: Let_def q_def)
    moreover have "0 \<le> po_amountMinor p \<and> po_amountMinor p \<le> amount"
      if "p \<in> set (stage_portions fee amount (allocated + q) stages)"
      by (rule Cons.IH [OF _ Cons.prems(2) le that]) (use Cons.prems q in auto)
    ultimately show ?thesis using q(1) room Cons.prems(5) by auto
  qed
qed simp

text \<open>How far a stage's portion may be from its exact share.\<close>

lemma stage_portions_share:
  assumes "i < length stages"
    and "10000 * allocated + amount * sum_list (map ps_portionBps stages) \<le> 10000 * amount"
    and "10000 * amount \<le> 10000 * allocated + amount * sum_list (map ps_portionBps stages) + 9999 * k" "0 \<le> k"
  shows "amount * ps_portionBps (stages ! i) - 9999 \<le> 10000 * po_amountMinor (stage_portions fee amount allocated stages ! i)
     \<and> 10000 * po_amountMinor (stage_portions fee amount allocated stages ! i)
         \<le> amount * ps_portionBps (stages ! i) + 9999 * (k + int (length stages) - 1)"
  using assms
proof (induction stages arbitrary: allocated i k)
  case (Cons s stages)
  define a where "a = amount * ps_portionBps s"
  define q where "q = a div 10000"
  define rest where "rest = amount * sum_list (map ps_portionBps stages)"
  have q: "10000 * q \<le> a" "a \<le> 10000 * q + 9999" by (simp_all add: q_def)
  have split: "amount * sum_list (map ps_portionBps (s # stages)) = a + rest"
    by (simp add: a_def rest_def distrib_left)
  have lo: "10000 * allocated + (a + rest) \<le> 10000 * amount"
    and hi: "10000 * amount \<le> 10000 * allocated + (a + rest) + 9999 * k"
    using Cons.prems(2,3) unfolding split by simp_all
  show ?case
  proof (cases "stages = []")
    case True
    then have "rest = 0" "i = 0" using Cons.prems(1) by (simp_all add: rest_def)
    then show ?thesis using True lo hi by (simp add: Let_def a_def)
  next
    case False
    show ?thesis
    proof (cases i)
      case 0
      have "0 \<le> 9999 * (k + int (length stages))" using Cons.prems(4) by simp
      with 0 False q show ?thesis by (simp add: Let_def a_def q_def)
    next
      case (Suc j)
      have IH: "amount * ps_portionBps (stages ! j) - 9999
            \<le> 10000 * po_amountMinor (stage_portions fee amount (allocated + q) stages ! j)
          \<and> 10000 * po_amountMinor (stage_portions fee amount (allocated + q) stages ! j)
            \<le> amount * ps_portionBps (stages ! j) + 9999 * ((k + 1) + int (length stages) - 1)"
        by (rule Cons.IH)
          (use Cons.prems(1,4) Suc lo hi q in \<open>simp_all flip: rest_def\<close>)
      have "stage_portions fee amount allocated (s # stages) ! i
          = stage_portions fee amount (allocated + q) stages ! j"
        using False Suc by (simp add: Let_def q_def a_def)
      with IH Suc show ?thesis by simp
    qed
  qed
qed simp

section \<open>Lemmas on prices\<close>

lemma find_one_filter: "find_one P (filter Q xs) = find_one (\<lambda>x. Q x \<and> P x) xs"
  by (induction xs) auto

lemma find_one_cong: "(\<And>x. x \<in> set xs \<Longrightarrow> P x = Q x) \<Longrightarrow> find_one P xs = find_one Q xs"
  by (induction xs) auto

lemma map_get_filter:
  assumes "k \<in> S"
  shows "map_get key (filter (\<lambda>x. P x \<and> key x \<in> S) xs) k = map_get key (filter P xs) k"
  unfolding map_get_def rev_filter find_one_filter using assms by (intro find_one_cong) auto

text \<open>One fee priced for a tenant: what \<open>withOverrides\<close> does to each element.\<close>

definition price_of :: "fee_override list \<Rightarrow> str \<Rightarrow> fee_def \<Rightarrow> fee_def" where
  "price_of ovs tenantId f =
     (if fd_kind f = Some Firm
      then (case map_get fo_feeKey (filter (\<lambda>x. fo_tenantId x = tenantId \<and> fo_active x) ovs) (fd_key f) of
              None \<Rightarrow> f
            | Some ov \<Rightarrow> f\<lparr>fd_amountMinor := fo_amountMinor ov, fd_currency := fo_currency ov\<rparr>)
      else f)"

lemma withOverrides_pointwise: "withOverrides ovs tenantId fees = map (price_of ovs tenantId) fees"
proof -
  define S where "S = set (map fd_key (filter (\<lambda>f. fd_kind f = Some Firm) fees))"
  define active where "active = filter (\<lambda>x. fo_tenantId x = tenantId \<and> fo_active x) ovs"
  define hits where "hits = find_where (\<lambda>o'. fo_tenantId o' = tenantId \<and> fo_feeKey o' \<in> S \<and> fo_active o') ovs"
  have hits: "hits = filter (\<lambda>x. (fo_tenantId x = tenantId \<and> fo_active x) \<and> fo_feeKey x \<in> S) ovs"
    by (auto simp: hits_def find_where_def intro: filter_cong)
  have look: "map_get fo_feeKey hits k = map_get fo_feeKey active k" if "k \<in> S" for k
    unfolding hits active_def by (rule map_get_filter [OF that])
  have firm: "fd_key f \<in> S" if "f \<in> set fees" "fd_kind f = Some Firm" for f
    using that by (auto simp: S_def)
  define reprice :: "fee_def \<Rightarrow> fee_def" where "reprice = (\<lambda>f. case (if fd_kind f = Some Firm
        then map_get fo_feeKey hits (fd_key f) else None) of
          Some ov \<Rightarrow> f\<lparr>fd_amountMinor := fo_amountMinor ov, fd_currency := fo_currency ov\<rparr> | None \<Rightarrow> f)"
  have same: "map reprice fees = map (price_of ovs tenantId) fees"
    by (rule map_cong [OF refl])
      (auto simp: reprice_def price_of_def look firm simp flip: active_def split: option.splits)
  have none: "map reprice fees = fees" if "hits = []"
    by (rule map_idI) (simp add: reprice_def that map_get_def)
  have empty: "hits = []" if "S = {}" using that by (simp add: hits)
  have "withOverrides ovs tenantId fees = (if S = {} then fees else if hits = [] then fees else map reprice fees)"
  proof (cases "S = {}")
    case True
    then show ?thesis by (simp add: withOverrides_def Let_def S_def)
  next
    case False
    then have "map fd_key (filter (\<lambda>f. fd_kind f = Some Firm) fees) \<noteq> []"
      by (auto simp: S_def filter_empty_conv)
    with False show ?thesis
      unfolding withOverrides_def Let_def S_def [symmetric] hits_def [symmetric] reprice_def [symmetric] by simp
  qed
  then show ?thesis using same none empty by metis
qed

lemma price_of_frame:
  "price_of ovs T f = f\<lparr>fd_amountMinor := fd_amountMinor (price_of ovs T f),
                        fd_currency := fd_currency (price_of ovs T f)\<rparr>"
  by (auto simp: price_of_def split: option.splits)

lemma price_of_key [simp]: "fd_key (price_of ovs T f) = fd_key f"
  by (auto simp: price_of_def split: option.splits)

lemma feesFor_Inr:
  "feesFor packs ovs T v keys = Inr fs \<longleftrightarrow>
     (\<forall>k \<in> set keys. map_get fd_key (nullish (pk_fees (packs v)) []) k \<noteq> None)
     \<and> fs = map (\<lambda>k. price_of ovs T (the (map_get fd_key (nullish (pk_fees (packs v)) []) k))) keys"
  by (auto simp: feesFor_def Let_def filter_empty_conv withOverrides_pointwise comp_def)

lemma feesFor_keys:
  assumes "feesFor packs ovs T v keys = Inr fs"
  shows "map fd_key fs = keys"
proof -
  have "fd_key (the (map_get fd_key xs k)) = k" if "map_get fd_key xs k \<noteq> None" for xs :: "fee_def list" and k
    using that map_get_SomeD [of fd_key xs k] by auto
  with assms show ?thesis unfolding feesFor_Inr by (auto intro!: map_idI simp: comp_def simp del: not_None_eq)
qed

section \<open>Lemmas on expansion\<close>

lemma build_rows_total:
  "build_rows request uid plan start fees = Inr rows \<Longrightarrow>
     sum_list (map pm_amountMinor rows) = sum_list (map (\<lambda>f. max 0 (amountFor f request)) fees)"
proof (induction fees arbitrary: rows)
  case (Cons f fees)
  show ?case
  proof (cases "amountFor f request \<le> 0")
    case True
    with Cons show ?thesis by (simp add: Let_def)
  next
    case False
    with Cons.prems obtain ps rs where
      ps: "split_fee f (amountFor f request) plan start = Inr ps"
      and rs: "build_rows request uid plan start fees = Inr rs"
      and rows: "rows = map (fee_row request uid plan f) ps @ rs"
      by (auto simp: Let_def and_then_Inr_iff)
    have "map (pm_amountMinor \<circ> fee_row request uid plan f) ps = map po_amountMinor ps"
      by (simp add: fee_row_def)
    then show ?thesis
      using False rows Cons.IH [OF rs] split_sum [OF ps]
      by (simp only: map_append sum_list_append map_map list.map sum_list.Cons)
  qed
qed simp

lemma build_rows_shape:
  "build_rows request uid plan start fees = Inr rows \<Longrightarrow> r \<in> set rows \<Longrightarrow>
     \<exists>f \<in> set fees. \<exists>p. r = fee_row request uid plan f p"
proof (induction fees arbitrary: rows)
  case (Cons f fees)
  show ?case
  proof (cases "amountFor f request \<le> 0")
    case True
    with Cons show ?thesis by (auto simp: Let_def)
  next
    case False
    with Cons.prems(1) obtain ps rs where
      rs: "build_rows request uid plan start fees = Inr rs"
      and rows: "rows = map (fee_row request uid plan f) ps @ rs"
      by (auto simp: Let_def and_then_Inr_iff)
    with Cons.prems(2) Cons.IH [OF rs] show ?thesis by auto
  qed
qed simp

lemma build_rows_refused:
  "build_rows request uid plan start fees = Inl e \<Longrightarrow>
     \<exists>f \<in> set fees. 0 < amountFor f request \<and> split_fee f (amountFor f request) plan start = Inl e"
  by (induction fees) (auto simp: Let_def and_then_Inl_iff split: if_splits)

lemma insert_rows_amounts [simp]:
  "map pm_amountMinor (insert_rows ids now rows) = map pm_amountMinor rows"
  unfolding insert_rows_def by (rule nth_equalityI) (simp_all add: split_beta nth_enumerate_eq)

lemma insert_rows_empty [simp]: "insert_rows ids now rows = [] \<longleftrightarrow> rows = []"
  by (cases rows) (simp_all add: insert_rows_def)

lemma insert_rows_mem:
  assumes "r \<in> set (insert_rows ids now rows)"
  obtains r0 i where "r0 \<in> set rows" "r = r0\<lparr>pm_id := ids i, pm_createdAt := now\<rparr>"
proof -
  from assms obtain i where "i < length rows" "r = (rows ! i)\<lparr>pm_id := ids i, pm_createdAt := now\<rparr>"
    by (auto simp: insert_rows_def in_set_enumerate_eq)
  then show ?thesis using that [OF nth_mem] by blast
qed

text \<open>The plan a request names, as \<open>expand\<close> resolves it.\<close>

definition plan_of_request :: "fee_world \<Rightarrow> expand_request \<Rightarrow> fee_error + plan_def option" where
  "plan_of_request w request =
     (if truthy_str (er_planKey request)
      then and_then (planFor (fw_packs w) (er_vertical request) (the (er_planKey request))) (\<lambda>p. Inr (Some p))
      else Inr None)"

lemma expand_existing:
  assumes "feesFor (fw_packs w) (fw_overrides w) (er_tenantId request) (er_vertical request)
             (er_feeKeys request) = Inr fees"
    and "plan_of_request w request = Inr plan"
    and "find_where (existing_where request) t \<noteq> []"
  shows "expand w request t = Inr (find_where (existing_where request) t, t)"
  using assms unfolding expand_def plan_of_request_def by (simp add: Let_def)

lemma expand_new:
  assumes "expand w request t = Inr (saved, t')" and "find_where (existing_where request) t = []"
  obtains fees plan uid rows where
    "feesFor (fw_packs w) (fw_overrides w) (er_tenantId request) (er_vertical request)
       (er_feeKeys request) = Inr fees"
    "plan_of_request w request = Inr plan"
    "er_clientId request \<noteq> [] \<Longrightarrow>
       resolveClientUserId (fw_users w) (fw_entities w) (er_tenantId request) (er_clientId request) = Inr uid"
    "build_rows request uid plan (nullish (er_startDate request) (fw_now w)) fees = Inr rows"
    "saved = insert_rows (fw_newIds w) (fw_now w) rows" "t' = t @ saved"
  using assms unfolding expand_def plan_of_request_def [symmetric]
  by (auto simp: Let_def and_then_Inr_iff split: if_splits sum.splits)

lemma expand_new_rows:
  assumes "expand w request t = Inr (saved, t')" and "find_where (existing_where request) t = []"
  obtains fees plan uid where
    "feesFor (fw_packs w) (fw_overrides w) (er_tenantId request) (er_vertical request)
       (er_feeKeys request) = Inr fees"
    "plan_of_request w request = Inr plan"
    "er_clientId request \<noteq> [] \<Longrightarrow>
       resolveClientUserId (fw_users w) (fw_entities w) (er_tenantId request) (er_clientId request) = Inr uid"
    "t' = t @ saved"
    "sum_list (map pm_amountMinor saved) = sum_list (map (\<lambda>f. max 0 (amountFor f request)) fees)"
    "\<And>r. r \<in> set saved \<Longrightarrow> pm_tenantId r = er_tenantId request \<and> pm_entityId r = Some (er_entityId request)
      \<and> pm_direction r = Inbound \<and> pm_status r = PayPending \<and> pm_clientId r = Some uid
      \<and> (\<exists>f \<in> set fees. pm_feeKey r = Some (fd_key f) \<and> fd_key f \<in> set (er_feeKeys request))"
proof -
  from expand_new [OF assms] obtain fees plan uid rows where
    fees: "feesFor (fw_packs w) (fw_overrides w) (er_tenantId request) (er_vertical request)
       (er_feeKeys request) = Inr fees"
    and plan: "plan_of_request w request = Inr plan"
    and uid: "er_clientId request \<noteq> [] \<Longrightarrow>
       resolveClientUserId (fw_users w) (fw_entities w) (er_tenantId request) (er_clientId request) = Inr uid"
    and rows: "build_rows request uid plan (nullish (er_startDate request) (fw_now w)) fees = Inr rows"
    and saved: "saved = insert_rows (fw_newIds w) (fw_now w) rows" "t' = t @ saved"
    by metis
  have keys: "fd_key f \<in> set (er_feeKeys request)" if "f \<in> set fees" for f
    using feesFor_keys [OF fees] that by (metis image_eqI list.set_map)
  have shape: "pm_tenantId r = er_tenantId request \<and> pm_entityId r = Some (er_entityId request)
      \<and> pm_direction r = Inbound \<and> pm_status r = PayPending \<and> pm_clientId r = Some uid
      \<and> (\<exists>f \<in> set fees. pm_feeKey r = Some (fd_key f) \<and> fd_key f \<in> set (er_feeKeys request))"
    if r: "r \<in> set saved" for r
  proof -
    from r obtain r0 i where r0: "r0 \<in> set rows" "r = r0\<lparr>pm_id := fw_newIds w i, pm_createdAt := fw_now w\<rparr>"
      unfolding saved(1) by (rule insert_rows_mem)
    from build_rows_shape [OF rows r0(1)] obtain f p where "f \<in> set fees" "r0 = fee_row request uid plan f p"
      by blast
    with r0(2) keys show ?thesis by (auto simp: fee_row_def)
  qed
  have "sum_list (map pm_amountMinor saved) = sum_list (map (\<lambda>f. max 0 (amountFor f request)) fees)"
    using build_rows_total [OF rows] by (simp add: saved(1))
  from that [OF fees plan uid saved(2) this shape] show ?thesis .
qed

section \<open>Lemmas on the tenant's prices\<close>

text \<open>
  The table the unique index allows: one row per tenant and fee key, primary keys distinct.
\<close>

definition override_table :: "fee_override list \<Rightarrow> bool" where
  "override_table t \<longleftrightarrow> keys_distinct fo_id t \<and> distinct (map (\<lambda>x. (fo_tenantId x, fo_feeKey x)) t)"

definition tenant_row :: "str \<Rightarrow> fee_override list \<Rightarrow> str \<Rightarrow> fee_override option" where
  "tenant_row T t k = find_one (\<lambda>x. fo_tenantId x = T \<and> fo_feeKey x = k) t"

lemma tenant_row_iff:
  assumes "override_table t"
  shows "tenant_row T t k = Some x \<longleftrightarrow> x \<in> set t \<and> fo_tenantId x = T \<and> fo_feeKey x = k"
proof -
  have "inj_on (\<lambda>x. (fo_tenantId x, fo_feeKey x)) (set t)"
    using assms by (auto simp: override_table_def distinct_map)
  then have uniq: "y = x" if "x \<in> set t" "y \<in> set t" "fo_tenantId x = fo_tenantId y"
      "fo_feeKey x = fo_feeKey y" for x y
    using that by (auto simp: inj_on_def)
  show ?thesis
  proof
    assume "tenant_row T t k = Some x"
    then show "x \<in> set t \<and> fo_tenantId x = T \<and> fo_feeKey x = k"
      by (auto simp: tenant_row_def dest: find_one_SomeD)
  next
    assume x: "x \<in> set t \<and> fo_tenantId x = T \<and> fo_feeKey x = k"
    then have "tenant_row T t k \<noteq> None" by (auto simp: tenant_row_def find_one_None_iff)
    then obtain y where y: "tenant_row T t k = Some y" by auto
    then have "y \<in> set t \<and> fo_tenantId y = T \<and> fo_feeKey y = k"
      by (auto simp: tenant_row_def dest: find_one_SomeD)
    with x y uniq show "tenant_row T t k = Some x" by metis
  qed
qed

lemma map_get_tenant_row:
  assumes "override_table t" and "\<And>x. x \<in> set t \<Longrightarrow> fo_tenantId x = T \<Longrightarrow> Q x"
  shows "map_get fo_feeKey (filter (\<lambda>x. fo_tenantId x = T \<and> Q x) t) k = tenant_row T t k"
proof (cases "map_get fo_feeKey (filter (\<lambda>x. fo_tenantId x = T \<and> Q x) t) k")
  case None
  moreover from None assms(2) have "tenant_row T t k = None"
    by (auto simp: map_get_None_iff tenant_row_def find_one_None_iff)
  ultimately show ?thesis by simp
next
  case (Some x)
  from map_get_SomeD [OF this] have "tenant_row T t k = Some x"
    using assms(1) by (auto simp: tenant_row_iff)
  with Some show ?thesis by simp
qed

lemma override_table_filter: "override_table t \<Longrightarrow> override_table (filter P t)"
  by (simp add: override_table_def distinct_map_filter)

lemma tenant_row_remove:
  "tenant_row T (filter P t) k =
     find_one (\<lambda>x. P x \<and> fo_tenantId x = T \<and> fo_feeKey x = k) t"
  by (simp add: tenant_row_def find_one_filter)

text \<open>Saving over a row of the same tenant and key.\<close>

definition put_row ::
  "str \<Rightarrow> fee_override \<Rightarrow> (str \<Rightarrow> str \<Rightarrow> fee_override option) \<Rightarrow> str \<Rightarrow> str \<Rightarrow> fee_override option" where
  "put_row T row rows T' = (if T' = T then (rows T)(fo_feeKey row \<mapsto> row) else rows T')"

lemma tenant_row_update:
  assumes "override_table t" and "tenant_row T t (fo_feeKey row) = Some prior"
    and "fo_id row = fo_id prior" "fo_tenantId row = T"
  shows "override_table (save_row fo_id row t)
     \<and> (\<lambda>T'. tenant_row T' (save_row fo_id row t)) = put_row T row (\<lambda>T'. tenant_row T' t)"
proof -
  have prior: "prior \<in> set t" "fo_tenantId prior = T" "fo_feeKey prior = fo_feeKey row"
    using assms(1,2) by (auto simp: tenant_row_iff)
  have set: "set (save_row fo_id row t) = insert row {x \<in> set t. fo_id x \<noteq> fo_id row}"
    by (rule set_save_row) (use assms(1) in \<open>simp add: override_table_def\<close>)
  have only: "\<forall>x \<in> set t. fo_id x = fo_id row \<longrightarrow> x = prior"
    using assms(1,3) prior by (auto simp: override_table_def distinct_map inj_on_def)
  then have keys: "map (\<lambda>x. (fo_tenantId x, fo_feeKey x)) (save_row fo_id row t)
      = map (\<lambda>x. (fo_tenantId x, fo_feeKey x)) t"
    using prior(1) assms(3,4) prior(2,3) by (induction t) auto
  have wf: "override_table (save_row fo_id row t)"
    using assms(1) keys by (simp add: override_table_def keys_distinct_save)
  have "tenant_row T' (save_row fo_id row t) k = put_row T row (\<lambda>T'. tenant_row T' t) T' k" for T' k
  proof (cases "T' = T \<and> k = fo_feeKey row")
    case True
    with assms(4) set wf show ?thesis by (simp add: tenant_row_iff put_row_def)
  next
    case False
    have "tenant_row T' (save_row fo_id row t) k = Some x \<longleftrightarrow> tenant_row T' t k = Some x" for x
    proof -
      have "fo_id x \<noteq> fo_id row" if "x \<in> set t" "fo_tenantId x = T'" "fo_feeKey x = k"
        using that only False prior by metis
      moreover have "x \<noteq> row" if "fo_tenantId x = T'" "fo_feeKey x = k"
        using that False assms(4) by metis
      ultimately show ?thesis
        unfolding tenant_row_iff [OF wf] tenant_row_iff [OF assms(1)] set by blast
    qed
    then have "tenant_row T' (save_row fo_id row t) k = tenant_row T' t k"
      by (metis option.exhaust)
    with False show ?thesis by (auto simp: put_row_def)
  qed
  with wf show ?thesis by auto
qed

lemma find_one_snoc:
  "find_one P (xs @ [y]) = (case find_one P xs of None \<Rightarrow> (if P y then Some y else None) | Some x \<Rightarrow> Some x)"
  by (induction xs) auto

lemma tenant_row_insert:
  assumes "override_table t" and "tenant_row T t (fo_feeKey row) = None"
    and "fo_id row \<notin> fo_id ` set t" and "fo_tenantId row = T"
  shows "override_table (save_row fo_id row t)
     \<and> (\<lambda>T'. tenant_row T' (save_row fo_id row t)) = put_row T row (\<lambda>T'. tenant_row T' t)"
proof -
  have sv: "save_row fo_id row t = t @ [row]" by (rule save_row_new [OF assms(3)])
  have fresh: "\<forall>x \<in> set t. \<not> (fo_tenantId x = T \<and> fo_feeKey x = fo_feeKey row)"
    using assms(2) by (simp add: tenant_row_def find_one_None_iff)
  have wf: "override_table (t @ [row])"
    using assms fresh by (auto simp: override_table_def)
  have "tenant_row T' (t @ [row]) k = put_row T row (\<lambda>T'. tenant_row T' t) T' k" for T' k
    using assms(2,4) by (auto simp: tenant_row_def put_row_def find_one_snoc split: option.splits)
  with wf sv show ?thesis by auto
qed

lemma remove_stale_rows:
  "os_rows (remove_stale iar T u D ex st) =
     filter (\<lambda>x. \<forall>e \<in> set ex. fo_id e = fo_id x \<longrightarrow> fo_feeKey e \<in> D) (os_rows st)"
proof (induction ex arbitrary: st)
  case (Cons e ex)
  show ?case unfolding remove_stale.simps Cons.IH
    by (auto simp: remove_row_def intro!: filter_cong)
qed simp

text \<open>What the upserts leave, when the batch names each key once.\<close>

definition upserted ::
  "override_request list \<Rightarrow> str \<Rightarrow> fee_override option \<Rightarrow> fee_override option \<Rightarrow> str \<Rightarrow> bool" where
  "upserted rs u before after k =
     (case find_one (\<lambda>r. ov_feeKey r = k) rs of
        None \<Rightarrow> after = before
      | Some r \<Rightarrow> (\<exists>row. after = Some row \<and> fo_amountMinor row = ov_amountMinor r
          \<and> fo_currency row = to_upper (ov_currency r) \<and> fo_active row \<and> fo_updatedBy row = u))"

lemma upserted_Nil [simp]: "upserted [] u before after k \<longleftrightarrow> after = before"
  by (simp add: upserted_def)

lemma upserted_unnamed: "k \<notin> ov_feeKey ` set rs \<Longrightarrow> upserted rs u before after k \<Longrightarrow> after = before"
  by (auto simp: upserted_def find_one_None_iff split: option.splits dest: find_one_SomeD)

lemma upserted_Cons:
  "ov_feeKey r \<noteq> k \<Longrightarrow> upserted (r # rs) u before after k = upserted rs u before after k"
  by (simp add: upserted_def)

lemma upsert_all_rows:
  assumes "override_table (os_rows st)" and "distinct (map ov_feeKey rs)"
    and "\<And>k. k \<in> ov_feeKey ` set rs \<Longrightarrow> ex k = tenant_row T (os_rows st) k"
    and "\<And>m. n \<le> m \<Longrightarrow> newIds m \<notin> fo_id ` set (os_rows st)" and "inj newIds"
    and "upsert_all newIds T u n rs ex st saved = (st', res)"
  shows "override_table (os_rows st') \<and> (\<exists>s. res = Inr s)
    \<and> (\<forall>T'. T' \<noteq> T \<longrightarrow> tenant_row T' (os_rows st') = tenant_row T' (os_rows st))
    \<and> (\<forall>k. upserted rs u (tenant_row T (os_rows st) k) (tenant_row T (os_rows st') k) k)"
  using assms
proof (induction rs arbitrary: n ex st saved)
  case (Cons r rs)
  let ?k = "ov_feeKey r"
  obtain row n' ex' saved' where
    vals: "fo_feeKey row = ?k" "fo_amountMinor row = ov_amountMinor r" "fo_tenantId row = T"
      "fo_currency row = to_upper (ov_currency r)" "fo_active row" "fo_updatedBy row = u"
    and wf: "override_table (save_row fo_id row (os_rows st))"
    and rows: "(\<lambda>T'. tenant_row T' (save_row fo_id row (os_rows st))) = put_row T row (\<lambda>T'. tenant_row T' (os_rows st))"
    and ex': "\<And>k. k \<noteq> ?k \<Longrightarrow> ex' k = ex k"
    and ids: "\<And>m. n' \<le> m \<Longrightarrow> newIds m \<notin> fo_id ` set (save_row fo_id row (os_rows st))"
    and go: "\<exists>ev. upsert_all newIds T u n' rs ex'
        (st\<lparr>os_rows := save_row fo_id row (os_rows st), os_events := ev\<rparr>) saved' = (st', res)"
  proof (cases "ex ?k")
    case (Some prior)
    define row where "row = prior\<lparr>fo_amountMinor := ov_amountMinor r,
      fo_currency := to_upper (ov_currency r), fo_active := True, fo_updatedBy := u\<rparr>"
    have tr: "tenant_row T (os_rows st) ?k = Some prior" using Cons.prems(3) Some by simp
    then have p: "fo_tenantId prior = T" "fo_feeKey prior = ?k" "fo_id prior \<in> fo_id ` set (os_rows st)"
      using Cons.prems(1) by (auto simp: tenant_row_iff)
    have upd: "override_table (save_row fo_id row (os_rows st))
      \<and> (\<lambda>T'. tenant_row T' (save_row fo_id row (os_rows st))) = put_row T row (\<lambda>T'. tenant_row T' (os_rows st))"
      by (rule tenant_row_update [OF Cons.prems(1), of T row prior]) (use tr p in \<open>simp_all add: row_def\<close>)
    have ids: "newIds m \<notin> fo_id ` set (save_row fo_id row (os_rows st))" if "n \<le> m" for m
      using Cons.prems(4) [OF that] p(3) by (auto simp: keys_save row_def)
    show ?thesis
      by (rule that [of row "ex(?k \<mapsto> row)" n])
        (use upd ids p Some Cons.prems(6) in \<open>auto simp: row_def Let_def\<close>)
  next
    case None
    define row where "row = \<lparr>fo_id = newIds n, fo_tenantId = T, fo_feeKey = ?k,
      fo_amountMinor = ov_amountMinor r, fo_currency = to_upper (ov_currency r),
      fo_active = True, fo_updatedBy = u\<rparr>"
    have tr: "tenant_row T (os_rows st) ?k = None" using Cons.prems(3) None by simp
    have upd: "override_table (save_row fo_id row (os_rows st))
      \<and> (\<lambda>T'. tenant_row T' (save_row fo_id row (os_rows st))) = put_row T row (\<lambda>T'. tenant_row T' (os_rows st))"
      by (rule tenant_row_insert [OF Cons.prems(1), of T row])
        (use tr Cons.prems(4) in \<open>simp_all add: row_def\<close>)
    have ids: "newIds m \<notin> fo_id ` set (save_row fo_id row (os_rows st))" if "Suc n \<le> m" for m
      using Cons.prems(4) [of m] Cons.prems(5) that by (auto simp: keys_save row_def inj_eq)
    have nodup: "\<not> (\<exists>x \<in> set (os_rows st). fo_tenantId x = T \<and> fo_feeKey x = ?k)"
      using tr by (simp add: tenant_row_def find_one_None_iff)
    have step: "upsert_all newIds T u (Suc n) rs ex (st\<lparr>os_rows := save_row fo_id row (os_rows st),
        os_events := os_events st @ [stored_event T u None row r]\<rparr>) (saved @ [row]) = (st', res)"
      using Cons.prems(6) unfolding upsert_all.simps None option.case Let_def if_not_P [OF nodup] row_def .
    show ?thesis
      by (rule that [of row ex "Suc n"])
        (use upd ids step in \<open>auto simp: row_def [THEN arg_cong, of fo_feeKey] row_def\<close>)
  qed
  obtain ev where go: "upsert_all newIds T u n' rs ex'
      (st\<lparr>os_rows := save_row fo_id row (os_rows st), os_events := ev\<rparr>) saved' = (st', res)"
    using go by blast
  have tr: "tenant_row T' (save_row fo_id row (os_rows st)) k
      = put_row T row (\<lambda>T'. tenant_row T' (os_rows st)) T' k" for T' k
    using rows by (metis (mono_tags))
  have d: "?k \<notin> ov_feeKey ` set rs" "distinct (map ov_feeKey rs)" using Cons.prems(2) by auto
  have exk: "ex' k = tenant_row T (save_row fo_id row (os_rows st)) k" if "k \<in> ov_feeKey ` set rs" for k
  proof -
    have "k \<noteq> ?k" using that d(1) by metis
    moreover from that have "ex k = tenant_row T (os_rows st) k" by (intro Cons.prems(3)) simp
    ultimately show ?thesis by (simp add: ex' tr put_row_def vals)
  qed
  let ?rows = "save_row fo_id row (os_rows st)"
  have IH: "override_table (os_rows st') \<and> (\<exists>s. res = Inr s)
    \<and> (\<forall>T'. T' \<noteq> T \<longrightarrow> tenant_row T' (os_rows st') = tenant_row T' ?rows)
    \<and> (\<forall>k. upserted rs u (tenant_row T ?rows k) (tenant_row T (os_rows st') k) k)"
    using Cons.IH [OF _ d(2) _ _ Cons.prems(5) go] wf exk ids by simp
  have other: "tenant_row T' ?rows = tenant_row T' (os_rows st)" if "T' \<noteq> T" for T'
    using that by (simp add: fun_eq_iff tr put_row_def)
  have keyed: "upserted (r # rs) u (tenant_row T (os_rows st) k) (tenant_row T (os_rows st') k) k" for k
  proof (cases "?k = k")
    case True
    have "tenant_row T ?rows k = Some row" by (simp add: tr put_row_def vals True)
    moreover have "tenant_row T (os_rows st') k = tenant_row T ?rows k"
      using IH d(1) True upserted_unnamed by blast
    ultimately show ?thesis using vals True by (simp add: upserted_def)
  next
    case False
    then have "tenant_row T ?rows k = tenant_row T (os_rows st) k" by (simp add: tr put_row_def vals)
    with IH False show ?thesis by (metis upserted_Cons)
  qed
  show ?case using IH other keyed by simp
qed auto

lemma price_of_row:
  assumes "override_table t"
  shows "price_of t T f =
    (if fd_kind f = Some Firm
     then (case tenant_row T t (fd_key f) of
             None \<Rightarrow> f
           | Some x \<Rightarrow> if fo_active x
               then f\<lparr>fd_amountMinor := fo_amountMinor x, fd_currency := fo_currency x\<rparr> else f)
     else f)"
proof -
  let ?m = "map_get fo_feeKey (filter (\<lambda>x. fo_tenantId x = T \<and> fo_active x) t) (fd_key f)"
  have hit: "tenant_row T t (fd_key f) = Some x \<and> fo_active x" if "?m = Some x" for x
    using map_get_SomeD [OF that] assms by (auto simp: tenant_row_iff)
  have miss: "\<not> fo_active x" if "?m = None" "tenant_row T t (fd_key f) = Some x" for x
    using that assms by (fastforce simp: tenant_row_iff map_get_None_iff image_iff)
  show ?thesis
  proof (cases ?m)
    case None
    with miss show ?thesis by (auto simp: price_of_def split: option.splits)
  next
    case (Some x)
    with hit show ?thesis by (auto simp: price_of_def)
  qed
qed

lemma setOverrides_rows:
  assumes "override_table (os_rows st)"
    and "check_overrides (nullish (pk_fees (packs v)) []) v overrides = None"
    and "distinct (map ov_feeKey overrides)"
    and "\<And>m. newIds m \<notin> fo_id ` set (os_rows st)" and "inj newIds"
    and "setOverrides packs iar newIds T v overrides u st = (st', res)"
  shows "override_table (os_rows st') \<and> (\<exists>s. res = Inr s)
    \<and> (\<forall>T'. T' \<noteq> T \<longrightarrow> tenant_row T' (os_rows st') = tenant_row T' (os_rows st))
    \<and> (\<forall>k. if k \<in> ov_feeKey ` set overrides
           then upserted overrides u (tenant_row T (os_rows st) k) (tenant_row T (os_rows st') k) k
           else tenant_row T (os_rows st') k = None)"
proof -
  let ?D = "ov_feeKey ` set overrides"
  define ex where "ex = filter (\<lambda>x. fo_tenantId x = T) (os_rows st)"
  define mid where "mid = remove_stale iar T u ?D ex st"
  have keep: "(\<forall>e \<in> set ex. fo_id e = fo_id x \<longrightarrow> fo_feeKey e \<in> ?D)
      \<longleftrightarrow> fo_tenantId x \<noteq> T \<or> fo_feeKey x \<in> ?D" if "x \<in> set (os_rows st)" for x
    using that assms(1) by (auto simp: ex_def override_table_def distinct_map inj_on_def)
  have mid: "os_rows mid = filter (\<lambda>x. fo_tenantId x \<noteq> T \<or> fo_feeKey x \<in> ?D) (os_rows st)"
    unfolding mid_def remove_stale_rows by (rule filter_cong [OF refl]) (rule keep)
  have wf: "override_table (os_rows mid)" unfolding mid by (rule override_table_filter [OF assms(1)])
  have row: "tenant_row T' (os_rows mid) k
      = (if T' \<noteq> T \<or> k \<in> ?D then tenant_row T' (os_rows st) k else None)" for T' k
    unfolding mid tenant_row_remove
    by (auto simp: tenant_row_def find_one_None_iff intro: find_one_cong)
  have old: "map_get fo_feeKey ex k = tenant_row T (os_rows st) k" for k
    using map_get_tenant_row [OF assms(1), of T "\<lambda>_. True"] by (simp add: ex_def)
  have run: "upsert_all newIds T u 0 overrides (map_get fo_feeKey ex) mid [] = (st', res)"
    using assms(2,6) by (simp add: setOverrides_def mid_def ex_def find_where_def Let_def)
  have A: "override_table (os_rows st') \<and> (\<exists>s. res = Inr s)
    \<and> (\<forall>T'. T' \<noteq> T \<longrightarrow> tenant_row T' (os_rows st') = tenant_row T' (os_rows mid))
    \<and> (\<forall>k. upserted overrides u (tenant_row T (os_rows mid) k) (tenant_row T (os_rows st') k) k)"
  proof (rule upsert_all_rows [OF wf assms(3) _ _ assms(5) run])
    show "map_get fo_feeKey ex k = tenant_row T (os_rows mid) k" if "k \<in> ?D" for k
      using that by (simp add: row old)
    have "fo_id ` set (os_rows mid) \<subseteq> fo_id ` set (os_rows st)" by (auto simp: mid)
    with assms(4) show "newIds m \<notin> fo_id ` set (os_rows mid)" for m by blast
  qed
  have others: "tenant_row T' (os_rows mid) = tenant_row T' (os_rows st)" if "T' \<noteq> T" for T'
    using that by (simp add: row fun_eq_iff)
  have "tenant_row T (os_rows st') k = tenant_row T (os_rows mid) k" if "k \<notin> ?D" for k
    using A that upserted_unnamed by blast
  then have off: "tenant_row T (os_rows st') k = None" if "k \<notin> ?D" for k
    using that by (simp add: row)
  have at: "tenant_row T (os_rows mid) k = tenant_row T (os_rows st) k" if "k \<in> ?D" for k
    using that by (simp add: row)
  have "if k \<in> ?D then upserted overrides u (tenant_row T (os_rows st) k) (tenant_row T (os_rows st') k) k
      else tenant_row T (os_rows st') k = None" for k
    using A at off by (metis (full_types))
  with A others show ?thesis by simp
qed

section \<open>Sample data\<close>

definition gov_fee :: fee_def where
  "gov_fee = \<lparr>fd_key = ''gov'', fd_label = ''Visa charge'', fd_kind = Some Government,
     fd_amountMinor = 100001, fd_currency = ''aud'', fd_basis = Some Per_applicant,
     fd_refundable = None, fd_reference = Some ''MR 2.12'', fd_atStep = None\<rparr>"

definition firm_fee :: fee_def where
  "firm_fee = \<lparr>fd_key = ''firm'', fd_label = ''Professional fee'', fd_kind = Some Firm,
     fd_amountMinor = 350000, fd_currency = ''AUD'', fd_basis = None,
     fd_refundable = Some True, fd_reference = None, fd_atStep = Some ''lodge''\<rparr>"

definition thirds_plan :: plan_def where
  "thirds_plan = \<lparr>pd_key = ''thirds'', pd_label = ''Thirds'', pd_type = Some Stage_gated,
     pd_installmentCount = None, pd_intervalDays = None,
     pd_stages = Some [\<lparr>ps_atStep = ''open'', ps_portionBps = 3333, ps_label = None\<rparr>,
       \<lparr>ps_atStep = ''lodge'', ps_portionBps = 3333, ps_label = Some ''on lodgement''\<rparr>,
       \<lparr>ps_atStep = ''grant'', ps_portionBps = 3334, ps_label = None\<rparr>],
     pd_blockProgressOnArrears = Some True\<rparr>"

definition three_plan :: plan_def where
  "three_plan = \<lparr>pd_key = ''three'', pd_label = ''Three'', pd_type = Some Installments,
     pd_installmentCount = Some 3, pd_intervalDays = None, pd_stages = None,
     pd_blockProgressOnArrears = None\<rparr>"

definition sample_pack :: "str option \<Rightarrow> price_pack" where
  "sample_pack v = \<lparr>pk_fees = Some [gov_fee, firm_fee], pk_paymentPlans = Some [thirds_plan, three_plan]\<rparr>"

definition sample_request :: "str list \<Rightarrow> expand_request" where
  "sample_request keys = \<lparr>er_tenantId = ''t'', er_vertical = Some ''immigration'', er_entityId = ''e'',
     er_clientId = [], er_feeKeys = keys, er_planKey = None, er_applicants = Some 2,
     er_dependents = None, er_startDate = None, er_reference = None\<rparr>"

definition sample_world :: fee_world where
  "sample_world = \<lparr>fw_packs = sample_pack, fw_overrides = [], fw_users = [], fw_entities = [],
     fw_now = 0, fw_newIds = (\<lambda>i. CHR ''f'' # show_int (int i))\<rparr>"

lemmas fee_samples = gov_fee_def firm_fee_def thirds_plan_def three_plan_def sample_pack_def
  sample_request_def sample_world_def

lemmas expand_defs = expand_def feesFor_def planFor_def map_get_def withOverrides_def find_where_def
  existing_where_def split_fee_def single_portion_def amountFor_def fee_row_def insert_rows_def
  opt_prop_def

section \<open>Properties\<close>

text \<open>
  Claim C4: however a plan splits a fee (one payment, instalments, stages), the portions add up
  to the fee exactly: nothing is lost or added by rounding.
\<close>

theorem split_conserves_the_fee:
  "split_fee fee amount plan start = Inr ps \<Longrightarrow> sum_list (map po_amountMinor ps) = amount"
  by (rule split_sum)

theorem split_conserves_the_fee_witness:
  "sum_list (map po_amountMinor (stage_portions gov_fee 100001 0 (nullish (pd_stages thirds_plan) []))) = 100001"
  by (rule split_conserves_the_fee [of gov_fee 100001 "Some thirds_plan" 0])
    (simp add: split_fee_def thirds_plan_def)

text \<open>
  A stage-gated plan yields one portion per stage, between 0 and the whole fee and
  within rounding of its basis-point share: an early stage is less than one minor unit below it,
  and no stage exceeds it by one unit per other stage.
\<close>

theorem stage_portions_fair:
  assumes "pd_type plan = Some Stage_gated" and "pd_stages plan = Some stages" and "stages \<noteq> []"
    and "split_fee fee amount (Some plan) start = Inr ps"
    and "\<forall>s \<in> set stages. 0 \<le> ps_portionBps s" and "0 \<le> amount" and "i < length stages"
  shows "length ps = length stages
    \<and> 0 \<le> po_amountMinor (ps ! i) \<and> po_amountMinor (ps ! i) \<le> amount
    \<and> amount * ps_portionBps (stages ! i) - 9999 \<le> 10000 * po_amountMinor (ps ! i)
    \<and> 10000 * po_amountMinor (ps ! i) \<le> amount * ps_portionBps (stages ! i) + 9999 * (int (length stages) - 1)"
proof -
  from assms(1-4) have bps: "sum_list (map ps_portionBps stages) = 10000"
    and ps: "ps = stage_portions fee amount 0 stages"
    by (auto simp: split_fee_def Let_def split: if_splits)
  have total: "10000 * 0 + amount * sum_list (map ps_portionBps stages) \<le> 10000 * amount" by (simp add: bps)
  have "0 \<le> po_amountMinor (ps ! i) \<and> po_amountMinor (ps ! i) \<le> amount"
    by (rule stage_portions_bounds [where fee = fee, OF _ assms(6) total])
      (use assms(5,7) ps in auto)
  with stage_portions_share [OF assms(7) total, of 0] show ?thesis by (simp add: ps bps)
qed

theorem stage_portions_fair_witness:
  "length (stage_portions gov_fee 100001 0 (the (pd_stages thirds_plan))) = 3"
  using stage_portions_fair [of thirds_plan "the (pd_stages thirds_plan)" gov_fee 100001 0
      "stage_portions gov_fee 100001 0 (the (pd_stages thirds_plan))" 2]
  by (simp add: split_fee_def thirds_plan_def)

text \<open>
  An instalment plan yields the asked number of payments at the plan's interval from
  the start date; all but the first are the equal share rounded down, and the first carries the
  remainder, less than one minor unit per instalment.
\<close>

theorem instalments_shape:
  assumes "pd_type plan = Some Installments" and "pd_installmentCount plan = Some count" and "1 < count"
    and "split_fee fee amount (Some plan) start = Inr ps" and "i < length ps"
  shows "int (length ps) = count
    \<and> po_dueDate (ps ! i) = Some (start + int i * nullish (pd_intervalDays plan) 30 * ms_per_day)
    \<and> po_amountMinor (ps ! i) = amount div count + (if i = 0 then amount mod count else 0)"
proof -
  from assms(1-4) have ps: "ps = map (instalment fee amount count (nullish (pd_intervalDays plan) 30) start)
      [0..<nat count]"
    by (auto simp: split_fee_def Let_def max_def split: if_splits)
  have "amount - amount div count * count = amount mod count" by (simp add: minus_div_mult_eq_mod)
  then show ?thesis using assms(3,5) by (simp add: ps instalment_def Let_def)
qed

theorem instalments_shape_witness:
  "po_amountMinor (map (instalment gov_fee 100001 3 30 0) [0..<3] ! 0) = 33335"
  using instalments_shape [of three_plan 3 gov_fee 100001 0 "map (instalment gov_fee 100001 3 30 0) [0..<3]" 0]
  by (simp add: split_fee_def three_plan_def)

text \<open>
  Claim C19: the first expansion for a case appends, in one save, rows that add up to the fees
  asked for (times applicants or dependants), each an inbound pending charge of that case and
  tenant for one of the fee keys, raised against the resolved client.
\<close>

theorem expand_charges_the_fees:
  assumes "expand w request t = Inr (saved, t')" and "find_where (existing_where request) t = []"
  shows "t' = t @ saved
    \<and> (\<exists>fees. feesFor (fw_packs w) (fw_overrides w) (er_tenantId request) (er_vertical request)
                (er_feeKeys request) = Inr fees
         \<and> sum_list (map pm_amountMinor saved) = sum_list (map (\<lambda>f. max 0 (amountFor f request)) fees)
         \<and> (\<forall>r \<in> set saved. pm_tenantId r = er_tenantId request \<and> pm_entityId r = Some (er_entityId request)
              \<and> pm_direction r = Inbound \<and> pm_status r = PayPending
              \<and> (\<exists>f \<in> set fees. pm_feeKey r = Some (fd_key f) \<and> fd_key f \<in> set (er_feeKeys request))
              \<and> (er_clientId request \<noteq> [] \<longrightarrow>
                   (\<exists>uid. pm_clientId r = Some uid
                      \<and> resolveClientUserId (fw_users w) (fw_entities w) (er_tenantId request)
                          (er_clientId request) = Inr uid))))"
  using assms by (rule expand_new_rows) auto

theorem expand_charges_the_fees_witness:
  "\<exists>saved. expand sample_world (sample_request [''gov'', ''firm'']) [] = Inr (saved, saved)
     \<and> sum_list (map pm_amountMinor saved) = 550002"
proof -
  have "case expand sample_world (sample_request [''gov'', ''firm'']) [] of Inl _ \<Rightarrow> False | Inr _ \<Rightarrow> True"
    by code_simp
  then obtain saved t' where e: "expand sample_world (sample_request [''gov'', ''firm'']) [] = Inr (saved, t')"
    by (auto split: sum.splits)
  from expand_charges_the_fees [OF e] have "t' = saved \<and> sum_list (map pm_amountMinor saved) = 550002"
    by (auto simp: find_where_def feesFor_def map_get_def withOverrides_def fee_samples amountFor_def Let_def)
  with e show ?thesis by blast
qed

text \<open>
  A second expansion of the same fees for the same case charges nobody again: it
  returns the rows of the first one and leaves the table as it is, whatever the tenant's prices,
  the users or the clock have become meanwhile.
\<close>

theorem expand_retry_charges_once:
  assumes "expand w request t = Inr (saved, t')" and "find_where (existing_where request) t = []"
    and "saved \<noteq> []" and "fw_packs w' = fw_packs w"
  shows "expand w' request t' = Inr (saved, t')"
proof -
  from assms(1,2) obtain fees plan where
    fees: "feesFor (fw_packs w) (fw_overrides w) (er_tenantId request) (er_vertical request)
       (er_feeKeys request) = Inr fees"
    and plan: "plan_of_request w request = Inr plan" and t': "t' = t @ saved"
    and rows: "\<forall>r \<in> set saved. existing_where request r"
    by (rule expand_new_rows) (fastforce simp: existing_where_def)
  have found: "find_where (existing_where request) t' = saved"
    using rows t' assms(2) by (simp add: find_where_def)
  obtain fees' where "feesFor (fw_packs w') (fw_overrides w') (er_tenantId request) (er_vertical request)
       (er_feeKeys request) = Inr fees'"
    using fees assms(4) by (simp add: feesFor_Inr)
  moreover have "plan_of_request w' request = Inr plan"
    using plan unfolding plan_of_request_def assms(4) .
  ultimately show ?thesis using expand_existing [of w' request fees' plan t'] found assms(3) by simp
qed

theorem expand_retry_charges_once_witness:
  "\<exists>saved. expand sample_world (sample_request [''gov'']) [] = Inr (saved, saved)
     \<and> expand (sample_world\<lparr>fw_now := 5\<rparr>) (sample_request [''gov'']) saved = Inr (saved, saved)"
proof -
  have "case expand sample_world (sample_request [''gov'']) [] of Inl _ \<Rightarrow> False
      | Inr (s, t') \<Rightarrow> s = t' \<and> s \<noteq> []"
    by code_simp
  then obtain saved where e: "expand sample_world (sample_request [''gov'']) [] = Inr (saved, saved)" "saved \<noteq> []"
    by (auto split: sum.splits)
  have "expand (sample_world\<lparr>fw_now := 5\<rparr>) (sample_request [''gov'']) saved = Inr (saved, saved)"
    by (rule expand_retry_charges_once [OF e(1) _ e(2)]) (simp_all add: find_where_def)
  with e(1) show ?thesis by blast
qed

text \<open>
  The idempotence is by any requested fee, not by each: once one of the requested fees
  has a row for the case, the expansion returns the rows there are and writes none, so a fee
  asked for the first time beside it is never charged.
\<close>

theorem expand_skips_new_fees:
  assumes "expand w request t = Inr (out, t')" and "find_where (existing_where request) t \<noteq> []"
  shows "t' = t \<and> set out \<subseteq> set t"
proof -
  from assms(1) obtain fees plan where
    "feesFor (fw_packs w) (fw_overrides w) (er_tenantId request) (er_vertical request)
       (er_feeKeys request) = Inr fees" "plan_of_request w request = Inr plan"
    unfolding expand_def plan_of_request_def [symmetric] by (auto simp: and_then_Inr_iff)
  from expand_existing [OF this assms(2)] assms(1) show ?thesis by (auto simp: find_where_def)
qed

theorem expand_skips_new_fees_witness:
  "\<exists>saved out. expand sample_world (sample_request [''gov'']) [] = Inr (saved, saved)
     \<and> expand sample_world (sample_request [''gov'', ''firm'']) saved = Inr (out, saved)
     \<and> \<not> (\<exists>p \<in> set out. pm_feeKey p = Some ''firm'')"
proof -
  have "case expand sample_world (sample_request [''gov'']) [] of Inl _ \<Rightarrow> False
      | Inr (s, t') \<Rightarrow> s = t' \<and> s \<noteq> [] \<and> list_all (\<lambda>p. pm_feeKey p = Some ''gov'') s
          \<and> find_where (existing_where (sample_request [''gov'', ''firm''])) s \<noteq> []
          \<and> (case expand sample_world (sample_request [''gov'', ''firm'']) s of Inl _ \<Rightarrow> False | Inr _ \<Rightarrow> True)"
    by code_simp
  then obtain saved out t' where saved: "expand sample_world (sample_request [''gov'']) [] = Inr (saved, saved)"
    "\<forall>p \<in> set saved. pm_feeKey p = Some ''gov''"
    "find_where (existing_where (sample_request [''gov'', ''firm''])) saved \<noteq> []"
    and out: "expand sample_world (sample_request [''gov'', ''firm'']) saved = Inr (out, t')"
    by (auto simp: list_all_iff split: sum.splits)
  have "t' = saved \<and> set out \<subseteq> set saved" by (rule expand_skips_new_fees [OF out saved(3)])
  with saved out have "expand sample_world (sample_request [''gov'', ''firm'']) saved = Inr (out, saved)"
    "\<not> (\<exists>p \<in> set out. pm_feeKey p = Some ''firm'')" by auto
  with saved(1) show ?thesis by blast
qed

text \<open>
  The fees an expansion charges are the ones the catalogue quotes to the same tenant:
  same price, same label and kind, in the order asked for.
\<close>

theorem quote_is_charge:
  assumes "feesFor packs ovs T v keys = Inr fees"
  shows "map fd_key fees = keys \<and> set fees \<subseteq> set (fst (catalogue packs ovs v T))"
proof -
  have "the (map_get fd_key (nullish (pk_fees (packs v)) []) k) \<in> set (nullish (pk_fees (packs v)) [])"
    if "k \<in> set keys" for k
    using assms that map_get_SomeD by (fastforce simp: feesFor_Inr)
  then have "set fees \<subseteq> set (fst (catalogue packs ovs v T))"
    using assms by (auto simp: feesFor_Inr catalogue_def withOverrides_pointwise)
  with feesFor_keys [OF assms] show ?thesis by blast
qed

theorem quote_is_charge_witness:
  "set [firm_fee] \<subseteq> set (fst (catalogue sample_pack [] None ''t''))"
  using quote_is_charge [of sample_pack "[]" "''t''" None "[''firm'']" "[firm_fee]"]
  by (simp add: feesFor_def map_get_def withOverrides_def find_where_def sample_pack_def gov_fee_def firm_fee_def Let_def)

text \<open>
  Once a firm has set its prices, its catalogue quotes exactly them: a firm fee named
  in the batch at the new amount and currency, one not named at the pack's price again, every
  government and third-party fee untouched, and other tenants' catalogues as they were.
\<close>

theorem set_overrides_then_quote:
  assumes "override_table (os_rows st)"
    and "check_overrides (nullish (pk_fees (packs v)) []) v overrides = None"
    and "distinct (map ov_feeKey overrides)"
    and "\<forall>m. newIds m \<notin> fo_id ` set (os_rows st)" and "inj newIds"
  shows "\<exists>st' saved. setOverrides packs iar newIds T v overrides u st = (st', Inr saved)
     \<and> override_table (os_rows st')
     \<and> fst (catalogue packs (os_rows st') v T) =
         map (\<lambda>f. if fd_kind f = Some Firm
                  then (case find_one (\<lambda>r. ov_feeKey r = fd_key f) overrides of
                          None \<Rightarrow> f
                        | Some r \<Rightarrow> f\<lparr>fd_amountMinor := ov_amountMinor r,
                                      fd_currency := to_upper (ov_currency r)\<rparr>)
                  else f)
           (nullish (pk_fees (packs v)) [])
     \<and> (\<forall>T'. T' \<noteq> T \<longrightarrow> catalogue packs (os_rows st') v T' = catalogue packs (os_rows st) v T')"
proof -
  obtain st' res where run: "setOverrides packs iar newIds T v overrides u st = (st', res)" by fastforce
  have R: "override_table (os_rows st') \<and> (\<exists>s. res = Inr s)
    \<and> (\<forall>T'. T' \<noteq> T \<longrightarrow> tenant_row T' (os_rows st') = tenant_row T' (os_rows st))
    \<and> (\<forall>k. if k \<in> ov_feeKey ` set overrides
           then upserted overrides u (tenant_row T (os_rows st) k) (tenant_row T (os_rows st') k) k
           else tenant_row T (os_rows st') k = None)"
    by (rule setOverrides_rows [OF assms(1-3) _ assms(5) run]) (use assms(4) in simp)
  then have wf': "override_table (os_rows st')" by blast
  have mine: "price_of (os_rows st') T f = (if fd_kind f = Some Firm
       then (case find_one (\<lambda>r. ov_feeKey r = fd_key f) overrides of
               None \<Rightarrow> f
             | Some r \<Rightarrow> f\<lparr>fd_amountMinor := ov_amountMinor r, fd_currency := to_upper (ov_currency r)\<rparr>)
       else f)" for f
  proof (cases "find_one (\<lambda>r. ov_feeKey r = fd_key f) overrides")
    case None
    then have "fd_key f \<notin> ov_feeKey ` set overrides" by (auto simp: find_one_None_iff)
    with R have "tenant_row T (os_rows st') (fd_key f) = None" by metis
    with None show ?thesis by (simp add: price_of_row [OF wf'])
  next
    case (Some r)
    then have "r \<in> set overrides" "ov_feeKey r = fd_key f" by (auto dest: find_one_SomeD)
    then have "fd_key f \<in> ov_feeKey ` set overrides" by (metis image_eqI)
    with R have "upserted overrides u (tenant_row T (os_rows st) (fd_key f))
        (tenant_row T (os_rows st') (fd_key f)) (fd_key f)" by metis
    with Some show ?thesis by (auto simp: upserted_def price_of_row [OF wf'])
  qed
  have "price_of (os_rows st') T' f = price_of (os_rows st) T' f" if "T' \<noteq> T" for T' f
    using R that by (simp add: price_of_row [OF wf'] price_of_row [OF assms(1)])
  then show ?thesis using R run mine by (auto simp: catalogue_def withOverrides_pointwise)
qed

definition price_batch :: "override_request list" where
  "price_batch = [\<lparr>ov_feeKey = ''firm'', ov_amountMinor = 420000, ov_currency = ''nzd''\<rparr>]"

theorem set_overrides_then_quote_witness:
  "\<exists>st' saved. setOverrides sample_pack Some (\<lambda>i. replicate i CHR ''o'') ''t'' None price_batch ''u''
       \<lparr>os_rows = [], os_events = []\<rparr> = (st', Inr saved)
     \<and> fst (catalogue sample_pack (os_rows st') None ''t'')
         = [gov_fee, firm_fee\<lparr>fd_amountMinor := 420000, fd_currency := to_upper ''nzd''\<rparr>]"
proof -
  have "inj (\<lambda>i. replicate i CHR ''o'')" by (rule injI) (metis length_replicate)
  from set_overrides_then_quote [OF _ _ _ _ this, of "\<lparr>os_rows = [], os_events = []\<rparr>" sample_pack None
      price_batch Some "''t''" "''u''"]
  show ?thesis
    by (simp add: override_table_def map_get_def sample_pack_def gov_fee_def firm_fee_def price_batch_def)
      blast
qed

text \<open>
  A step is held by exactly the pending or failed charges of that case and step whose
  plan, in the vertical's pack, asks for the hold; a case whose pack declares no such plan is
  never held.
\<close>

theorem arrears_blocking_iff:
  "p \<in> set (arrearsBlocking packs t T v entityId step) \<longleftrightarrow>
     p \<in> set t \<and> pm_tenantId p = T \<and> pm_entityId p = Some entityId \<and> pm_atStep p = Some step
     \<and> (pm_status p = PayPending \<or> pm_status p = PayFailed)
     \<and> (\<exists>pl \<in> set (nullish (pk_paymentPlans (packs v)) []).
          pd_blockProgressOnArrears pl = Some True \<and> pd_key pl \<noteq> [] \<and> pm_planKey p = Some (pd_key pl))"
proof -
  have flag: "nullish x False \<longleftrightarrow> x = Some True" for x by (cases x) auto
  show ?thesis
    by (auto simp: arrearsBlocking_def Let_def find_where_def flag truthy_str_iff filter_empty_conv)
qed

end
