(* ===== verification/JobQueue.thy ===== *)
theory JobQueue
  imports Tenancy JsValue "HOL-Library.Product_Lexorder"
begin

text \<open>
  \<^verbatim>\<open>src/queue\<close>: the Postgres-backed job queue. \<^verbatim>\<open>queue.service.ts\<close> creates, claims, completes,
  fails, retries, cancels and removes jobs and starts recurring ones; \<^verbatim>\<open>queue.processor.ts\<close>
  drains the queue within a budget and runs the handlers.

  The queue is a record of its tables and of the events it emitted. Queries see the rows that
  row-level security lets the calling context see. The clock, the ids the database draws and the
  cron parser are arguments. A handler is what it answers and after how many milliseconds.
\<close>

section \<open>Rows\<close>

datatype job_status =
  JobPending | JobProcessing | JobCompleted | JobFailed | JobRetrying | JobCancelled | JobScheduled

datatype job_priority = PrioCritical | PrioHigh | PrioNormal | PrioLow | PrioBackground

primrec prio_rank :: "job_priority \<Rightarrow> nat" where
  "prio_rank PrioCritical = 1"
| "prio_rank PrioHigh = 2"
| "prio_rank PrioNormal = 3"
| "prio_rank PrioLow = 4"
| "prio_rank PrioBackground = 5"

lemma prio_rank_inject: "prio_rank p = prio_rank q \<Longrightarrow> p = q"
  by (cases p; cases q) simp_all

instantiation job_priority :: linorder
begin

definition "p \<le> q \<longleftrightarrow> prio_rank p \<le> prio_rank q"
definition "p < q \<longleftrightarrow> prio_rank p < prio_rank q"

instance
  by standard (auto simp: less_eq_job_priority_def less_job_priority_def dest: prio_rank_inject)

end

datatype job_type =
    AI_ANALYSIS | AI_EMBEDDING | AI_SUMMARIZE | AI_CLASSIFY
  | DOCUMENT_PROCESS | DOCUMENT_CONVERT | DOCUMENT_OCR | DOCUMENT_VIRUS_SCAN
  | EMAIL_SEND | SMS_SEND | PUSH_SEND | WEBHOOK_CALL
  | DATA_EXPORT | DATA_IMPORT | DATA_SYNC | DATA_CLEANUP
  | REPORT_GENERATE | REPORT_DISTRIBUTE
  | BILLING_INVOICE | BILLING_REMINDER
  | BACKUP_CREATE | CACHE_CLEAR | INDEX_REBUILD | AUDIT_ARCHIVE

definition all_job_types :: "job_type list" where
  "all_job_types =
     [AI_ANALYSIS, AI_EMBEDDING, AI_SUMMARIZE, AI_CLASSIFY,
      DOCUMENT_PROCESS, DOCUMENT_CONVERT, DOCUMENT_OCR, DOCUMENT_VIRUS_SCAN,
      EMAIL_SEND, SMS_SEND, PUSH_SEND, WEBHOOK_CALL,
      DATA_EXPORT, DATA_IMPORT, DATA_SYNC, DATA_CLEANUP,
      REPORT_GENERATE, REPORT_DISTRIBUTE, BILLING_INVOICE, BILLING_REMINDER,
      BACKUP_CREATE, CACHE_CLEAR, INDEX_REBUILD, AUDIT_ARCHIVE]"

lemma all_job_types_complete: "ty \<in> set all_job_types"
  by (cases ty) (simp_all add: all_job_types_def)

record job_metadata =
  jm_source :: "str option"
  jm_correlationId :: "str option"
  jm_tags :: "str list option"

record job_data =
  jd_tenantId :: "str option"
  jd_userId :: "str option"
  jd_payload :: js_obj
  jd_metadata :: "job_metadata option"

record job_result =
  jr_success :: bool
  jr_data :: "js option"
  jr_error :: "str option"
  jr_warnings :: "str list option"

datatype backoff_type = Fixed | Exponential

datatype removal = RemoveFlag bool | RemoveCount int

primrec truthy_removal :: "removal \<Rightarrow> bool" where
  "truthy_removal (RemoveFlag b) = b"
| "truthy_removal (RemoveCount n) = (n \<noteq> 0)"

record job_opts =
  jo_timeout :: "int option"
  jo_backoff :: "(backoff_type \<times> int) option"
  jo_removeOnComplete :: "removal option"
  jo_removeOnFail :: "removal option"

record job_progress =
  jp_step :: int
  jp_totalSteps :: int
  jp_percentage :: int
  jp_message :: "str option"

record job =
  jb_id :: str
  jb_tenantId :: str
  jb_type :: job_type
  jb_status :: job_status
  jb_priority :: job_priority
  jb_data :: job_data
  jb_result :: "job_result option"
  jb_progress :: "job_progress option"
  jb_attempts :: int
  jb_maxAttempts :: int
  jb_lastError :: "str option"
  jb_scheduledFor :: "instant option"
  jb_processedAt :: "instant option"
  jb_completedAt :: "instant option"
  jb_failedAt :: "instant option"
  jb_duration :: int
  jb_tags :: "str list"
  jb_options :: job_opts
  jb_createdAt :: instant

datatype log_event = LogStarted | LogProgress | LogCompleted | LogFailed | LogRetry

record job_log =
  jl_jobId :: str
  jl_event :: log_event
  jl_details :: js_obj

record scheduled_job =
  sj_id :: str
  sj_tenantId :: str
  sj_name :: str
  sj_type :: job_type
  sj_data :: job_data
  sj_cronExpression :: str
  sj_nextRun :: instant
  sj_lastRun :: "instant option"
  sj_isActive :: bool
  sj_runCount :: int
  sj_maxRuns :: "int option"
  sj_endDate :: "instant option"

datatype queue_event =
  JobCreatedEvent job | JobProgressEvent str job_progress | JobCompletedEvent job | JobFailedEvent job

record queue =
  q_jobs :: "job list"
  q_logs :: "job_log list"
  q_scheduled :: "scheduled_job list"
  q_events :: "queue_event list"

datatype queue_error =
    InvalidCron str
  | NoNextRun str
  | ScheduledJobNotFound
  | JobNotFound
  | NotRetriable job_status
  | NotCancellable job_status
  | NullProcessedAt

interpretation job_repo:
  repository jb_id "by_key jb_id" "save_row jb_id" "remove_row jb_id" "keys_distinct jb_id"
  by unfold_locales (auto simp: table_simps dest: by_key_SomeD)

definition put_job :: "job \<Rightarrow> queue \<Rightarrow> queue" where
  "put_job j q = q\<lparr>q_jobs := save_row jb_id j (q_jobs q)\<rparr>"

definition put_scheduled :: "scheduled_job \<Rightarrow> queue \<Rightarrow> queue" where
  "put_scheduled s q = q\<lparr>q_scheduled := save_row sj_id s (q_scheduled q)\<rparr>"

definition emit :: "queue_event \<Rightarrow> queue \<Rightarrow> queue" where
  "emit e q = q\<lparr>q_events := q_events q @ [e]\<rparr>"

definition logJobEvent :: "str \<Rightarrow> log_event \<Rightarrow> js_obj \<Rightarrow> queue \<Rightarrow> queue" where
  "logJobEvent jobId event details q =
     q\<lparr>q_logs := q_logs q @ [\<lparr>jl_jobId = jobId, jl_event = event, jl_details = details\<rparr>]\<rparr>"

text \<open>\<open>findOne\<close> on jobs under a tenant context.\<close>

definition find_job :: "als \<Rightarrow> (job \<Rightarrow> bool) \<Rightarrow> queue \<Rightarrow> job option" where
  "find_job ctx P q = find_one (\<lambda>j. rls_visible ctx (jb_tenantId j) \<and> P j) (q_jobs q)"

section \<open>Creation\<close>

record job_options =
  op_priority :: "job_priority option"
  op_delay :: "int option"
  op_attempts :: "int option"
  op_backoff :: "(backoff_type \<times> int) option"
  op_timeout :: "int option"
  op_removeOnComplete :: "removal option"
  op_removeOnFail :: "removal option"

definition no_options :: job_options where
  "no_options = \<lparr>op_priority = None, op_delay = None, op_attempts = None, op_backoff = None,
     op_timeout = None, op_removeOnComplete = None, op_removeOnFail = None\<rparr>"

definition new_job ::
  "str \<Rightarrow> instant \<Rightarrow> str \<Rightarrow> job_type \<Rightarrow> job_data \<Rightarrow> job_options \<Rightarrow> str option \<Rightarrow> job" where
  "new_job newId now tenantId ty d options userId =
     \<lparr>jb_id = newId, jb_tenantId = tenantId, jb_type = ty,
      jb_status = (if truthy_num (op_delay options) then JobScheduled else JobPending),
      jb_priority = nullish (op_priority options) PrioNormal,
      jb_data = d\<lparr>jd_tenantId := Some tenantId, jd_userId := userId\<rparr>,
      jb_result = None, jb_progress = None, jb_attempts = 0,
      jb_maxAttempts = or_default (op_attempts options) 3, jb_lastError = None,
      jb_scheduledFor = (if truthy_num (op_delay options) then Some (now + the (op_delay options)) else None),
      jb_processedAt = None, jb_completedAt = None, jb_failedAt = None, jb_duration = 0,
      jb_tags = (case jd_metadata d of None \<Rightarrow> [] | Some m \<Rightarrow> nullish (jm_tags m) []),
      jb_options = \<lparr>jo_timeout = op_timeout options, jo_backoff = op_backoff options,
        jo_removeOnComplete = op_removeOnComplete options, jo_removeOnFail = op_removeOnFail options\<rparr>,
      jb_createdAt = now\<rparr>"

definition createJob ::
  "str \<Rightarrow> instant \<Rightarrow> str \<Rightarrow> job_type \<Rightarrow> job_data \<Rightarrow> job_options \<Rightarrow> str option \<Rightarrow> queue \<Rightarrow> job \<times> queue" where
  "createJob newId now tenantId ty d options userId q =
     (let saved = new_job newId now tenantId ty d options userId; q' = put_job saved q
      in (saved, if truthy_num (op_delay options) then q' else emit (JobCreatedEvent saved) q'))"

fun createBulkJobs ::
  "(nat \<Rightarrow> str) \<Rightarrow> instant \<Rightarrow> str \<Rightarrow> (job_type \<times> job_data \<times> job_options option) list \<Rightarrow> str option
   \<Rightarrow> nat \<Rightarrow> queue \<Rightarrow> job list \<times> queue" where
  "createBulkJobs newIds now tenantId [] userId n q = ([], q)"
| "createBulkJobs newIds now tenantId ((ty, d, opts) # rest) userId n q =
     (let (j, q1) = createJob (newIds n) now tenantId ty d (nullish opts no_options) userId q;
          (js, q2) = createBulkJobs newIds now tenantId rest userId (Suc n) q1
      in (j # js, q2))"

section \<open>Recurring jobs\<close>

text \<open>
  \<open>cron_valid\<close> and \<open>cron_next\<close> stand for cron-parser: whether an expression parses, and the next
  instant it fires after the given one, if there is one.
\<close>

definition scheduleJob ::
  "(str \<Rightarrow> bool) \<Rightarrow> (str \<Rightarrow> instant \<Rightarrow> instant option) \<Rightarrow> str \<Rightarrow> instant \<Rightarrow> str \<Rightarrow> str \<Rightarrow> job_type
   \<Rightarrow> job_data \<Rightarrow> str \<Rightarrow> instant option \<times> int option \<Rightarrow> queue
   \<Rightarrow> queue_error + scheduled_job \<times> queue" where
  "scheduleJob cron_valid cron_next newId now tenantId name ty d cronExpression opts q =
     (if \<not> cron_valid cronExpression then Inl (InvalidCron cronExpression)
      else case cron_next cronExpression now of
             None \<Rightarrow> Inl (NoNextRun cronExpression)
           | Some nextRun \<Rightarrow>
               (let s = \<lparr>sj_id = newId, sj_tenantId = tenantId, sj_name = name, sj_type = ty, sj_data = d,
                         sj_cronExpression = cronExpression, sj_nextRun = nextRun, sj_lastRun = None,
                         sj_isActive = True, sj_runCount = 0,
                         sj_maxRuns = (if truthy_num (snd opts) then snd opts else None),
                         sj_endDate = fst opts\<rparr>
                in Inr (s, put_scheduled s q)))"

definition cancelScheduledJob :: "als \<Rightarrow> str \<Rightarrow> str \<Rightarrow> queue \<Rightarrow> queue_error + queue" where
  "cancelScheduledJob ctx i tenantId q =
     (case find_one (\<lambda>s. rls_visible ctx (sj_tenantId s) \<and> sj_id s = i \<and> sj_tenantId s = tenantId)
             (q_scheduled q) of
        None \<Rightarrow> Inl ScheduledJobNotFound
      | Some s \<Rightarrow> Inr (put_scheduled (s\<lparr>sj_isActive := False\<rparr>) q))"

text \<open>The row of a recurring job after one more run.\<close>

definition run_scheduled :: "instant \<Rightarrow> instant \<Rightarrow> scheduled_job \<Rightarrow> scheduled_job" where
  "run_scheduled now nextRun s =
     s\<lparr>sj_lastRun := Some now, sj_runCount := sj_runCount s + 1, sj_nextRun := nextRun,
       sj_isActive := sj_isActive s
         \<and> \<not> (truthy_num (sj_maxRuns s) \<and> the (sj_maxRuns s) \<le> sj_runCount s + 1)
         \<and> \<not> (case sj_endDate s of None \<Rightarrow> False | Some e \<Rightarrow> e < now)\<rparr>"

text \<open>
  The body of the sweep: the job is created first, so an expression that no longer parses throws
  after it and leaves the recurring row as it was.
\<close>

definition run_one_scheduled ::
  "(str \<Rightarrow> bool) \<Rightarrow> (str \<Rightarrow> instant \<Rightarrow> instant option) \<Rightarrow> (queue \<Rightarrow> str) \<Rightarrow> instant
   \<Rightarrow> scheduled_job \<Rightarrow> als \<Rightarrow> queue \<Rightarrow> (thrown + unit) \<times> queue" where
  "run_one_scheduled cron_valid cron_next newId now s ctx q =
     (let (_, q') = createJob (newId q) now (sj_tenantId s) (sj_type s) (sj_data s) no_options None q
      in if \<not> cron_valid (sj_cronExpression s)
         then (Inl (ThrownError ''Error'' ''Error'' None (sj_cronExpression s)), q')
         else case cron_next (sj_cronExpression s) now of
                None \<Rightarrow> (Inl (ThrownError ''Error'' ''Error'' None (sj_cronExpression s)), q')
              | Some nextRun \<Rightarrow> (Inr (), put_scheduled (run_scheduled now nextRun s) q'))"

definition due_scheduled :: "instant \<Rightarrow> als \<Rightarrow> queue \<Rightarrow> scheduled_job list" where
  "due_scheduled now ctx q =
     find_where (\<lambda>s. rls_visible ctx (sj_tenantId s) \<and> sj_isActive s \<and> sj_nextRun s < now) (q_scheduled q)"

definition processScheduledJobs ::
  "(str \<Rightarrow> bool) \<Rightarrow> (str \<Rightarrow> instant \<Rightarrow> instant option) \<Rightarrow> (queue \<Rightarrow> str) \<Rightarrow> instant
   \<Rightarrow> als \<Rightarrow> queue \<Rightarrow> (thrown + sweep_scope) \<times> queue" where
  "processScheduledJobs cron_valid cron_next newId now =
     runTenantBoundSweep sj_tenantId (\<lambda>s. Some (sj_id s)) ''scheduled jobs''
       (\<lambda>ctx q. (Inr (due_scheduled now ctx q), q))
       (run_one_scheduled cron_valid cron_next newId now)"

section \<open>Claiming\<close>

definition claimable :: "als \<Rightarrow> job_type list \<Rightarrow> str option \<Rightarrow> instant \<Rightarrow> job \<Rightarrow> bool" where
  "claimable ctx workerTypes tenantId now j \<longleftrightarrow>
     rls_visible ctx (jb_tenantId j) \<and> jb_status j = JobPending
     \<and> (truthy_str tenantId \<longrightarrow> Some (jb_tenantId j) = tenantId)
     \<and> jb_type j \<in> set workerTypes
     \<and> (case jb_scheduledFor j of None \<Rightarrow> True | Some t \<Rightarrow> t \<le> now)"

definition claim_order :: "job \<Rightarrow> job_priority \<times> instant" where
  "claim_order j = (jb_priority j, jb_createdAt j)"

definition claim :: "instant \<Rightarrow> job \<Rightarrow> job" where
  "claim now j = j\<lparr>jb_status := JobProcessing, jb_processedAt := Some now, jb_attempts := jb_attempts j + 1\<rparr>"

definition num :: "int \<Rightarrow> js" where
  "num n = JNum (show_int n)"

definition getNextJob ::
  "als \<Rightarrow> job_type list \<Rightarrow> str option \<Rightarrow> instant \<Rightarrow> queue \<Rightarrow> job option \<times> queue" where
  "getNextJob ctx workerTypes tenantId now q =
     (case sort_key claim_order (find_where (claimable ctx workerTypes tenantId now) (q_jobs q)) of
        [] \<Rightarrow> (None, q)
      | j # _ \<Rightarrow>
          (let j' = claim now j
           in (Some j', logJobEvent (jb_id j') LogStarted [(''attempt'', num (jb_attempts j'))] (put_job j' q))))"

section \<open>Progress and outcomes\<close>

definition updateProgress :: "als \<Rightarrow> str \<Rightarrow> job_progress \<Rightarrow> queue \<Rightarrow> queue" where
  "updateProgress ctx jobId progress q =
     (let q1 = q\<lparr>q_jobs := map (\<lambda>j. if jb_id j = jobId \<and> rls_visible ctx (jb_tenantId j)
                                      then j\<lparr>jb_progress := Some progress\<rparr> else j) (q_jobs q)\<rparr>
      in emit (JobProgressEvent jobId progress)
           (logJobEvent jobId LogProgress
              [(''percentage'', num (jp_percentage progress)),
               (''message'', case jp_message progress of None \<Rightarrow> JUndef | Some m \<Rightarrow> JStr m)] q1))"

definition removeJob :: "als \<Rightarrow> str \<Rightarrow> queue \<Rightarrow> queue" where
  "removeJob ctx jobId q =
     q\<lparr>q_logs := filter (\<lambda>l. jl_jobId l \<noteq> jobId) (q_logs q),
       q_jobs := filter (\<lambda>j. \<not> (jb_id j = jobId \<and> rls_visible ctx (jb_tenantId j))) (q_jobs q)\<rparr>"

text \<open>\<open>job.processedAt!.getTime()\<close> on a job without one throws, before anything is saved.\<close>

definition completeJob ::
  "als \<Rightarrow> str \<Rightarrow> job_result \<Rightarrow> instant \<Rightarrow> queue \<Rightarrow> (queue_error + unit) \<times> queue" where
  "completeJob ctx jobId result now q =
     (case find_job ctx (\<lambda>j. jb_id j = jobId) q of
        None \<Rightarrow> (Inr (), q)
      | Some job \<Rightarrow>
          (case jb_processedAt job of
             None \<Rightarrow> (Inl NullProcessedAt, q)
           | Some started \<Rightarrow>
               (let job' = job\<lparr>jb_status := JobCompleted, jb_completedAt := Some now,
                               jb_result := Some result, jb_duration := now - started\<rparr>;
                    q1 = emit (JobCompletedEvent job')
                           (logJobEvent jobId LogCompleted
                              [(''duration'', num (now - started)),
                               (''data'', nullish (jr_data result) JUndef)] (put_job job' q))
                in (Inr (), if (case jo_removeOnComplete (jb_options job) of
                                  None \<Rightarrow> False | Some r \<Rightarrow> truthy_removal r)
                            then removeJob ctx jobId q1 else q1))))"

text \<open>
  The delay before a retry. \<open>Math.pow(2, attempts - 1)\<close> is one half for a job that was never
  claimed; the date built from it is truncated to a millisecond.
\<close>

definition retry_delay :: "job \<Rightarrow> int" where
  "retry_delay job =
     (case jo_backoff (jb_options job) of
        None \<Rightarrow> 5000
      | Some (Exponential, delay) \<Rightarrow>
          (if 1 \<le> jb_attempts job then delay * 2 ^ nat (jb_attempts job - 1) else delay div 2)
      | Some (Fixed, delay) \<Rightarrow> delay)"

definition failJob :: "als \<Rightarrow> str \<Rightarrow> str \<Rightarrow> bool \<Rightarrow> instant \<Rightarrow> queue \<Rightarrow> queue" where
  "failJob ctx jobId error shouldRetry now q =
     (case find_job ctx (\<lambda>j. jb_id j = jobId) q of
        None \<Rightarrow> q
      | Some job \<Rightarrow>
          (if shouldRetry \<and> jb_attempts job < jb_maxAttempts job
           then put_job (job\<lparr>jb_lastError := Some error, jb_failedAt := Some now, jb_status := JobRetrying,
                             jb_scheduledFor := Some (now + retry_delay job)\<rparr>)
                  (logJobEvent jobId LogRetry
                     [(''attempt'', num (jb_attempts job)), (''error'', JStr error),
                      (''retryDelay'', num (retry_delay job))] q)
           else let job' = job\<lparr>jb_lastError := Some error, jb_failedAt := Some now, jb_status := JobFailed,
                      jb_duration := now - or_default (jb_processedAt job) now,
                      jb_result := Some \<lparr>jr_success = False, jr_data = None, jr_error = Some error,
                                        jr_warnings = None\<rparr>\<rparr>
                in put_job job' (emit (JobFailedEvent job')
                     (logJobEvent jobId LogFailed
                        [(''error'', JStr error), (''attempts'', num (jb_attempts job))] q))))"

section \<open>Management\<close>

definition getJob :: "als \<Rightarrow> str \<Rightarrow> str option \<Rightarrow> queue \<Rightarrow> queue_error + job" where
  "getJob ctx jobId tenantId q =
     (case find_job ctx (\<lambda>j. jb_id j = jobId \<and> (truthy_str tenantId \<longrightarrow> Some (jb_tenantId j) = tenantId)) q of
        None \<Rightarrow> Inl JobNotFound | Some j \<Rightarrow> Inr j)"

definition getJobLogs :: "str \<Rightarrow> queue \<Rightarrow> job_log list" where
  "getJobLogs jobId q = find_where (\<lambda>l. jl_jobId l = jobId) (q_logs q)"

definition retryJob ::
  "als \<Rightarrow> str \<Rightarrow> str option \<Rightarrow> int option \<Rightarrow> instant \<Rightarrow> queue \<Rightarrow> queue_error + job \<times> queue" where
  "retryJob ctx jobId tenantId delay now q =
     and_then (getJob ctx jobId tenantId q) (\<lambda>job.
       if jb_status job \<noteq> JobFailed \<and> jb_status job \<noteq> JobCancelled then Inl (NotRetriable (jb_status job))
       else let job' = job\<lparr>jb_status := JobPending, jb_attempts := 0, jb_lastError := None,
                  jb_failedAt := None, jb_completedAt := None, jb_result := None, jb_progress := None,
                  jb_scheduledFor := (if truthy_num delay then Some (now + the delay) else None)\<rparr>
            in Inr (job', put_job job' q))"

definition cancelJob :: "als \<Rightarrow> str \<Rightarrow> str option \<Rightarrow> queue \<Rightarrow> queue_error + queue" where
  "cancelJob ctx jobId tenantId q =
     and_then (getJob ctx jobId tenantId q) (\<lambda>job.
       if jb_status job = JobCompleted \<or> jb_status job = JobFailed then Inl (NotCancellable (jb_status job))
       else Inr (put_job (job\<lparr>jb_status := JobCancelled\<rparr>) q))"

definition resumePendingJobs :: "als \<Rightarrow> queue \<Rightarrow> queue" where
  "resumePendingJobs ctx q =
     fold (\<lambda>job. put_job (job\<lparr>jb_status := JobPending, jb_processedAt := None\<rparr>))
       (find_where (\<lambda>j. rls_visible ctx (jb_tenantId j) \<and> jb_status j = JobProcessing) (q_jobs q)) q"

section \<open>The list and the counters\<close>

record job_filter =
  jf_tenantId :: "str option"
  jf_status :: "job_status list option"
  jf_type :: "job_type list option"
  jf_userId :: "str option"
  jf_priority :: "job_priority option"
  jf_createdAfter :: "instant option"
  jf_createdBefore :: "instant option"
  jf_tags :: "str list option"

definition filter_jobs :: "als \<Rightarrow> job_filter \<Rightarrow> job \<Rightarrow> bool" where
  "filter_jobs ctx f j \<longleftrightarrow>
     rls_visible ctx (jb_tenantId j)
     \<and> (truthy_str (jf_tenantId f) \<longrightarrow> Some (jb_tenantId j) = jf_tenantId f)
     \<and> (case jf_status f of None \<Rightarrow> True | Some ss \<Rightarrow> jb_status j \<in> set ss)
     \<and> (case jf_type f of None \<Rightarrow> True | Some ts \<Rightarrow> jb_type j \<in> set ts)
     \<and> (truthy_str (jf_userId f) \<longrightarrow> jd_userId (jb_data j) = jf_userId f)
     \<and> (case jf_priority f of None \<Rightarrow> True | Some p \<Rightarrow> jb_priority j = p)
     \<and> (case jf_createdAfter f of None \<Rightarrow> True | Some t \<Rightarrow> t \<le> jb_createdAt j)
     \<and> (case jf_createdBefore f of None \<Rightarrow> True | Some t \<Rightarrow> jb_createdAt j \<le> t)
     \<and> (case jf_tags f of None \<Rightarrow> True | Some ts \<Rightarrow> ts = [] \<or> set (jb_tags j) \<inter> set ts \<noteq> {})"

definition getJobs :: "als \<Rightarrow> job_filter \<Rightarrow> nat \<Rightarrow> nat \<Rightarrow> queue \<Rightarrow> job list \<times> nat" where
  "getJobs ctx f page limit q =
     (let matching = sort_key (\<lambda>j. - jb_createdAt j) (find_where (filter_jobs ctx f) (q_jobs q))
      in (take limit (drop ((page - 1) * limit) matching), length matching))"

record type_metrics =
  tm_active :: nat
  tm_completed :: nat
  tm_failed :: nat

record queue_metrics =
  qm_active :: nat
  qm_waiting :: nat
  qm_completed :: nat
  qm_failed :: nat
  qm_delayed :: nat
  qm_paused :: nat
  qm_byType :: "job_type \<Rightarrow> type_metrics option"

definition count_jobs :: "als \<Rightarrow> str option \<Rightarrow> (job \<Rightarrow> bool) \<Rightarrow> queue \<Rightarrow> nat" where
  "count_jobs ctx tenantId P q =
     length (find_where (\<lambda>j. rls_visible ctx (jb_tenantId j)
        \<and> (truthy_str tenantId \<longrightarrow> Some (jb_tenantId j) = tenantId) \<and> P j) (q_jobs q))"

definition getMetrics :: "als \<Rightarrow> str option \<Rightarrow> instant \<Rightarrow> queue \<Rightarrow> queue_metrics" where
  "getMetrics ctx tenantId now q =
     (let cnt = (\<lambda>P. count_jobs ctx tenantId P q)
      in \<lparr>qm_active = cnt (\<lambda>j. jb_status j = JobProcessing),
          qm_waiting = cnt (\<lambda>j. jb_status j = JobPending),
          qm_completed = cnt (\<lambda>j. jb_status j = JobCompleted),
          qm_failed = cnt (\<lambda>j. jb_status j = JobFailed),
          qm_delayed = cnt (\<lambda>j. jb_status j = JobScheduled
             \<and> (case jb_scheduledFor j of None \<Rightarrow> False | Some t \<Rightarrow> t < now)),
          qm_paused = 0,
          qm_byType = (\<lambda>ty. if cnt (\<lambda>j. jb_type j = ty) = 0 then None
             else Some \<lparr>tm_active = cnt (\<lambda>j. jb_type j = ty \<and> jb_status j = JobProcessing),
                        tm_completed = cnt (\<lambda>j. jb_type j = ty \<and> jb_status j = JobCompleted),
                        tm_failed = cnt (\<lambda>j. jb_type j = ty \<and> jb_status j = JobFailed)\<rparr>)\<rparr>)"

section \<open>The processor\<close>

datatype reply = Resolved job_result | Rejected str

text \<open>
  What a handler does with the event of a job, under the context it is emitted in: it answers
  after so many milliseconds, or never, or there is none.
\<close>

type_synonym handler = "als \<Rightarrow> job \<Rightarrow> (int \<times> reply) option"

definition no_handler_result :: job_result where
  "no_handler_result = \<lparr>jr_success = True,
     jr_data = Some (JObj [(''message'', JStr ''No handler registered for this job type'')]),
     jr_error = None, jr_warnings = None\<rparr>"

text \<open>
  The first of the handler, the job's timeout and the 100 ms default to settle the promise; the
  timeout is armed before the default.
\<close>

definition settled :: "handler \<Rightarrow> als \<Rightarrow> job \<Rightarrow> reply" where
  "settled handler ctx job =
     (let limit = or_default (jo_timeout (jb_options job)) 300000;
          default = (if limit \<le> 100 then Rejected (''Job timeout: '' @ jb_id job) else Resolved no_handler_result)
      in case handler ctx job of
           None \<Rightarrow> default
         | Some (t, r) \<Rightarrow> (if t < min limit 100 then r else default))"

definition null_message :: str where
  "null_message = ''Cannot read properties of null (reading '' @ [CHR 0x27] @ ''getTime'' @ [CHR 0x27] @ '')''"

definition processJobInternal :: "handler \<Rightarrow> instant \<Rightarrow> job \<Rightarrow> als \<Rightarrow> queue \<Rightarrow> queue" where
  "processJobInternal handler now job ctx q =
     (let onError = (\<lambda>message q. failJob ctx (jb_id job) message (jb_attempts job < jb_maxAttempts job) now q)
      in case settled handler ctx job of
           Rejected message \<Rightarrow> onError message q
         | Resolved result \<Rightarrow>
             (case completeJob ctx (jb_id job) result now q of
                (Inl _, q') \<Rightarrow> onError null_message q'
              | (Inr _, q') \<Rightarrow> q'))"

text \<open>
  The bounded drain: \<open>left\<close> is \<open>maxJobs - processed\<close>, and \<open>clock\<close> is read three times a round,
  for the budget, the claim and the outcome.
\<close>

primrec drain_loop ::
  "handler \<Rightarrow> (nat \<Rightarrow> instant) \<Rightarrow> instant \<Rightarrow> als \<Rightarrow> nat \<Rightarrow> nat \<Rightarrow> queue \<Rightarrow> nat \<times> queue" where
  "drain_loop handler clock deadline ctx 0 processed q = (processed, q)"
| "drain_loop handler clock deadline ctx (Suc left) processed q =
     (if \<not> clock (3 * processed + 1) < deadline then (processed, q)
      else case runAsSystem ''queue-drain: claim next job''
                  (\<lambda>c. getNextJob c all_job_types None (clock (3 * processed + 2)) q) ctx of
             (None, q') \<Rightarrow> (processed, q')
           | (Some job, q') \<Rightarrow>
               drain_loop handler clock deadline ctx left (Suc processed)
                 (tc_run (item_store (jb_tenantId job))
                    (\<lambda>c. processJobInternal handler (clock (3 * processed + 3)) job c q') ctx))"

definition drainQueue ::
  "handler \<Rightarrow> (nat \<Rightarrow> instant) \<Rightarrow> nat \<Rightarrow> int \<Rightarrow> als \<Rightarrow> queue \<Rightarrow> nat \<times> queue" where
  "drainQueue handler clock maxJobs budgetMs ctx q =
     drain_loop handler clock (clock 0 + budgetMs) ctx maxJobs 0 q"

section \<open>The queue as a state machine\<close>

text \<open>What every stored job satisfies, and the steps the service and the processor can take.\<close>

definition job_ok :: "job \<Rightarrow> bool" where
  "job_ok j \<longleftrightarrow>
     (jb_status j = JobProcessing \<longrightarrow> jb_processedAt j \<noteq> None)
     \<and> (jb_status j \<in> {JobScheduled, JobRetrying} \<longrightarrow> jb_scheduledFor j \<noteq> None)
     \<and> (jb_status j = JobRetrying \<longrightarrow> jb_attempts j < jb_maxAttempts j)
     \<and> (jb_status j = JobCompleted \<longrightarrow> jb_completedAt j \<noteq> None \<and> jb_result j \<noteq> None)
     \<and> (jb_status j = JobFailed \<longrightarrow> jb_failedAt j \<noteq> None
          \<and> (\<exists>e. jb_lastError j = Some e \<and> (\<exists>r. jb_result j = Some r \<and> \<not> jr_success r \<and> jr_error r = Some e)))"

definition queue_ok :: "queue \<Rightarrow> bool" where
  "queue_ok q \<longleftrightarrow> keys_distinct jb_id (q_jobs q) \<and> job_repo.all_rows job_ok (q_jobs q)"

inductive queue_step :: "queue \<Rightarrow> queue \<Rightarrow> bool" where
  created: "newId \<notin> jb_id ` set (q_jobs q) \<Longrightarrow>
     queue_step q (snd (createJob newId now tenantId ty d options userId q))"
| claimed: "queue_step q (snd (getNextJob ctx workerTypes tenantId now q))"
| progressed: "queue_step q (updateProgress ctx jobId progress q)"
| completed: "queue_step q (snd (completeJob ctx jobId result now q))"
| failed: "queue_step q (failJob ctx jobId err shouldRetry now q)"
| retried: "retryJob ctx jobId tenantId delay now q = Inr (j, q') \<Longrightarrow> queue_step q q'"
| cancelled: "cancelJob ctx jobId tenantId q = Inr q' \<Longrightarrow> queue_step q q'"
| removed: "queue_step q (removeJob ctx jobId q)"
| resumed: "queue_step q (resumePendingJobs ctx q)"

inductive_cases queue_stepE: "queue_step q q'"

section \<open>Lemmas\<close>

lemma queue_simps [simp]:
  "q_jobs (put_job j q) = save_row jb_id j (q_jobs q)"
  "q_jobs (emit e q) = q_jobs q"
  "q_jobs (logJobEvent i ev d q) = q_jobs q"
  "q_jobs (put_scheduled s q) = q_jobs q"
  by (simp_all add: put_job_def emit_def logJobEvent_def put_scheduled_def)

lemma queue_ok_cong: "q_jobs q' = q_jobs q \<Longrightarrow> queue_ok q' = queue_ok q"
  by (simp add: queue_ok_def)

lemma queue_ok_aux [simp]:
  "queue_ok (emit e q) = queue_ok q"
  "queue_ok (logJobEvent i ev d q) = queue_ok q"
  "queue_ok (put_scheduled s q) = queue_ok q"
  by (rule queue_ok_cong; simp)+

lemma queue_ok_put [intro]: "queue_ok q \<Longrightarrow> job_ok j \<Longrightarrow> queue_ok (put_job j q)"
  by (auto simp: queue_ok_def keys_distinct_save)

lemma by_key_filter:
  "keys_distinct key t \<Longrightarrow>
     by_key key (filter P t) k = (case by_key key t k of None \<Rightarrow> None | Some x \<Rightarrow> if P x then Some x else None)"
proof (induction t)
  case (Cons x t)
  have none: "by_key key t (key x) = None" using Cons.prems by (simp add: by_key_None_iff)
  from Cons show ?case by (cases "key x = k") (auto simp: none)
qed simp

lemma queue_ok_filter:
  assumes "queue_ok q" and "q_jobs q' = filter P (q_jobs q)"
  shows "queue_ok q'"
  using assms by (auto simp: queue_ok_def job_repo.all_rows_def by_key_filter distinct_map_filter
      split: option.splits if_splits)

lemma find_job_SomeD:
  assumes "queue_ok q" and "find_job ctx P q = Some j"
  shows "by_key jb_id (q_jobs q) (jb_id j) = Some j \<and> P j \<and> job_ok j \<and> rls_visible ctx (jb_tenantId j)"
proof -
  have j: "j \<in> set (q_jobs q)" "P j" "rls_visible ctx (jb_tenantId j)"
    using assms(2) find_one_SomeD by (fastforce simp: find_job_def)+
  have "by_key jb_id (q_jobs q) (jb_id j) = Some j"
    using assms(1) j(1) by (simp add: queue_ok_def by_key_mem)
  with j assms(1) show ?thesis by (auto simp: queue_ok_def dest: job_repo.all_rowsD)
qed

lemma find_job_by_id:
  assumes "queue_ok q"
  shows "find_job ctx (\<lambda>j. jb_id j = i) q =
    (case by_key jb_id (q_jobs q) i of
       None \<Rightarrow> None | Some j \<Rightarrow> if rls_visible ctx (jb_tenantId j) then Some j else None)"
proof (cases "find_job ctx (\<lambda>j. jb_id j = i) q")
  case None
  then have "\<forall>j \<in> set (q_jobs q). rls_visible ctx (jb_tenantId j) \<longrightarrow> jb_id j \<noteq> i"
    by (auto simp: find_job_def find_one_None_iff)
  with None show ?thesis by (auto split: option.splits dest: by_key_SomeD)
next
  case (Some j)
  with find_job_SomeD [OF assms Some] show ?thesis by auto
qed

lemma getNextJob_cases:
  assumes "getNextJob ctx types t now q = (r, q')"
  obtains "r = None" "q' = q" "\<forall>j \<in> set (q_jobs q). \<not> claimable ctx types t now j"
  | j where "j \<in> set (q_jobs q)" "claimable ctx types t now j"
      "\<forall>k \<in> set (q_jobs q). claimable ctx types t now k \<longrightarrow> claim_order j \<le> claim_order k"
      "r = Some (claim now j)" "q_jobs q' = save_row jb_id (claim now j) (q_jobs q)"
      "q_scheduled q' = q_scheduled q"
proof (cases "sort_key claim_order (find_where (claimable ctx types t now) (q_jobs q))")
  case Nil
  then have "set (find_where (claimable ctx types t now) (q_jobs q)) = {}" by (metis set_empty2 set_sort)
  with assms Nil that(1) show ?thesis by (auto simp: getNextJob_def set_find_where)
next
  case (Cons j js)
  have all: "set (j # js) = {x \<in> set (q_jobs q). claimable ctx types t now x}"
    unfolding Cons [symmetric] by (simp add: set_find_where)
  have "sorted (map claim_order (j # js))" unfolding Cons [symmetric] by simp
  then have "\<forall>k \<in> set (j # js). claim_order j \<le> claim_order k" by auto
  then have least: "\<forall>k \<in> set (q_jobs q). claimable ctx types t now k \<longrightarrow> claim_order j \<le> claim_order k"
    using all by blast
  have j: "j \<in> set (q_jobs q)" "claimable ctx types t now j" using all by auto
  have res: "r = Some (claim now j)" "q_jobs q' = save_row jb_id (claim now j) (q_jobs q)"
      "q_scheduled q' = q_scheduled q"
    using assms Cons by (auto simp: getNextJob_def Let_def claim_def put_job_def logJobEvent_def)
  show ?thesis by (rule that(2) [OF j least res])
qed

lemma claim_ok: "job_ok (claim now j)"
  by (simp add: job_ok_def claim_def)

lemma removeJob_jobs [simp]:
  "q_jobs (removeJob ctx i q) = filter (\<lambda>j. \<not> (jb_id j = i \<and> rls_visible ctx (jb_tenantId j))) (q_jobs q)"
  by (simp add: removeJob_def)

lemma completeJob_keeps: "queue_ok q \<Longrightarrow> queue_ok (snd (completeJob ctx i r now q))"
proof -
  assume ok: "queue_ok q"
  have put: "queue_ok (put_job (job\<lparr>jb_status := JobCompleted, jb_completedAt := Some now,
      jb_result := Some r, jb_duration := d\<rparr>) q)" for job d
    by (rule queue_ok_put [OF ok]) (simp add: job_ok_def)
  show ?thesis
    by (auto simp: completeJob_def Let_def ok put split: option.split intro!: queue_ok_filter [OF _ removeJob_jobs])
qed

lemma failJob_keeps: "queue_ok q \<Longrightarrow> queue_ok (failJob ctx i e retry now q)"
  by (auto simp: failJob_def Let_def job_ok_def split: option.split intro!: queue_ok_put)

lemma getNextJob_keeps: "queue_ok q \<Longrightarrow> queue_ok (snd (getNextJob ctx types t now q))"
proof -
  assume ok: "queue_ok q"
  obtain r q' where g: "getNextJob ctx types t now q = (r, q')" by fastforce
  from g show ?thesis
  proof (cases rule: getNextJob_cases)
    case 1
    with ok g show ?thesis by simp
  next
    case (2 j)
    have "queue_ok (put_job (claim now j) q)" by (rule queue_ok_put [OF ok claim_ok])
    with 2 g show ?thesis by (simp add: queue_ok_def)
  qed
qed

lemma updateProgress_keeps: "queue_ok q \<Longrightarrow> queue_ok (updateProgress ctx i p q)"
proof -
  assume ok: "queue_ok q"
  let ?f = "\<lambda>j. if jb_id j = i \<and> rls_visible ctx (jb_tenantId j) then j\<lparr>jb_progress := Some p\<rparr> else j"
  have keys: "map jb_id (map ?f t) = map jb_id t" for t by simp
  have look: "by_key jb_id (map ?f t) k = map_option ?f (by_key jb_id t k)" for t k
    by (induction t) auto
  have "job_ok (j\<lparr>jb_progress := Some p\<rparr>) = job_ok j" for j by (simp add: job_ok_def)
  then show ?thesis using ok
    by (auto simp: queue_ok_def updateProgress_def Let_def keys look job_repo.all_rows_def simp del: map_map)
qed

lemma resume_keeps: "queue_ok q \<Longrightarrow> queue_ok (resumePendingJobs ctx q)"
proof -
  have "queue_ok q \<Longrightarrow>
      queue_ok (fold (\<lambda>job. put_job (job\<lparr>jb_status := JobPending, jb_processedAt := None\<rparr>)) js q)" for js q
  proof (induction js arbitrary: q)
    case (Cons j js)
    have "queue_ok (put_job (j\<lparr>jb_status := JobPending, jb_processedAt := None\<rparr>) q)"
      by (rule queue_ok_put [OF Cons.prems]) (simp add: job_ok_def)
    then show ?case by (simp add: Cons.IH)
  qed simp
  then show "queue_ok q \<Longrightarrow> queue_ok (resumePendingJobs ctx q)" by (simp add: resumePendingJobs_def)
qed

lemma createJob_keeps: "queue_ok q \<Longrightarrow> queue_ok (snd (createJob i now t ty d opts u q))"
  by (auto simp: createJob_def Let_def new_job_def job_ok_def intro!: queue_ok_put)

lemma getJob_Inr: "queue_ok q \<Longrightarrow> getJob ctx i t q = Inr j \<Longrightarrow> jb_id j = i \<and> job_ok j"
  by (auto simp: getJob_def split: option.splits dest: find_job_SomeD)

lemma retryJob_keeps: "queue_ok q \<Longrightarrow> retryJob ctx i t delay now q = Inr (j, q') \<Longrightarrow> queue_ok q'"
  by (auto simp: retryJob_def and_then_Inr_iff Let_def job_ok_def split: if_splits intro!: queue_ok_put)

lemma cancelJob_keeps: "queue_ok q \<Longrightarrow> cancelJob ctx i t q = Inr q' \<Longrightarrow> queue_ok q'"
  by (auto simp: cancelJob_def and_then_Inr_iff job_ok_def split: if_splits intro!: queue_ok_put)

lemma processJob_keeps: "queue_ok q \<Longrightarrow> queue_ok (processJobInternal h now j ctx q)"
  using completeJob_keeps [of q ctx "jb_id j"]
  by (auto simp: processJobInternal_def Let_def failJob_keeps split: reply.split sum.split prod.split)
     (metis failJob_keeps snd_conv)+

lemma own_store_visible [simp]: "rls_visible (Some (item_store t)) t"
  by (simp add: rls_visible_def getTenantId_def item_store_def)

lemma system_visible [simp]:
  "rls_visible (Some (s\<lparr>ts_bypass := Some b\<rparr>)) t"
  by (simp add: rls_visible_def isBypassed_def getBypass_def)

definition finished :: "job option \<Rightarrow> bool" where
  "finished x \<longleftrightarrow> (case x of None \<Rightarrow> True
     | Some j \<Rightarrow> jb_status j \<in> {JobCompleted, JobFailed, JobRetrying})"

lemma completeJob_lookup:
  assumes "queue_ok q" and "by_key jb_id (q_jobs q) i = Some job"
    and "rls_visible ctx (jb_tenantId job)" and "jb_processedAt job \<noteq> None"
    and "completeJob ctx i r now q = (x, q')"
  shows "x = Inr () \<and> (\<forall>k. k \<noteq> i \<longrightarrow> by_key jb_id (q_jobs q') k = by_key jb_id (q_jobs q) k)
     \<and> finished (by_key jb_id (q_jobs q') i)"
proof -
  have id: "jb_id job = i" using assms(2) by (auto dest: by_key_SomeD)
  have f: "find_job ctx (\<lambda>j. jb_id j = i) q = Some job" using assms by (simp add: find_job_by_id)
  obtain s where s: "jb_processedAt job = Some s" using assms(4) by blast
  let ?job' = "job\<lparr>jb_status := JobCompleted, jb_completedAt := Some now, jb_result := Some r,
      jb_duration := now - s\<rparr>"
  have ok: "queue_ok (put_job ?job' q)"
    by (rule queue_ok_put [OF assms(1)]) (simp add: job_ok_def)
  have look: "by_key jb_id (save_row jb_id ?job' (q_jobs q)) k
      = (if k = i then Some ?job' else by_key jb_id (q_jobs q) k)" for k
    by (simp add: by_key_save id)
  have dist: "keys_distinct jb_id (save_row jb_id ?job' (q_jobs q))" using ok by (simp add: queue_ok_def)
  have "x = Inr () \<and> (q_jobs q' = save_row jb_id ?job' (q_jobs q)
      \<or> q_jobs q' = filter (\<lambda>j. \<not> (jb_id j = i \<and> rls_visible ctx (jb_tenantId j))) (save_row jb_id ?job' (q_jobs q)))"
    using assms(5) by (auto simp: completeJob_def f s Let_def split: if_splits)
  moreover have "by_key jb_id (filter (\<lambda>j. \<not> (jb_id j = i \<and> rls_visible ctx (jb_tenantId j)))
      (save_row jb_id ?job' (q_jobs q))) k = (if k = i then None else by_key jb_id (q_jobs q) k)" for k
    unfolding by_key_filter [OF dist] look using assms(3) id
    by (auto split: option.split dest: by_key_SomeD)
  ultimately show ?thesis using look by (auto simp: finished_def)
qed

lemma failJob_lookup:
  assumes "queue_ok q" and "by_key jb_id (q_jobs q) i = Some job"
    and "rls_visible ctx (jb_tenantId job)"
  shows "(\<forall>k. k \<noteq> i \<longrightarrow> by_key jb_id (q_jobs (failJob ctx i e retry now q)) k = by_key jb_id (q_jobs q) k)
     \<and> finished (by_key jb_id (q_jobs (failJob ctx i e retry now q)) i)"
proof -
  have id: "jb_id job = i" using assms(2) by (auto dest: by_key_SomeD)
  have f: "find_job ctx (\<lambda>j. jb_id j = i) q = Some job" using assms by (simp add: find_job_by_id)
  show ?thesis by (simp add: failJob_def f Let_def by_key_save id finished_def)
qed

lemma processJob_lookup:
  assumes "queue_ok q" and "by_key jb_id (q_jobs q) (jb_id job) = Some job"
    and "jb_processedAt job \<noteq> None" and "rls_visible ctx (jb_tenantId job)"
  shows "(\<forall>k. k \<noteq> jb_id job \<longrightarrow> by_key jb_id (q_jobs (processJobInternal h now job ctx q)) k
        = by_key jb_id (q_jobs q) k)
     \<and> finished (by_key jb_id (q_jobs (processJobInternal h now job ctx q)) (jb_id job))"
proof (cases "settled h ctx job")
  case (Rejected m)
  then show ?thesis
    using failJob_lookup [OF assms(1,2,4)] by (simp add: processJobInternal_def)
next
  case (Resolved r)
  obtain x q' where c: "completeJob ctx (jb_id job) r now q = (x, q')" by fastforce
  from completeJob_lookup [OF assms(1,2,4,3) c] show ?thesis
    by (simp add: processJobInternal_def Resolved c)
qed

lemma claimed_lookup:
  assumes "queue_ok q" and "getNextJob ctx types t now q = (Some job, q')"
  shows "queue_ok q' \<and> by_key jb_id (q_jobs q') (jb_id job) = Some job \<and> jb_processedAt job = Some now
     \<and> (\<exists>j0. by_key jb_id (q_jobs q) (jb_id job) = Some j0 \<and> jb_status j0 = JobPending)
     \<and> (\<forall>k. k \<noteq> jb_id job \<longrightarrow> by_key jb_id (q_jobs q') k = by_key jb_id (q_jobs q) k)"
proof -
  have ok: "queue_ok q'" using getNextJob_keeps [OF assms(1)] assms(2) by (metis snd_conv)
  from assms(2) show ?thesis
  proof (cases rule: getNextJob_cases)
    case (2 j)
    then have "job = claim now j" by simp
    moreover have "by_key jb_id (q_jobs q) (jb_id j) = Some j"
      using 2(1) assms(1) by (simp add: queue_ok_def by_key_mem)
    ultimately show ?thesis using ok 2 by (auto simp: by_key_save claim_def claimable_def)
  qed simp
qed

text \<open>One round of the drain: a pending job ends, every other row is as it was.\<close>

lemma drain_round:
  assumes "queue_ok q" and "getNextJob ctx types t now q = (Some job, q1)"
    and "q2 = processJobInternal h now' job (Some (item_store (jb_tenantId job))) q1"
  shows "queue_ok q2 \<and> (\<exists>j0. by_key jb_id (q_jobs q) (jb_id job) = Some j0 \<and> jb_status j0 = JobPending)
     \<and> (\<forall>k. k \<noteq> jb_id job \<longrightarrow> by_key jb_id (q_jobs q2) k = by_key jb_id (q_jobs q) k)
     \<and> finished (by_key jb_id (q_jobs q2) (jb_id job))"
proof -
  note c = claimed_lookup [OF assms(1,2)]
  have p: "(\<forall>k. k \<noteq> jb_id job \<longrightarrow> by_key jb_id (q_jobs q2) k = by_key jb_id (q_jobs q1) k)
     \<and> finished (by_key jb_id (q_jobs q2) (jb_id job))"
    unfolding assms(3) using c by (intro processJob_lookup) auto
  have "queue_ok q2" unfolding assms(3) using c by (intro processJob_keeps) blast
  with c p show ?thesis by auto
qed

lemma drain_loop_lookup:
  assumes "queue_ok q" and "drain_loop h clock deadline ctx left p q = (n, q')"
  shows "queue_ok q' \<and> p \<le> n \<and> n \<le> p + left
     \<and> (\<forall>k. by_key jb_id (q_jobs q') k = by_key jb_id (q_jobs q) k
          \<or> (\<exists>j0. by_key jb_id (q_jobs q) k = Some j0 \<and> jb_status j0 = JobPending)
             \<and> finished (by_key jb_id (q_jobs q') k))"
  using assms
proof (induction left arbitrary: p q)
  case (Suc left)
  let ?sys = "Some ((spread_store ctx)\<lparr>ts_bypass := Some \<lparr>bp_kind = SystemBypass,
     bp_reason = ''queue-drain: claim next job'', bp_actorId = None\<rparr>\<rparr>)"
  obtain r q1 where g: "getNextJob ?sys all_job_types None (clock (3 * p + 2)) q = (r, q1)" by fastforce
  show ?case
  proof (cases "clock (3 * p + 1) < deadline")
    case False
    with Suc.prems show ?thesis by simp
  next
    case True
    show ?thesis
    proof (cases r)
      case None
      from g have "q1 = q" by (cases rule: getNextJob_cases) (use None in auto)
      with True g None Suc.prems show ?thesis by (simp add: runAsSystem_def)
    next
      case (Some job)
      define q2 where "q2 = processJobInternal h (clock (3 * p + 3)) job (Some (item_store (jb_tenantId job))) q1"
      have round: "queue_ok q2 \<and> (\<exists>j0. by_key jb_id (q_jobs q) (jb_id job) = Some j0 \<and> jb_status j0 = JobPending)
          \<and> (\<forall>k. k \<noteq> jb_id job \<longrightarrow> by_key jb_id (q_jobs q2) k = by_key jb_id (q_jobs q) k)
          \<and> finished (by_key jb_id (q_jobs q2) (jb_id job))"
        by (rule drain_round [OF Suc.prems(1) g [unfolded Some] q2_def])
      have rest: "drain_loop h clock deadline ctx left (Suc p) q2 = (n, q')"
        using Suc.prems(2) True g Some by (simp add: runAsSystem_def tc_run_def q2_def)
      from round have ok: "queue_ok q2" by blast
      note IH = Suc.IH [OF ok rest]
      have "by_key jb_id (q_jobs q') k = by_key jb_id (q_jobs q) k
          \<or> (\<exists>j0. by_key jb_id (q_jobs q) k = Some j0 \<and> jb_status j0 = JobPending)
             \<and> finished (by_key jb_id (q_jobs q') k)" for k
      proof (cases "k = jb_id job")
        case False
        with round have "by_key jb_id (q_jobs q2) k = by_key jb_id (q_jobs q) k" by blast
        with IH show ?thesis by metis
      next
        case True
        with IH round show ?thesis by metis
      qed
      with IH show ?thesis by auto
    qed
  qed
qed simp

lemma drain_loop_empties:
  assumes "queue_ok q" and "drain_loop h clock deadline ctx left p q = (n, q')"
    and "n < p + left" and "\<forall>i. clock i < deadline"
  shows "\<forall>j \<in> set (q_jobs q'). jb_status j = JobPending \<longrightarrow>
     (\<exists>t. jb_scheduledFor j = Some t \<and> clock (3 * n + 2) < t)"
  using assms
proof (induction left arbitrary: p q)
  case (Suc left)
  let ?sys = "Some ((spread_store ctx)\<lparr>ts_bypass := Some \<lparr>bp_kind = SystemBypass,
     bp_reason = ''queue-drain: claim next job'', bp_actorId = None\<rparr>\<rparr>)"
  obtain r q1 where g: "getNextJob ?sys all_job_types None (clock (3 * p + 2)) q = (r, q1)" by fastforce
  show ?case
  proof (cases r)
    case None
    from g have "q1 = q" "\<forall>j \<in> set (q_jobs q). \<not> claimable ?sys all_job_types None (clock (3 * p + 2)) j"
      by (cases rule: getNextJob_cases; use None in auto)+
    moreover have "n = p" "q' = q"
      using Suc.prems(2,4) g None \<open>q1 = q\<close> by (auto simp: runAsSystem_def)
    ultimately show ?thesis
      by (fastforce simp: claimable_def all_job_types_complete split: option.splits)
  next
    case (Some job)
    define q2 where "q2 = processJobInternal h (clock (3 * p + 3)) job (Some (item_store (jb_tenantId job))) q1"
    have ok: "queue_ok q2"
      using drain_round [OF Suc.prems(1) g [unfolded Some] q2_def] by blast
    have rest: "drain_loop h clock deadline ctx left (Suc p) q2 = (n, q')"
      using Suc.prems(2,4) g Some by (simp add: runAsSystem_def tc_run_def q2_def)
    show ?thesis by (rule Suc.IH [OF ok rest]) (use Suc.prems in auto)
  qed
qed simp

section \<open>The recurring jobs as a sweep body\<close>

text \<open>A recurring row with a limit is active only below it.\<close>

definition scheduled_ok :: "scheduled_job \<Rightarrow> bool" where
  "scheduled_ok s \<longleftrightarrow> (\<forall>m. sj_maxRuns s = Some m \<and> 0 < m \<and> sj_isActive s \<longrightarrow> sj_runCount s < m)"

definition recurring_ok :: "queue \<Rightarrow> bool" where
  "recurring_ok q \<longleftrightarrow> queue_ok q \<and> list_all scheduled_ok (q_scheduled q)"

lemma scheduled_frame [simp]:
  "q_scheduled (put_job j q) = q_scheduled q" "q_scheduled (emit e q) = q_scheduled q"
  "q_scheduled (put_scheduled s q) = save_row sj_id s (q_scheduled q)"
  by (simp_all add: put_job_def emit_def put_scheduled_def)

lemma run_scheduled_ok: "scheduled_ok (run_scheduled now t s)"
  by (auto simp: scheduled_ok_def run_scheduled_def)

lemma list_all_save: "list_all P t \<Longrightarrow> P r \<Longrightarrow> list_all P (save_row key r t)"
  by (induction t) auto

lemma run_one_scheduled_keeps:
  assumes "recurring_ok q" and "run_one_scheduled cv cn newId now s ctx q = (r, q')"
  shows "recurring_ok q'"
proof -
  obtain j q1 where c: "createJob (newId q) now (sj_tenantId s) (sj_type s) (sj_data s) no_options None q = (j, q1)"
    by fastforce
  then have q1: "queue_ok q1" "q_scheduled q1 = q_scheduled q"
    using createJob_keeps [of q "newId q" now "sj_tenantId s" "sj_type s" "sj_data s" no_options None] assms(1)
    by (auto simp: recurring_ok_def createJob_def Let_def split: if_splits)
  have "q' = q1 \<or> (\<exists>t. q' = put_scheduled (run_scheduled now t s) q1)"
    using assms(2) by (auto simp: run_one_scheduled_def c split: if_splits option.splits)
  with q1 assms(1) show ?thesis
    by (auto simp: recurring_ok_def list_all_save run_scheduled_ok)
qed

interpretation recurring:
  sweep_body sj_tenantId "run_one_scheduled cron_valid cron_next newId now" recurring_ok
  for cron_valid cron_next newId now
  by unfold_locales (rule run_one_scheduled_keeps)

section \<open>Properties\<close>

text \<open>
  Claim C20: a worker claims a pending, due job of its types that no claimable job precedes in
  priority and then age; the claim marks it as processing, stamps it and counts the attempt, and
  changes no other job. It claims nothing only when nothing is claimable.
\<close>

theorem claims_first_in_order:
  assumes "queue_ok q"
  shows "case getNextJob ctx types t now q of
      (None, q') \<Rightarrow> q' = q \<and> (\<forall>j \<in> set (q_jobs q). \<not> claimable ctx types t now j)
    | (Some job, q') \<Rightarrow>
        (\<exists>j \<in> set (q_jobs q). claimable ctx types t now j \<and> job = claim now j
           \<and> (\<forall>k \<in> set (q_jobs q). claimable ctx types t now k \<longrightarrow>
                jb_priority j < jb_priority k
                \<or> jb_priority j = jb_priority k \<and> jb_createdAt j \<le> jb_createdAt k)
           \<and> by_key jb_id (q_jobs q') = (by_key jb_id (q_jobs q))(jb_id j \<mapsto> claim now j))"
proof -
  obtain r q' where g: "getNextJob ctx types t now q = (r, q')" by fastforce
  from g show ?thesis
  proof (cases rule: getNextJob_cases)
    case 1
    with g show ?thesis by simp
  next
    case (2 j)
    have "by_key jb_id (q_jobs q') = (by_key jb_id (q_jobs q))(jb_id j \<mapsto> claim now j)"
      unfolding 2 by (auto simp: fun_eq_iff by_key_save claim_def)
    moreover have "\<forall>k \<in> set (q_jobs q). claimable ctx types t now k \<longrightarrow>
        jb_priority j < jb_priority k \<or> jb_priority j = jb_priority k \<and> jb_createdAt j \<le> jb_createdAt k"
      using 2(3) by (auto simp: claim_order_def)
    ultimately show ?thesis using g 2 by auto
  qed
qed

definition sample_data :: job_data where
  "sample_data = \<lparr>jd_tenantId = None, jd_userId = None, jd_payload = [], jd_metadata = None\<rparr>"

definition sample_job :: "str \<Rightarrow> job_priority \<Rightarrow> instant \<Rightarrow> job" where
  "sample_job i p now = new_job i now ''t'' EMAIL_SEND sample_data (no_options\<lparr>op_priority := Some p\<rparr>) None"

definition queue_of :: "job list \<Rightarrow> queue" where
  "queue_of js = \<lparr>q_jobs = js, q_logs = [], q_scheduled = [], q_events = []\<rparr>"

lemma sample_fields [simp]:
  "jb_id (sample_job i p now) = i" "jb_status (sample_job i p now) = JobPending"
  "jb_priority (sample_job i p now) = p" "jb_createdAt (sample_job i p now) = now"
  "jb_scheduledFor (sample_job i p now) = None" "jb_type (sample_job i p now) = EMAIL_SEND"
  "jb_tenantId (sample_job i p now) = ''t''" "jb_processedAt (sample_job i p now) = None"
  by (simp_all add: sample_job_def new_job_def no_options_def)

lemma queue_of_jobs [simp]: "q_jobs (queue_of js) = js"
  by (simp add: queue_of_def)

lemma queue_of_ok:
  "queue_ok (queue_of js) \<longleftrightarrow> keys_distinct jb_id js \<and> (\<forall>k j. by_key jb_id js k = Some j \<longrightarrow> job_ok j)"
  by (simp add: queue_ok_def job_repo.all_rows_def)

lemma sample_ok [simp]: "job_ok (sample_job i p now)"
  by (simp add: job_ok_def)

theorem claims_first_in_order_witness:
  "\<exists>q'. getNextJob (Some (item_store ''t'')) all_job_types None 9
      (queue_of [sample_job ''a'' PrioLow 1, sample_job ''b'' PrioHigh 2])
    = (Some (claim 9 (sample_job ''b'' PrioHigh 2)), q')"
proof -
  let ?q = "queue_of [sample_job ''a'' PrioLow 1, sample_job ''b'' PrioHigh 2]"
  have ok: "queue_ok ?q" by (auto simp: queue_of_ok split: if_splits)
  have "\<not> PrioLow < PrioHigh" by (simp add: less_job_priority_def)
  then show ?thesis
    using claims_first_in_order [OF ok, of "Some (item_store ''t'')" all_job_types None 9]
    by (auto simp: claimable_def all_job_types_complete split: prod.splits option.splits)
qed

text \<open>
  Claim C21: whatever sequence of creations, claims, progress reports, completions, failures,
  retries, cancellations, removals and restarts a queue goes through, ids stay unique, a
  processing job has a start time, a scheduled or retrying one a due time, a retrying one
  attempts left, a completed one its result and a failed one its error.
\<close>

theorem queue_invariant:
  assumes "queue_step\<^sup>*\<^sup>* q q'" and "queue_ok q"
  shows "queue_ok q'"
  using assms
proof (induction rule: rtranclp_induct)
  case (step q1 q2)
  then have "queue_ok q1" by blast
  with step.hyps(2) show ?case
    by (elim queue_stepE)
      (auto simp: createJob_keeps getNextJob_keeps updateProgress_keeps completeJob_keeps failJob_keeps
         resume_keeps intro: retryJob_keeps cancelJob_keeps queue_ok_filter [OF _ removeJob_jobs])
qed

theorem queue_invariant_witness:
  "queue_ok (failJob None ''a'' ''boom'' True 5
     (snd (createJob ''a'' 1 ''t'' EMAIL_SEND sample_data no_options None (queue_of []))))"
proof (rule queue_invariant [of "queue_of []"])
  let ?q1 = "snd (createJob ''a'' 1 ''t'' EMAIL_SEND sample_data no_options None (queue_of []))"
  have "queue_step (queue_of []) ?q1" by (rule created) simp
  moreover have "queue_step ?q1 (failJob None ''a'' ''boom'' True 5 ?q1)" by (rule failed)
  ultimately show "queue_step\<^sup>*\<^sup>* (queue_of []) (failJob None ''a'' ''boom'' True 5 ?q1)" by simp
  show "queue_ok (queue_of [])" by (simp add: queue_of_ok)
qed

text \<open>
  A drain handles at most \<open>maxJobs\<close> jobs; each job it touches was pending and ends
  completed, failed, retrying or removed, so none is left processing, and every other job is as
  it was: whatever the handlers answer, whatever the clock does, whatever context it is called in.
\<close>

theorem drain_settles_what_it_claims:
  assumes "queue_ok q" and "drainQueue h clock maxJobs budget ctx q = (n, q')"
  shows "n \<le> maxJobs \<and> queue_ok q'
     \<and> (\<forall>k. by_key jb_id (q_jobs q') k = by_key jb_id (q_jobs q) k
          \<or> (\<exists>j. by_key jb_id (q_jobs q) k = Some j \<and> jb_status j = JobPending)
             \<and> (case by_key jb_id (q_jobs q') k of None \<Rightarrow> True
                | Some j \<Rightarrow> jb_status j \<in> {JobCompleted, JobFailed, JobRetrying}))"
  using drain_loop_lookup [OF assms(1) assms(2) [unfolded drainQueue_def]]
  by (simp add: finished_def)

theorem drain_settles_what_it_claims_witness:
  "fst (drainQueue (\<lambda>c j. Some (0, Rejected ''boom'')) (\<lambda>_. 7) 1 1000 None
     (queue_of [sample_job ''a'' PrioLow 1, sample_job ''b'' PrioHigh 2])) \<le> 1"
proof -
  have ok: "queue_ok (queue_of [sample_job ''a'' PrioLow 1, sample_job ''b'' PrioHigh 2])"
    by (auto simp: queue_of_ok split: if_splits)
  obtain n q' where d: "drainQueue (\<lambda>c j. Some (0, Rejected ''boom'')) (\<lambda>_. 7) 1 1000 None
     (queue_of [sample_job ''a'' PrioLow 1, sample_job ''b'' PrioHigh 2]) = (n, q')" by fastforce
  from drain_settles_what_it_claims [OF ok d] have "n \<le> 1" by blast
  then show ?thesis unfolding d by simp
qed

text \<open>
  Claim C26: a drain that stops before its limit, with time left, has emptied the queue: no
  pending job was due at its last look.
\<close>

theorem drain_empties_the_queue:
  assumes "queue_ok q" and "drainQueue h clock maxJobs budget ctx q = (n, q')"
    and "n < maxJobs" and "\<forall>i. clock i < clock 0 + budget"
  shows "\<forall>j \<in> set (q_jobs q'). jb_status j = JobPending \<longrightarrow>
     (\<exists>t. jb_scheduledFor j = Some t \<and> clock (3 * n + 2) < t)"
  using drain_loop_empties [OF assms(1) assms(2) [unfolded drainQueue_def] _ assms(4)] assms(3) by simp

theorem drain_empties_the_queue_witness:
  "\<exists>q'. drainQueue (\<lambda>c j. None) (\<lambda>_. 7) 5 1000 None (queue_of [sample_job ''a'' PrioLow 1]) = (1, q')
     \<and> (\<forall>j \<in> set (q_jobs q'). jb_status j = JobPending \<longrightarrow> (\<exists>t. jb_scheduledFor j = Some t \<and> 7 < t))"
proof -
  have ok: "queue_ok (queue_of [sample_job ''a'' PrioLow 1])" by (auto simp: queue_of_ok split: if_splits)
  have "fst (drainQueue (\<lambda>c j. None) (\<lambda>_. 7) 5 1000 None (queue_of [sample_job ''a'' PrioLow 1])) = 1"
    by code_simp
  then obtain q' where d: "drainQueue (\<lambda>c j. None) (\<lambda>_. 7) 5 1000 None (queue_of [sample_job ''a'' PrioLow 1]) = (1, q')"
    by (metis prod.collapse)
  from drain_empties_the_queue [OF ok d] d show ?thesis by auto
qed

text \<open>
  A job put aside with a delay, or to be retried after a failure, is never run: no drain
  of any size touches it, however late the clock, and an operator's retry refuses it. Only
  pending jobs are claimed, and nothing turns a scheduled or retrying job into a pending one.
\<close>

theorem delayed_and_retrying_jobs_stay:
  assumes "queue_ok q" and "by_key jb_id (q_jobs q) i = Some j"
    and "jb_status j = JobScheduled \<or> jb_status j = JobRetrying"
  shows "by_key jb_id (q_jobs (snd (drainQueue h clock maxJobs budget ctx q))) i = Some j
     \<and> (\<forall>c d now x. retryJob c i None d now q \<noteq> Inr x)"
proof -
  obtain n q' where d: "drainQueue h clock maxJobs budget ctx q = (n, q')" by fastforce
  have "jb_status j \<noteq> JobPending" using assms(3) by auto
  then have "by_key jb_id (q_jobs q') i = Some j"
    using drain_loop_lookup [OF assms(1) d [unfolded drainQueue_def]] assms(2) by (metis option.inject)
  moreover have "retryJob c i None del now q \<noteq> Inr x" for c del now x
    using assms by (auto simp: retryJob_def getJob_def find_job_by_id and_then_Inr_iff split: if_splits option.splits)
  ultimately show ?thesis by (simp add: d)
qed

definition put_aside :: job where
  "put_aside = (sample_job ''a'' PrioLow 1)\<lparr>jb_status := JobRetrying, jb_scheduledFor := Some 5007\<rparr>"

lemma put_aside_ok: "queue_ok (queue_of [put_aside])"
  by (auto simp: queue_of_ok put_aside_def job_ok_def sample_job_def new_job_def no_options_def split: if_splits)

theorem delayed_and_retrying_jobs_stay_witness:
  "by_key jb_id (q_jobs (snd (drainQueue (\<lambda>c j. None) (\<lambda>_. 999999) 25 30000 None (queue_of [put_aside])))) ''a''
     = Some put_aside"
proof -
  have "by_key jb_id (q_jobs (queue_of [put_aside])) ''a'' = Some put_aside" "jb_status put_aside = JobRetrying"
    by (simp_all add: put_aside_def)
  from delayed_and_retrying_jobs_stay [OF put_aside_ok this(1) disjI2 [OF this(2)]] show ?thesis by blast
qed

text \<open>
  A handler that needs 100 ms or more is not waited for: the job is recorded as
  completed, successfully, with the text that no handler is registered, whatever the handler
  answers later.
\<close>

theorem slow_handlers_are_not_awaited:
  assumes "queue_ok q" and "by_key jb_id (q_jobs q) (jb_id job) = Some job"
    and "jb_processedAt job = Some s" and "rls_visible ctx (jb_tenantId job)"
    and "handler ctx job = Some (ms, answer)" and "100 \<le> ms"
    and "100 < or_default (jo_timeout (jb_options job)) 300000"
    and "jo_removeOnComplete (jb_options job) = None"
  shows "\<exists>j. by_key jb_id (q_jobs (processJobInternal handler now job ctx q)) (jb_id job) = Some j
     \<and> jb_status j = JobCompleted \<and> jb_result j = Some no_handler_result \<and> jr_success no_handler_result"
proof -
  have "settled handler ctx job = Resolved no_handler_result"
    using assms(5-7) by (simp add: settled_def Let_def)
  then show ?thesis
    using assms(1-4,8)
    by (simp add: processJobInternal_def completeJob_def find_job_by_id by_key_save no_handler_result_def Let_def)
qed

theorem slow_handlers_are_not_awaited_witness:
  "\<exists>j. by_key jb_id (q_jobs (processJobInternal (\<lambda>c j. Some (150, Rejected ''bounced'')) 300
        (claim 9 (sample_job ''a'' PrioLow 1)) (Some (item_store ''t''))
        (queue_of [claim 9 (sample_job ''a'' PrioLow 1)]))) ''a'' = Some j
     \<and> jb_status j = JobCompleted \<and> jb_result j = Some no_handler_result"
proof -
  let ?j = "claim 9 (sample_job ''a'' PrioLow 1)"
  have id: "jb_id ?j = ''a''" by (simp add: claim_def)
  have ok: "queue_ok (queue_of [?j])" by (auto simp: queue_of_ok claim_ok split: if_splits)
  have j: "by_key jb_id (q_jobs (queue_of [?j])) (jb_id ?j) = Some ?j" by simp
  have f: "jb_processedAt ?j = Some 9" "rls_visible (Some (item_store ''t'')) (jb_tenantId ?j)"
    "100 < or_default (jo_timeout (jb_options ?j)) 300000" "jo_removeOnComplete (jb_options ?j) = None"
    by (simp_all add: claim_def sample_job_def new_job_def no_options_def)
  show ?thesis
    using slow_handlers_are_not_awaited [OF ok j f(1,2), of "\<lambda>c j. Some (150, Rejected ''bounced'')" 150
        "Rejected ''bounced''" 300] f(3,4)
    unfolding id by auto
qed

text \<open>
  Cancelling a running job does not keep it cancelled: completion looks at the start
  time only, so the worker's report turns the cancelled job into a completed one.
\<close>

theorem completion_overrides_cancellation:
  assumes "queue_ok q" and "by_key jb_id (q_jobs q) i = Some j" and "jb_status j = JobProcessing"
    and "rls_visible ctx (jb_tenantId j)" and "cancelJob ctx i None q = Inr q1"
    and "jo_removeOnComplete (jb_options j) = None"
  shows "(\<exists>j1. by_key jb_id (q_jobs q1) i = Some j1 \<and> jb_status j1 = JobCancelled)
     \<and> (\<exists>j2. by_key jb_id (q_jobs (snd (completeJob ctx i r now q1))) i = Some j2 \<and> jb_status j2 = JobCompleted)"
proof -
  have id: "jb_id j = i" using assms(2) by (auto dest: by_key_SomeD)
  have q1: "q1 = put_job (j\<lparr>jb_status := JobCancelled\<rparr>) q"
    using assms(1-5) by (auto simp: cancelJob_def getJob_def find_job_by_id)
  have ok: "queue_ok q1" by (rule cancelJob_keeps [OF assms(1,5)])
  have look: "by_key jb_id (q_jobs q1) i = Some (j\<lparr>jb_status := JobCancelled\<rparr>)"
    by (simp add: q1 by_key_save id)
  have "job_ok j" using assms(1,2) by (auto simp: queue_ok_def dest: job_repo.all_rowsD)
  then obtain s where "jb_processedAt j = Some s" using assms(3) by (auto simp: job_ok_def)
  then show ?thesis
    using look assms(4,6) by (simp add: completeJob_def find_job_by_id [OF ok] by_key_save id Let_def)
qed

theorem completion_overrides_cancellation_witness:
  "\<exists>q1 j2. cancelJob (Some (item_store ''t'')) ''a'' None (queue_of [claim 9 (sample_job ''a'' PrioLow 1)]) = Inr q1
     \<and> by_key jb_id (q_jobs (snd (completeJob (Some (item_store ''t'')) ''a'' no_handler_result 20 q1))) ''a'' = Some j2
     \<and> jb_status j2 = JobCompleted"
proof -
  let ?j = "claim 9 (sample_job ''a'' PrioLow 1)"
  have ok: "queue_ok (queue_of [?j])" by (auto simp: queue_of_ok claim_ok split: if_splits)
  have j: "by_key jb_id (q_jobs (queue_of [?j])) ''a'' = Some ?j" by (simp add: claim_def)
  have f: "rls_visible (Some (item_store ''t'')) (jb_tenantId ?j)" "jb_status ?j = JobProcessing"
    "jo_removeOnComplete (jb_options ?j) = None"
    by (simp_all add: claim_def sample_job_def new_job_def no_options_def)
  obtain q1 where q1: "cancelJob (Some (item_store ''t'')) ''a'' None (queue_of [?j]) = Inr q1"
    using j f by (simp add: cancelJob_def getJob_def find_job_by_id [OF ok])
  from completion_overrides_cancellation [OF ok j f(2,1) q1 f(3)] q1 show ?thesis by blast
qed

lemma drain_loop_handlers:
  "drain_loop h clock deadline ctx left p q =
   drain_loop (\<lambda>c j. if c = Some (item_store (jb_tenantId j)) then h c j else None) clock deadline ctx left p q"
proof (induction left arbitrary: p q)
  case (Suc left)
  have same: "processJobInternal h now j (Some (item_store (jb_tenantId j))) q'
      = processJobInternal (\<lambda>c j. if c = Some (item_store (jb_tenantId j)) then h c j else None) now j
          (Some (item_store (jb_tenantId j))) q'" for now j q'
    by (simp add: processJobInternal_def settled_def)
  show ?case unfolding drain_loop.simps tc_run_def same Suc [symmetric] by simp
qed simp

text \<open>
  A handler runs only under the tenant of the job it is given and with no bypass,
  although the claim reads across tenants: what it would do under any other context is never used.
\<close>

theorem handlers_run_in_their_tenant:
  "drainQueue h clock maxJobs budget ctx q =
   drainQueue (\<lambda>c j. if c = Some \<lparr>ts_tenantId = Some (jb_tenantId j), ts_bypass = None\<rparr> then h c j else None)
     clock maxJobs budget ctx q"
  unfolding drainQueue_def by (subst drain_loop_handlers) (simp add: item_store_def)

text \<open>
  A sweep of the recurring jobs keeps the queue's invariant and the run limits: an
  active recurring job with a limit has run fewer times than it, whatever the cron parser answers
  and whether or not it throws.
\<close>

theorem recurring_sweep_keeps_limits:
  assumes "recurring_ok q"
    and "processScheduledJobs cron_valid cron_next newId now ctx q = (r, q')"
  shows "queue_ok q' \<and>
    (\<forall>s \<in> set (q_scheduled q'). \<forall>m. sj_maxRuns s = Some m \<and> 0 < m \<and> sj_isActive s \<longrightarrow> sj_runCount s < m)"
proof -
  have "recurring_ok q'"
    by (rule recurring.sweep_keeps [OF _ assms(1) assms(2) [unfolded processScheduledJobs_def]]) auto
  then show ?thesis by (auto simp: recurring_ok_def list_all_iff scheduled_ok_def)
qed

definition sample_recurring :: scheduled_job where
  "sample_recurring = \<lparr>sj_id = ''s'', sj_tenantId = ''t'', sj_name = ''n'', sj_type = EMAIL_SEND,
     sj_data = sample_data, sj_cronExpression = ''*'', sj_nextRun = 5, sj_lastRun = None,
     sj_isActive = True, sj_runCount = 0, sj_maxRuns = Some 1, sj_endDate = None\<rparr>"

theorem recurring_sweep_keeps_limits_witness:
  "\<exists>r q'. processScheduledJobs (\<lambda>_. True) (\<lambda>_ t. Some (t + 60)) (\<lambda>_. ''new'') 9 None
      ((queue_of [])\<lparr>q_scheduled := [sample_recurring]\<rparr>) = (Inr r, q')
     \<and> sw_itemsProcessed r = 1 \<and> queue_ok q' \<and> q_scheduled q' \<noteq> []"
proof -
  let ?q = "(queue_of [])\<lparr>q_scheduled := [sample_recurring]\<rparr>"
  have ok: "recurring_ok ?q"
    by (simp add: recurring_ok_def queue_ok_def job_repo.all_rows_def queue_of_def scheduled_ok_def sample_recurring_def)
  have "case processScheduledJobs (\<lambda>_. True) (\<lambda>_ t. Some (t + 60)) (\<lambda>_. ''new'') 9 None ?q of
      (Inl _, _) \<Rightarrow> False | (Inr r, q') \<Rightarrow> sw_itemsProcessed r = 1 \<and> q_scheduled q' \<noteq> []"
    by code_simp
  then obtain r q' where run: "processScheduledJobs (\<lambda>_. True) (\<lambda>_ t. Some (t + 60)) (\<lambda>_. ''new'') 9 None ?q = (Inr r, q')"
    "sw_itemsProcessed r = 1" "q_scheduled q' \<noteq> []"
    by (auto split: prod.splits sum.splits)
  from recurring_sweep_keeps_limits [OF ok run(1)] run show ?thesis by blast
qed

end
