(* ===== verification/Rls.thy ===== *)
theory Rls
  imports Tenancy "HOL-Library.Sublist"
begin

text \<open>
  \<^verbatim>\<open>src/core/tenancy/rls.datasource.ts\<close>: every connection taken from the pool is bound to the
  caller's tenant by two session variables, which the policies of
  \<^verbatim>\<open>src/migrations/1753500000000-AddTenantRowLevelSecurity.ts\<close> read. Pooled connections keep
  what the previous borrower set, so a connection is a record of those variables.
\<close>

section \<open>The session and its policies\<close>

record connection =
  cn_current_tenant_id :: str
  cn_bypass_rls :: str

text \<open>\<open>nullif(current_setting('app.current_tenant_id', true), '')\<close>.\<close>

definition current_tenant_id :: "connection \<Rightarrow> str option" where
  "current_tenant_id c = (if cn_current_tenant_id c = [] then None else Some (cn_current_tenant_id c))"

definition rls_bypassed :: "connection \<Rightarrow> bool" where
  "rls_bypassed c \<longleftrightarrow> cn_bypass_rls c = ''on''"

text \<open>
  \<open>tenant_isolation\<close>: \<open>USING\<close> and \<open>WITH CHECK\<close> are the same expression, so it decides both the
  rows a connection sees and the ones it may write. A null tenant equals nothing.
\<close>

definition tenant_isolation :: "connection \<Rightarrow> str \<Rightarrow> bool" where
  "tenant_isolation c rowTenant \<longleftrightarrow> rls_bypassed c \<or> current_tenant_id c = Some rowTenant"

section \<open>Binding a connection\<close>

definition is_hex :: "char \<Rightarrow> bool" where
  "is_hex c \<longleftrightarrow> (let n = of_char c :: nat
     in (48 \<le> n \<and> n \<le> 57) \<or> (97 \<le> n \<and> n \<le> 102) \<or> (65 \<le> n \<and> n \<le> 70))"

text \<open>\<open>UUID_RE\<close>: groups of 8, 4, 4, 4 and 12 hexadecimal digits.\<close>

fun uuid_groups :: "nat list \<Rightarrow> str \<Rightarrow> bool" where
  "uuid_groups [] s \<longleftrightarrow> s = []"
| "uuid_groups [n] s \<longleftrightarrow> length s = n \<and> list_all is_hex s"
| "uuid_groups (n # m # ns) s \<longleftrightarrow>
     length (take n s) = n \<and> list_all is_hex (take n s)
     \<and> (case drop n s of [] \<Rightarrow> False | c # rest \<Rightarrow> c = CHR ''-'' \<and> uuid_groups (m # ns) rest)"

definition UUID_RE :: "str \<Rightarrow> bool" where
  "UUID_RE s = uuid_groups [8, 4, 4, 4, 12] s"

datatype bind_error = NotAUuid str | SetConfigFailed

text \<open>
  \<open>obtainMasterConnection\<close> as patched: \<open>setConfigOk\<close> says whether the \<open>set_config\<close> query
  succeeds. A connection that could not be bound is released, not handed out.
\<close>

definition obtainMasterConnection :: "bool \<Rightarrow> als \<Rightarrow> connection \<Rightarrow> bind_error + connection" where
  "obtainMasterConnection setConfigOk store connection =
     (let bypass = getBypass store; tenantId = getTenantId store
      in if truthy_str tenantId \<and> \<not> UUID_RE (the tenantId) then Inl (NotAUuid (the tenantId))
         else if \<not> setConfigOk then Inl SetConfigFailed
         else Inr (connection\<lparr>cn_current_tenant_id := nullish tenantId [],
                              cn_bypass_rls := (if bypass \<noteq> None then ''on'' else ''off'')\<rparr>))"

text \<open>Installing the binding: once per driver, and never on a transaction pooler.\<close>

definition assertNotTransactionPooled :: "str \<Rightarrow> str + unit" where
  "assertNotTransactionPooled target =
     (if sublist ''-pooler.'' target then Inl target else Inr ())"

definition applyRlsToDataSource :: "str \<Rightarrow> bool \<Rightarrow> str + bool" where
  "applyRlsToDataSource target rlsPatched =
     and_then (assertNotTransactionPooled target) (\<lambda>_. Inr True)"

text \<open>The boot check of the database role: superuser, \<open>BYPASSRLS\<close>, production.\<close>

definition assertRlsEnforceable :: "(str \<times> bool \<times> bool) option \<Rightarrow> bool \<Rightarrow> str + unit" where
  "assertRlsEnforceable role production =
     (case role of
        None \<Rightarrow> Inr ()
      | Some (name, rolsuper, rolbypassrls) \<Rightarrow>
          (if (rolbypassrls \<or> rolsuper) \<and> production then Inl name else Inr ()))"

section \<open>Properties\<close>

text \<open>
  Claim C1: a connection handed out by the pool sees and writes exactly the rows of the caller's
  own tenant, or every row inside an explicit bypass, whatever tenant or bypass the previous
  borrower left in its session; under no context it sees nothing.
\<close>

theorem binding_isolates_tenants:
  assumes "obtainMasterConnection ok store leftover = Inr c" and "rowTenant \<noteq> []"
  shows "tenant_isolation c rowTenant \<longleftrightarrow> isBypassed store \<or> getTenantId store = Some rowTenant"
  using assms
  by (cases "getTenantId store")
    (auto simp: obtainMasterConnection_def tenant_isolation_def rls_bypassed_def current_tenant_id_def
      isBypassed_def Let_def split: if_splits)

theorem binding_isolates_tenants_witness:
  "\<not> tenant_isolation \<lparr>cn_current_tenant_id = '''', cn_bypass_rls = ''off''\<rparr> ''t1''"
  using binding_isolates_tenants [of True None "\<lparr>cn_current_tenant_id = ''t1'', cn_bypass_rls = ''on''\<rparr>"
      "\<lparr>cn_current_tenant_id = '''', cn_bypass_rls = ''off''\<rparr>" "''t1''"]
  by (simp add: obtainMasterConnection_def getBypass_def getTenantId_def isBypassed_def)

text \<open>
  The abstract visibility the services are modelled over is what the bound connection gives:
  \<open>rls_visible\<close> agrees with the policy on every row of a tenant.
\<close>

lemma rls_visible_is_policy:
  "obtainMasterConnection ok store leftover = Inr c \<Longrightarrow> t \<noteq> [] \<Longrightarrow> rls_visible store t = tenant_isolation c t"
  by (cases "getTenantId store")
    (auto simp: obtainMasterConnection_def tenant_isolation_def rls_bypassed_def current_tenant_id_def
      rls_visible_def isBypassed_def Let_def split: if_splits)

end
