(* ===== verification/Jobs.thy ===== *)
theory Jobs
  imports Tenancy JsValue "HOL-Library.Multiset"
begin

text \<open>
  \<^verbatim>\<open>src/jobs\<close>: the catalogue of scheduled jobs (\<^verbatim>\<open>job-catalogue.ts\<close>), running one of them and
  recording the outcome (\<^verbatim>\<open>job-dispatch.service.ts\<close>, \<^verbatim>\<open>job-run.service.ts\<close>), and the tick that
  runs what is due within a budget (\<^verbatim>\<open>jobs.controller.ts\<close>).

  A handler changes the world, takes some milliseconds and either throws a message or returns
  its scope evidence; the clock moves in the handlers. \<open>dbUp\<close> says at which instants the table
  of runs can be read and written.
\<close>

section \<open>Catalogue\<close>

definition JOB_CADENCE_MINUTES :: "(str \<times> int) list" where
  "JOB_CADENCE_MINUTES =
     [(''queue-drain'', 1), (''scheduled-jobs'', 1), (''recurring-tasks'', 1),
      (''scheduled-notifications'', 1), (''notification-dispatch'', 1), (''sla-watchdog'', 5),
      (''alert-rules'', 15), (''messaging-sequences'', 60), (''scheduled-reports'', 60),
      (''daily-billing'', 1440), (''regulatory-radar'', 1440), (''audit-archive'', 1440),
      (''watchlist-ingest'', 1440), (''rescreening'', 1440), (''digest-emails'', 1440)]"

definition JOB_NAMES :: "str list" where
  "JOB_NAMES = map fst JOB_CADENCE_MINUTES"

definition cadence_of :: "str \<Rightarrow> int" where
  "cadence_of job = nullish (map_of JOB_CADENCE_MINUTES job) 0"

definition TICK_SCOPES :: "(str \<times> str list) list" where
  "TICK_SCOPES =
     [(''fast'', filter (\<lambda>j. cadence_of j \<le> 60) JOB_NAMES),
      (''daily'', filter (\<lambda>j. 60 < cadence_of j) JOB_NAMES),
      (''all'', JOB_NAMES)]"

definition TICK_BUDGET_MS :: int where
  "TICK_BUDGET_MS = 45000"

section \<open>The table of runs\<close>

record scope_evidence =
  se_eligible :: "nat option"
  se_scanned :: nat
  se_failures :: "sweep_failure list option"

datatype run_status = RunOk | RunFailed | RunSuspect

record job_run =
  rn_jobName :: str
  rn_lastRunAt :: instant
  rn_lastStatus :: run_status
  rn_lastDurationMs :: int
  rn_lastError :: "str option"
  rn_lastSuccessAt :: "instant option"
  rn_runCount :: nat
  rn_failCount :: nat
  rn_scope :: "scope_evidence option"

interpretation job_runs:
  repository rn_jobName "by_key rn_jobName" "save_row rn_jobName" "remove_row rn_jobName" "keys_distinct rn_jobName"
  by unfold_locales (auto simp: table_simps dest: by_key_SomeD)

record run_outcome =
  ro_status :: run_status
  ro_durationMs :: int
  ro_error :: "str option"
  ro_scope :: "scope_evidence option"

definition lastRunMap :: "job_run list \<Rightarrow> str \<Rightarrow> instant option" where
  "lastRunMap runs job = map_option rn_lastRunAt (find_one (\<lambda>r. rn_jobName r = job) (rev runs))"

text \<open>The upsert of the outcome of a run; \<open>prior\<close> is the row in conflict.\<close>

definition upsert_run :: "str \<Rightarrow> run_outcome \<Rightarrow> instant \<Rightarrow> job_run option \<Rightarrow> job_run" where
  "upsert_run jobName outcome now prior =
     (case prior of
        None \<Rightarrow>
          \<lparr>rn_jobName = jobName, rn_lastRunAt = now, rn_lastStatus = ro_status outcome,
           rn_lastDurationMs = ro_durationMs outcome, rn_lastError = ro_error outcome,
           rn_lastSuccessAt = (if ro_status outcome = RunOk then Some now else None),
           rn_runCount = 1, rn_failCount = (if ro_status outcome = RunOk then 0 else 1),
           rn_scope = ro_scope outcome\<rparr>
      | Some r \<Rightarrow>
          r\<lparr>rn_lastRunAt := now, rn_lastStatus := ro_status outcome,
            rn_lastDurationMs := ro_durationMs outcome, rn_lastError := ro_error outcome,
            rn_lastSuccessAt := (if ro_status outcome = RunOk then Some now else rn_lastSuccessAt r),
            rn_runCount := rn_runCount r + 1,
            rn_failCount := rn_failCount r + (if ro_status outcome = RunOk then 0 else 1),
            rn_scope := ro_scope outcome\<rparr>)"

definition record_run :: "bool \<Rightarrow> str \<Rightarrow> run_outcome \<Rightarrow> instant \<Rightarrow> job_run list \<Rightarrow> job_run list" where
  "record_run dbOk jobName outcome now runs =
     (if dbOk then save_row rn_jobName (upsert_run jobName outcome now (by_key rn_jobName runs jobName)) runs
      else runs)"

record job_status_row =
  st_job :: str
  st_cadenceMinutes :: int
  st_run :: "job_run option"
  st_runCount :: nat
  st_failCount :: nat
  st_overdue :: bool
  st_minutesSinceLastRun :: "int option"

definition run_status_row :: "job_run list \<Rightarrow> instant \<Rightarrow> str \<times> int \<Rightarrow> job_status_row" where
  "run_status_row runs now jc =
     (let r = find_one (\<lambda>r. rn_jobName r = fst jc) (rev runs);
          minutesSince = map_option (\<lambda>x. (now - rn_lastRunAt x) div 60000) r
      in \<lparr>st_job = fst jc, st_cadenceMinutes = snd jc, st_run = r,
          st_runCount = nullish (map_option rn_runCount r) 0,
          st_failCount = nullish (map_option rn_failCount r) 0,
          st_overdue = (case minutesSince of None \<Rightarrow> True | Some m \<Rightarrow> snd jc * 2 < m),
          st_minutesSinceLastRun = minutesSince\<rparr>)"

definition run_status_rows :: "job_run list \<Rightarrow> instant \<Rightarrow> (str \<times> int) list \<Rightarrow> job_status_row list" where
  "run_status_rows runs now cadences = map (run_status_row runs now) cadences"

section \<open>Running one job\<close>

datatype jobs_error =
  UnknownJob str | CronJobFailed str int str | UnknownScope str | NotIterable str | RunTableUnreadable

record cron_result =
  cj_job :: str
  cj_durationMs :: int
  cj_scope :: "scope_evidence option"

record 'w cron =
  cr_now :: instant
  cr_runs :: "job_run list"
  cr_lastRun :: "str \<Rightarrow> instant option"
  cr_world :: 'w

type_synonym 'w job_handler = "str \<Rightarrow> 'w \<Rightarrow> (str + scope_evidence option) \<times> nat \<times> 'w"

definition suspect :: "scope_evidence option \<Rightarrow> bool" where
  "suspect scope = (case scope of None \<Rightarrow> False
     | Some s \<Rightarrow> (case se_eligible s of None \<Rightarrow> False | Some n \<Rightarrow> 0 < n \<and> se_scanned s = 0))"

definition failure_text :: "str \<Rightarrow> str \<Rightarrow> str" where
  "failure_text job message =
     ''Cron job '' @ [CHR 0x22] @ job @ [CHR 0x22] @ '' failed: '' @ message"

text \<open>The timing wrapper: what the handler threw becomes an error that carries the duration.\<close>

definition run_timed :: "'w job_handler \<Rightarrow> str \<Rightarrow> 'w cron \<Rightarrow> (jobs_error + cron_result) \<times> 'w cron" where
  "run_timed handlerFor job st =
     (case handlerFor job (cr_world st) of
        (r, durationMs, w) \<Rightarrow>
          ((case r of
              Inl message \<Rightarrow> Inl (CronJobFailed job (int durationMs) (failure_text job message))
            | Inr scope \<Rightarrow> Inr \<lparr>cj_job = job, cj_durationMs = int durationMs, cj_scope = scope\<rparr>),
           st\<lparr>cr_now := cr_now st + int durationMs, cr_world := w\<rparr>))"

fun error_text :: "jobs_error \<Rightarrow> str" where
  "error_text (CronJobFailed job d message) = message"
| "error_text (UnknownJob job) = job"
| "error_text (UnknownScope s) = s"
| "error_text (NotIterable s) = s"
| "error_text RunTableUnreadable = []"

definition runNamed ::
  "(instant \<Rightarrow> bool) \<Rightarrow> 'w job_handler \<Rightarrow> str \<Rightarrow> 'w cron \<Rightarrow> (jobs_error + cron_result) \<times> 'w cron" where
  "runNamed dbUp handlerFor job st =
     (if job \<notin> set JOB_NAMES then (Inl (UnknownJob job), st)
      else case run_timed handlerFor job st of
             (Inr result, st') \<Rightarrow>
               (Inr result,
                st'\<lparr>cr_runs := record_run (dbUp (cr_now st')) job
                      \<lparr>ro_status = (if suspect (cj_scope result) then RunSuspect else RunOk),
                       ro_durationMs = cj_durationMs result, ro_error = None, ro_scope = cj_scope result\<rparr>
                      (cr_now st') (cr_runs st')\<rparr>)
           | (Inl e, st') \<Rightarrow>
               (Inl e,
                st'\<lparr>cr_runs := record_run (dbUp (cr_now st')) job
                      \<lparr>ro_status = RunFailed, ro_durationMs = 0, ro_error = Some (error_text e),
                       ro_scope = None\<rparr>
                      (cr_now st') (cr_runs st')\<rparr>))"

definition runAndMark ::
  "(instant \<Rightarrow> bool) \<Rightarrow> 'w job_handler \<Rightarrow> str \<Rightarrow> 'w cron \<Rightarrow> (jobs_error + cron_result) \<times> 'w cron" where
  "runAndMark dbUp handlerFor job st =
     (case runNamed dbUp handlerFor job st of
        (Inl e, st') \<Rightarrow> (Inl e, st')
      | (Inr r, st') \<Rightarrow> (Inr r, st'\<lparr>cr_lastRun := (cr_lastRun st')(job \<mapsto> cr_now st')\<rparr>))"

section \<open>The tick\<close>

record tick_result =
  tr_scope :: str
  tr_ran :: "cron_result list"
  tr_skipped :: "str list"
  tr_deferred :: "str list"
  tr_failed :: "(str \<times> str) list"
  tr_durationMs :: int

definition parseScope :: "str option \<Rightarrow> jobs_error + str" where
  "parseScope scope =
     (if \<not> truthy_str scope then Inr ''fast''
      else if the scope \<in> fst ` set TICK_SCOPES \<or> the scope \<in> set inherited_keys then Inr (the scope)
      else Inl (UnknownScope (the scope)))"

definition last_run :: "(str \<Rightarrow> instant option) \<Rightarrow> (str \<Rightarrow> instant option) \<Rightarrow> str \<Rightarrow> instant option" where
  "last_run persisted lastRun job = nullish_opt (persisted job) (lastRun job)"

definition due :: "instant option \<Rightarrow> str \<Rightarrow> instant \<Rightarrow> bool" where
  "due prev job now = (case prev of None \<Rightarrow> True | Some t \<Rightarrow> \<not> now - t < cadence_of job * 60000)"

fun tick_loop ::
  "(instant \<Rightarrow> bool) \<Rightarrow> 'w job_handler \<Rightarrow> (str \<Rightarrow> instant option) \<Rightarrow> instant \<Rightarrow> str list
   \<Rightarrow> tick_result \<Rightarrow> 'w cron \<Rightarrow> tick_result \<times> 'w cron" where
  "tick_loop dbUp handlerFor persisted startedAt [] acc st = (acc, st)"
| "tick_loop dbUp handlerFor persisted startedAt (job # jobs) acc st =
     (if \<not> due (last_run persisted (cr_lastRun st) job) job (cr_now st)
      then tick_loop dbUp handlerFor persisted startedAt jobs (acc\<lparr>tr_skipped := tr_skipped acc @ [job]\<rparr>) st
      else if cr_now st - startedAt > TICK_BUDGET_MS
      then tick_loop dbUp handlerFor persisted startedAt jobs (acc\<lparr>tr_deferred := tr_deferred acc @ [job]\<rparr>) st
      else case runNamed dbUp handlerFor job st of
             (Inr result, st') \<Rightarrow>
               tick_loop dbUp handlerFor persisted startedAt jobs (acc\<lparr>tr_ran := tr_ran acc @ [result]\<rparr>)
                 (st'\<lparr>cr_lastRun := (cr_lastRun st')(job \<mapsto> cr_now st')\<rparr>)
           | (Inl e, st') \<Rightarrow>
               tick_loop dbUp handlerFor persisted startedAt jobs
                 (acc\<lparr>tr_failed := tr_failed acc @ [(job, error_text e)]\<rparr>) st')"

definition tick ::
  "(instant \<Rightarrow> bool) \<Rightarrow> 'w job_handler \<Rightarrow> str \<Rightarrow> 'w cron \<Rightarrow> (jobs_error + tick_result) \<times> 'w cron" where
  "tick dbUp handlerFor scope st =
     (if \<not> dbUp (cr_now st) then (Inl RunTableUnreadable, st)
      else case map_of TICK_SCOPES scope of
             None \<Rightarrow> (Inl (NotIterable scope), st)
           | Some jobs \<Rightarrow>
               (case tick_loop dbUp handlerFor (lastRunMap (cr_runs st)) (cr_now st) jobs
                       \<lparr>tr_scope = scope, tr_ran = [], tr_skipped = [], tr_deferred = [], tr_failed = [],
                        tr_durationMs = 0\<rparr> st of
                  (acc, st') \<Rightarrow> (Inr (acc\<lparr>tr_durationMs := cr_now st' - cr_now st\<rparr>), st')))"

section \<open>Lemmas\<close>

lemma runNamed_time:
  assumes "runNamed dbUp h job st = (r, st')" and "job \<in> set JOB_NAMES"
  shows "cr_now st' = cr_now st + int (fst (snd (h job (cr_world st)))) \<and> cr_lastRun st' = cr_lastRun st"
  using assms by (auto simp: runNamed_def run_timed_def split: prod.splits sum.splits)

lemma runNamed_job: "runNamed dbUp h job st = (Inr r, st') \<Longrightarrow> cj_job r = job"
  by (auto simp: runNamed_def run_timed_def split: prod.splits sum.splits if_splits)

definition tick_names :: "tick_result \<Rightarrow> str multiset" where
  "tick_names acc = mset (map cj_job (tr_ran acc)) + mset (tr_skipped acc) + mset (tr_deferred acc)
     + mset (map fst (tr_failed acc))"

lemma tick_loop_names:
  "tick_loop dbUp h persisted t0 jobs acc st = (acc', st') \<Longrightarrow> tick_names acc' = tick_names acc + mset jobs"
proof (induction jobs arbitrary: acc st)
  case (Cons job jobs)
  show ?case
  proof (cases "due (last_run persisted (cr_lastRun st) job) job (cr_now st)")
    case False
    with Cons.prems Cons.IH show ?thesis by (fastforce simp: tick_names_def)
  next
    case due: True
    show ?thesis
    proof (cases "cr_now st - t0 > TICK_BUDGET_MS")
      case True
      with due Cons.prems Cons.IH show ?thesis by (fastforce simp: tick_names_def)
    next
      case False
      obtain r st1 where r: "runNamed dbUp h job st = (r, st1)" by fastforce
      show ?thesis
      proof (cases r)
        case (Inl e)
        with due False r Cons.prems Cons.IH show ?thesis by (fastforce simp: tick_names_def)
      next
        case (Inr x)
        then have "cj_job x = job" using r runNamed_job by blast
        with Inr due False r Cons.prems Cons.IH show ?thesis by (fastforce simp: tick_names_def)
      qed
    qed
  qed
qed simp

text \<open>The clock of a tick: at most one handler runs past the budget.\<close>

lemma tick_loop_time:
  assumes "\<And>job w. int (fst (snd (h job w))) \<le> D" and "set jobs \<subseteq> set JOB_NAMES" and "0 \<le> D"
    and "cr_now st \<le> t0 + TICK_BUDGET_MS + D"
    and "tick_loop dbUp h persisted t0 jobs acc st = (acc', st')"
  shows "cr_now st' \<le> t0 + TICK_BUDGET_MS + D"
  using assms(2,4,5)
proof (induction jobs arbitrary: acc st)
  case (Cons job jobs)
  show ?case
  proof (cases "due (last_run persisted (cr_lastRun st) job) job (cr_now st) \<and> \<not> cr_now st - t0 > TICK_BUDGET_MS")
    case False
    with Cons show ?thesis by (auto split: if_splits)
  next
    case True
    obtain r st1 where r: "runNamed dbUp h job st = (r, st1)" by fastforce
    have "cr_now st1 = cr_now st + int (fst (snd (h job (cr_world st))))"
      using runNamed_time [OF r] Cons.prems(1) by simp
    then have late: "cr_now st1 \<le> t0 + TICK_BUDGET_MS + D"
      using True assms(1) [of job "cr_world st"] by linarith
    show ?thesis
    proof (cases r)
      case (Inl e)
      with True r Cons.prems late show ?thesis by (auto intro: Cons.IH)
    next
      case (Inr x)
      with True r Cons.prems(3) have "tick_loop dbUp h persisted t0 jobs (acc\<lparr>tr_ran := tr_ran acc @ [x]\<rparr>)
          (st1\<lparr>cr_lastRun := (cr_lastRun st1)(job \<mapsto> cr_now st1)\<rparr>) = (acc', st')" by simp
      from Cons.IH [OF _ _ this] Cons.prems(1) late show ?thesis by simp
    qed
  qed
qed simp

lemma scopes_within: "map_of TICK_SCOPES s = Some jobs \<Longrightarrow> set jobs \<subseteq> set JOB_NAMES \<and> distinct jobs"
proof -
  have "list_all (\<lambda>(s, jobs). list_all (\<lambda>j. j \<in> set JOB_NAMES) jobs \<and> distinct jobs) TICK_SCOPES" by code_simp
  moreover assume "map_of TICK_SCOPES s = Some jobs"
  then have "(s, jobs) \<in> set TICK_SCOPES" by (rule map_of_SomeD)
  ultimately show ?thesis by (auto simp: list_all_iff)
qed

text \<open>The row of a job after a history of recorded outcomes.\<close>

definition record_all :: "str \<Rightarrow> (run_outcome \<times> instant) list \<Rightarrow> job_run list \<Rightarrow> job_run list" where
  "record_all job hs runs = fold (\<lambda>h rs. record_run True job (fst h) (snd h) rs) hs runs"

definition success_times :: "(run_outcome \<times> instant) list \<Rightarrow> instant list" where
  "success_times hs = map snd (filter (\<lambda>h. ro_status (fst h) = RunOk) hs)"

lemma record_all_snoc:
  "record_all job (hs @ [h]) runs = record_run True job (fst h) (snd h) (record_all job hs runs)"
  by (simp add: record_all_def)

lemma upsert_name: "rn_jobName (upsert_run job oc now prior) = (case prior of None \<Rightarrow> job | Some r \<Rightarrow> rn_jobName r)"
  by (simp add: upsert_run_def split: option.split)

lemma record_lookup:
  "by_key rn_jobName (record_run True job oc now runs) k =
     (if k = job then Some (upsert_run job oc now (by_key rn_jobName runs job)) else by_key rn_jobName runs k)"
proof -
  have "rn_jobName (upsert_run job oc now (by_key rn_jobName runs job)) = job"
    by (auto simp: upsert_name split: option.split dest: by_key_SomeD)
  then show ?thesis by (simp add: record_run_def by_key_save)
qed

lemma record_all_row:
  assumes "by_key rn_jobName runs job = None" and "hs \<noteq> []"
  shows "\<exists>r. by_key rn_jobName (record_all job hs runs) job = Some r
     \<and> rn_runCount r = length hs
     \<and> rn_failCount r = length (filter (\<lambda>h. ro_status (fst h) \<noteq> RunOk) hs)
     \<and> rn_lastRunAt r = snd (last hs) \<and> rn_lastStatus r = ro_status (fst (last hs))
     \<and> rn_lastSuccessAt r = (if success_times hs = [] then None else Some (last (success_times hs)))"
  using assms(2)
proof (induction hs rule: rev_induct)
  case (snoc h hs)
  show ?case
  proof (cases "hs = []")
    case True
    then show ?thesis
      using assms(1) by (simp add: record_all_def record_lookup upsert_run_def success_times_def)
  next
    case False
    with snoc.IH obtain r where r: "by_key rn_jobName (record_all job hs runs) job = Some r"
      "rn_runCount r = length hs" "rn_failCount r = length (filter (\<lambda>h. ro_status (fst h) \<noteq> RunOk) hs)"
      "rn_lastSuccessAt r = (if success_times hs = [] then None else Some (last (success_times hs)))"
      by blast
    show ?thesis
      unfolding record_all_snoc record_lookup r(1)
      using r(2-4) by (simp add: upsert_run_def success_times_def)
  qed
qed simp

section \<open>Properties\<close>

text \<open>
  A tick accounts for every job of its scope exactly once: as run, not due, deferred for
  lack of time, or failed; one failing job does not lose the others.
\<close>

theorem tick_accounts_for_every_job:
  assumes "tick dbUp h scope st = (Inr r, st')"
  shows "\<exists>jobs. map_of TICK_SCOPES scope = Some jobs \<and> distinct jobs
     \<and> mset (map cj_job (tr_ran r)) + mset (tr_skipped r) + mset (tr_deferred r) + mset (map fst (tr_failed r))
       = mset jobs"
proof -
  from assms obtain jobs acc where jobs: "map_of TICK_SCOPES scope = Some jobs"
    and loop: "tick_loop dbUp h (lastRunMap (cr_runs st)) (cr_now st) jobs
       \<lparr>tr_scope = scope, tr_ran = [], tr_skipped = [], tr_deferred = [], tr_failed = [], tr_durationMs = 0\<rparr> st
       = (acc, st')"
    and r: "r = acc\<lparr>tr_durationMs := cr_now st' - cr_now st\<rparr>"
    by (auto simp: tick_def split: if_splits option.splits prod.splits)
  have "tick_names r = mset jobs"
    using tick_loop_names [OF loop] r by (simp add: tick_names_def)
  with jobs scopes_within [OF jobs] show ?thesis by (auto simp: tick_names_def)
qed

definition idle_state :: "unit cron" where
  "idle_state = \<lparr>cr_now = 100000, cr_runs = [], cr_lastRun = Map.empty, cr_world = ()\<rparr>"

lemma fast_scope: "map_of TICK_SCOPES ''fast'' \<noteq> None"
  by (simp add: TICK_SCOPES_def)

lemma tick_returns:
  assumes "dbUp (cr_now st)" and "map_of TICK_SCOPES scope \<noteq> None"
  obtains r st' where "tick dbUp h scope st = (Inr r, st')"
proof -
  from assms(2) obtain jobs where jobs: "map_of TICK_SCOPES scope = Some jobs" by blast
  obtain acc st' where "tick_loop dbUp h (lastRunMap (cr_runs st)) (cr_now st) jobs
       \<lparr>tr_scope = scope, tr_ran = [], tr_skipped = [], tr_deferred = [], tr_failed = [], tr_durationMs = 0\<rparr> st
       = (acc, st')" by fastforce
  with assms(1) jobs that show ?thesis by (simp add: tick_def)
qed

theorem tick_accounts_for_every_job_witness:
  "\<exists>r st'. tick (\<lambda>_. True) (\<lambda>job w. (if job = ''sla-watchdog'' then Inl ''boom'' else Inr None, 20000, w))
      ''fast'' idle_state = (Inr r, st')
     \<and> length (tr_ran r) + length (tr_skipped r) + length (tr_deferred r) + length (tr_failed r) = 9"
proof -
  let ?run = "tick (\<lambda>_. True) (\<lambda>job w. (if job = ''sla-watchdog'' then Inl ''boom'' else Inr None, 20000, w))
      ''fast'' idle_state"
  have nine: "map_option length (map_of TICK_SCOPES ''fast'') = Some 9" by code_simp
  obtain r st' where run: "?run = (Inr r, st')" by (rule tick_returns [OF _ fast_scope]) simp
  from tick_accounts_for_every_job [OF run] obtain jobs where "map_of TICK_SCOPES ''fast'' = Some jobs"
    "mset (map cj_job (tr_ran r)) + mset (tr_skipped r) + mset (tr_deferred r) + mset (map fst (tr_failed r))
       = mset jobs" by blast
  with nine have "size (mset (map cj_job (tr_ran r)) + mset (tr_skipped r) + mset (tr_deferred r)
      + mset (map fst (tr_failed r))) = 9"
    by (metis option.inject option.map(2) size_mset)
  then have "length (tr_ran r) + length (tr_skipped r) + length (tr_deferred r) + length (tr_failed r) = 9"
    by simp
  with run show ?thesis by blast
qed

text \<open>
  A tick never outlives its budget by more than one handler: when no handler takes
  longer than \<open>D\<close> milliseconds, the tick takes at most 45 seconds and \<open>D\<close>.
\<close>

theorem tick_within_budget:
  assumes "tick dbUp h scope st = (Inr r, st')" and "\<And>job w. int (fst (snd (h job w))) \<le> D" and "0 \<le> D"
  shows "tr_durationMs r \<le> 45000 + D"
proof -
  from assms(1) obtain jobs acc where jobs: "map_of TICK_SCOPES scope = Some jobs"
    and loop: "tick_loop dbUp h (lastRunMap (cr_runs st)) (cr_now st) jobs
       \<lparr>tr_scope = scope, tr_ran = [], tr_skipped = [], tr_deferred = [], tr_failed = [], tr_durationMs = 0\<rparr> st
       = (acc, st')"
    and r: "r = acc\<lparr>tr_durationMs := cr_now st' - cr_now st\<rparr>"
    by (auto simp: tick_def split: if_splits option.splits prod.splits)
  have "cr_now st' \<le> cr_now st + TICK_BUDGET_MS + D"
    by (rule tick_loop_time [OF assms(2) _ assms(3) _ loop])
      (use scopes_within [OF jobs] assms(3) in \<open>auto simp: TICK_BUDGET_MS_def\<close>)
  then show ?thesis by (simp add: r TICK_BUDGET_MS_def)
qed

theorem tick_within_budget_witness:
  "\<exists>r st'. tick (\<lambda>_. True) (\<lambda>job w. (Inr None, 20000, w)) ''fast'' idle_state = (Inr r, st')
     \<and> tr_durationMs r \<le> 65000"
proof -
  obtain r st' where run: "tick (\<lambda>_. True) (\<lambda>job w. (Inr None, 20000, w)) ''fast'' idle_state = (Inr r, st')"
    by (rule tick_returns [OF _ fast_scope]) simp
  from tick_within_budget [OF run, of 20000] run show ?thesis by auto
qed

text \<open>
  The stored row of a job is the summary of its history: how often it ran, how often it
  did not succeed, when and how it ended last, and when it last succeeded, which later failures
  do not erase.
\<close>

theorem run_row_summarises_history:
  assumes "by_key rn_jobName runs job = None" and "hs \<noteq> []"
  shows "\<exists>r. by_key rn_jobName (fold (\<lambda>h rs. record_run True job (fst h) (snd h) rs) hs runs) job = Some r
     \<and> rn_runCount r = length hs
     \<and> rn_failCount r = length (filter (\<lambda>h. ro_status (fst h) \<noteq> RunOk) hs)
     \<and> rn_lastRunAt r = snd (last hs) \<and> rn_lastStatus r = ro_status (fst (last hs))
     \<and> rn_lastSuccessAt r =
         (let oks = filter (\<lambda>h. ro_status (fst h) = RunOk) hs in if oks = [] then None else Some (snd (last oks)))"
  using record_all_row [OF assms] by (auto simp: record_all_def success_times_def Let_def last_map)

definition ok_outcome :: run_outcome where
  "ok_outcome = \<lparr>ro_status = RunOk, ro_durationMs = 3, ro_error = None, ro_scope = None\<rparr>"

definition failed_outcome :: run_outcome where
  "failed_outcome = \<lparr>ro_status = RunFailed, ro_durationMs = 0, ro_error = Some ''boom'', ro_scope = None\<rparr>"

theorem run_row_summarises_history_witness:
  "\<exists>r. by_key rn_jobName (fold (\<lambda>h rs. record_run True ''rescreening'' (fst h) (snd h) rs)
        [(ok_outcome, 10), (failed_outcome, 20)] []) ''rescreening'' = Some r
     \<and> rn_runCount r = 2 \<and> rn_failCount r = 1 \<and> rn_lastSuccessAt r = Some 10"
  using run_row_summarises_history [of "[]" "''rescreening''" "[(ok_outcome, 10), (failed_outcome, 20)]"]
  by (auto simp: ok_outcome_def failed_outcome_def)

text \<open>
  A sweep that found tenants to serve and reached none of them is stored as suspect and
  counts as a failure: the time of the last success stays what it was. The caller is still told
  that the job ran.
\<close>

theorem blocked_sweep_recorded_as_failure:
  assumes "job \<in> set JOB_NAMES" and "h job (cr_world st) = (Inr (Some s), d, w)"
    and "se_eligible s = Some n" and "0 < n" and "se_scanned s = 0" and "dbUp (cr_now st + int d)"
    and "by_key rn_jobName (cr_runs st) job = Some prior"
  shows "\<exists>result st' r. runNamed dbUp h job st = (Inr result, st')
     \<and> by_key rn_jobName (cr_runs st') job = Some r
     \<and> rn_lastStatus r = RunSuspect \<and> rn_failCount r = rn_failCount prior + 1
     \<and> rn_lastSuccessAt r = rn_lastSuccessAt prior"
proof -
  have "suspect (Some s)" using assms(3-5) by (simp add: suspect_def)
  then show ?thesis
    using assms(1,2,6,7) by (simp add: runNamed_def run_timed_def record_lookup upsert_run_def)
qed

definition blocked :: scope_evidence where
  "blocked = \<lparr>se_eligible = Some 4, se_scanned = 0, se_failures = Some []\<rparr>"

theorem blocked_sweep_recorded_as_failure_witness:
  "\<exists>result st' r. runNamed (\<lambda>_. True) (\<lambda>job w. (Inr (Some blocked), 12, w)) ''rescreening''
        (idle_state\<lparr>cr_runs := record_run True ''rescreening'' ok_outcome 10 []\<rparr>) = (Inr result, st')
     \<and> by_key rn_jobName (cr_runs st') ''rescreening'' = Some r
     \<and> rn_lastStatus r = RunSuspect \<and> rn_lastSuccessAt r = Some 10"
proof -
  have "''rescreening'' \<in> set JOB_NAMES" by code_simp
  from blocked_sweep_recorded_as_failure [OF this, of "\<lambda>job w. (Inr (Some blocked), 12, w)"
      "idle_state\<lparr>cr_runs := record_run True ''rescreening'' ok_outcome 10 []\<rparr>" blocked 12 "()" 4 "\<lambda>_. True"
      "upsert_run ''rescreening'' ok_outcome 10 None"]
  show ?thesis by (fastforce simp: blocked_def record_lookup upsert_run_def ok_outcome_def)
qed

text \<open>
  A scope named like a property every JavaScript object inherits passes the check that
  should answer 404, and the tick then fails with a type error before it runs any job.
\<close>

theorem inherited_names_pass_as_scopes:
  assumes "k \<in> set inherited_keys"
  shows "parseScope (Some k) = Inr k
     \<and> (\<forall>st. dbUp (cr_now st) \<longrightarrow> tick dbUp h k st = (Inl (NotIterable k), st))"
proof -
  have "list_all (\<lambda>k. k \<noteq> [] \<and> map_of TICK_SCOPES k = None) inherited_keys" by code_simp
  with assms have "k \<noteq> []" "map_of TICK_SCOPES k = None" by (auto simp: list_all_iff)
  with assms show ?thesis by (simp add: parseScope_def tick_def)
qed

theorem inherited_names_pass_as_scopes_witness:
  "parseScope (Some ''constructor'') = Inr ''constructor''
     \<and> tick (\<lambda>_. True) (\<lambda>job w. (Inr None, 1, ())) ''constructor'' idle_state
         = (Inl (NotIterable ''constructor''), idle_state)"
  using inherited_names_pass_as_scopes [of "''constructor''" "\<lambda>_. True" "\<lambda>job w. (Inr None, 1, ())"]
  by (simp add: inherited_keys_def)

end
