(* ===== verification/Rules.thy ===== *)
theory Rules
  imports JsValue
begin

text \<open>
  \<^verbatim>\<open>src/rules/rule-evaluator.service.ts\<close>: the conditions a config pack may express. A rule is a
  JsonLogic term, a JavaScript value. \<open>json-logic-js\<close> is the argument \<open>apply_logic\<close>: given a rule
  and a record it returns a value or throws a text.
\<close>

section \<open>Operators\<close>

definition ALLOWED_OPS :: "str list" where
  "ALLOWED_OPS =
     [''var'', ''missing'', ''missing_some'', ''if'', ''=='', ''==='', ''!='', ''!=='', ''!'', ''!!'',
      ''or'', ''and'', ''>'', ''>='', ''<'', ''<='', ''max'', ''min'', ''+'', ''-'', ''*'', ''/'', ''%'',
      ''map'', ''filter'', ''reduce'', ''all'', ''none'', ''some'', ''merge'', ''in'', ''cat'', ''substr'']"

definition COMPARISON_OPS :: "str list" where
  "COMPARISON_OPS = [''<'', ''<='', ''>'', ''>='', ''between'']"

text \<open>The first operator off the list, walking arrays and the values of objects in order.\<close>

fun findDisallowedOperator :: "js \<Rightarrow> str option"
  and disallowed_in_list :: "js list \<Rightarrow> str option"
  and disallowed_in_entries :: "(str \<times> js) list \<Rightarrow> str option" where
  "findDisallowedOperator (JArr xs) = disallowed_in_list xs"
| "findDisallowedOperator (JObj kvs) = disallowed_in_entries kvs"
| "findDisallowedOperator JUndef = None"
| "findDisallowedOperator JNull = None"
| "findDisallowedOperator (JBool b) = None"
| "findDisallowedOperator (JNum n) = None"
| "findDisallowedOperator (JStr s) = None"
| "findDisallowedOperator (JDate d) = None"
| "disallowed_in_list [] = None"
| "disallowed_in_list (x # xs) =
     (let found = findDisallowedOperator x in if truthy_str found then found else disallowed_in_list xs)"
| "disallowed_in_entries [] = None"
| "disallowed_in_entries ((op, args) # kvs) =
     (if op \<notin> set ALLOWED_OPS then Some op
      else let found = findDisallowedOperator args
           in if truthy_str found then found else disallowed_in_entries kvs)"

type_synonym json_logic = "js \<Rightarrow> js_obj \<Rightarrow> str + js"

datatype rule_verdict = RuleValid | RuleEmpty | RuleOperator str | RuleThrows str

definition nullish_js :: "js \<Rightarrow> bool" where
  "nullish_js v \<longleftrightarrow> v = JNull \<or> v = JUndef"

definition validate :: "json_logic \<Rightarrow> js \<Rightarrow> rule_verdict" where
  "validate apply_logic rule =
     (if nullish_js rule then RuleEmpty
      else let offending = findDisallowedOperator rule
           in if truthy_str offending then RuleOperator (the offending)
              else case apply_logic rule [] of Inl message \<Rightarrow> RuleThrows message | Inr _ \<Rightarrow> RuleValid)"

section \<open>Dates\<close>

definition is_digit :: "char \<Rightarrow> bool" where
  "is_digit c \<longleftrightarrow> (let n = of_char c :: nat in 48 \<le> n \<and> n \<le> 57)"

text \<open>\<open>/^\d{4}-\d{2}-\d{2}([T ]|$)/\<close>.\<close>

definition looks_iso :: "str \<Rightarrow> bool" where
  "looks_iso s \<longleftrightarrow>
     10 \<le> length s \<and> list_all is_digit (take 4 s) \<and> s ! 4 = CHR ''-''
     \<and> list_all is_digit (take 2 (drop 5 s)) \<and> s ! 7 = CHR ''-''
     \<and> list_all is_digit (take 2 (drop 8 s))
     \<and> (length s = 10 \<or> s ! 10 = CHR ''T'' \<or> s ! 10 = CHR '' '')"

definition digits_value :: "str \<Rightarrow> int" where
  "digits_value s = foldl (\<lambda>n c. 10 * n + (int (of_char c) - 48)) 0 s"

definition days_in_month :: "int \<Rightarrow> int \<Rightarrow> int" where
  "days_in_month y m =
     (if m = 2 then (if y mod 4 = 0 \<and> (y mod 100 \<noteq> 0 \<or> y mod 400 = 0) then 29 else 28)
      else if m \<in> {4, 6, 9, 11} then 30 else 31)"

text \<open>
  \<open>new Date(text)\<close>. A calendar date alone is midnight UTC. The other forms depend on the host:
  a time without offset on its time zone, anything outside the standard's format on the
  engine; \<open>host_date\<close> is what the host makes of them.
\<close>

definition js_date :: "(str \<Rightarrow> instant option) \<Rightarrow> str \<Rightarrow> instant option" where
  "js_date host_date s =
     (let y = digits_value (take 4 s); m = digits_value (take 2 (drop 5 s)); d = digits_value (take 2 (drop 8 s))
      in if length s = 10 \<and> 1 \<le> m \<and> m \<le> 12 \<and> 1 \<le> d \<and> d \<le> days_in_month y m
         then Some (days_of_civil y m d * ms_per_day) else host_date s)"

fun asDate :: "(str \<Rightarrow> instant option) \<Rightarrow> js \<Rightarrow> instant option" where
  "asDate host_date (JDate d) = d"
| "asDate host_date (JStr s) = (if looks_iso s then js_date host_date s else None)"
| "asDate host_date _ = None"

section \<open>The context of a rule\<close>

definition days_until :: "instant \<Rightarrow> instant \<Rightarrow> int" where
  "days_until now t = (t - now) div ms_per_day"

definition derive :: "(str \<Rightarrow> js \<Rightarrow> js_obj \<Rightarrow> js_obj) \<Rightarrow> instant \<Rightarrow> str \<Rightarrow> instant \<Rightarrow> js_obj \<Rightarrow> js_obj" where
  "derive put now key t out =
     put (key @ ''_daysSince'') (JNum (show_int (- days_until now t)))
       (put (key @ ''_daysUntil'') (JNum (show_int (days_until now t))) out)"

text \<open>The values \<open>typeof\<close> calls objects and that are not arrays, as their own entries.\<close>

fun entries_of :: "js \<Rightarrow> js_obj option" where
  "entries_of (JObj kvs) = Some kvs"
| "entries_of (JDate d) = Some []"
| "entries_of _ = None"

definition derive_dates :: "(str \<Rightarrow> instant option) \<Rightarrow> instant \<Rightarrow> js_obj \<Rightarrow> js_obj \<Rightarrow> js_obj" where
  "derive_dates host_date now kvs out =
     fold (\<lambda>(key, v) out. case asDate host_date v of None \<Rightarrow> out | Some t \<Rightarrow> derive obj_set now key t out)
       kvs out"

definition augment_vertical ::
  "(str \<Rightarrow> instant option) \<Rightarrow> instant \<Rightarrow> str \<times> js \<Rightarrow> js_obj \<Rightarrow> js_obj" where
  "augment_vertical host_date now kv out =
     (let key = fst kv; v = snd kv;
          out1 = (if \<not> key_in key out then obj_assign key v out else out)
      in case asDate host_date v of
           Some t \<Rightarrow> derive obj_set now key t out1
         | None \<Rightarrow>
             (case entries_of v of
                None \<Rightarrow> out1
              | Some inner \<Rightarrow> obj_assign key (JObj (derive_dates host_date now inner inner)) out1))"

definition augment :: "(str \<Rightarrow> instant option) \<Rightarrow> js_obj \<Rightarrow> instant \<Rightarrow> js_obj" where
  "augment host_date data now =
     (let out = derive_dates host_date now data (obj_set ''_now'' (JStr (iso_string now)) data)
      in case obj_get ''verticalAttributes'' data of
           None \<Rightarrow> out
         | Some v \<Rightarrow> (case entries_of v of
                         None \<Rightarrow> out
                       | Some vertical \<Rightarrow> fold (augment_vertical host_date now) vertical out))"

section \<open>Missing operands\<close>

definition array_keys :: "str list" where
  "array_keys = [''length'', ''at'', ''concat'', ''copyWithin'', ''entries'', ''every'', ''fill'', ''filter'',
     ''find'', ''findIndex'', ''findLast'', ''findLastIndex'', ''flat'', ''flatMap'', ''forEach'',
     ''includes'', ''indexOf'', ''join'', ''keys'', ''lastIndexOf'', ''map'', ''pop'', ''push'', ''reduce'',
     ''reduceRight'', ''reverse'', ''shift'', ''slice'', ''some'', ''sort'', ''splice'', ''toReversed'',
     ''toSorted'', ''toSpliced'', ''unshift'', ''values'', ''with'']"

text \<open>\<open>o[part]\<close>; an inherited member is a function, here its text.\<close>

definition native :: js where
  "native = JStr ''[native code]''"

definition array_index :: "str \<Rightarrow> nat option" where
  "array_index s = (if s \<noteq> [] \<and> list_all is_digit s \<and> (s = ''0'' \<or> hd s \<noteq> CHR ''0'')
     then Some (nat (digits_value s)) else None)"

fun js_member :: "js \<Rightarrow> str \<Rightarrow> js" where
  "js_member (JObj kvs) k =
     (case obj_get k kvs of Some v \<Rightarrow> v | None \<Rightarrow> if k \<in> set inherited_keys then native else JUndef)"
| "js_member (JArr xs) k =
     (case array_index k of
        Some i \<Rightarrow> if i < length xs then xs ! i else JUndef
      | None \<Rightarrow> if k \<in> set array_keys \<or> k \<in> set inherited_keys then native else JUndef)"
| "js_member (JDate d) k = (if k \<in> set inherited_keys then native else JUndef)"
| "js_member _ k = JUndef"

fun is_object :: "js \<Rightarrow> bool" where
  "is_object (JObj kvs) = True"
| "is_object (JArr xs) = True"
| "is_object (JDate d) = True"
| "is_object _ = False"

fun lookup_path :: "js \<Rightarrow> str list \<Rightarrow> js" where
  "lookup_path current [] = current"
| "lookup_path current (part # parts) =
     (if \<not> is_object current then JUndef else lookup_path (js_member current part) parts)"

definition lookup :: "js_obj \<Rightarrow> str \<Rightarrow> js" where
  "lookup context path =
     (if key_in path context then js_member (JObj context) path
      else lookup_path (JObj context) (split_on (CHR ''.'') path))"

text \<open>The names of the \<open>var\<close>s below a node that carry no default.\<close>

fun var_name :: "js \<Rightarrow> str list" where
  "var_name (JStr s) = [s]"
| "var_name (JArr [JStr s]) = [s]"
| "var_name _ = []"

fun varNamesIn :: "js \<Rightarrow> str list"
  and varNames_list :: "js list \<Rightarrow> str list"
  and varNames_entries :: "(str \<times> js) list \<Rightarrow> str list" where
  "varNamesIn (JArr xs) = varNames_list xs"
| "varNamesIn (JObj kvs) = varNames_entries kvs"
| "varNamesIn JUndef = []"
| "varNamesIn JNull = []"
| "varNamesIn (JBool b) = []"
| "varNamesIn (JNum n) = []"
| "varNamesIn (JStr s) = []"
| "varNamesIn (JDate d) = []"
| "varNames_list [] = []"
| "varNames_list (x # xs) = varNamesIn x @ varNames_list xs"
| "varNames_entries [] = []"
| "varNames_entries ((op, args) # kvs) =
     (if op = ''var'' then var_name args else varNamesIn args) @ varNames_entries kvs"

definition set_add :: "str \<Rightarrow> str list \<Rightarrow> str list" where
  "set_add n acc = (if n \<in> set acc then acc else acc @ [n])"

fun walk_missing :: "js_obj \<Rightarrow> js \<Rightarrow> str list \<Rightarrow> str list"
  and walk_list :: "js_obj \<Rightarrow> js list \<Rightarrow> str list \<Rightarrow> str list"
  and walk_entries :: "js_obj \<Rightarrow> (str \<times> js) list \<Rightarrow> str list \<Rightarrow> str list" where
  "walk_missing ctx (JArr xs) acc = walk_list ctx xs acc"
| "walk_missing ctx (JObj kvs) acc = walk_entries ctx kvs acc"
| "walk_missing ctx JUndef acc = acc"
| "walk_missing ctx JNull acc = acc"
| "walk_missing ctx (JBool b) acc = acc"
| "walk_missing ctx (JNum n) acc = acc"
| "walk_missing ctx (JStr s) acc = acc"
| "walk_missing ctx (JDate d) acc = acc"
| "walk_list ctx [] acc = acc"
| "walk_list ctx (x # xs) acc = walk_list ctx xs (walk_missing ctx x acc)"
| "walk_entries ctx [] acc = acc"
| "walk_entries ctx ((op, args) # kvs) acc =
     walk_entries ctx kvs
       (walk_missing ctx args
         (if op \<in> set COMPARISON_OPS
          then fold set_add (filter (\<lambda>n. lookup ctx n = JUndef) (varNamesIn args)) acc
          else acc))"

definition missingComparisonVars :: "js \<Rightarrow> js_obj \<Rightarrow> str list" where
  "missingComparisonVars rule ctx = walk_missing ctx rule []"

section \<open>Evaluation\<close>

fun js_truthy :: "js \<Rightarrow> bool" where
  "js_truthy JUndef = False"
| "js_truthy JNull = False"
| "js_truthy (JBool b) = b"
| "js_truthy (JNum n) = (n \<notin> {''0'', ''NaN''})"
| "js_truthy (JStr s) = (s \<noteq> [])"
| "js_truthy (JDate d) = True"
| "js_truthy (JArr xs) = True"
| "js_truthy (JObj kvs) = True"

definition matches ::
  "json_logic \<Rightarrow> (str \<Rightarrow> instant option) \<Rightarrow> instant \<Rightarrow> js \<Rightarrow> js_obj \<Rightarrow> bool" where
  "matches apply_logic host_date now rule data =
     (if nullish_js rule then False
      else let context = augment host_date data now; missing = missingComparisonVars rule context
           in if missing \<noteq> [] then False
              else case apply_logic rule context of Inl _ \<Rightarrow> False | Inr v \<Rightarrow> js_truthy v)"

definition evaluate ::
  "json_logic \<Rightarrow> (str \<Rightarrow> instant option) \<Rightarrow> instant \<Rightarrow> js \<Rightarrow> js_obj \<Rightarrow> js" where
  "evaluate apply_logic host_date now rule data =
     (if nullish_js rule then JNull
      else case apply_logic rule (augment host_date data now) of Inl _ \<Rightarrow> JNull | Inr v \<Rightarrow> v)"

section \<open>The operator whitelist\<close>

text \<open>Every key of every object in a rule.\<close>

fun ops_of :: "js \<Rightarrow> str set"
  and ops_list :: "js list \<Rightarrow> str set"
  and ops_entries :: "(str \<times> js) list \<Rightarrow> str set" where
  "ops_of (JArr xs) = ops_list xs"
| "ops_of (JObj kvs) = ops_entries kvs"
| "ops_of JUndef = {}"
| "ops_of JNull = {}"
| "ops_of (JBool b) = {}"
| "ops_of (JNum n) = {}"
| "ops_of (JStr s) = {}"
| "ops_of (JDate d) = {}"
| "ops_list [] = {}"
| "ops_list (x # xs) = ops_of x \<union> ops_list xs"
| "ops_entries [] = {}"
| "ops_entries ((op, args) # kvs) = insert op (ops_of args) \<union> ops_entries kvs"

lemma disallowed_cases:
  "findDisallowedOperator rule = Some bad \<Longrightarrow> bad \<in> ops_of rule - set ALLOWED_OPS"
  "disallowed_in_list xs = Some bad \<Longrightarrow> bad \<in> ops_list xs - set ALLOWED_OPS"
  "disallowed_in_entries kvs = Some bad \<Longrightarrow> bad \<in> ops_entries kvs - set ALLOWED_OPS"
proof (induction rule and xs and kvs
      rule: findDisallowedOperator_disallowed_in_list_disallowed_in_entries.induct)
  case (10 x xs)
  then show ?case by (cases "truthy_str (findDisallowedOperator x)") (simp_all add: Let_def)
next
  case (12 op args kvs)
  then show ?case
    by (cases "op \<in> set ALLOWED_OPS"; cases "truthy_str (findDisallowedOperator args)")
       (simp_all add: Let_def)
qed simp_all

lemma allowed_nonempty: "[] \<notin> set ALLOWED_OPS"
  by (simp add: ALLOWED_OPS_def)

lemma disallowed_found:
  "[] \<notin> ops_of rule \<Longrightarrow> findDisallowedOperator rule = None \<longleftrightarrow> ops_of rule \<subseteq> set ALLOWED_OPS"
  "[] \<notin> ops_list xs \<Longrightarrow> disallowed_in_list xs = None \<longleftrightarrow> ops_list xs \<subseteq> set ALLOWED_OPS"
  "[] \<notin> ops_entries kvs \<Longrightarrow> disallowed_in_entries kvs = None \<longleftrightarrow> ops_entries kvs \<subseteq> set ALLOWED_OPS"
proof (induction rule and xs and kvs
      rule: findDisallowedOperator_disallowed_in_list_disallowed_in_entries.induct)
  case (10 x xs)
  then show ?case
    using disallowed_cases(1) [of x]
    by (cases "findDisallowedOperator x") (auto simp: Let_def truthy_str_iff)
next
  case (12 op args kvs)
  then show ?case
    using disallowed_cases(1) [of args]
    by (cases "findDisallowedOperator args") (auto simp: Let_def truthy_str_iff)
qed auto

text \<open>
  A rule none of whose objects has an empty key is refused for its operators
  exactly when an operator is off the list, and the operator named in the reason is one. A rule that is
  accepted uses listed operators only.
\<close>

theorem validate_whitelists:
  assumes "[] \<notin> ops_of rule" "\<not> nullish_js rule"
  shows "((\<exists>op. validate ap rule = RuleOperator op) \<longleftrightarrow> \<not> ops_of rule \<subseteq> set ALLOWED_OPS)
    \<and> (\<forall>op. validate ap rule = RuleOperator op \<longrightarrow> op \<in> ops_of rule \<and> op \<notin> set ALLOWED_OPS)
    \<and> (validate ap rule = RuleValid \<longleftrightarrow>
         ops_of rule \<subseteq> set ALLOWED_OPS \<and> (\<exists>v. ap rule [] = Inr v))"
proof (cases "findDisallowedOperator rule")
  case None
  then have "ops_of rule \<subseteq> set ALLOWED_OPS"
    using disallowed_found(1) assms(1) by blast
  then show ?thesis
    using None assms by (auto simp: validate_def Let_def truthy_str_iff split: sum.splits)
next
  case (Some bad)
  then have "bad \<in> ops_of rule - set ALLOWED_OPS" by (rule disallowed_cases(1))
  then show ?thesis
    using Some assms by (auto simp: validate_def Let_def truthy_str_iff split: sum.splits)
qed

lemma validate_whitelists_witness:
  "\<exists>op. validate (\<lambda>_ _. Inr JNull) (JObj [(''and'', JArr [JObj [(''log'', JStr ''x'')]])]) = RuleOperator op"
proof -
  let ?rule = "JObj [(''and'', JArr [JObj [(''log'', JStr ''x'')]])]"
  have "[] \<notin> ops_of ?rule" "\<not> nullish_js ?rule" "\<not> ops_of ?rule \<subseteq> set ALLOWED_OPS"
    by (simp_all add: nullish_js_def ALLOWED_OPS_def)
  then show ?thesis using validate_whitelists [of ?rule "\<lambda>_ _. Inr JNull"] by blast
qed

text \<open>An empty key ends the search with a text that counts as nothing found.\<close>

lemma empty_operator_hides_the_rest:
  "findDisallowedOperator (JArr [JObj [([], JNull), (''log'', args)]]) = None
   \<and> findDisallowedOperator (JObj [([], JNull), (''log'', args)]) = Some []"
  by (simp add: ALLOWED_OPS_def)

section \<open>Comparisons with something missing\<close>

text \<open>
  \<open>mentions node n\<close>: below \<open>node\<close> stands a \<open>var\<close> for \<open>n\<close> without default. \<open>compares node n\<close>: it stands
  below a comparison operator.
\<close>

inductive mentions :: "js \<Rightarrow> str \<Rightarrow> bool" where
  in_array: "x \<in> set xs \<Longrightarrow> mentions x n \<Longrightarrow> mentions (JArr xs) n"
| in_operand: "(op, args) \<in> set kvs \<Longrightarrow> op \<noteq> ''var'' \<Longrightarrow> mentions args n \<Longrightarrow> mentions (JObj kvs) n"
| plain_var: "(''var'', JStr n) \<in> set kvs \<Longrightarrow> mentions (JObj kvs) n"
| array_var: "(''var'', JArr [JStr n]) \<in> set kvs \<Longrightarrow> mentions (JObj kvs) n"

inductive compares :: "js \<Rightarrow> str \<Rightarrow> bool" where
  at_array: "x \<in> set xs \<Longrightarrow> compares x n \<Longrightarrow> compares (JArr xs) n"
| at_operand: "(op, args) \<in> set kvs \<Longrightarrow> compares args n \<Longrightarrow> compares (JObj kvs) n"
| at_comparison: "(op, args) \<in> set kvs \<Longrightarrow> op \<in> set COMPARISON_OPS \<Longrightarrow> mentions args n
    \<Longrightarrow> compares (JObj kvs) n"

inductive_simps mentions_JArr: "mentions (JArr xs) n"
inductive_simps mentions_JObj: "mentions (JObj kvs) n"
inductive_simps compares_JArr: "compares (JArr xs) n"
inductive_simps compares_JObj: "compares (JObj kvs) n"
inductive_cases mentions_scalarE: "mentions JUndef n" "mentions JNull n" "mentions (JBool b) n"
  "mentions (JNum m) n" "mentions (JStr s) n" "mentions (JDate d) n"
inductive_cases compares_scalarE: "compares JUndef n" "compares JNull n" "compares (JBool b) n"
  "compares (JNum m) n" "compares (JStr s) n" "compares (JDate d) n"

lemma var_name_iff: "n \<in> set (var_name args) \<longleftrightarrow> args = JStr n \<or> args = JArr [JStr n]"
  by (induction args rule: var_name.induct) auto

lemma varNamesIn_mentions:
  "n \<in> set (varNamesIn rule) \<longleftrightarrow> mentions rule n"
  "n \<in> set (varNames_list xs) \<longleftrightarrow> (\<exists>x \<in> set xs. mentions x n)"
  "n \<in> set (varNames_entries kvs) \<longleftrightarrow> mentions (JObj kvs) n"
proof (induction rule and xs and kvs rule: varNamesIn_varNames_list_varNames_entries.induct)
  case (12 op args kvs)
  then show ?case
    by (cases "op = ''var''") (auto simp: var_name_iff mentions_JObj)
qed (auto simp: mentions_JArr mentions_JObj elim: mentions_scalarE)

lemma set_set_add: "set (fold set_add ns acc) = set acc \<union> set ns"
  by (induction ns arbitrary: acc) (auto simp: set_add_def)

lemma walk_missing_compares:
  "set (walk_missing ctx rule acc) = set acc \<union> {n. compares rule n \<and> lookup ctx n = JUndef}"
  "set (walk_list ctx xs acc) = set acc \<union> {n. (\<exists>x \<in> set xs. compares x n) \<and> lookup ctx n = JUndef}"
  "set (walk_entries ctx kvs acc) = set acc \<union> {n. compares (JObj kvs) n \<and> lookup ctx n = JUndef}"
proof (induction ctx rule acc and ctx xs acc and ctx kvs acc
    rule: walk_missing_walk_list_walk_entries.induct)
  case (12 ctx op args kvs acc)
  have "compares (JObj ((op, args) # kvs)) n \<longleftrightarrow>
        (op \<in> set COMPARISON_OPS \<and> mentions args n) \<or> compares args n \<or> compares (JObj kvs) n" for n
    by (auto simp: compares_JObj)
  then show ?case
    using 12 by (auto simp: set_set_add varNamesIn_mentions(1))
qed (auto simp: compares_JArr compares_JObj elim: compares_scalarE)

lemma missing_iff:
  "n \<in> set (missingComparisonVars rule ctx) \<longleftrightarrow> compares rule n \<and> lookup ctx n = JUndef"
  by (simp add: missingComparisonVars_def walk_missing_compares(1))

text \<open>
  A rule matches exactly when it is not empty, every variable it compares is
  present in the prepared record (a \<open>null\<close> counts as present) and JsonLogic returns something
  truthy for it; a rule that throws does not match.
\<close>

theorem matches_iff:
  "matches ap host_date now rule data \<longleftrightarrow>
     \<not> nullish_js rule
     \<and> (\<nexists>n. compares rule n \<and> lookup (augment host_date data now) n = JUndef)
     \<and> (\<exists>v. ap rule (augment host_date data now) = Inr v \<and> js_truthy v)"
proof -
  let ?ctx = "augment host_date data now"
  have "missingComparisonVars rule ?ctx = [] \<longleftrightarrow> (\<nexists>n. compares rule n \<and> lookup ?ctx n = JUndef)"
    by (simp only: set_empty [symmetric] set_eq_iff missing_iff empty_iff simp_thms not_ex)
  then show ?thesis
    by (auto simp: matches_def Let_def split: sum.split)
qed

section \<open>The derived variables\<close>

text \<open>The names \<open>derive\<close> writes.\<close>

definition derived_name :: "str \<Rightarrow> bool" where
  "derived_name k \<longleftrightarrow> take 10 (rev k) \<in> {rev ''_daysUntil'', rev ''_daysSince''}"

lemma derived_nameI [simp]: "derived_name (p @ ''_daysUntil'')" "derived_name (p @ ''_daysSince'')"
  by (simp_all add: derived_name_def)

lemma daysUntil_not_daysSince [simp]: "p @ ''_daysUntil'' \<noteq> q @ ''_daysSince''"
proof
  assume "p @ ''_daysUntil'' = q @ ''_daysSince''"
  then have "last (p @ ''_daysUntil'') = last (q @ ''_daysSince'')" by simp
  then show False by simp
qed

lemmas daysSince_not_daysUntil [simp] = daysUntil_not_daysSince [symmetric]

lemma derive_get_plain: "\<not> derived_name k \<Longrightarrow> obj_get k (derive obj_set now key t out) = obj_get k out"
  by (auto simp: derive_def)

lemma derive_get_until:
  "obj_get (k @ ''_daysUntil'') (derive obj_set now key t out) =
     (if k = key then Some (JNum (show_int (days_until now t))) else obj_get (k @ ''_daysUntil'') out)"
  by (simp add: derive_def)

lemma derive_get_since:
  "obj_get (k @ ''_daysSince'') (derive obj_set now key t out) =
     (if k = key then Some (JNum (show_int (- days_until now t))) else obj_get (k @ ''_daysSince'') out)"
  by (simp add: derive_def)

lemma derive_dates_Cons:
  "derive_dates host_date now ((key, v) # kvs) out =
     derive_dates host_date now kvs
       (case asDate host_date v of None \<Rightarrow> out | Some t \<Rightarrow> derive obj_set now key t out)"
  by (simp add: derive_dates_def)

lemma derive_dates_Nil [simp]: "derive_dates host_date now [] out = out"
  by (simp add: derive_dates_def)

lemma derive_dates_plain:
  "\<not> derived_name k \<Longrightarrow> obj_get k (derive_dates host_date now kvs out) = obj_get k out"
  by (induction kvs arbitrary: out)
     (auto simp: derive_dates_Cons derive_get_plain split: option.split)

text \<open>The date a property holds.\<close>

definition date_of :: "(str \<Rightarrow> instant option) \<Rightarrow> str \<Rightarrow> js_obj \<Rightarrow> instant option" where
  "date_of host_date k kvs = Option.bind (obj_get k kvs) (asDate host_date)"

lemma date_of_Cons:
  "date_of host_date k ((key, v) # kvs) = (if key = k then asDate host_date v else date_of host_date k kvs)"
  by (simp add: date_of_def)

lemma derive_dates_keep:
  "k \<notin> fst ` set kvs \<Longrightarrow>
     obj_get (k @ ''_daysUntil'') (derive_dates host_date now kvs out) = obj_get (k @ ''_daysUntil'') out
     \<and> obj_get (k @ ''_daysSince'') (derive_dates host_date now kvs out) = obj_get (k @ ''_daysSince'') out"
  by (induction kvs arbitrary: out)
     (auto simp: derive_dates_Cons derive_get_until derive_get_since split: option.split)

lemma derive_dates_get:
  "obj_wf kvs \<Longrightarrow> date_of host_date k kvs = Some t \<Longrightarrow>
     obj_get (k @ ''_daysUntil'') (derive_dates host_date now kvs out) = Some (JNum (show_int (days_until now t)))
     \<and> obj_get (k @ ''_daysSince'') (derive_dates host_date now kvs out) = Some (JNum (show_int (- days_until now t)))"
proof (induction kvs arbitrary: out)
  case (Cons kv kvs)
  obtain key v where kv: "kv = (key, v)" by (cases kv)
  show ?case
  proof (cases "key = k")
    case True
    then have "k \<notin> fst ` set kvs" "asDate host_date v = Some t"
      using Cons.prems by (auto simp: kv date_of_Cons)
    then show ?thesis
      using derive_dates_keep [of k kvs host_date now "derive obj_set now k t out"] True
      by (simp add: kv derive_dates_Cons derive_get_until derive_get_since)
  next
    case False
    then show ?thesis
      using Cons by (simp add: kv derive_dates_Cons date_of_Cons)
  qed
qed (simp add: date_of_def)

section \<open>Flattening the vertical attributes\<close>

lemma obj_get_key_in: "key_in k out \<longleftrightarrow> obj_get k out \<noteq> None \<or> k \<in> set inherited_keys"
  by (simp add: key_in_def obj_get_None_iff)

lemma proto_inherited: "''__proto__'' \<in> set inherited_keys"
  by (simp add: inherited_keys_def)

text \<open>What flattening makes of the value \<open>v\<close> of a vertical attribute, over the value the record has.\<close>

definition flattened ::
  "(str \<Rightarrow> instant option) \<Rightarrow> instant \<Rightarrow> js \<Rightarrow> js option \<Rightarrow> js option" where
  "flattened host_date now v old =
     (case (asDate host_date v, entries_of v) of
        (None, Some inner) \<Rightarrow> Some (JObj (derive_dates host_date now inner inner))
      | _ \<Rightarrow> (case old of None \<Rightarrow> Some v | Some x \<Rightarrow> Some x))"

lemma augment_vertical_plain:
  assumes "\<not> derived_name k" "k \<notin> set inherited_keys"
  shows "obj_get k (augment_vertical host_date now (key, v) out) =
           (if key = k then flattened host_date now v (obj_get k out) else obj_get k out)"
proof -
  have "k \<noteq> ''__proto__''" using assms(2) proto_inherited by metis
  then show ?thesis
    using assms
    by (auto simp: augment_vertical_def Let_def flattened_def obj_get_assign obj_get_key_in
        derive_get_plain split: option.split)
qed

lemma augment_vertical_fold_plain:
  assumes "\<not> derived_name k" "k \<notin> set inherited_keys" "obj_wf vertical"
  shows "obj_get k (fold (augment_vertical host_date now) vertical out) =
           (case obj_get k vertical of None \<Rightarrow> obj_get k out
            | Some v \<Rightarrow> flattened host_date now v (obj_get k out))"
  using assms(3)
proof (induction vertical arbitrary: out)
  case (Cons kv vertical)
  obtain key v where kv: "kv = (key, v)" by (cases kv)
  have "obj_get key vertical = None"
    using Cons.prems by (simp add: kv obj_get_None_iff)
  then show ?case
    using Cons
    by (cases "obj_get k vertical") (auto simp: kv augment_vertical_plain [OF assms(1,2)])
qed simp

definition vertical_of :: "js_obj \<Rightarrow> js_obj" where
  "vertical_of data =
     (case Option.bind (obj_get ''verticalAttributes'' data) entries_of of None \<Rightarrow> [] | Some kvs \<Rightarrow> kvs)"

lemma augment_eq:
  "augment host_date data now =
     fold (augment_vertical host_date now) (vertical_of data)
       (derive_dates host_date now data (obj_set ''_now'' (JStr (iso_string now)) data))"
  by (cases "obj_get ''verticalAttributes'' data") (simp_all add: augment_def vertical_of_def split: option.split)

text \<open>
  The variable of a rule for a name that is not derived: the value of the
  vertical attribute of that name, with its own dates derived, when that is an object, whatever the
  record's column of the name holds; otherwise the column, and the attribute where there is none.
\<close>

theorem augment_plain:
  assumes "\<not> derived_name k" "k \<notin> set inherited_keys" "k \<noteq> ''_now''" "obj_wf (vertical_of data)"
  shows "obj_get k (augment host_date data now) =
           (case obj_get k (vertical_of data) of
              None \<Rightarrow> obj_get k data
            | Some v \<Rightarrow>
                if asDate host_date v = None \<and> entries_of v \<noteq> None
                then Some (JObj (derive_dates host_date now (the (entries_of v)) (the (entries_of v))))
                else case obj_get k data of None \<Rightarrow> Some v | Some x \<Rightarrow> Some x)"
  using assms
  by (auto simp: augment_eq augment_vertical_fold_plain derive_dates_plain flattened_def split: option.split)

lemma augment_plain_witness:
  "obj_get ''status''
     (augment (\<lambda>_. None)
        [(''status'', JStr ''ACTIVE''), (''verticalAttributes'', JObj [(''status'', JObj [(''x'', JNull)])])] 0)
   = Some (JObj [(''x'', JNull)])"
proof -
  let ?data = "[(''status'', JStr ''ACTIVE''), (''verticalAttributes'', JObj [(''status'', JObj [(''x'', JNull)])])]"
  have "\<not> derived_name ''status''" by (simp add: derived_name_def)
  moreover have "''status'' \<notin> set inherited_keys" "''status'' \<noteq> ''_now''" "obj_wf (vertical_of ?data)"
    by (simp_all add: inherited_keys_def vertical_of_def)
  ultimately show ?thesis
    using augment_plain [of "''status''" ?data "\<lambda>_. None" 0]
    by (simp add: vertical_of_def derive_dates_def)
qed

section \<open>Nested dates\<close>

lemma split_on_plain: "c \<notin> set s \<Longrightarrow> split_on c s = [s]"
  by (induction s) auto

lemma split_on_dot: "c \<notin> set s \<Longrightarrow> split_on c (s @ c # r) = s # split_on c r"
proof (induction s)
  case (Cons x s)
  then show ?case by (cases "x = c") simp_all
qed simp

text \<open>
  For a date stored one level down in the vertical attributes, a rule reads
  the whole days to it, rounded down, under its dotted path.
\<close>

theorem nested_date_variable:
  assumes "obj_wf (vertical_of data)" "obj_get a (vertical_of data) = Some (JObj inner)"
    and "obj_wf inner" "date_of host_date k inner = Some t"
    and "\<not> derived_name a" "a \<notin> set inherited_keys" "a \<noteq> ''_now''"
    and "CHR ''.'' \<notin> set a" "CHR ''.'' \<notin> set k"
    and "\<not> key_in (a @ ''.'' @ k @ ''_daysUntil'') (augment host_date data now)"
  shows "lookup (augment host_date data now) (a @ ''.'' @ k @ ''_daysUntil'')
           = JNum (show_int ((t - now) div ms_per_day))"
proof -
  let ?ctx = "augment host_date data now"
  have "obj_get a ?ctx = Some (JObj (derive_dates host_date now inner inner))"
    using augment_plain [OF assms(5,6,7,1), of host_date now] assms(2) by simp
  moreover have "obj_get (k @ ''_daysUntil'') (derive_dates host_date now inner inner)
      = Some (JNum (show_int (days_until now t)))"
    using derive_dates_get [OF assms(3,4)] by simp
  moreover have "split_on (CHR ''.'') (a @ ''.'' @ k @ ''_daysUntil'') = [a, k @ ''_daysUntil'']"
    using assms(8,9) split_on_dot [of "CHR ''.''" a "k @ ''_daysUntil''"]
    by (simp add: split_on_plain)
  ultimately show ?thesis
    using assms(10) by (simp add: lookup_def days_until_def)
qed

lemma nested_date_variable_witness:
  "lookup (augment (\<lambda>_. None) [(''verticalAttributes'', JObj [(''m'', JObj [(''v'', JStr ''1970-01-31'')])])] 1000)
     (''m'' @ ''.'' @ ''v'' @ ''_daysUntil'') = JNum ''29''"
proof -
  let ?inner = "[(''v'', JStr ''1970-01-31'')]"
  let ?data = "[(''verticalAttributes'', JObj [(''m'', JObj ?inner)])]"
  have t: "date_of (\<lambda>_. None) ''v'' ?inner = Some (30 * ms_per_day)" by code_simp
  have path: "\<not> key_in (''m'' @ ''.'' @ ''v'' @ ''_daysUntil'') (augment (\<lambda>_. None) ?data 1000)"
    by code_simp
  have plain: "\<not> derived_name ''m''" "''m'' \<notin> set inherited_keys" "''m'' \<noteq> ''_now''"
    "CHR ''.'' \<notin> set ''m''" "CHR ''.'' \<notin> set ''v''"
    by (simp_all add: derived_name_def inherited_keys_def)
  have vertical: "obj_wf (vertical_of ?data)" "obj_get ''m'' (vertical_of ?data) = Some (JObj ?inner)"
    "obj_wf ?inner"
    by (simp_all add: vertical_of_def)
  have "show_int ((30 * ms_per_day - 1000) div ms_per_day) = ''29''" by code_simp
  then show ?thesis
    using nested_date_variable [OF vertical(1,2,3) t plain path] by simp
qed

text \<open>
  The date columns of a record without vertical attributes: for each, the whole days to it and
  since it add up to zero, counted from one instant.
\<close>

lemma column_date_variables:
  assumes "obj_wf data" "''_now'' \<notin> fst ` set data" "vertical_of data = []" "date_of host_date k data = Some t"
  shows "obj_get (k @ ''_daysUntil'') (augment host_date data now) = Some (JNum (show_int (days_until now t)))
    \<and> obj_get (k @ ''_daysSince'') (augment host_date data now) = Some (JNum (show_int (- days_until now t)))"
  using derive_dates_get [OF assms(1,4)] assms(3) by (simp add: augment_eq)

text \<open>
  A column of the record that holds \<open>null\<close> is never missing, so a comparison
  over it goes to JsonLogic: only absent columns are kept from it.
\<close>

theorem null_column_not_missing:
  assumes "obj_get n data = Some JNull" "\<not> derived_name n" "n \<notin> set inherited_keys" "n \<noteq> ''_now''"
    and "obj_wf (vertical_of data)"
  shows "n \<notin> set (missingComparisonVars rule (augment host_date data now))"
proof -
  let ?ctx = "augment host_date data now"
  obtain w where w: "obj_get n ?ctx = Some w" "w \<noteq> JUndef"
    using augment_plain [OF assms(2,3,4,5), of host_date now] assms(1)
    by (auto split: option.splits if_splits)
  then have "lookup ?ctx n = w"
    by (simp add: lookup_def obj_get_key_in)
  then show ?thesis
    using w by (simp add: missing_iff)
qed

lemma null_column_not_missing_witness:
  "compares (JObj [(''<'', JArr [JObj [(''var'', JStr ''score'')], JNum ''50''])]) ''score''
   \<and> ''score'' \<notin> set (missingComparisonVars (JObj [(''<'', JArr [JObj [(''var'', JStr ''score'')], JNum ''50''])])
        (augment (\<lambda>_. None) [(''score'', JNull)] 0))"
proof
  show "compares (JObj [(''<'', JArr [JObj [(''var'', JStr ''score'')], JNum ''50''])]) ''score''"
    by (auto simp: compares_JObj mentions_JArr mentions_JObj COMPARISON_OPS_def)
  have "obj_get ''score'' [(''score'', JNull)] = Some JNull" "\<not> derived_name ''score''"
    "''score'' \<notin> set inherited_keys" "''score'' \<noteq> ''_now''" "obj_wf (vertical_of [(''score'', JNull)])"
    by (simp_all add: derived_name_def inherited_keys_def vertical_of_def)
  then show "''score'' \<notin> set (missingComparisonVars (JObj [(''<'', JArr [JObj [(''var'', JStr ''score'')], JNum ''50''])])
        (augment (\<lambda>_. None) [(''score'', JNull)] 0))"
    by (rule null_column_not_missing)
qed

end
