(* ===== verification/JsOps.thy ===== *)
theory JsOps
  imports Rules
begin

text \<open>
  The JavaScript operators the workflow conditions and templates apply to \<open>jsonb\<close> values: \<open>String(v)\<close>,
  strict equality, the relational operators and \<open>includes\<close>. A \<open>TypeError\<close> is a value of \<open>js_error\<close>.

  A number is exact here, a mantissa and a decimal exponent. The texts of \<open>jsonb\<close> numbers are those of
  doubles, so comparing them exactly is comparing the doubles. Strings compare by their bytes,
  which is the order of their code units outside the surrogate range.
\<close>

datatype js_error = TypeError

section \<open>\<open>String(v)\<close>\<close>

fun js_string :: "js \<Rightarrow> str" where
  "js_string JUndef = ''undefined''"
| "js_string JNull = ''null''"
| "js_string (JBool b) = (if b then ''true'' else ''false'')"
| "js_string (JNum n) = n"
| "js_string (JStr s) = s"
| "js_string (JDate d) = (case d of None \<Rightarrow> ''Invalid Date'' | Some t \<Rightarrow> iso_string t)"
| "js_string (JArr xs) = join '','' (map (\<lambda>x. if x = JNull \<or> x = JUndef then [] else js_string x) xs)"
| "js_string (JObj kvs) = ''[object Object]''"

text \<open>\<open>\w\<close> of a regular expression.\<close>

definition is_word :: "char \<Rightarrow> bool" where
  "is_word c \<longleftrightarrow> (let n = of_char c :: nat in
     48 \<le> n \<and> n \<le> 57 \<or> 65 \<le> n \<and> n \<le> 90 \<or> 97 \<le> n \<and> n \<le> 122 \<or> n = 95)"

text \<open>A match of \<open>/\{\{(\w+)\}\}/\<close> at the front: its name and what follows it.\<close>

definition placeholder :: "str \<Rightarrow> (str \<times> str) option" where
  "placeholder s =
     (let name = takeWhile is_word (drop 2 s); rest = dropWhile is_word (drop 2 s)
      in if take 2 s = ''{{'' \<and> name \<noteq> [] \<and> take 2 rest = ''}}'' then Some (name, drop 2 rest) else None)"

lemma placeholder_shorter: "placeholder s = Some (name, rest) \<Longrightarrow> length rest < length s"
proof -
  assume "placeholder s = Some (name, rest)"
  then have s: "take 2 s = ''{{''" and rest: "rest = drop 2 (dropWhile is_word (drop 2 s))"
    by (auto simp: placeholder_def Let_def split: if_splits)
  have "length rest \<le> length (drop 2 s)"
    unfolding rest using length_dropWhile_le [of is_word "drop 2 s"] by simp
  moreover have "s \<noteq> []" using s by auto
  ultimately show ?thesis by (cases s) auto
qed

section \<open>Numbers\<close>

text \<open>\<open>Fin m e\<close> is \<open>m * 10^e\<close>.\<close>

datatype js_num = NaN | PosInf | NegInf | Fin int int

fun num_less :: "js_num \<Rightarrow> js_num \<Rightarrow> bool" where
  "num_less NaN b = False"
| "num_less a NaN = False"
| "num_less PosInf b = False"
| "num_less a NegInf = False"
| "num_less NegInf b = True"
| "num_less a PosInf = True"
| "num_less (Fin m e) (Fin m' e') =
     (let k = min e e' in m * 10 ^ nat (e - k) < m' * 10 ^ nat (e' - k))"

definition signed_text :: "str \<Rightarrow> bool \<times> str" where
  "signed_text s = (case s of [] \<Rightarrow> (False, [])
     | c # cs \<Rightarrow> if c = CHR ''-'' then (True, cs) else if c = CHR ''+'' then (False, cs) else (False, s))"

text \<open>Digits with an optional fraction and an optional exponent.\<close>

definition parse_decimal :: "str \<Rightarrow> js_num" where
  "parse_decimal text =
     (let (neg, s) = signed_text text;
          ip = takeWhile is_digit s; r = dropWhile is_digit s;
          (fp, r') = (case r of [] \<Rightarrow> ([], [])
                      | c # cs \<Rightarrow> if c = CHR ''.'' then (takeWhile is_digit cs, dropWhile is_digit cs) else ([], r));
          m = (if neg then - digits_value (ip @ fp) else digits_value (ip @ fp));
          e = - int (length fp)
      in if s = ''Infinity'' then (if neg then NegInf else PosInf)
         else if ip = [] \<and> fp = [] then NaN
         else case r' of [] \<Rightarrow> Fin m e
              | c # cs \<Rightarrow>
                  (let (eneg, ds) = signed_text cs
                   in if (c = CHR ''e'' \<or> c = CHR ''E'') \<and> ds \<noteq> [] \<and> list_all is_digit ds
                      then Fin m (e + (if eneg then - digits_value ds else digits_value ds)) else NaN))"

definition hex_value :: "char \<Rightarrow> nat option" where
  "hex_value c = (let n = of_char (lower_char c) :: nat in
     if 48 \<le> n \<and> n \<le> 57 then Some (n - 48) else if 97 \<le> n \<and> n \<le> 102 then Some (n - 87) else None)"

definition parse_radix :: "nat \<Rightarrow> str \<Rightarrow> js_num" where
  "parse_radix b s =
     (if s \<noteq> [] \<and> list_all (\<lambda>c. case hex_value c of None \<Rightarrow> False | Some d \<Rightarrow> d < b) s
      then Fin (foldl (\<lambda>n c. n * int b + int (the (hex_value c))) 0 s) 0 else NaN)"

definition string_to_number :: "str \<Rightarrow> js_num" where
  "string_to_number text =
     (let s = trim text; p = to_lower (take 2 s)
      in if s = [] then Fin 0 0
         else if p = ''0x'' then parse_radix 16 (drop 2 s)
         else if p = ''0o'' then parse_radix 8 (drop 2 s)
         else if p = ''0b'' then parse_radix 2 (drop 2 s)
         else parse_decimal s)"

text \<open>\<open>ToPrimitive\<close> with hint number: arrays and objects become their text, a date its time.\<close>

fun js_primitive :: "js \<Rightarrow> js" where
  "js_primitive (JArr xs) = JStr (js_string (JArr xs))"
| "js_primitive (JObj kvs) = JStr (js_string (JObj kvs))"
| "js_primitive v = v"

fun js_number :: "js \<Rightarrow> js_num" where
  "js_number JUndef = NaN"
| "js_number JNull = Fin 0 0"
| "js_number (JBool b) = Fin (if b then 1 else 0) 0"
| "js_number (JNum n) = parse_decimal n"
| "js_number (JStr s) = string_to_number s"
| "js_number (JDate d) = (case d of None \<Rightarrow> NaN | Some t \<Rightarrow> Fin t 0)"
| "js_number v = NaN"

section \<open>Comparison\<close>

fun str_less :: "str \<Rightarrow> str \<Rightarrow> bool" where
  "str_less s [] = False"
| "str_less [] (c # cs) = True"
| "str_less (a # as) (c # cs) =
     ((of_char a :: nat) < of_char c \<or> a = c \<and> str_less as cs)"

definition js_less :: "js \<Rightarrow> js \<Rightarrow> bool" where
  "js_less a b =
     (case (js_primitive a, js_primitive b) of
        (JStr s, JStr t) \<Rightarrow> str_less s t
      | (x, y) \<Rightarrow> num_less (js_number x) (js_number y))"

text \<open>\<open>===\<close> between values of different origin: objects, arrays and dates are never the same.\<close>

fun strict_eq :: "js \<Rightarrow> js \<Rightarrow> bool" where
  "strict_eq JUndef JUndef = True"
| "strict_eq JNull JNull = True"
| "strict_eq (JBool a) (JBool b) = (a = b)"
| "strict_eq (JNum a) (JNum b) = (a = b \<and> a \<noteq> ''NaN'')"
| "strict_eq (JStr a) (JStr b) = (a = b)"
| "strict_eq _ _ = False"

definition same_value_zero :: "js \<Rightarrow> js \<Rightarrow> bool" where
  "same_value_zero a b = (strict_eq a b \<or> a = JNum ''NaN'' \<and> b = JNum ''NaN'')"

fun contains_str :: "str \<Rightarrow> str \<Rightarrow> bool" where
  "contains_str [] p = (p = [])"
| "contains_str (c # cs) p = (take (length p) (c # cs) = p \<or> contains_str cs p)"

text \<open>\<open>v?.includes(x)\<close>.\<close>

fun js_includes :: "js \<Rightarrow> js \<Rightarrow> js_error + bool" where
  "js_includes JUndef x = Inr False"
| "js_includes JNull x = Inr False"
| "js_includes (JStr s) x = Inr (contains_str s (js_string x))"
| "js_includes (JArr xs) x = Inr (\<exists>y \<in> set xs. same_value_zero y x)"
| "js_includes v x = Inl TypeError"

lemma js_less_irrefl [simp]: "\<not> js_less a a"
proof -
  have "\<not> str_less s s" for s by (induction s) auto
  moreover have "\<not> num_less n n" for n by (cases n) (auto simp: Let_def)
  ultimately show ?thesis
    by (simp add: js_less_def split: js.splits)
qed

lemma contains_str_iff: "contains_str s p \<longleftrightarrow> (\<exists>a b. s = a @ p @ b)"
proof (induction s)
  case (Cons c s)
  have "take (length p) (c # s) = p \<longleftrightarrow> (\<exists>b. c # s = p @ b)"
    by (metis append_eq_conv_conj append_take_drop_id)
  moreover have "(\<exists>a b. c # s = a @ p @ b) \<longleftrightarrow> (\<exists>b. c # s = p @ b) \<or> (\<exists>a b. s = a @ p @ b)"
    by (metis append_Cons append_Nil list.exhaust list.sel(3) list.inject)
  ultimately show ?case using Cons by simp
qed simp

lemma null_is_less_than_ninety: "js_less JNull (JNum ''90'') \<and> \<not> js_less JUndef (JNum ''90'')"
  by code_simp

end
