(* ===== verification/Workflow.thy ===== *)
theory Workflow
  imports FeeSchedule JsOps
begin

text \<open>
  \<^verbatim>\<open>src/workflow/workflow.service.ts\<close> over the tables of \<^verbatim>\<open>src/workflow/entities\<close>: creating a
  workflow from a definition, starting an instance, who may see an instance, which
  transitions are open, and taking one.

  The clock is one argument per call. The ids the database draws, the outcome of the audit write, the
  packs and JsonLogic are arguments. Notifications, webhooks and tasks a transition asks
  for are recorded as effects; what their delivery raises is swallowed by the code.
\<close>

section \<open>Rows\<close>

datatype state_type = StateStart | StateIntermediate | StateEnd
datatype transition_type = TransAutomatic | TransManual | TransConditional | TransScheduled
datatype workflow_status = WfActive | WfInactive | WfDraft | WfArchived
datatype workflow_trigger = TriggerManual | TriggerAutomatic | TriggerScheduled | TriggerEvent
datatype instance_status = InstActive | InstCompleted | InstCancelled | InstSuspended | InstError

record wf_state =
  st_id :: str
  st_workflowId :: str
  st_name :: str
  st_type :: state_type
  st_description :: "str option"
  st_slaHours :: "int option"

record cond_rule =
  cr_field :: str
  cr_operator :: str
  cr_value :: js

record conditions =
  co_operator :: "str option"
  co_rules :: "cond_rule list option"
  co_jsonLogic :: js
  co_unevaluable :: "str option"

record permissions =
  pe_roles :: "str list option"
  pe_users :: "str list option"
  pe_requiresSignOff :: bool

record wf_action =
  wa_type :: str
  wa_config :: js_obj

record wf_transition =
  tr_id :: str
  tr_workflowId :: str
  tr_fromStateId :: str
  tr_toStateId :: str
  tr_name :: str
  tr_type :: transition_type
  tr_conditions :: conditions
  tr_actions :: "wf_action list"
  tr_permissions :: permissions
  tr_isActive :: bool

record escalation =
  el_level :: int
  el_action :: str
  el_notify :: "str list option"

record sla_config =
  sc_enabled :: bool
  sc_escalationLevels :: "escalation list option"

record workflow =
  wf_id :: str
  wf_tenantId :: str
  wf_name :: str
  wf_description :: "str option"
  wf_entityType :: str
  wf_status :: workflow_status
  wf_trigger :: workflow_trigger
  wf_triggerConfig :: js_obj
  wf_version :: nat
  wf_slaConfig :: sla_config
  wf_createdAt :: instant

record history_entry =
  hi_timestamp :: instant
  hi_fromState :: str
  hi_toState :: str
  hi_transitionId :: str
  hi_triggeredBy :: str
  hi_automatedBy :: "str option"
  hi_signedOff :: "(str \<times> str option \<times> str) option"
  hi_context :: js_obj

text \<open>The violations column is an array once written; its declared default is an object.\<close>

record violation =
  vi_level :: int
  vi_timestamp :: instant
  vi_action :: str

datatype violation_log = NotAnArray | Violations "violation list"

record wf_instance =
  in_id :: str
  in_tenantId :: str
  in_vertical :: "str option"
  in_workflowId :: str
  in_entityId :: str
  in_entityType :: str
  in_currentStateId :: str
  in_status :: instance_status
  in_context :: js_obj
  in_history :: "history_entry list"
  in_stateEnteredAt :: "instant option"
  in_slaDeadline :: "instant option"
  in_escalationLevel :: int
  in_slaViolations :: violation_log
  in_startedBy :: str
  in_completedAt :: "instant option"
  in_createdAt :: instant

text \<open>The columns of \<open>users\<close> the sign-off gate reads.\<close>

record practitioner =
  pr_id :: str
  pr_tenantId :: str
  pr_credential :: "str option"
  pr_credentialType :: "str option"

record wf_db =
  db_workflows :: "workflow list"
  db_states :: "wf_state list"
  db_transitions :: "wf_transition list"
  db_instances :: "wf_instance list"
  db_entities :: "entity list"
  db_users :: "practitioner list"
  db_payments :: "payment list"

datatype wf_error =
    WorkflowNotFound
  | WorkflowNotActive
  | NoStartState
  | InvalidTransition str str
  | InstanceNotFound
  | InstanceNotActive
  | NoValidTransition
  | InsufficientPermissions
  | SignOffRequired str
  | ArrearsOutstanding str nat int str
  | AuditFailed
  | WfTypeError

interpretation instance_repo:
  repository in_id "by_key in_id" "save_row in_id" "remove_row in_id" "keys_distinct in_id"
  by unfold_locales (auto simp: table_simps dest: by_key_SomeD)

section \<open>Definitions of workflows\<close>

record state_def =
  sd_name :: str
  sd_type :: state_type
  sd_description :: "str option"
  sd_slaHours :: "int option"

record trans_def =
  td_name :: str
  td_from :: str
  td_to :: str
  td_type :: "transition_type option"
  td_conditions :: "conditions option"
  td_actions :: "wf_action list option"
  td_permissions :: "permissions option"

record workflow_def =
  wd_name :: str
  wd_description :: "str option"
  wd_entityType :: str
  wd_states :: "state_def list"
  wd_transitions :: "trans_def list"
  wd_trigger :: "workflow_trigger option"
  wd_triggerConfig :: "js_obj option"
  wd_slaConfig :: "sla_config option"

text \<open>The ids drawn for the workflow, its states and its transitions.\<close>

record wf_ids =
  id_workflow :: str
  id_state :: "nat \<Rightarrow> str"
  id_transition :: "nat \<Rightarrow> str"

definition state_row :: "str \<Rightarrow> str \<Rightarrow> state_def \<Rightarrow> wf_state" where
  "state_row wid sid def =
     \<lparr>st_id = sid, st_workflowId = wid, st_name = sd_name def, st_type = sd_type def,
      st_description = sd_description def, st_slaHours = sd_slaHours def\<rparr>"

definition transition_row :: "str \<Rightarrow> str \<Rightarrow> str \<Rightarrow> str \<Rightarrow> trans_def \<Rightarrow> wf_transition" where
  "transition_row wid tid fromId toId def =
     \<lparr>tr_id = tid, tr_workflowId = wid, tr_fromStateId = fromId, tr_toStateId = toId,
      tr_name = td_name def, tr_type = nullish (td_type def) TransManual,
      tr_conditions = nullish (td_conditions def)
        \<lparr>co_operator = Some ''AND'', co_rules = Some [], co_jsonLogic = JUndef, co_unevaluable = None\<rparr>,
      tr_actions = nullish (td_actions def) [],
      tr_permissions = nullish (td_permissions def)
        \<lparr>pe_roles = Some [], pe_users = Some [], pe_requiresSignOff = False\<rparr>,
      tr_isActive = True\<rparr>"

text \<open>The rows of the transitions; the first whose ends are not both states of the definition raises.\<close>

fun transition_rows ::
  "str \<Rightarrow> (nat \<Rightarrow> str) \<Rightarrow> wf_state list \<Rightarrow> nat \<Rightarrow> trans_def list \<Rightarrow> wf_error + wf_transition list" where
  "transition_rows wid ids states n [] = Inr []"
| "transition_rows wid ids states n (def # defs) =
     (case (map_get st_name states (td_from def), map_get st_name states (td_to def)) of
        (Some f, Some t) \<Rightarrow>
          and_then (transition_rows wid ids states (Suc n) defs)
            (\<lambda>rows. Inr (transition_row wid (ids n) (st_id f) (st_id t) def # rows))
      | _ \<Rightarrow> Inl (InvalidTransition (td_from def) (td_to def)))"

definition getWorkflow :: "wf_db \<Rightarrow> str \<Rightarrow> str \<Rightarrow> wf_error + workflow" where
  "getWorkflow db wid tenantId =
     (case find_one (\<lambda>w. wf_id w = wid \<and> wf_tenantId w = tenantId) (db_workflows db) of
        None \<Rightarrow> Inl WorkflowNotFound | Some w \<Rightarrow> Inr w)"

definition createWorkflow ::
  "wf_ids \<Rightarrow> instant \<Rightarrow> str \<Rightarrow> workflow_def \<Rightarrow> wf_db \<Rightarrow> (wf_error + workflow) \<times> wf_db" where
  "createWorkflow ids now tenantId def db =
     (let w = \<lparr>wf_id = id_workflow ids, wf_tenantId = tenantId, wf_name = wd_name def,
               wf_description = wd_description def, wf_entityType = wd_entityType def,
               wf_status = WfDraft, wf_trigger = nullish (wd_trigger def) TriggerManual,
               wf_triggerConfig = nullish (wd_triggerConfig def) [], wf_version = 1,
               wf_slaConfig = nullish (wd_slaConfig def) \<lparr>sc_enabled = False, sc_escalationLevels = None\<rparr>,
               wf_createdAt = now\<rparr>;
          states = map (\<lambda>(n, sd). state_row (wf_id w) (id_state ids n) sd)
                     (zip [0..<length (wd_states def)] (wd_states def))
      in case transition_rows (wf_id w) (id_transition ids) states 0 (wd_transitions def) of
           Inl e \<Rightarrow> (Inl e, db)
         | Inr transitions \<Rightarrow>
             (let db' = db\<lparr>db_workflows := save_row wf_id w (db_workflows db),
                           db_states := fold (save_row st_id) states (db_states db),
                           db_transitions := fold (save_row tr_id) transitions (db_transitions db)\<rparr>
              in (getWorkflow db' (wf_id w) tenantId, db')))"

definition states_of :: "wf_db \<Rightarrow> str \<Rightarrow> wf_state list" where
  "states_of db wid = find_where (\<lambda>s. st_workflowId s = wid) (db_states db)"

definition listWorkflows :: "wf_db \<Rightarrow> str \<Rightarrow> str option \<Rightarrow> workflow list" where
  "listWorkflows db tenantId entityType =
     sort_key (\<lambda>w. - wf_createdAt w)
       (find_where (\<lambda>w. wf_tenantId w = tenantId
          \<and> (truthy_str entityType \<longrightarrow> wf_entityType w = the entityType)) (db_workflows db))"

section \<open>Starting an instance\<close>

definition ms_per_hour :: int where
  "ms_per_hour = 3600000"

definition sla_deadline :: "workflow \<Rightarrow> wf_state \<Rightarrow> instant \<Rightarrow> instant option" where
  "sla_deadline w s now =
     (if sc_enabled (wf_slaConfig w) \<and> truthy_num (st_slaHours s)
      then Some (now + the (st_slaHours s) * ms_per_hour) else None)"

definition findInstanceOrThrow :: "wf_db \<Rightarrow> str \<Rightarrow> str \<Rightarrow> wf_error + wf_instance" where
  "findInstanceOrThrow db iid tenantId =
     (case find_one (\<lambda>i. in_id i = iid \<and> in_tenantId i = tenantId) (db_instances db) of
        None \<Rightarrow> Inl InstanceNotFound | Some i \<Rightarrow> Inr i)"

definition new_instance ::
  "str \<Rightarrow> instant \<Rightarrow> workflow \<Rightarrow> wf_state \<Rightarrow> str \<Rightarrow> str \<Rightarrow> str \<Rightarrow> str \<Rightarrow> js_obj \<Rightarrow> wf_instance" where
  "new_instance newId now w start entityId entityType tenantId userId ctx =
     \<lparr>in_id = newId, in_tenantId = tenantId, in_vertical = None, in_workflowId = wf_id w,
      in_entityId = entityId, in_entityType = entityType, in_currentStateId = st_id start,
      in_status = InstActive, in_context = ctx, in_history = [],
      in_stateEnteredAt = Some now, in_slaDeadline = sla_deadline w start now,
      in_escalationLevel = 0, in_slaViolations = NotAnArray, in_startedBy = userId,
      in_completedAt = None, in_createdAt = now\<rparr>"

definition startWorkflow ::
  "str \<Rightarrow> instant \<Rightarrow> str \<Rightarrow> str \<Rightarrow> str \<Rightarrow> str \<Rightarrow> str \<Rightarrow> js_obj \<Rightarrow> wf_db
   \<Rightarrow> (wf_error + wf_instance) \<times> wf_db" where
  "startWorkflow newId now workflowId entityId entityType tenantId userId ctx db =
     (case getWorkflow db workflowId tenantId of
        Inl e \<Rightarrow> (Inl e, db)
      | Inr w \<Rightarrow>
          if wf_status w \<noteq> WfActive then (Inl WorkflowNotActive, db)
          else (case find_one (\<lambda>s. st_type s = StateStart) (states_of db (wf_id w)) of
                  None \<Rightarrow> (Inl NoStartState, db)
                | Some start \<Rightarrow>
                    (let i = new_instance newId now w start entityId entityType tenantId userId ctx;
                         db' = db\<lparr>db_instances := save_row in_id i (db_instances db)\<rparr>
                     in (findInstanceOrThrow db' newId tenantId, db'))))"

section \<open>Who may see an instance\<close>

definition wf_ownedEntityIds :: "entity list \<Rightarrow> str \<Rightarrow> actor \<Rightarrow> str list" where
  "wf_ownedEntityIds entities tenantId a =
     (let email = js_norm (ac_email a)
      in map en_id
           (find_where (\<lambda>e. en_tenantId e = tenantId \<and>
              (if truthy_str email
               then en_assignedTo e = Some (ac_id a) \<or> sql_norm (en_subjectEmail e) = email
               else en_assignedTo e = Some (ac_id a))) entities))"

definition assertInstanceOwnership ::
  "wf_db \<Rightarrow> als \<Rightarrow> wf_instance \<Rightarrow> str \<Rightarrow> actor \<Rightarrow> wf_error + unit" where
  "assertInstanceOwnership db ctx i tenantId a =
     (if hasTenantWideReach ctx a then Inr ()
      else if in_startedBy i = ac_id a then Inr ()
      else if in_entityId i \<noteq> [] \<and> in_entityId i \<in> set (wf_ownedEntityIds (db_entities db) tenantId a)
      then Inr () else Inl InstanceNotFound)"

definition getInstance :: "wf_db \<Rightarrow> als \<Rightarrow> str \<Rightarrow> str \<Rightarrow> actor \<Rightarrow> wf_error + wf_instance" where
  "getInstance db ctx iid tenantId a =
     and_then (findInstanceOrThrow db iid tenantId)
       (\<lambda>i. and_then (assertInstanceOwnership db ctx i tenantId a) (\<lambda>_. Inr i))"

definition listInstances ::
  "wf_db \<Rightarrow> als \<Rightarrow> str \<Rightarrow> actor \<Rightarrow> instance_status option \<Rightarrow> str option \<Rightarrow> wf_instance list" where
  "listInstances db ctx tenantId a status entityId =
     (let base = (\<lambda>i. in_tenantId i = tenantId
                    \<and> (case status of None \<Rightarrow> True | Some s \<Rightarrow> in_status i = s)
                    \<and> (truthy_str entityId \<longrightarrow> in_entityId i = the entityId));
          newest = sort_key (\<lambda>i. - in_createdAt i)
      in if \<not> hasTenantWideReach ctx a
         then (let owned = wf_ownedEntityIds (db_entities db) tenantId a;
                   ownedForFilter = (if truthy_str entityId then filter (\<lambda>x. x = the entityId) owned
                                     else owned)
               in newest (find_where (\<lambda>i. (base i \<and> in_startedBy i = ac_id a)
                    \<or> (ownedForFilter \<noteq> [] \<and>
                        in_tenantId i = tenantId
                        \<and> (case status of None \<Rightarrow> True | Some s \<Rightarrow> in_status i = s)
                        \<and> in_entityId i \<in> set ownedForFilter)) (db_instances db)))
         else newest (find_where base (db_instances db)))"

section \<open>Conditions\<close>

text \<open>The evaluator a condition is given: JsonLogic, the host's dates and the instant.\<close>

record evaluator =
  ev_logic :: json_logic
  ev_dates :: "str \<Rightarrow> instant option"

definition cond_value :: "js_obj \<Rightarrow> cond_rule \<Rightarrow> wf_error + bool" where
  "cond_value ctx r =
     (let value = js_member (JObj ctx) (cr_field r); op = cr_operator r;
          lift = (\<lambda>x. case x of Inl _ \<Rightarrow> Inl WfTypeError | Inr b \<Rightarrow> Inr b)
      in if op = ''equals'' then Inr (strict_eq value (cr_value r))
         else if op = ''not_equals'' then Inr (\<not> strict_eq value (cr_value r))
         else if op = ''greater_than'' then Inr (js_less (cr_value r) value)
         else if op = ''less_than'' then Inr (js_less value (cr_value r))
         else if op = ''contains'' then lift (js_includes value (cr_value r))
         else if op = ''in'' then lift (js_includes (cr_value r) value)
         else Inr True)"

text \<open>\<open>xs.map(f)\<close> and \<open>xs.filter(p)\<close> with a function that may throw.\<close>

fun map_throw :: "('a \<Rightarrow> 'e + 'b) \<Rightarrow> 'a list \<Rightarrow> 'e + 'b list" where
  "map_throw f [] = Inr []"
| "map_throw f (x # xs) = and_then (f x) (\<lambda>y. and_then (map_throw f xs) (\<lambda>ys. Inr (y # ys)))"

fun filter_throw :: "('a \<Rightarrow> 'e + bool) \<Rightarrow> 'a list \<Rightarrow> 'e + 'a list" where
  "filter_throw p [] = Inr []"
| "filter_throw p (x # xs) =
     and_then (p x) (\<lambda>b. and_then (filter_throw p xs) (\<lambda>ys. Inr (if b then x # ys else ys)))"

definition evaluateConditions :: "evaluator \<Rightarrow> instant \<Rightarrow> conditions \<Rightarrow> js_obj \<Rightarrow> wf_error + bool" where
  "evaluateConditions ev now c ctx =
     (if truthy_str (co_unevaluable c) then Inr False
      else if co_jsonLogic c \<noteq> JUndef \<and> co_jsonLogic c \<noteq> JBool True
              \<and> \<not> matches (ev_logic ev) (ev_dates ev) now (co_jsonLogic c) ctx then Inr False
      else if nullish (co_rules c) [] = [] then Inr True
      else and_then (map_throw (cond_value ctx) (nullish (co_rules c) []))
             (\<lambda>results. Inr (if co_operator c = Some ''AND'' then list_all id results
                             else list_ex id results)))"

definition computeAvailableTransitions ::
  "evaluator \<Rightarrow> instant \<Rightarrow> wf_db \<Rightarrow> wf_instance \<Rightarrow> wf_error + wf_transition list" where
  "computeAvailableTransitions ev now db i =
     filter_throw (\<lambda>t. evaluateConditions ev now (tr_conditions t) (in_context i))
       (find_where (\<lambda>t. tr_workflowId t = in_workflowId i
          \<and> tr_fromStateId t = in_currentStateId i \<and> tr_isActive t) (db_transitions db))"

definition getAvailableTransitions ::
  "evaluator \<Rightarrow> instant \<Rightarrow> wf_db \<Rightarrow> als \<Rightarrow> str \<Rightarrow> str \<Rightarrow> actor \<Rightarrow> wf_error + wf_transition list" where
  "getAvailableTransitions ev now db ctx iid tenantId a =
     and_then (getInstance db ctx iid tenantId a) (computeAvailableTransitions ev now db)"

section \<open>Permissions\<close>

definition checkPermissions :: "permissions \<Rightarrow> str \<Rightarrow> str list \<Rightarrow> bool" where
  "checkPermissions p userId userRoles =
     (let required = nullish (pe_roles p) []; users = nullish (pe_users p) []
      in if required = [] \<and> users = [] then True
         else if userId \<in> set users then True
         else if required \<noteq> [] \<and> (\<exists>r \<in> set required. r \<in> set userRoles) then True
         else if required \<noteq> [] \<and> \<not> (\<exists>r \<in> set required. r \<in> set ROLE_PRECEDENCE) then True
         else False)"

section \<open>Templates and actions\<close>

function interpolateTemplate :: "str \<Rightarrow> js_obj \<Rightarrow> str" where
  "interpolateTemplate [] ctx = []"
| "interpolateTemplate (c # cs) ctx =
     (case placeholder (c # cs) of
        None \<Rightarrow> c # interpolateTemplate cs ctx
      | Some (name, rest) \<Rightarrow>
          (if js_member (JObj ctx) name \<noteq> JUndef then js_string (js_member (JObj ctx) name)
           else ''{{'' @ name @ ''}}'') @ interpolateTemplate rest ctx)"
  by pat_completeness auto
termination
  by (relation "measure (\<lambda>(s, _). length s)") (auto dest: placeholder_shorter)

datatype wf_effect =
    Notify (nf_tenant: str) (nf_channel: js) (nf_recipient: js) (nf_subject: js) (nf_content: str) (nf_category: js)
  | Webhook (wh_url: js) (wh_method: js) (wh_headers: js) (wh_secret: js) (wh_payload: str)
  | SlaNotice (sn_tenant: str) (sn_recipient: str) (sn_subject: str) (sn_content: str) (sn_urgent: bool)
  | CreateTask (tk_title: str) (tk_description: "str option") (tk_assignedTo: js) (tk_dueDays: js)

definition js_prop :: "js_obj \<Rightarrow> str \<Rightarrow> js" where
  "js_prop ob k = (case obj_get k ob of None \<Rightarrow> JUndef | Some v \<Rightarrow> v)"

definition js_or_nullish :: "js \<Rightarrow> js \<Rightarrow> js" where
  "js_or_nullish a b = (if nullish_js a then b else a)"

text \<open>The text of a template; a value without \<open>replace\<close> raises.\<close>

fun template_text :: "js \<Rightarrow> js_obj \<Rightarrow> str option" where
  "template_text (JStr s) ctx = Some (interpolateTemplate s ctx)"
| "template_text _ ctx = None"

definition executeNotificationAction :: "js_obj \<Rightarrow> wf_instance \<Rightarrow> wf_effect list" where
  "executeNotificationAction config i =
     (let recipient = js_or_nullish (js_prop config ''recipientId'') (JStr (in_startedBy i));
          message = js_or_nullish (js_or_nullish (js_prop config ''message'') (js_prop config ''content''))
                      (JStr ''Your workflow has been updated.'')
      in if \<not> js_truthy recipient then []
         else case template_text message (in_context i) of
                None \<Rightarrow> []
              | Some content \<Rightarrow>
                  [Notify (in_tenantId i) (js_or_nullish (js_prop config ''channel'') (JStr ''in_app''))
                     recipient (js_or_nullish (js_prop config ''subject'') (JStr ''Workflow Update''))
                     content (js_or_nullish (js_prop config ''category'') (JStr ''workflow''))])"

definition webhook_payload :: "wf_instance \<Rightarrow> str option \<Rightarrow> instant \<Rightarrow> str" where
  "webhook_payload i currentState now =
     json_str (JObj [(''event'', JStr ''workflow.action''), (''instanceId'', JStr (in_id i)),
       (''workflowId'', JStr (in_workflowId i)), (''tenantId'', JStr (in_tenantId i)),
       (''entityId'', JStr (in_entityId i)), (''entityType'', JStr (in_entityType i)),
       (''currentState'', case currentState of None \<Rightarrow> JUndef | Some s \<Rightarrow> JStr s),
       (''context'', JObj (in_context i)), (''timestamp'', JStr (iso_string now))])"

definition js_default :: "js \<Rightarrow> js \<Rightarrow> js" where
  "js_default a b = (if a = JUndef then b else a)"

definition executeWebhookAction :: "js_obj \<Rightarrow> wf_instance \<Rightarrow> str option \<Rightarrow> instant \<Rightarrow> wf_effect list" where
  "executeWebhookAction config i currentState now =
     (if \<not> js_truthy (js_prop config ''url'') then []
      else [Webhook (js_prop config ''url'') (js_default (js_prop config ''method'') (JStr ''POST''))
              (js_default (js_prop config ''headers'') (JObj [])) (js_prop config ''secretHeader'')
              (webhook_payload i currentState now)])"

definition executeTaskAction :: "js_obj \<Rightarrow> wf_instance \<Rightarrow> wf_effect list" where
  "executeTaskAction config i =
     (let title = js_prop config ''title''; description = js_prop config ''description''
      in if \<not> js_truthy title then []
         else case (template_text title (in_context i),
                    if js_truthy description then map_option Some (template_text description (in_context i))
                    else Some None) of
                (Some t, Some d) \<Rightarrow>
                  [CreateTask t d (js_or_nullish (js_prop config ''assignedTo'') (JStr (in_startedBy i)))
                     (if js_truthy (js_prop config ''dueDays'') then js_prop config ''dueDays'' else JUndef)]
              | _ \<Rightarrow> [])"

definition execute_action :: "wf_instance \<Rightarrow> str option \<Rightarrow> instant \<Rightarrow> wf_action \<Rightarrow> wf_effect list" where
  "execute_action i currentState now a =
     (if wa_type a = ''notification'' then executeNotificationAction (wa_config a) i
      else if wa_type a = ''webhook'' then executeWebhookAction (wa_config a) i currentState now
      else if wa_type a = ''task'' then executeTaskAction (wa_config a) i
      else [])"

definition executeActions ::
  "wf_action list \<Rightarrow> wf_instance \<Rightarrow> str option \<Rightarrow> instant \<Rightarrow> wf_effect list" where
  "executeActions actions i currentState now = concat (map (execute_action i currentState now) actions)"

section \<open>Taking a transition\<close>

record transition_request =
  rq_instanceId :: str
  rq_tenantId :: str
  rq_transitionId :: "str option"
  rq_userId :: str
  rq_userEmail :: "str option"
  rq_userRoles :: "str list option"
  rq_automated :: "(str \<times> str option) option"
  rq_context :: "js_obj option"

record wf_audit =
  au_tenantId :: str
  au_userId :: str
  au_userEmail :: "str option"
  au_entityId :: str
  au_description :: str
  au_critical :: bool
  au_transitionId :: str
  au_automated :: "(str \<times> str option) option"
  au_record :: "(str \<times> str) option"
  au_signedOff :: "(str \<times> str option \<times> str) option"

record wf_world =
  ww_db :: wf_db
  ww_audit :: "wf_audit list"
  ww_effects :: "wf_effect list"

definition current_state :: "wf_db \<Rightarrow> wf_instance \<Rightarrow> wf_state option" where
  "current_state db i = by_key st_id (db_states db) (in_currentStateId i)"

definition choose_transition ::
  "evaluator \<Rightarrow> instant \<Rightarrow> wf_db \<Rightarrow> transition_request \<Rightarrow> wf_instance \<Rightarrow> wf_error + wf_transition" where
  "choose_transition ev now db rq i =
     and_then
       (if truthy_str (rq_transitionId rq)
        then Inr (find_one (\<lambda>t. tr_id t = the (rq_transitionId rq)
               \<and> tr_fromStateId t = in_currentStateId i \<and> tr_isActive t) (db_transitions db))
        else and_then (computeAvailableTransitions ev now db i)
               (\<lambda>ts. Inr (find_one (\<lambda>t. tr_type t = TransAutomatic) ts)))
       (\<lambda>t. case t of None \<Rightarrow> Inl NoValidTransition | Some t \<Rightarrow> Inr t)"

definition sign_off_gate ::
  "wf_db \<Rightarrow> transition_request \<Rightarrow> wf_instance \<Rightarrow> wf_transition \<Rightarrow> wf_error + practitioner option" where
  "sign_off_gate db rq i t =
     (if \<not> pe_requiresSignOff (tr_permissions t) then Inr None
      else let signer = find_one (\<lambda>u. pr_id u = rq_userId rq \<and> pr_tenantId u = in_tenantId i) (db_users db)
           in if truthy_str (Option.bind signer pr_credential) then Inr signer
              else case by_key st_id (db_states db) (tr_toStateId t) of
                     None \<Rightarrow> Inl WfTypeError | Some s \<Rightarrow> Inl (SignOffRequired (st_name s)))"

definition payment_gate ::
  "(str option \<Rightarrow> price_pack) \<Rightarrow> wf_db \<Rightarrow> wf_instance \<Rightarrow> wf_error + wf_state" where
  "payment_gate packs db i =
     (case current_state db i of
        None \<Rightarrow> Inl WfTypeError
      | Some s \<Rightarrow>
          (let blocking = arrearsBlocking packs (db_payments db) (in_tenantId i) (in_vertical i)
                            (in_entityId i) (st_name s)
           in if blocking = [] then Inr s
              else Inl (ArrearsOutstanding (st_name s) (length blocking)
                          (sum_list (map pm_amountMinor blocking)) (pm_currency (hd blocking)))))"

text \<open>Everything that may refuse a transition before anything is written.\<close>

definition admit ::
  "evaluator \<Rightarrow> (str option \<Rightarrow> price_pack) \<Rightarrow> instant \<Rightarrow> wf_db \<Rightarrow> transition_request
   \<Rightarrow> wf_error + wf_instance \<times> wf_transition \<times> practitioner option \<times> wf_state" where
  "admit ev packs now db rq =
     and_then (findInstanceOrThrow db (rq_instanceId rq) (rq_tenantId rq)) (\<lambda>i.
       if in_status i \<noteq> InstActive then Inl InstanceNotActive
       else and_then (choose_transition ev now db rq i) (\<lambda>t.
         if \<not> checkPermissions (tr_permissions t) (rq_userId rq) (nullish (rq_userRoles rq) [])
         then Inl InsufficientPermissions
         else and_then (sign_off_gate db rq i t) (\<lambda>signer.
           and_then (payment_gate packs db i) (\<lambda>old. Inr (i, t, signer, old)))))"

definition quote1 :: "str \<Rightarrow> str" where
  "quote1 s = [CHR 0x27] @ s @ [CHR 0x27]"

definition signed_off ::
  "transition_request \<Rightarrow> wf_transition \<Rightarrow> practitioner option \<Rightarrow> (str \<times> str option \<times> str) option" where
  "signed_off rq t signer =
     (case signer of None \<Rightarrow> None
      | Some u \<Rightarrow> if pe_requiresSignOff (tr_permissions t)
                  then Some (rq_userId rq, pr_credentialType u, the (pr_credential u)) else None)"

definition automated_audit ::
  "transition_request \<Rightarrow> wf_instance \<Rightarrow> wf_transition \<Rightarrow> wf_state \<Rightarrow> wf_state \<Rightarrow> wf_audit" where
  "automated_audit rq i t old new =
     (let (agent, reason) = the (rq_automated rq) in
     \<lparr>au_tenantId = in_tenantId i, au_userId = rq_userId rq, au_userEmail = None, au_entityId = in_id i,
      au_description = ''Automated transition ('' @ agent @ '') from '' @ quote1 (st_name old) @ '' to ''
        @ quote1 (st_name new) @ (if truthy_str reason then '': '' @ the reason else []),
      au_critical = True, au_transitionId = tr_id t, au_automated = rq_automated rq,
      au_record = None, au_signedOff = None\<rparr>)"

definition human_audit ::
  "transition_request \<Rightarrow> wf_instance \<Rightarrow> wf_transition \<Rightarrow> practitioner option \<Rightarrow> wf_state \<Rightarrow> wf_state \<Rightarrow> wf_audit" where
  "human_audit rq i t signer old new =
     \<lparr>au_tenantId = in_tenantId i, au_userId = rq_userId rq, au_userEmail = rq_userEmail rq,
      au_entityId = in_id i,
      au_description = ''Transitioned from '' @ quote1 (st_name old) @ '' to '' @ quote1 (st_name new),
      au_critical = False, au_transitionId = tr_id t, au_automated = None,
      au_record = Some (in_entityId i, in_entityType i), au_signedOff = signed_off rq t signer\<rparr>"

definition history_of ::
  "transition_request \<Rightarrow> wf_instance \<Rightarrow> wf_transition \<Rightarrow> practitioner option \<Rightarrow> wf_state \<Rightarrow> wf_state
   \<Rightarrow> instant \<Rightarrow> history_entry" where
  "history_of rq i t signer old new now =
     \<lparr>hi_timestamp = now, hi_fromState = st_name old, hi_toState = st_name new, hi_transitionId = tr_id t,
      hi_triggeredBy = (if rq_automated rq \<noteq> None then ac_id SYSTEM_ACTOR else rq_userId rq),
      hi_automatedBy = map_option fst (rq_automated rq),
      hi_signedOff = signed_off rq t signer,
      hi_context = obj_spread (in_context i) (nullish (rq_context rq) [])\<rparr>"

definition moved ::
  "transition_request \<Rightarrow> workflow \<Rightarrow> wf_instance \<Rightarrow> wf_transition \<Rightarrow> practitioner option \<Rightarrow> wf_state
   \<Rightarrow> wf_state \<Rightarrow> instant \<Rightarrow> wf_instance" where
  "moved rq w i t signer old new now =
     (let completed = (st_type new = StateEnd) in
      i\<lparr>in_currentStateId := st_id new,
        in_status := (if completed then InstCompleted else InstActive),
        in_context := obj_spread (in_context i) (nullish (rq_context rq) []),
        in_history := in_history i @ [history_of rq i t signer old new now],
        in_stateEnteredAt := Some now,
        in_slaDeadline := sla_deadline w new now,
        in_escalationLevel := 0,
        in_completedAt := (if completed then Some now else None)\<rparr>)"

definition transition ::
  "evaluator \<Rightarrow> (str option \<Rightarrow> price_pack) \<Rightarrow> bool \<Rightarrow> instant \<Rightarrow> transition_request \<Rightarrow> wf_world
   \<Rightarrow> (wf_error + wf_instance) \<times> wf_world" where
  "transition ev packs audit_ok now rq w =
     (case admit ev packs now (ww_db w) rq of
        Inl e \<Rightarrow> (Inl e, w)
      | Inr (i, t, signer, old) \<Rightarrow>
          (case by_key st_id (db_states (ww_db w)) (tr_toStateId t) of
             None \<Rightarrow> (Inl WfTypeError, w)
           | Some new \<Rightarrow>
               if rq_automated rq \<noteq> None \<and> \<not> audit_ok then (Inl AuditFailed, w)
               else (let w1 = (if rq_automated rq \<noteq> None
                               then w\<lparr>ww_audit := ww_audit w @ [automated_audit rq i t old new]\<rparr> else w)
                     in case by_key wf_id (db_workflows (ww_db w1)) (in_workflowId i) of
                          None \<Rightarrow> (Inl WfTypeError, w1)
                        | Some flow \<Rightarrow>
                            (let i' = moved rq flow i t signer old new now;
                                 db' = (ww_db w1)\<lparr>db_instances := save_row in_id i' (db_instances (ww_db w1))\<rparr>;
                                 w2 = w1\<lparr>ww_db := db', ww_effects := ww_effects w1 @
                                          executeActions (tr_actions t) i (Some (st_name old)) now\<rparr>
                             in (findInstanceOrThrow db' (in_id i) (rq_tenantId rq),
                                 if rq_automated rq = None \<and> audit_ok
                                 then w2\<lparr>ww_audit := ww_audit w2 @ [human_audit rq i t signer old new]\<rparr>
                                 else w2)))))"


section \<open>Lemmas\<close>

lemma find_one_key:
  "keys_distinct key t \<Longrightarrow>
   find_one (\<lambda>r. key r = k \<and> P r) t =
     (case by_key key t k of None \<Rightarrow> None | Some r \<Rightarrow> if P r then Some r else None)"
proof (induction t)
  case (Cons x t)
  have "find_one (\<lambda>r. key r = k \<and> P r) t = None" if "key x = k"
    using Cons.prems that by (auto simp: find_one_None_iff image_iff)
  moreover have "by_key key t k = None" if "key x = k"
    using Cons.prems that by (simp add: by_key_None_iff)
  ultimately show ?case using Cons by (cases "key x = k") simp_all
qed simp

lemma findInstance_Inr_iff:
  "findInstanceOrThrow db k T = Inr i \<longleftrightarrow> find_one (\<lambda>i. in_id i = k \<and> in_tenantId i = T) (db_instances db) = Some i"
  by (auto simp: findInstanceOrThrow_def split: option.splits)

lemma findInstance_InrD:
  "findInstanceOrThrow db k T = Inr i \<Longrightarrow> i \<in> set (db_instances db) \<and> in_id i = k \<and> in_tenantId i = T"
  by (auto simp: findInstance_Inr_iff dest: find_one_SomeD)

lemma findInstance_saved:
  assumes "keys_distinct in_id (db_instances db)" "in_tenantId i = T"
  shows "findInstanceOrThrow (db\<lparr>db_instances := save_row in_id i (db_instances db)\<rparr>) (in_id i) T = Inr i"
  using assms keys_distinct_save [of in_id "db_instances db" i]
  by (simp add: findInstance_Inr_iff find_one_key by_key_save)

lemma set_filter_throw: "filter_throw p xs = Inr ys \<Longrightarrow> set ys = {x \<in> set xs. p x = Inr True}"
  by (induction xs arbitrary: ys) (auto simp: and_then_Inr_iff split: if_splits)

lemma set_available:
  "computeAvailableTransitions ev now db i = Inr ts \<Longrightarrow>
   set ts = {t \<in> set (db_transitions db). tr_workflowId t = in_workflowId i
     \<and> tr_fromStateId t = in_currentStateId i \<and> tr_isActive t
     \<and> evaluateConditions ev now (tr_conditions t) (in_context i) = Inr True}"
  by (auto simp: computeAvailableTransitions_def set_find_where dest: set_filter_throw)

lemma choose_transition_InrD:
  assumes "choose_transition ev now db rq i = Inr t"
  shows "t \<in> set (db_transitions db) \<and> tr_isActive t \<and> tr_fromStateId t = in_currentStateId i
    \<and> (truthy_str (rq_transitionId rq) \<longrightarrow> rq_transitionId rq = Some (tr_id t))
    \<and> (\<not> truthy_str (rq_transitionId rq) \<longrightarrow>
         tr_type t = TransAutomatic \<and> evaluateConditions ev now (tr_conditions t) (in_context i) = Inr True)"
proof (cases "truthy_str (rq_transitionId rq)")
  case True
  then show ?thesis
    using assms
    by (auto simp: choose_transition_def truthy_str_iff split: option.splits dest!: find_one_SomeD)
next
  case False
  then obtain ts where ts: "computeAvailableTransitions ev now db i = Inr ts"
    and "find_one (\<lambda>t. tr_type t = TransAutomatic) ts = Some t"
    using assms by (auto simp: choose_transition_def and_then_Inr_iff split: option.splits)
  then have "t \<in> set ts" "tr_type t = TransAutomatic" by (auto dest: find_one_SomeD)
  then show ?thesis using False set_available [OF ts] by auto
qed

lemma sign_off_InrD:
  assumes "sign_off_gate db rq i t = Inr signer"
  shows "if pe_requiresSignOff (tr_permissions t)
         then \<exists>u. signer = Some u \<and> u \<in> set (db_users db) \<and> pr_id u = rq_userId rq
                  \<and> pr_tenantId u = in_tenantId i \<and> truthy_str (pr_credential u)
         else signer = None"
  using assms
  by (auto simp: sign_off_gate_def Let_def split: if_splits option.splits bind_splits
      dest!: find_one_SomeD)

lemma payment_gate_InrD:
  assumes "payment_gate packs db i = Inr s"
  shows "current_state db i = Some s
    \<and> arrearsBlocking packs (db_payments db) (in_tenantId i) (in_vertical i) (in_entityId i) (st_name s) = []"
  using assms by (auto simp: payment_gate_def Let_def split: option.splits if_splits)

lemma admit_Inr_iff:
  "admit ev packs now db rq = Inr (i, t, signer, old) \<longleftrightarrow>
     findInstanceOrThrow db (rq_instanceId rq) (rq_tenantId rq) = Inr i \<and> in_status i = InstActive
     \<and> choose_transition ev now db rq i = Inr t
     \<and> checkPermissions (tr_permissions t) (rq_userId rq) (nullish (rq_userRoles rq) [])
     \<and> sign_off_gate db rq i t = Inr signer \<and> payment_gate packs db i = Inr old"
  by (auto simp: admit_def and_then_Inr_iff)

text \<open>Every outcome of \<open>transition\<close>, case by case.\<close>

lemma transition_cases:
  assumes "transition ev packs ok now rq w = (r, w')"
  obtains (refused) e where "r = Inl e" "w' = w"
  | (dangling) i t signer old new where "admit ev packs now (ww_db w) rq = Inr (i, t, signer, old)"
      "by_key wf_id (db_workflows (ww_db w)) (in_workflowId i) = None" "r = Inl WfTypeError"
      "w' = (if rq_automated rq \<noteq> None
             then w\<lparr>ww_audit := ww_audit w @ [automated_audit rq i t old new]\<rparr> else w)"
  | (moved) i t signer old new flow i' where
      "admit ev packs now (ww_db w) rq = Inr (i, t, signer, old)"
      "by_key st_id (db_states (ww_db w)) (tr_toStateId t) = Some new"
      "by_key wf_id (db_workflows (ww_db w)) (in_workflowId i) = Some flow"
      "rq_automated rq \<noteq> None \<longrightarrow> ok"
      "i' = moved rq flow i t signer old new now"
      "r = findInstanceOrThrow (ww_db w') (in_id i) (rq_tenantId rq)"
      "ww_db w' = (ww_db w)\<lparr>db_instances := save_row in_id i' (db_instances (ww_db w))\<rparr>"
      "ww_effects w' = ww_effects w @ executeActions (tr_actions t) i (Some (st_name old)) now"
      "ww_audit w' = ww_audit w @
         (if rq_automated rq \<noteq> None then [automated_audit rq i t old new]
          else if ok then [human_audit rq i t signer old new] else [])"
proof (cases "admit ev packs now (ww_db w) rq")
  case (Inl e)
  then show ?thesis using assms by (intro refused [of e]) (simp_all add: transition_def)
next
  case (Inr x)
  obtain i t signer old where x: "x = (i, t, signer, old)" by (cases x) auto
  show ?thesis
  proof (cases "by_key st_id (db_states (ww_db w)) (tr_toStateId t)")
    case None
    then show ?thesis
      using assms Inr x by (intro refused [of WfTypeError]) (simp_all add: transition_def)
  next
    case (Some new)
    show ?thesis
    proof (cases "rq_automated rq \<noteq> None \<and> \<not> ok")
      case True
      then show ?thesis
        using assms Inr x Some by (intro refused [of AuditFailed]) (simp_all add: transition_def)
    next
      case audited: False
      show ?thesis
      proof (cases "by_key wf_id (db_workflows (ww_db w)) (in_workflowId i)")
        case None
        then show ?thesis
          using assms Inr x Some audited dangling [of i t signer old new]
          by (auto simp: transition_def Let_def split: if_splits)
      next
        case flow: (Some flow)
        show ?thesis
          by (rule moved [OF Inr [unfolded x] Some flow])
             (use assms Inr x Some audited flow in
               \<open>auto simp: transition_def Let_def split: if_splits\<close>)
      qed
    qed
  qed
qed

lemma in_id_moved [simp]: "in_id (moved rq flow i t signer old new now) = in_id i"
  "in_tenantId (moved rq flow i t signer old new now) = in_tenantId i"
  "in_workflowId (moved rq flow i t signer old new now) = in_workflowId i"
  by (simp_all add: moved_def Let_def)



section \<open>Properties of transitions\<close>

text \<open>The primary keys and the foreign key of the tables.\<close>

definition db_ok :: "wf_db \<Rightarrow> bool" where
  "db_ok db \<longleftrightarrow> keys_distinct in_id (db_instances db)
     \<and> (\<forall>i \<in> set (db_instances db). by_key wf_id (db_workflows db) (in_workflowId i) \<noteq> None)"


text \<open>A small workflow: \<open>draft\<close> to \<open>done\<close> by a signed-off transition whose condition did not compile.\<close>

definition demo_transition :: wf_transition where
  "demo_transition = \<lparr>tr_id = ''t1'', tr_workflowId = ''w1'', tr_fromStateId = ''s1'', tr_toStateId = ''s2'',
     tr_name = ''Lodge'', tr_type = TransConditional,
     tr_conditions = \<lparr>co_operator = Some ''AND'', co_rules = Some [], co_jsonLogic = JUndef,
                      co_unevaluable = Some ''bad''\<rparr>,
     tr_actions = [\<lparr>wa_type = ''webhook'', wa_config = [(''url'', JStr ''https://x'')]\<rparr>],
     tr_permissions = \<lparr>pe_roles = Some [''migration_agent''], pe_users = None, pe_requiresSignOff = True\<rparr>,
     tr_isActive = True\<rparr>"

definition demo_instance :: wf_instance where
  "demo_instance = \<lparr>in_id = ''i1'', in_tenantId = ''T'', in_vertical = None, in_workflowId = ''w1'',
     in_entityId = ''e1'', in_entityType = ''case'', in_currentStateId = ''s1'', in_status = InstActive,
     in_context = [(''k'', JNull)], in_history = [], in_stateEnteredAt = None, in_slaDeadline = None,
     in_escalationLevel = 0, in_slaViolations = NotAnArray, in_startedBy = ''c1'', in_completedAt = None,
     in_createdAt = 0\<rparr>"

definition demo_db :: wf_db where
  "demo_db = \<lparr>db_workflows = [\<lparr>wf_id = ''w1'', wf_tenantId = ''T'', wf_name = ''W'', wf_description = None,
       wf_entityType = ''case'', wf_status = WfActive, wf_trigger = TriggerManual, wf_triggerConfig = [],
       wf_version = 1, wf_slaConfig = \<lparr>sc_enabled = False, sc_escalationLevels = None\<rparr>, wf_createdAt = 0\<rparr>],
     db_states = [\<lparr>st_id = ''s1'', st_workflowId = ''w1'', st_name = ''draft'', st_type = StateStart,
                   st_description = None, st_slaHours = None\<rparr>,
                  \<lparr>st_id = ''s2'', st_workflowId = ''w1'', st_name = ''done'', st_type = StateEnd,
                   st_description = None, st_slaHours = None\<rparr>],
     db_transitions = [demo_transition], db_instances = [demo_instance], db_entities = [],
     db_users = [\<lparr>pr_id = ''u1'', pr_tenantId = ''T'', pr_credential = Some ''MARN1'', pr_credentialType = None\<rparr>],
     db_payments = []\<rparr>"

definition demo_request :: transition_request where
  "demo_request = \<lparr>rq_instanceId = ''i1'', rq_tenantId = ''T'', rq_transitionId = Some ''t1'', rq_userId = ''u1'',
     rq_userEmail = None, rq_userRoles = Some [STAFF], rq_automated = None,
     rq_context = Some [(''k'', JBool True)]\<rparr>"

definition demo_ev :: evaluator where
  "demo_ev = \<lparr>ev_logic = \<lambda>_ _. Inr JNull, ev_dates = \<lambda>_. None\<rparr>"

definition no_packs :: "str option \<Rightarrow> price_pack" where
  "no_packs = (\<lambda>_. \<lparr>pk_fees = None, pk_paymentPlans = None\<rparr>)"

abbreviation demo_world :: wf_world where
  "demo_world \<equiv> \<lparr>ww_db = demo_db, ww_audit = [], ww_effects = []\<rparr>"

lemmas demo_defs = demo_db_def demo_instance_def demo_transition_def demo_request_def demo_ev_def no_packs_def

lemma demo_ok: "db_ok demo_db"
  by (simp add: db_ok_def demo_defs)

lemma demo_admit:
  "\<exists>old signer. admit demo_ev no_packs 0 demo_db demo_request = Inr (demo_instance, demo_transition, signer, old)
     \<and> st_name old = ''draft''"
  by (simp add: admit_def demo_defs findInstanceOrThrow_def choose_transition_def checkPermissions_def
      ROLE_PRECEDENCE_def sign_off_gate_def payment_gate_def current_state_def arrearsBlocking_def Let_def)

lemma demo_runs: "\<exists>i' w'. transition demo_ev no_packs True 0 demo_request demo_world = (Inr i', w')"
proof -
  obtain old signer where adm: "admit demo_ev no_packs 0 demo_db demo_request = Inr (demo_instance, demo_transition, signer, old)"
    using demo_admit by blast
  have "keys_distinct in_id (db_instances demo_db)" using demo_ok by (simp add: db_ok_def)
  note saved = findInstance_saved [OF this]
  have t: "by_key st_id (db_states demo_db) (tr_toStateId demo_transition) \<noteq> None"
    "by_key wf_id (db_workflows demo_db) (in_workflowId demo_instance) \<noteq> None"
    "rq_automated demo_request = None" "rq_tenantId demo_request = in_tenantId demo_instance"
    by (simp_all add: demo_defs)
  then show ?thesis
    using saved by (auto simp: transition_def adm Let_def) (metis in_id_moved(1,2))
qed

lemma demo_sends:
  assumes "transition demo_ev no_packs True 0 demo_request demo_world = (Inr i', w')"
  shows "\<exists>p. Webhook (JStr ''https://x'') (JStr ''POST'') (JObj []) JUndef p \<in> set (ww_effects w')"
  using assms
proof (cases rule: transition_cases)
  case (moved i t signer old new flow i1)
  then have "i = demo_instance" "t = demo_transition" using demo_admit by auto
  then show ?thesis
    using moved(8) by (simp add: executeActions_def execute_action_def executeWebhookAction_def js_prop_def
        js_default_def demo_transition_def)
qed simp_all




text \<open>
  A transition that is refused or fails writes nothing: no row, no audit
  entry and no effect.
\<close>

theorem refused_transition_writes_nothing:
  assumes "transition ev packs ok now rq w = (Inl e, w')" "db_ok (ww_db w)"
  shows "w' = w"
  using assms(1)
proof (cases rule: transition_cases)
  case (dangling i t signer old new)
  then have "i \<in> set (db_instances (ww_db w))"
    by (auto simp: admit_Inr_iff dest: findInstance_InrD)
  with dangling assms(2) show ?thesis by (auto simp: db_ok_def)
next
  case (moved i t signer old new flow i')
  have "findInstanceOrThrow (ww_db w) (rq_instanceId rq) (rq_tenantId rq) = Inr i"
    using moved(1) by (simp add: admit_Inr_iff)
  then have "in_tenantId i' = rq_tenantId rq" "in_id i' = in_id i"
    by (auto simp: moved(5) dest: findInstance_InrD)
  then have "findInstanceOrThrow (ww_db w') (in_id i) (rq_tenantId rq) = Inr i'"
    using findInstance_saved [of "ww_db w" i' "rq_tenantId rq"] assms(2) moved(7) by (simp add: db_ok_def)
  with moved(6) show ?thesis by simp
qed simp

lemma refused_transition_writes_nothing_witness:
  "transition demo_ev no_packs False 0 (demo_request\<lparr>rq_automated := Some (''sla'', None)\<rparr>) demo_world
     = (Inl AuditFailed, demo_world)"
proof -
  let ?rq = "demo_request\<lparr>rq_automated := Some (''sla'', None)\<rparr>"
  have adm: "admit demo_ev no_packs 0 demo_db ?rq = admit demo_ev no_packs 0 demo_db demo_request"
    by (simp add: admit_def choose_transition_def sign_off_gate_def cong: if_cong)
  obtain w' where run: "transition demo_ev no_packs False 0 ?rq demo_world = (Inl AuditFailed, w')"
    using demo_admit by (auto simp: transition_def adm) (simp add: demo_defs)
  have "db_ok (ww_db demo_world)" using demo_ok by simp
  from refused_transition_writes_nothing [OF run this] run show ?thesis by simp
qed

text \<open>Replacing the conditions of every transition.\<close>

definition with_conditions :: "(wf_transition \<Rightarrow> conditions) \<Rightarrow> wf_db \<Rightarrow> wf_db" where
  "with_conditions f db =
     db\<lparr>db_transitions := map (\<lambda>t. t\<lparr>tr_conditions := f t\<rparr>) (db_transitions db)\<rparr>"

lemma with_conditions_sel [simp]:
  "db_states (with_conditions f db) = db_states db"
  "db_workflows (with_conditions f db) = db_workflows db"
  "db_instances (with_conditions f db) = db_instances db"
  by (simp_all add: with_conditions_def)

lemma find_one_map: "find_one P (map f xs) = map_option f (find_one (P \<circ> f) xs)"
  by (induction xs) auto

lemma find_one_with_conditions:
  assumes "\<And>t. P (t\<lparr>tr_conditions := f t\<rparr>) = P t"
  shows "find_one P (map (\<lambda>t. t\<lparr>tr_conditions := f t\<rparr>) ts)
           = map_option (\<lambda>t. t\<lparr>tr_conditions := f t\<rparr>) (find_one P ts)"
  unfolding find_one_map using assms by (simp add: comp_def)

lemma and_then_map_sum: "and_then (map_sum id g r) h = and_then r (\<lambda>x. h (g x))"
  by (cases r) simp_all

lemma map_sum_and_then: "map_sum id g (and_then r h) = and_then r (\<lambda>x. map_sum id g (h x))"
  by (cases r) simp_all

lemma admit_with_conditions:
  assumes "truthy_str (rq_transitionId rq)"
  shows "admit ev packs now (with_conditions f db) rq =
     map_sum id (\<lambda>(i, t, signer, old). (i, t\<lparr>tr_conditions := f t\<rparr>, signer, old)) (admit ev packs now db rq)"
proof -
  have find: "findInstanceOrThrow (with_conditions f db) k T = findInstanceOrThrow db k T" for k T
    by (simp add: findInstanceOrThrow_def with_conditions_def)
  have choose: "choose_transition ev now (with_conditions f db) rq i =
      map_sum id (\<lambda>t. t\<lparr>tr_conditions := f t\<rparr>) (choose_transition ev now db rq i)" for i
    using assms
    by (simp add: choose_transition_def with_conditions_def find_one_with_conditions split: option.split)
  have gates: "sign_off_gate (with_conditions f db) rq i (t\<lparr>tr_conditions := f t\<rparr>) = sign_off_gate db rq i t"
    "payment_gate packs (with_conditions f db) i = payment_gate packs db i" for i t
    by (simp_all add: sign_off_gate_def payment_gate_def current_state_def with_conditions_def Let_def
        cong: option.case_cong)
  show ?thesis
    by (simp add: admit_def find choose gates and_then_map_sum map_sum_and_then
        if_distrib [of "map_sum id g" for g] cong: if_cong)
qed

text \<open>
  A transition named by its id is taken without looking at its conditions: with
  any other conditions, among them those of a pack condition that did not compile, the answer,
  the rows of the instances, the audit trail and the effects are the same.
\<close>

theorem named_transition_ignores_conditions:
  assumes "truthy_str (rq_transitionId rq)"
  shows "fst (transition ev packs ok now rq (w\<lparr>ww_db := with_conditions f (ww_db w)\<rparr>))
           = fst (transition ev packs ok now rq w)
    \<and> db_instances (ww_db (snd (transition ev packs ok now rq (w\<lparr>ww_db := with_conditions f (ww_db w)\<rparr>))))
        = db_instances (ww_db (snd (transition ev packs ok now rq w)))
    \<and> ww_audit (snd (transition ev packs ok now rq (w\<lparr>ww_db := with_conditions f (ww_db w)\<rparr>)))
        = ww_audit (snd (transition ev packs ok now rq w))
    \<and> ww_effects (snd (transition ev packs ok now rq (w\<lparr>ww_db := with_conditions f (ww_db w)\<rparr>)))
        = ww_effects (snd (transition ev packs ok now rq w))"
proof (cases "admit ev packs now (ww_db w) rq")
  case (Inl e)
  then show ?thesis using admit_with_conditions [OF assms] by (simp add: transition_def)
next
  case (Inr x)
  obtain i t signer old where x: "x = (i, t, signer, old)" by (cases x) auto
  have adm: "admit ev packs now (with_conditions f (ww_db w)) rq = Inr (i, t\<lparr>tr_conditions := f t\<rparr>, signer, old)"
    using admit_with_conditions [OF assms] Inr x by simp
  have same: "automated_audit rq i (t\<lparr>tr_conditions := f t\<rparr>) old new = automated_audit rq i t old new"
    "human_audit rq i (t\<lparr>tr_conditions := f t\<rparr>) signer old new = human_audit rq i t signer old new"
    "moved rq flow i (t\<lparr>tr_conditions := f t\<rparr>) signer old new now = moved rq flow i t signer old new now" for new flow
    by (simp_all add: automated_audit_def human_audit_def moved_def history_of_def signed_off_def
        cong: option.case_cong)
  note run = transition_def adm Inr x same Let_def findInstanceOrThrow_def
  show ?thesis
  proof (cases "by_key st_id (db_states (ww_db w)) (tr_toStateId t)")
    case None
    then show ?thesis by (simp add: run)
  next
    case (Some new)
    then show ?thesis
      by (cases "by_key wf_id (db_workflows (ww_db w)) (in_workflowId i)";
          cases "rq_automated rq = None"; cases ok) (simp_all add: run)
  qed
qed

lemma named_transition_ignores_conditions_witness:
  "(\<exists>i. fst (transition demo_ev no_packs True 0 demo_request
      (demo_world\<lparr>ww_db := with_conditions (\<lambda>t. (tr_conditions t)\<lparr>co_unevaluable := None\<rparr>) demo_db\<rparr>)) = Inr i)
   \<and> computeAvailableTransitions demo_ev 0 demo_db demo_instance = Inr []"
proof
  have named: "truthy_str (rq_transitionId demo_request)" by (simp add: demo_request_def)
  show "\<exists>i. fst (transition demo_ev no_packs True 0 demo_request
      (demo_world\<lparr>ww_db := with_conditions (\<lambda>t. (tr_conditions t)\<lparr>co_unevaluable := None\<rparr>) demo_db\<rparr>)) = Inr i"
    using demo_runs named_transition_ignores_conditions [OF named, where ev = demo_ev and packs = no_packs
        and ok = True and now = 0 and w = demo_world
        and f = "\<lambda>t. (tr_conditions t)\<lparr>co_unevaluable := None\<rparr>"] by force
  show "computeAvailableTransitions demo_ev 0 demo_db demo_instance = Inr []"
    by (simp add: computeAvailableTransitions_def find_where_def demo_defs evaluateConditions_def)
qed

text \<open>
  What a transition sends out describes the record as it was before the move:
  each webhook carries the name of the state that was left and the context without what the
  request added.
\<close>

theorem effects_see_the_old_record:
  assumes "transition ev packs ok now rq w = (Inr i', w')" "db_ok (ww_db w)"
    and "Webhook url verb headers secret payload \<in> set (drop (length (ww_effects w)) (ww_effects w'))"
  shows "\<exists>i s. i \<in> set (db_instances (ww_db w)) \<and> in_id i = rq_instanceId rq
    \<and> current_state (ww_db w) i = Some s \<and> payload = webhook_payload i (Some (st_name s)) now"
  using assms(1)
proof (cases rule: transition_cases)
  case (moved i t signer old new flow i1)
  have mem: "i \<in> set (db_instances (ww_db w))" "in_id i = rq_instanceId rq"
    and cur: "current_state (ww_db w) i = Some old"
    using moved(1) by (auto simp: admit_Inr_iff dest: findInstance_InrD payment_gate_InrD)
  have "Webhook url verb headers secret payload \<in> set (executeActions (tr_actions t) i (Some (st_name old)) now)"
    using assms(3) moved(8) by simp
  then obtain a where "Webhook url verb headers secret payload \<in> set (execute_action i (Some (st_name old)) now a)"
    by (auto simp: executeActions_def)
  then have "payload = webhook_payload i (Some (st_name old)) now"
    by (auto simp: execute_action_def executeNotificationAction_def executeTaskAction_def
        executeWebhookAction_def Let_def split: if_splits option.splits)
  with mem cur show ?thesis by blast
qed simp_all

lemma effects_see_the_old_record_witness:
  "\<exists>i' w' payload. transition demo_ev no_packs True 0 demo_request demo_world = (Inr i', w')
     \<and> Webhook (JStr ''https://x'') (JStr ''POST'') (JObj []) JUndef payload \<in> set (ww_effects w')
     \<and> payload = webhook_payload demo_instance (Some ''draft'') 0"
proof -
  obtain i' w' where run: "transition demo_ev no_packs True 0 demo_request demo_world = (Inr i', w')"
    using demo_runs by blast
  obtain p where p: "Webhook (JStr ''https://x'') (JStr ''POST'') (JObj []) JUndef p
      \<in> set (drop (length (ww_effects demo_world)) (ww_effects w'))"
    using demo_sends [OF run] by auto
  have "db_ok (ww_db demo_world)" using demo_ok by simp
  from effects_see_the_old_record [OF run this p] have "p = webhook_payload demo_instance (Some ''draft'') 0"
    by (auto simp: demo_db_def current_state_def demo_instance_def)
  with run p show ?thesis by auto
qed

section \<open>Properties of visibility and permissions\<close>

text \<open>
  The list of instances holds exactly the tenant's instances that match the
  filters and that the same caller may open one by one.
\<close>

theorem instance_list_matches_read:
  assumes "\<forall>i \<in> set (db_instances db). in_entityId i \<noteq> []"
  shows "i \<in> set (listInstances db ctx T a status entityId) \<longleftrightarrow>
     i \<in> set (db_instances db) \<and> in_tenantId i = T
     \<and> (\<forall>s. status = Some s \<longrightarrow> in_status i = s)
     \<and> (\<forall>e. entityId = Some e \<and> e \<noteq> [] \<longrightarrow> in_entityId i = e)
     \<and> assertInstanceOwnership db ctx i T a = Inr ()"
proof -
  let ?owned = "set (wf_ownedEntityIds (db_entities db) T a)"
  let ?status = "\<lambda>i. \<forall>s. status = Some s \<longrightarrow> in_status i = s"
  let ?entity = "\<lambda>i. \<forall>e. entityId = Some e \<and> e \<noteq> [] \<longrightarrow> in_entityId i = e"
  have status: "(case status of None \<Rightarrow> True | Some s \<Rightarrow> in_status i = s) = ?status i" for i
    by (simp split: option.split)
  have wide: "i \<in> set (listInstances db ctx T a status entityId) \<longleftrightarrow>
      i \<in> set (db_instances db) \<and> in_tenantId i = T \<and> ?status i \<and> ?entity i
      \<and> (hasTenantWideReach ctx a \<or> in_startedBy i = ac_id a \<or> in_entityId i \<in> ?owned)"
  proof (cases "truthy_str entityId")
    case True
    then obtain e where "entityId = Some e" "e \<noteq> []" by (auto simp: truthy_str_iff)
    then show ?thesis
      unfolding listInstances_def Let_def status
      by (cases "hasTenantWideReach ctx a") (simp_all add: set_find_where filter_empty_conv, blast)
  next
    case False
    then have "?entity i" for i by (auto simp: truthy_str_iff)
    with False show ?thesis
      unfolding listInstances_def Let_def status
      by (cases "hasTenantWideReach ctx a"; cases "wf_ownedEntityIds (db_entities db) T a = []")
         (simp_all add: set_find_where, blast+)
  qed
  have "in_entityId i \<noteq> []" if "i \<in> set (db_instances db)" using assms that by blast
  then show ?thesis
    unfolding wide assertInstanceOwnership_def by (cases "hasTenantWideReach ctx a") auto
qed

lemma instance_list_matches_read_witness:
  "demo_instance \<in> set (listInstances demo_db None ''T'' \<lparr>ac_id = ''c1'', ac_roles = [CLIENT], ac_email = None\<rparr> None None)"
proof -
  have "\<forall>i \<in> set (db_instances demo_db). in_entityId i \<noteq> []" by (simp add: demo_db_def demo_instance_def)
  then show ?thesis
    by (subst instance_list_matches_read)
       (simp_all add: assertInstanceOwnership_def demo_db_def, simp_all add: demo_instance_def)
qed

text \<open>
  A caller is refused a transition exactly when it is not among the named
  users, holds none of the named roles, and either a named role is one of the platform's
  or no role is named and some user is.
\<close>

theorem permission_refused_iff:
  "\<not> checkPermissions p userId userRoles \<longleftrightarrow>
     userId \<notin> set (nullish (pe_users p) [])
     \<and> (\<forall>r \<in> set (nullish (pe_roles p) []). r \<notin> set userRoles)
     \<and> ((\<exists>r \<in> set (nullish (pe_roles p) []). r \<in> set ROLE_PRECEDENCE)
         \<or> nullish (pe_roles p) [] = [] \<and> nullish (pe_users p) [] \<noteq> [])"
proof -
  have "xs \<noteq> []" if "x \<in> set xs" for x and xs :: "str list" using that by auto
  then show ?thesis unfolding checkPermissions_def Let_def by (smt (verit) list.set_intros(1) list.exhaust)
qed

text \<open>A named user list does not confine a transition that also names a role the platform does not know.\<close>

lemma unknown_role_opens_user_list:
  "checkPermissions \<lparr>pe_roles = Some [''migration_agent''], pe_users = Some [''u1''], pe_requiresSignOff = False\<rparr>
     ''u2'' []"
  by (simp add: checkPermissions_def ROLE_PRECEDENCE_def)

section \<open>Properties of creation\<close>

lemma transition_rows_InlD:
  "transition_rows wid ids states n defs = Inl e \<Longrightarrow>
   \<exists>d \<in> set defs. e = InvalidTransition (td_from d) (td_to d)
      \<and> (map_get st_name states (td_from d) = None \<or> map_get st_name states (td_to d) = None)"
  by (induction wid ids states n defs rule: transition_rows.induct)
     (auto simp: and_then_Inl_iff split: option.splits)

definition row_implements :: "str \<Rightarrow> wf_state list \<Rightarrow> trans_def \<Rightarrow> wf_transition \<Rightarrow> bool" where
  "row_implements wid states d t \<longleftrightarrow>
     tr_workflowId t = wid \<and> tr_name t = td_name d \<and> tr_isActive t
     \<and> (\<exists>f \<in> set states. st_id f = tr_fromStateId t \<and> st_name f = td_from d)
     \<and> (\<exists>f \<in> set states. st_id f = tr_toStateId t \<and> st_name f = td_to d)"


lemma transition_rows_InrD:
  "transition_rows wid ids states n defs = Inr rows \<Longrightarrow>
   list_all2 (row_implements wid states) defs rows \<and> map tr_id rows = map ids [n..<n + length defs]"
proof (induction wid ids states n defs arbitrary: rows rule: transition_rows.induct)
  case (2 wid ids states n d defs)
  obtain f t rest where ft: "map_get st_name states (td_from d) = Some f" "map_get st_name states (td_to d) = Some t"
    and rest: "transition_rows wid ids states (Suc n) defs = Inr rest"
    and rows: "rows = transition_row wid (ids n) (st_id f) (st_id t) d # rest"
    using "2.prems" by (auto simp: and_then_Inr_iff split: option.splits)
  have "row_implements wid states d (transition_row wid (ids n) (st_id f) (st_id t) d)"
    using map_get_SomeD [OF ft(1)] map_get_SomeD [OF ft(2)]
    by (auto simp: row_implements_def transition_row_def)
  with "2.IH" [OF refl ft rest] show ?case
    by (simp add: rows transition_row_def upt_conv_Cons del: upt_Suc)
qed simp

lemma fold_save_row_fresh:
  "distinct (map key rows) \<Longrightarrow> key ` set rows \<inter> key ` set t = {} \<Longrightarrow> fold (save_row key) rows t = t @ rows"
proof (induction rows arbitrary: t)
  case (Cons r rows)
  have "save_row key r t = t @ [r]" using Cons.prems by (intro save_row_new) auto
  moreover have "fold (save_row key) rows (t @ [r]) = (t @ [r]) @ rows"
    using Cons.prems by (intro Cons.IH) auto
  ultimately show ?case by simp
qed simp

lemma find_where_appended:
  "\<forall>x \<in> set xs. \<not> P x \<Longrightarrow> \<forall>x \<in> set ys. P x \<Longrightarrow> find_where P (xs @ ys) = ys"
  "\<forall>x \<in> set ys. \<not> P x \<Longrightarrow> find_where P (xs @ ys) = find_where P xs"
  by (auto simp: find_where_def filter_empty_conv filter_id_conv)

text \<open>The ids the database draws are new and distinct.\<close>

definition fresh_ids :: "wf_ids \<Rightarrow> workflow_def \<Rightarrow> wf_db \<Rightarrow> bool" where
  "fresh_ids ids def db \<longleftrightarrow>
     id_workflow ids \<notin> wf_id ` set (db_workflows db)
     \<and> id_workflow ids \<notin> st_workflowId ` set (db_states db)
     \<and> id_workflow ids \<notin> tr_workflowId ` set (db_transitions db)
     \<and> distinct (map (id_state ids) [0..<length (wd_states def)])
     \<and> distinct (map (id_transition ids) [0..<length (wd_transitions def)])
     \<and> id_state ids ` {0..<length (wd_states def)} \<inter> st_id ` set (db_states db) = {}
     \<and> id_transition ids ` {0..<length (wd_transitions def)} \<inter> tr_id ` set (db_transitions db) = {}"

text \<open>The state rows a definition asks for, and the draft that owns them.\<close>

abbreviation new_states :: "wf_ids \<Rightarrow> workflow_def \<Rightarrow> wf_state list" where
  "new_states ids def \<equiv>
     map (\<lambda>(n, sd). state_row (id_workflow ids) (id_state ids n) sd)
       (zip [0..<length (wd_states def)] (wd_states def))"

definition draft :: "wf_ids \<Rightarrow> instant \<Rightarrow> str \<Rightarrow> workflow_def \<Rightarrow> workflow" where
  "draft ids now T def =
     \<lparr>wf_id = id_workflow ids, wf_tenantId = T, wf_name = wd_name def,
      wf_description = wd_description def, wf_entityType = wd_entityType def,
      wf_status = WfDraft, wf_trigger = nullish (wd_trigger def) TriggerManual,
      wf_triggerConfig = nullish (wd_triggerConfig def) [], wf_version = 1,
      wf_slaConfig = nullish (wd_slaConfig def) \<lparr>sc_enabled = False, sc_escalationLevels = None\<rparr>,
      wf_createdAt = now\<rparr>"

lemma draft_sel [simp]:
  "wf_id (draft ids now T def) = id_workflow ids" "wf_tenantId (draft ids now T def) = T"
  "wf_status (draft ids now T def) = WfDraft" "wf_name (draft ids now T def) = wd_name def"
  "wf_triggerConfig (draft ids now T def) = nullish (wd_triggerConfig def) []"
  "wf_slaConfig (draft ids now T def) = nullish (wd_slaConfig def) \<lparr>sc_enabled = False, sc_escalationLevels = None\<rparr>"
  by (simp_all add: draft_def)

lemma new_states_facts:
  "map st_id (new_states ids def) = map (id_state ids) [0..<length (wd_states def)]"
  "map st_name (new_states ids def) = map sd_name (wd_states def)"
  "map st_type (new_states ids def) = map sd_type (wd_states def)"
  "s \<in> set (new_states ids def) \<Longrightarrow> st_workflowId s = id_workflow ids"
  by (auto intro!: nth_equalityI simp: state_row_def)

text \<open>What creation writes, when the ids drawn are new.\<close>

lemma createWorkflow_cases:
  assumes "createWorkflow ids now T def db = (r, db')" "fresh_ids ids def db"
  obtains (refused) e where "r = Inl e" "db' = db"
      "transition_rows (id_workflow ids) (id_transition ids) (new_states ids def) 0 (wd_transitions def) = Inl e"
  | (created) rows where "r = Inr (draft ids now T def)"
      "db' = db\<lparr>db_workflows := db_workflows db @ [draft ids now T def],
                db_states := db_states db @ new_states ids def,
                db_transitions := db_transitions db @ rows\<rparr>"
      "transition_rows (id_workflow ids) (id_transition ids) (new_states ids def) 0 (wd_transitions def) = Inr rows"
proof (cases "transition_rows (id_workflow ids) (id_transition ids) (new_states ids def) 0 (wd_transitions def)")
  case (Inl e)
  then have "r = Inl e" "db' = db" using assms(1) by (auto simp: createWorkflow_def Let_def)
  with Inl show thesis by (intro refused)
next
  case (Inr rows)
  note impl = transition_rows_InrD [OF Inr]
  have rids: "tr_id ` set rows = id_transition ids ` {0..<length (wd_transitions def)}"
    using arg_cong [OF conjunct2 [OF impl], of set] by (simp only: set_map set_upt add_0)
  have sids: "st_id ` set (new_states ids def) = id_state ids ` {0..<length (wd_states def)}"
    using arg_cong [OF new_states_facts(1), of set] by (simp only: set_map set_upt)
  note fresh_ids = assms(2) [unfolded fresh_ids_def]
  have fresh: "id_workflow ids \<notin> wf_id ` set (db_workflows db)" using fresh_ids by blast
  have fresh_states: "distinct (map st_id (new_states ids def))" "st_id ` set (new_states ids def) \<inter> st_id ` set (db_states db) = {}"
    unfolding new_states_facts(1) sids using fresh_ids by blast+
  have fresh_rows: "distinct (map tr_id rows)" "tr_id ` set rows \<inter> tr_id ` set (db_transitions db) = {}"
    unfolding rids conjunct2 [OF impl] add_0 using fresh_ids by blast+
  have written: "db' = db\<lparr>db_workflows := db_workflows db @ [draft ids now T def],
      db_states := db_states db @ new_states ids def, db_transitions := db_transitions db @ rows\<rparr>"
    and "r = getWorkflow db' (id_workflow ids) T"
    using assms(1) Inr fold_save_row_fresh [OF fresh_states] fold_save_row_fresh [OF fresh_rows] fresh
    by (auto simp: createWorkflow_def Let_def save_row_new draft_def)
  moreover have "find_one (\<lambda>x. wf_id x = id_workflow ids \<and> wf_tenantId x = T) (xs @ [draft ids now T def]) = Some (draft ids now T def)"
    if "id_workflow ids \<notin> wf_id ` set xs" for xs using that by (induction xs) auto
  ultimately have "r = Inr (draft ids now T def)" using fresh by (simp add: getWorkflow_def)
  with written Inr show thesis by (intro created)
qed

text \<open>
  Creating a workflow either raises over a transition between states the
  definition does not have, and then leaves the tables as they were, or stores a draft
  with exactly the states of the definition, in order, and one active transition for each defined one, between
  the states it names.
\<close>

theorem create_workflow_all_or_nothing:
  assumes "createWorkflow ids now T def db = (r, db')" "fresh_ids ids def db"
  shows "(\<exists>d \<in> set (wd_transitions def). r = Inl (InvalidTransition (td_from d) (td_to d))
            \<and> (td_from d \<notin> sd_name ` set (wd_states def) \<or> td_to d \<notin> sd_name ` set (wd_states def))
            \<and> db' = db)
     \<or> (\<exists>w. r = Inr w \<and> wf_tenantId w = T \<and> wf_status w = WfDraft \<and> wf_name w = wd_name def
            \<and> map st_name (states_of db' (wf_id w)) = map sd_name (wd_states def)
            \<and> map st_type (states_of db' (wf_id w)) = map sd_type (wd_states def)
            \<and> list_all2 (row_implements (wf_id w) (states_of db' (wf_id w))) (wd_transitions def)
                 (find_where (\<lambda>t. tr_workflowId t = wf_id w) (db_transitions db'))
            \<and> (\<forall>v. v \<noteq> wf_id w \<longrightarrow> states_of db' v = states_of db v))"
  using assms
proof (cases rule: createWorkflow_cases)
  case (refused e)
  obtain d where "d \<in> set (wd_transitions def)" "e = InvalidTransition (td_from d) (td_to d)"
    "td_from d \<notin> st_name ` set (new_states ids def) \<or> td_to d \<notin> st_name ` set (new_states ids def)"
    using transition_rows_InlD [OF refused(3)] by (auto simp: map_get_None_iff)
  moreover have "st_name ` set (new_states ids def) = sd_name ` set (wd_states def)"
    using arg_cong [OF new_states_facts(2), of set] by (simp only: set_map)
  ultimately show ?thesis using refused(1,2) by auto
next
  case (created rows)
  let ?wid = "id_workflow ids"
  note impl = transition_rows_InrD [OF created(3)]
  have fresh: "?wid \<notin> st_workflowId ` set (db_states db)" "?wid \<notin> tr_workflowId ` set (db_transitions db)"
    using assms(2) by (auto simp: fresh_ids_def)
  have db': "db_states db' = db_states db @ new_states ids def" "db_transitions db' = db_transitions db @ rows"
    using created(2) by simp_all
  have states: "states_of db' ?wid = new_states ids def"
    unfolding states_of_def db'(1)
  proof (rule find_where_appended(1))
    show "\<forall>s \<in> set (db_states db). st_workflowId s \<noteq> ?wid" using fresh(1) by (metis imageI)
    show "\<forall>s \<in> set (new_states ids def). st_workflowId s = ?wid" by (intro ballI new_states_facts(4))
  qed
  have "\<forall>t \<in> set rows. tr_workflowId t = ?wid"
    using impl by (auto simp: row_implements_def list_all2_conv_all_nth in_set_conv_nth)
  then have rows: "find_where (\<lambda>t. tr_workflowId t = ?wid) (db_transitions db') = rows"
    unfolding db'(2) by (intro find_where_appended(1)) (use fresh(2) in \<open>metis imageI\<close>)+
  have others: "states_of db' v = states_of db v" if "v \<noteq> ?wid" for v
    unfolding states_of_def db'(1)
    by (intro find_where_appended(2) ballI) (use that new_states_facts(4) in metis)
  show ?thesis using states rows others impl new_states_facts(2,3) created(1) by auto
qed

definition demo_def :: workflow_def where
  "demo_def = \<lparr>wd_name = ''W'', wd_description = None, wd_entityType = ''case'',
     wd_states = [\<lparr>sd_name = ''a'', sd_type = StateStart, sd_description = None, sd_slaHours = None\<rparr>],
     wd_transitions = [\<lparr>td_name = ''go'', td_from = ''a'', td_to = ''b'', td_type = None, td_conditions = None,
                        td_actions = None, td_permissions = None\<rparr>],
     wd_trigger = None, wd_triggerConfig = None, wd_slaConfig = None\<rparr>"

definition demo_ids :: wf_ids where
  "demo_ids = \<lparr>id_workflow = ''w9'', id_state = (\<lambda>n. show_int (int n)), id_transition = (\<lambda>n. show_int (int n))\<rparr>"

lemma create_workflow_all_or_nothing_witness:
  "createWorkflow demo_ids 0 ''T'' demo_def demo_db = (Inl (InvalidTransition ''a'' ''b''), demo_db)"
proof -
  obtain db' where run: "createWorkflow demo_ids 0 ''T'' demo_def demo_db = (Inl (InvalidTransition ''a'' ''b''), db')"
    by (simp add: createWorkflow_def Let_def demo_def_def demo_ids_def state_row_def map_get_def)
  have "fresh_ids demo_ids demo_def demo_db"
    by (simp add: fresh_ids_def demo_ids_def demo_def_def demo_db_def demo_transition_def)
       (simp add: show_int_def digits_of.simps)
  from create_workflow_all_or_nothing [OF run this] run show ?thesis by auto
qed


end
