(* ===== verification/Tat.thy ===== *)
theory Tat
  imports Workflow "HOL-Library.Multiset"
begin

text \<open>
  \<^verbatim>\<open>src/workflow/services/tat.service.ts\<close>: turnaround times read off the history of an instance, and
  their aggregates.

  Hours and percentages have two decimals and are carried in hundredths. \<open>Math.round\<close> is exact here:
  in the code a time that lies exactly on a half of a hundredth may come out 0.01 lower,
  because the division before it is a floating-point one.
\<close>

section \<open>Arithmetic\<close>

text \<open>\<open>Math.round(a / b)\<close>, halves up.\<close>

definition round_div :: "int \<Rightarrow> int \<Rightarrow> int" where
  "round_div a b = (2 * a + b) div (2 * b)"

definition hoursBetween :: "instant \<Rightarrow> instant \<Rightarrow> int" where
  "hoursBetween a b = round_div (max (b - a) 0) 36000"

definition percentile :: "int list \<Rightarrow> nat \<Rightarrow> int" where
  "percentile values p =
     (if values = [] then 0
      else let sorted = sort values; rank = (p * length sorted + 99) div 100
           in sorted ! (min (max rank 1) (length sorted) - 1))"

definition mean :: "int list \<Rightarrow> int" where
  "mean values = round_div (sum_list values) (int (length values))"

section \<open>One instance\<close>

record stage_tat =
  sg_stage :: str
  sg_enteredAt :: instant
  sg_exitedAt :: "instant option"
  sg_hours :: int
  sg_slaHours :: "int option"
  sg_breached :: "bool option"
  sg_open :: bool

record instance_tat =
  it_instanceId :: str
  it_workflowId :: str
  it_entityType :: str
  it_entityId :: str
  it_status :: instance_status
  it_startedAt :: instant
  it_completedAt :: "instant option"
  it_totalHours :: int
  it_stages :: "stage_tat list"

text \<open>An instance as a query loaded it: with or without its state and its workflow.\<close>

record loaded =
  ld_row :: wf_instance
  ld_currentState :: "wf_state option"
  ld_workflow :: "workflow option"

fun closed_stages :: "instant \<Rightarrow> history_entry list \<Rightarrow> stage_tat list" where
  "closed_stages cursor [] = []"
| "closed_stages cursor (h # hs) =
     \<lparr>sg_stage = hi_fromState h, sg_enteredAt = cursor, sg_exitedAt = Some (hi_timestamp h),
      sg_hours = hoursBetween cursor (hi_timestamp h), sg_slaHours = None, sg_breached = None,
      sg_open = False\<rparr> # closed_stages (hi_timestamp h) hs"

fun last_cursor :: "instant \<Rightarrow> history_entry list \<Rightarrow> instant" where
  "last_cursor cursor [] = cursor"
| "last_cursor cursor (h # hs) = last_cursor (hi_timestamp h) hs"

definition tat_slaHours :: "loaded \<Rightarrow> int option" where
  "tat_slaHours l =
     (if (case ld_workflow l of None \<Rightarrow> False | Some w \<Rightarrow> sc_enabled (wf_slaConfig w))
      then Option.bind (ld_currentState l) st_slaHours else None)"

definition is_finished :: "wf_instance \<Rightarrow> bool" where
  "is_finished i \<longleftrightarrow> in_status i = InstCompleted \<or> in_status i = InstCancelled"

definition compute :: "instant \<Rightarrow> loaded \<Rightarrow> instance_tat" where
  "compute now l =
     (let i = ld_row l; started = in_createdAt i; cursor = last_cursor started (in_history i);
          entered = nullish (in_stateEnteredAt i) cursor; openHours = hoursBetween entered now;
          slaHours = tat_slaHours l;
          current = \<lparr>sg_stage = (case ld_currentState l of None \<Rightarrow> ''current'' | Some s \<Rightarrow> st_name s),
                     sg_enteredAt = entered, sg_exitedAt = None, sg_hours = openHours,
                     sg_slaHours = slaHours,
                     sg_breached = map_option (\<lambda>sla. openHours > 100 * sla) slaHours, sg_open = True\<rparr>;
          finish = (if is_finished i then nullish (in_completedAt i) cursor else now)
      in \<lparr>it_instanceId = in_id i, it_workflowId = in_workflowId i, it_entityType = in_entityType i,
          it_entityId = in_entityId i, it_status = in_status i, it_startedAt = started,
          it_completedAt = in_completedAt i, it_totalHours = hoursBetween started finish,
          it_stages = closed_stages started (in_history i) @ (if is_finished i then [] else [current])\<rparr>)"

text \<open>The query joins the current state and nothing else.\<close>

definition forInstance :: "wf_db \<Rightarrow> instant \<Rightarrow> str \<Rightarrow> str \<Rightarrow> wf_error + instance_tat" where
  "forInstance db now tenantId iid =
     (case find_one (\<lambda>i. in_id i = iid \<and> in_tenantId i = tenantId) (db_instances db) of
        None \<Rightarrow> Inl InstanceNotFound
      | Some i \<Rightarrow> Inr (compute now \<lparr>ld_row = i, ld_currentState = current_state db i, ld_workflow = None\<rparr>))"

section \<open>Aggregates\<close>

record stage_aggregate =
  ag_stage :: str
  ag_entries :: nat
  ag_meanHours :: int
  ag_medianHours :: int
  ag_p90Hours :: int
  ag_slaHours :: "int option"
  ag_breaches :: nat
  ag_breachRate :: "int option"

record tat_options =
  to_workflowId :: "str option"
  to_since :: "instant option"
  to_limit :: "nat option"

record overall_tat =
  ov_meanHours :: int
  ov_medianHours :: int
  ov_p90Hours :: int

record tat_report =
  tr_reportWorkflowId :: "str option"
  tr_instances :: nat
  tr_stages :: "stage_aggregate list"
  tr_overall :: "overall_tat option"

text \<open>A \<open>Map\<close> of lists in the order its keys were first set.\<close>

fun push_stage :: "stage_tat \<Rightarrow> (str \<times> stage_tat list) list \<Rightarrow> (str \<times> stage_tat list) list" where
  "push_stage s [] = [(sg_stage s, [s])]"
| "push_stage s ((k, xs) # rest) =
     (if k = sg_stage s then (k, xs @ [s]) # rest else (k, xs) # push_stage s rest)"

definition by_stage :: "instance_tat list \<Rightarrow> (str \<times> stage_tat list) list" where
  "by_stage computed =
     fold push_stage (filter (\<lambda>s. \<not> sg_open s) (concat (map it_stages computed))) []"

definition stage_summary :: "str \<Rightarrow> stage_tat list \<Rightarrow> stage_aggregate" where
  "stage_summary stage entries =
     (let hours = map sg_hours entries;
          withSla = length (filter (\<lambda>e. sg_slaHours e \<noteq> None) entries);
          breaches = length (filter (\<lambda>e. sg_breached e = Some True) entries)
      in \<lparr>ag_stage = stage, ag_entries = length entries, ag_meanHours = mean hours,
          ag_medianHours = percentile hours 50, ag_p90Hours = percentile hours 90,
          ag_slaHours = Option.bind (find_one (\<lambda>e. sg_slaHours e \<noteq> None) entries) sg_slaHours,
          ag_breaches = breaches,
          ag_breachRate = (if withSla = 0 then None
                           else Some (round_div (int breaches * 10000) (int withSla)))\<rparr>)"

definition tat_rows :: "wf_db \<Rightarrow> str \<Rightarrow> tat_options \<Rightarrow> wf_instance list" where
  "tat_rows db tenantId opts =
     take (min (nullish (to_limit opts) 500) 2000)
       (sort_key (\<lambda>i. - in_createdAt i)
         (find_where (\<lambda>i. in_tenantId i = tenantId
            \<and> (truthy_str (to_workflowId opts) \<longrightarrow> in_workflowId i = the (to_workflowId opts))
            \<and> (case to_since opts of None \<Rightarrow> True | Some since \<Rightarrow> since \<le> in_createdAt i))
          (db_instances db)))"

definition aggregate :: "wf_db \<Rightarrow> instant \<Rightarrow> str \<Rightarrow> tat_options \<Rightarrow> tat_report" where
  "aggregate db now tenantId opts =
     (let computed = map (\<lambda>i. compute now \<lparr>ld_row = i, ld_currentState = None, ld_workflow = None\<rparr>)
                       (tat_rows db tenantId opts);
          completed = map it_totalHours (filter (\<lambda>c. it_status c = InstCompleted) computed)
      in \<lparr>tr_reportWorkflowId = to_workflowId opts, tr_instances = length computed,
          tr_stages = sort_key (\<lambda>a. - ag_meanHours a)
            (map (\<lambda>(stage, entries). stage_summary stage entries) (by_stage computed)),
          tr_overall = (if completed = [] then None
            else Some \<lparr>ov_meanHours = mean completed, ov_medianHours = percentile completed 50,
                       ov_p90Hours = percentile completed 90\<rparr>)\<rparr>)"

section \<open>Lemmas\<close>

lemma hours_nonneg: "0 \<le> hoursBetween a b"
  unfolding hoursBetween_def round_div_def by (rule pos_imp_zdiv_nonneg_iff [THEN iffD2]) auto

lemma length_closed [simp]: "length (closed_stages c hs) = length hs"
  by (induction c hs rule: closed_stages.induct) simp_all

lemma closed_never_judged:
  "s \<in> set (closed_stages c hs) \<Longrightarrow> \<not> sg_open s \<and> sg_slaHours s = None \<and> sg_breached s = None"
  by (induction c hs rule: closed_stages.induct) auto

text \<open>Stages are contiguous: each is entered when the one before it is left.\<close>

fun contiguous :: "instant \<Rightarrow> stage_tat list \<Rightarrow> instant \<Rightarrow> bool" where
  "contiguous a [] b = (a = b)"
| "contiguous a (s # ss) b =
     (sg_enteredAt s = a \<and> (\<exists>x. sg_exitedAt s = Some x \<and> sg_hours s = hoursBetween a x \<and> contiguous x ss b))"

lemma closed_contiguous: "contiguous c (closed_stages c hs) (last_cursor c hs)"
  by (induction c hs rule: closed_stages.induct) simp_all

section \<open>Properties\<close>

text \<open>
  The closed stages of an instance are its history, one stage per entry and in
  order; they tile the time from its creation to its last transition without a gap or an overlap, and
  an instance that is not finished has exactly one open stage after them.
\<close>

theorem stages_tile_the_history:
  "\<exists>closed. it_stages (compute now l) = closed @ (if is_finished (ld_row l) then [] else [last (it_stages (compute now l))])
     \<and> map sg_stage closed = map hi_fromState (in_history (ld_row l))
     \<and> contiguous (in_createdAt (ld_row l)) closed (last_cursor (in_createdAt (ld_row l)) (in_history (ld_row l)))
     \<and> (\<forall>s \<in> set closed. \<not> sg_open s)
     \<and> (\<not> is_finished (ld_row l) \<longrightarrow> sg_open (last (it_stages (compute now l))))"
proof (intro exI conjI)
  let ?closed = "closed_stages (in_createdAt (ld_row l)) (in_history (ld_row l))"
  show "it_stages (compute now l) = ?closed @ (if is_finished (ld_row l) then [] else [last (it_stages (compute now l))])"
    by (simp add: compute_def Let_def)
  have "map sg_stage (closed_stages c hs) = map hi_fromState hs" for c hs
    by (induction c hs rule: closed_stages.induct) simp_all
  then show "map sg_stage ?closed = map hi_fromState (in_history (ld_row l))" .
  show "contiguous (in_createdAt (ld_row l)) ?closed (last_cursor (in_createdAt (ld_row l)) (in_history (ld_row l)))"
    by (rule closed_contiguous)
  show "\<forall>s \<in> set ?closed. \<not> sg_open s" using closed_never_judged by blast
  show "\<not> is_finished (ld_row l) \<longrightarrow> sg_open (last (it_stages (compute now l)))"
    by (simp add: compute_def Let_def)
qed

text \<open>The stages of one tenant's instance with two transitions, one of them a step back.\<close>

lemma stages_tile_the_history_witness:
  "map sg_stage (it_stages (compute 9 \<lparr>ld_row = demo_instance, ld_currentState = None, ld_workflow = None\<rparr>)) = [''current'']"
  using stages_tile_the_history [of 9 "\<lparr>ld_row = demo_instance, ld_currentState = None, ld_workflow = None\<rparr>"]
  by (simp add: compute_def Let_def demo_instance_def is_finished_def)

lemma sorted_nth_count:
  assumes "sorted xs" "k < length xs"
  shows "k < length (filter (\<lambda>x. x \<le> xs ! k) xs)" "length xs - k \<le> length (filter (\<lambda>x. xs ! k \<le> x) xs)"
proof -
  let ?n = "length xs"
  have "{0..k} \<subseteq> {i. i < ?n \<and> xs ! i \<le> xs ! k}" "{k..<?n} \<subseteq> {i. i < ?n \<and> xs ! k \<le> xs ! i}"
    using assms by (auto simp: sorted_iff_nth_mono)
  then have "card {0..k} \<le> card {i. i < ?n \<and> xs ! i \<le> xs ! k}"
    "card {k..<?n} \<le> card {i. i < ?n \<and> xs ! k \<le> xs ! i}"
    by (intro card_mono; simp)+
  then show "k < length (filter (\<lambda>x. x \<le> xs ! k) xs)" "?n - k \<le> length (filter (\<lambda>x. xs ! k \<le> x) xs)"
    by (simp_all add: length_filter_conv_card)
qed

text \<open>
  A percentile is one of the values; at least \<open>p\<close> percent of the values are at
  most it, and fewer than \<open>p\<close> percent of the values are missing above: at least the rest is at least it.
\<close>

theorem percentile_nearest_rank:
  assumes "values \<noteq> []" "p \<le> 100"
  shows "percentile values p \<in> set values
    \<and> p * length values \<le> 100 * length (filter (\<lambda>v. v \<le> percentile values p) values)
    \<and> (100 - p) * length values \<le> 100 * length (filter (\<lambda>v. percentile values p \<le> v) values)"
proof -
  let ?n = "length values" and ?s = "sort values"
  define rank where "rank = (p * ?n + 99) div 100"
  define k where "k = min (max rank 1) ?n - 1"
  have n: "0 < ?n" using assms(1) by simp
  have div: "x \<le> 100 * ((x + 99) div 100)" "100 * ((x + 99) div 100) \<le> x + 99" for x :: nat
    using mult_div_mod_eq [of 100 "x + 99"] mod_less_divisor [of 100 "x + 99"] by linarith+
  have rank: "p * ?n \<le> 100 * rank" "100 * rank \<le> p * ?n + 99"
    unfolding rank_def by (rule div)+
  have "p * ?n \<le> 100 * ?n" using assms(2) by simp
  then have "rank \<le> ?n" using rank(2) by linarith
  then have k: "k < ?n" "rank \<le> Suc k" "rank = 0 \<and> k = 0 \<or> rank = Suc k"
    unfolding k_def using n by (auto simp: min_def max_def)
  have pc: "percentile values p = ?s ! k" using assms(1) by (simp add: percentile_def Let_def k_def rank_def)
  have mset: "length (filter P ?s) = length (filter P values)" for P
    by (metis mset_filter mset_sort size_mset)
  have counts: "k < length (filter (\<lambda>v. v \<le> ?s ! k) values)" "?n - k \<le> length (filter (\<lambda>v. ?s ! k \<le> v) values)"
    using sorted_nth_count [of ?s k] k(1) unfolding mset by simp_all
  have low: "p * ?n \<le> 100 * Suc k" by (rule order_trans [OF rank(1)]) (use k(2) in simp)
  have "100 * k \<le> p * ?n" using rank(2) k(3) by (auto simp del: mult_Suc)
  then have high: "(100 - p) * ?n \<le> 100 * (?n - k)"
    by (simp add: diff_mult_distrib diff_mult_distrib2)
  have "?s ! k \<in> set values" using k(1) nth_mem [of k ?s] by simp
  moreover have "100 * Suc k \<le> 100 * length (filter (\<lambda>v. v \<le> ?s ! k) values)"
    "100 * (?n - k) \<le> 100 * length (filter (\<lambda>v. ?s ! k \<le> v) values)"
    using counts by simp_all
  ultimately show ?thesis unfolding pc using low high by (meson order_trans)
qed

lemma percentile_nearest_rank_witness:
  "percentile [5, 1, 9, 3] 90 = 9 \<and> percentile [5, 1, 9, 3] 90 \<in> set [5, 1, 9, 3]
   \<and> 90 * length [5 :: int, 1, 9, 3] \<le> 100 * length (filter (\<lambda>v. v \<le> percentile [5, 1, 9, 3] 90) [5, 1, 9, 3])"
  using percentile_nearest_rank [of "[5, 1, 9, 3]" 90] by (simp add: percentile_def)

lemma set_by_stage_judged:
  assumes "\<forall>s \<in> set ss. sg_slaHours s = None \<and> sg_breached s = None"
    and "\<forall>(k, xs) \<in> set acc. \<forall>s \<in> set xs. sg_slaHours s = None \<and> sg_breached s = None"
  shows "\<forall>(k, xs) \<in> set (fold push_stage ss acc). \<forall>s \<in> set xs. sg_slaHours s = None \<and> sg_breached s = None"
  using assms
proof (induction ss arbitrary: acc)
  case (Cons s ss)
  have "\<forall>(k, xs) \<in> set (push_stage s acc). \<forall>s \<in> set xs. sg_slaHours s = None \<and> sg_breached s = None"
    using Cons.prems by (induction s acc rule: push_stage.induct) auto
  then show ?case using Cons by simp
qed simp

text \<open>
  No stage is ever measured against its SLA: whatever the workflow and its
  states declare, the turnaround of an instance and every aggregate report neither a limit nor
  a breach, because neither query loads the workflow.
\<close>

theorem no_sla_is_ever_judged:
  "(\<forall>t. forInstance db now T iid = Inr t \<longrightarrow>
       (\<forall>s \<in> set (it_stages t). sg_slaHours s = None \<and> sg_breached s = None))
   \<and> (\<forall>a \<in> set (tr_stages (aggregate db now T opts)).
       ag_slaHours a = None \<and> ag_breaches a = 0 \<and> ag_breachRate a = None)"
proof
  have stages: "sg_slaHours s = None \<and> sg_breached s = None"
    if "s \<in> set (it_stages (compute now \<lparr>ld_row = i, ld_currentState = c, ld_workflow = None\<rparr>))" for s i c
    using that closed_never_judged by (auto simp: compute_def Let_def tat_slaHours_def split: if_splits)
  then show "\<forall>t. forInstance db now T iid = Inr t \<longrightarrow>
      (\<forall>s \<in> set (it_stages t). sg_slaHours s = None \<and> sg_breached s = None)"
    by (auto simp: forInstance_def split: option.splits)
  let ?computed = "map (\<lambda>i. compute now \<lparr>ld_row = i, ld_currentState = None, ld_workflow = None\<rparr>) (tat_rows db T opts)"
  have judged: "\<forall>(k, xs) \<in> set (by_stage ?computed). \<forall>s \<in> set xs. sg_slaHours s = None \<and> sg_breached s = None"
    unfolding by_stage_def by (rule set_by_stage_judged) (use stages in auto)
  show "\<forall>a \<in> set (tr_stages (aggregate db now T opts)).
      ag_slaHours a = None \<and> ag_breaches a = 0 \<and> ag_breachRate a = None"
  proof
    fix a assume "a \<in> set (tr_stages (aggregate db now T opts))"
    then obtain k xs where kxs: "(k, xs) \<in> set (by_stage ?computed)" and a: "a = stage_summary k xs"
      by (auto simp: aggregate_def Let_def)
    have xs: "\<forall>s \<in> set xs. sg_slaHours s = None \<and> sg_breached s = None" using judged kxs by auto
    then have "find_one (\<lambda>e. sg_slaHours e \<noteq> None) xs = None" by (simp add: find_one_None_iff)
    moreover have "filter (\<lambda>e. sg_slaHours e \<noteq> None) xs = []" "filter (\<lambda>e. sg_breached e = Some True) xs = []"
      using xs by (auto simp: filter_empty_conv)
    ultimately show "ag_slaHours a = None \<and> ag_breaches a = 0 \<and> ag_breachRate a = None"
      by (simp add: a stage_summary_def Let_def)
  qed
qed

lemma no_sla_is_ever_judged_witness:
  "forInstance demo_db 9 ''T'' ''i1'' \<noteq> Inl InstanceNotFound
   \<and> (\<forall>a \<in> set (tr_stages (aggregate demo_db 9 ''T'' \<lparr>to_workflowId = None, to_since = None, to_limit = None\<rparr>)).
        ag_breachRate a = None)"
  using no_sla_is_ever_judged [of demo_db 9 "''T''" "''i1''" "\<lparr>to_workflowId = None, to_since = None, to_limit = None\<rparr>"]
  by (simp add: forInstance_def demo_db_def) (simp add: demo_instance_def)

text \<open>What the same computation would say with the workflow loaded.\<close>

lemma a_loaded_workflow_is_judged:
  "tat_slaHours \<lparr>ld_row = demo_instance,
     ld_currentState = Some \<lparr>st_id = ''s1'', st_workflowId = ''w1'', st_name = ''draft'', st_type = StateStart,
                        st_description = None, st_slaHours = Some 4\<rparr>,
     ld_workflow = Some \<lparr>wf_id = ''w1'', wf_tenantId = ''T'', wf_name = ''W'', wf_description = None,
       wf_entityType = ''case'', wf_status = WfActive, wf_trigger = TriggerManual, wf_triggerConfig = [],
       wf_version = 1, wf_slaConfig = \<lparr>sc_enabled = True, sc_escalationLevels = None\<rparr>, wf_createdAt = 0\<rparr>\<rparr> = Some 4"
  by (simp add: tat_slaHours_def)

end
