(* ===== verification/Json.thy ===== *)
theory Json
  imports JsOps
begin

text \<open>
  \<open>JSON.parse\<close> and \<open>Number.prototype.toString\<close>, for the code that reads conditions and answers out of
  text. The text is cut into tokens, and the tokens drive a stack of open arrays and
  objects. Strings are UTF-8; an escaped surrogate pair becomes its character.

  Numbers are printed from their decimal digits, which are those of the double for up to 15
  significant digits.
\<close>

section \<open>Numbers\<close>

definition number_text :: "int \<Rightarrow> int \<Rightarrow> str" where
  "number_text m e =
     (if m = 0 then ''0''
      else let ds = digits_of (nat \<bar>m\<bar>);
               z = length (takeWhile (\<lambda>c. c = CHR ''0'') (rev ds));
               s = take (length ds - z) ds; k = length s; n = int k + e + int z;
               body = (if int k \<le> n \<and> n \<le> 21 then s @ replicate (nat n - k) (CHR ''0'')
                       else if 0 < n \<and> n \<le> 21 then take (nat n) s @ ''.'' @ drop (nat n) s
                       else if - 6 < n \<and> n \<le> 0 then ''0.'' @ replicate (nat (- n)) (CHR ''0'') @ s
                       else (if k = 1 then s else take 1 s @ ''.'' @ drop 1 s)
                            @ (if n > 0 then ''e+'' else ''e-'') @ digits_of (nat \<bar>n - 1\<bar>))
           in if m < 0 then CHR ''-'' # body else body)"

fun num_text :: "js_num \<Rightarrow> str" where
  "num_text NaN = ''NaN''"
| "num_text PosInf = ''Infinity''"
| "num_text NegInf = ''-Infinity''"
| "num_text (Fin m e) = number_text m e"

lemma number_text_examples:
  "map (\<lambda>(m, e). number_text m e) [(0, 5), (- 1500, - 2), (5, - 1), (12, 3), (1, 21), (1, - 7), (125, - 9)]
     = [''0'', ''-15'', ''0.5'', ''12000'', ''1e+21'', ''1e-7'', ''1.25e-7'']"
  by code_simp

section \<open>Tokens\<close>

datatype token = TokObjOpen | TokObjClose | TokArrOpen | TokArrClose | TokColon | TokComma | TokValue js

definition utf8 :: "nat \<Rightarrow> str" where
  "utf8 u =
     (if u < 128 then [char_of u]
      else if u < 2048 then [char_of (192 + u div 64), char_of (128 + u mod 64)]
      else if u < 65536 then [char_of (224 + u div 4096), char_of (128 + u div 64 mod 64), char_of (128 + u mod 64)]
      else [char_of (240 + u div 262144), char_of (128 + u div 4096 mod 64),
            char_of (128 + u div 64 mod 64), char_of (128 + u mod 64)])"

definition hex4 :: "str \<Rightarrow> nat option" where
  "hex4 s = (if length (take 4 s) = 4 \<and> list_all (\<lambda>c. hex_value c \<noteq> None) (take 4 s)
     then Some (foldl (\<lambda>n c. 16 * n + the (hex_value c)) 0 (take 4 s)) else None)"

definition simple_escapes :: "(char \<times> char) list" where
  "simple_escapes = [(CHR 0x22, CHR 0x22), (CHR 0x5C, CHR 0x5C), (CHR ''/'', CHR ''/''), (CHR ''b'', CHR 0x08),
     (CHR ''f'', CHR 0x0C), (CHR ''n'', CHR 0x0A), (CHR ''r'', CHR 0x0D), (CHR ''t'', CHR 0x09)]"

text \<open>What follows a backslash: the bytes it stands for and the rest of the text.\<close>

definition escape :: "str \<Rightarrow> (str \<times> str) option" where
  "escape s =
     (case s of [] \<Rightarrow> None
      | c # cs \<Rightarrow>
          if c = CHR ''u'' then
            (case hex4 cs of None \<Rightarrow> None
             | Some u \<Rightarrow>
                 (case (if 0xD800 \<le> u \<and> u < 0xDC00 \<and> take 2 (drop 4 cs) = [CHR 0x5C, CHR ''u'']
                        then hex4 (drop 6 cs) else None) of
                    Some l \<Rightarrow> if 0xDC00 \<le> l \<and> l < 0xE000
                               then Some (utf8 (0x10000 + (u - 0xD800) * 1024 + (l - 0xDC00)), drop 10 cs)
                               else Some (utf8 u, drop 4 cs)
                  | None \<Rightarrow> Some (utf8 u, drop 4 cs)))
          else map_option (\<lambda>x. ([x], cs)) (map_of simple_escapes c))"

lemma escape_shorter: "escape s = Some (out, rest) \<Longrightarrow> length rest < length s"
  by (cases s) (auto simp: escape_def split: if_splits option.splits)

text \<open>The content of a string up to its closing quote, and what follows the quote.\<close>

function scan_string :: "str \<Rightarrow> (str \<times> str) option" where
  "scan_string [] = None"
| "scan_string (c # cs) =
     (if c = CHR 0x22 then Some ([], cs)
      else if c = CHR 0x5C
      then (case escape cs of None \<Rightarrow> None
            | Some (out, rest) \<Rightarrow> map_option (\<lambda>(t, r). (out @ t, r)) (scan_string rest))
      else if of_char c < (32 :: nat) then None
      else map_option (\<lambda>(t, r). (c # t, r)) (scan_string cs))"
  by pat_completeness auto
termination
  by (relation "measure length") (auto dest: escape_shorter)

lemma scan_string_shorter: "scan_string s = Some (t, rest) \<Longrightarrow> length rest < length s"
proof (induction s arbitrary: t rest rule: scan_string.induct)
  case (2 c cs)
  then show ?case
    by (auto split: if_splits option.splits prod.splits dest!: escape_shorter intro: less_trans)
       (fastforce dest: escape_shorter)+
qed simp

definition json_ws :: "char \<Rightarrow> bool" where
  "json_ws c \<longleftrightarrow> of_char c \<in> {9, 10, 13, 32 :: nat}"

definition num_char :: "char \<Rightarrow> bool" where
  "num_char c \<longleftrightarrow> is_digit c \<or> c \<in> {CHR ''-'', CHR ''+'', CHR ''.'', CHR ''e'', CHR ''E''}"

text \<open>\<open>-?(0|[1-9]\d*)(\.\d+)?([eE][+-]?\d+)?\<close>.\<close>

definition json_number :: "str \<Rightarrow> js option" where
  "json_number text =
     (let s = (case text of c # cs \<Rightarrow> if c = CHR ''-'' then cs else text | [] \<Rightarrow> []);
          ip = takeWhile is_digit s; r = dropWhile is_digit s;
          ok_int = (ip \<noteq> [] \<and> (hd ip = CHR ''0'' \<longrightarrow> length ip = 1));
          ok_exp = (\<lambda>t. case t of [] \<Rightarrow> True
             | c # cs \<Rightarrow> (c = CHR ''e'' \<or> c = CHR ''E'') \<and> snd (signed_text cs) \<noteq> []
                          \<and> list_all is_digit (snd (signed_text cs)));
          ok_rest = (case r of [] \<Rightarrow> True
             | c # cs \<Rightarrow> if c = CHR ''.'' then takeWhile is_digit cs \<noteq> [] \<and> ok_exp (dropWhile is_digit cs)
                          else ok_exp r)
      in if ok_int \<and> ok_rest then Some (JNum (num_text (parse_decimal text))) else None)"

definition json_word :: "str \<Rightarrow> js option" where
  "json_word w = (if w = ''true'' then Some (JBool True) else if w = ''false'' then Some (JBool False)
     else if w = ''null'' then Some JNull else None)"

definition punctuation :: "char \<Rightarrow> token option" where
  "punctuation c = map_of [(CHR ''{'', TokObjOpen), (CHR ''}'', TokObjClose), (CHR ''['', TokArrOpen),
     (CHR '']'', TokArrClose), (CHR '':'', TokColon), (CHR '','', TokComma)] c"

definition is_lower :: "char \<Rightarrow> bool" where
  "is_lower c \<longleftrightarrow> (let n = of_char c :: nat in 97 \<le> n \<and> n \<le> 122)"

text \<open>The first token of a text that does not start with white space.\<close>

definition next_token :: "str \<Rightarrow> (token \<times> str) option" where
  "next_token s =
     (case s of [] \<Rightarrow> None
      | c # cs \<Rightarrow>
          (case punctuation c of
             Some t \<Rightarrow> Some (t, cs)
           | None \<Rightarrow>
               if c = CHR 0x22 then map_option (\<lambda>(t, r). (TokValue (JStr t), r)) (scan_string cs)
               else if num_char c
               then map_option (\<lambda>v. (TokValue v, dropWhile num_char cs)) (json_number (c # takeWhile num_char cs))
               else map_option (\<lambda>v. (TokValue v, dropWhile is_lower cs)) (json_word (c # takeWhile is_lower cs))))"

lemma next_token_shorter: "next_token s = Some (t, rest) \<Longrightarrow> length rest < length s"
  by (cases s)
     (auto simp: next_token_def le_imp_less_Suc length_dropWhile_le less_SucI
        split: option.splits if_splits dest!: scan_string_shorter)

function tokens :: "str \<Rightarrow> token list option" where
  "tokens s =
     (let s' = dropWhile json_ws s in
      if s' = [] then Some []
      else case next_token s' of None \<Rightarrow> None
           | Some (t, rest) \<Rightarrow> map_option (\<lambda>ts. t # ts) (tokens rest))"
  by pat_completeness auto
termination
proof (relation "measure length")
  fix s s' and a :: "token \<times> str" and t rest
  assume "s' = dropWhile json_ws s" "next_token s' = Some a" "(t, rest) = a"
  then have "length rest < length s'" by (auto dest: next_token_shorter)
  then show "(rest, s) \<in> measure length"
    using \<open>s' = _\<close> length_dropWhile_le [of json_ws s] by auto
qed simp

section \<open>Values\<close>

text \<open>
  An open array or object, and what may come next. A key is set with the last value it is
  given.
\<close>

datatype frame = InArray "js list" | InObject js_obj str

datatype expect = ValueNext | ValueOrClose | KeyNext js_obj | KeyOrClose | ColonNext js_obj str | AfterValue js

datatype parser_state = Parsing "frame list" expect | Failed

fun json_step :: "token \<Rightarrow> parser_state \<Rightarrow> parser_state" where
  "json_step t Failed = Failed"
| "json_step t (Parsing fs (KeyNext ob)) =
     (case t of TokValue (JStr k) \<Rightarrow> Parsing fs (ColonNext ob k) | _ \<Rightarrow> Failed)"
| "json_step t (Parsing fs KeyOrClose) =
     (case t of TokValue (JStr k) \<Rightarrow> Parsing fs (ColonNext [] k)
      | TokObjClose \<Rightarrow> Parsing fs (AfterValue (JObj [])) | _ \<Rightarrow> Failed)"
| "json_step t (Parsing fs (ColonNext ob k)) =
     (if t = TokColon then Parsing (InObject ob k # fs) ValueNext else Failed)"
| "json_step t (Parsing fs (AfterValue v)) =
     (case fs of
        [] \<Rightarrow> Failed
      | InArray xs # fs' \<Rightarrow>
          (if t = TokComma then Parsing (InArray (xs @ [v]) # fs') ValueNext
           else if t = TokArrClose then Parsing fs' (AfterValue (JArr (xs @ [v]))) else Failed)
      | InObject ob k # fs' \<Rightarrow>
          (if t = TokComma then Parsing fs' (KeyNext (obj_set k v ob))
           else if t = TokObjClose then Parsing fs' (AfterValue (JObj (obj_set k v ob))) else Failed))"
| "json_step t (Parsing fs ValueOrClose) =
     (if t = TokArrClose then (case fs of InArray [] # fs' \<Rightarrow> Parsing fs' (AfterValue (JArr [])) | _ \<Rightarrow> Failed)
      else case t of TokValue v \<Rightarrow> Parsing fs (AfterValue v)
           | TokArrOpen \<Rightarrow> Parsing (InArray [] # fs) ValueOrClose
           | TokObjOpen \<Rightarrow> Parsing fs KeyOrClose | _ \<Rightarrow> Failed)"
| "json_step t (Parsing fs ValueNext) =
     (case t of TokValue v \<Rightarrow> Parsing fs (AfterValue v)
      | TokArrOpen \<Rightarrow> Parsing (InArray [] # fs) ValueOrClose
      | TokObjOpen \<Rightarrow> Parsing fs KeyOrClose | _ \<Rightarrow> Failed)"

definition json_parse :: "str \<Rightarrow> js option" where
  "json_parse text =
     (case tokens text of None \<Rightarrow> None
      | Some ts \<Rightarrow> (case fold json_step ts (Parsing [] ValueNext) of
                      Parsing [] (AfterValue v) \<Rightarrow> Some v | _ \<Rightarrow> None))"

lemma json_parse_example:
  "json_parse ''{ \"a\" : [1.50, true, {}], \"b\": null }''
     = Some (JObj [(''a'', JArr [JNum ''1.5'', JBool True, JObj []]), (''b'', JNull)])"
  by code_simp

lemma json_parse_refuses: "json_parse ''[1,]'' = None \<and> json_parse ''{a:1}'' = None \<and> json_parse ''01'' = None"
  by code_simp

end
