(* ===== verification/PackCondition.thy ===== *)
theory PackCondition
  imports Json Workflow
begin

text \<open>
  \<^verbatim>\<open>src/workflow/services/pack-condition.ts\<close>: the compiler from the condition texts of a pack to
  JsonLogic. The regular expressions are scanners here: each alternative can match in one
  way only, since what follows a path is white space or an operator, and what follows a literal is white
  space to the end.
\<close>

datatype compile_error =
    JsonNotAnObject | InvalidJson | NotALiteral str | UnsupportedSyntax

record compiled_condition =
  cc_jsonLogic :: js
  cc_source :: str

section \<open>Scanners\<close>

definition ident_start :: "char \<Rightarrow> bool" where
  "ident_start c \<longleftrightarrow> is_word c \<and> \<not> is_digit c"

text \<open>\<open>[A-Za-z_]\w*\<close> at the front.\<close>

definition scan_ident :: "str \<Rightarrow> (str \<times> str) option" where
  "scan_ident s = (if s \<noteq> [] \<and> ident_start (hd s) then Some (takeWhile is_word s, dropWhile is_word s) else None)"

lemma scan_ident_shorter: "scan_ident s = Some (p, r) \<Longrightarrow> length r < length s"
proof -
  assume a: "scan_ident s = Some (p, r)"
  then obtain c cs where s: "s = c # cs" "is_word c" "r = dropWhile is_word cs"
    by (cases s) (auto simp: scan_ident_def ident_start_def split: if_splits)
  then show ?thesis using length_dropWhile_le [of is_word cs] by simp
qed

text \<open>\<open>PATH\<close>: identifiers joined by dots.\<close>

function scan_path :: "str \<Rightarrow> (str \<times> str) option" where
  "scan_path s =
     (case scan_ident s of None \<Rightarrow> None
      | Some (p, r) \<Rightarrow>
          (case r of [] \<Rightarrow> Some (p, r)
           | c # cs \<Rightarrow>
               if c = CHR ''.'' then
                 (case scan_path cs of None \<Rightarrow> Some (p, r)
                  | Some (q, r') \<Rightarrow> Some (p @ ''.'' @ q, r'))
               else Some (p, r)))"
  by pat_completeness auto
termination
  by (relation "measure length") (auto dest: scan_ident_shorter)

definition COMPARISONS :: "str list" where
  "COMPARISONS = [''==='', ''!=='', ''=='', ''!='', ''>='', ''<='', ''>'', ''<'']"

definition starts_with :: "str \<Rightarrow> str \<Rightarrow> bool" where
  "starts_with p s \<longleftrightarrow> take (length p) s = p"

text \<open>The longest operator at the front is the first of the list.\<close>

definition scan_op :: "str \<Rightarrow> (str \<times> str) option" where
  "scan_op s = map_option (\<lambda>p. (p, drop (length p) s)) (find_one (\<lambda>p. starts_with p s) COMPARISONS)"

text \<open>\<open>(?:[^q\\]|\\.)*q\<close> for the quote \<open>q\<close>: the raw content and what follows the quote.\<close>

fun scan_quoted :: "char \<Rightarrow> str \<Rightarrow> (str \<times> str) option" where
  "scan_quoted q [] = None"
| "scan_quoted q (c # cs) =
     (if c = q then Some ([], cs)
      else if c = CHR 0x5C
      then (case cs of [] \<Rightarrow> None
            | d # ds \<Rightarrow> if of_char d \<in> {10, 13 :: nat} then None
                        else map_option (\<lambda>(t, r). (c # d # t, r)) (scan_quoted q ds))
      else map_option (\<lambda>(t, r). (c # t, r)) (scan_quoted q cs))"

text \<open>\<open>-?\d+(?:\.\d+)?\<close>, the longest match.\<close>

definition scan_number :: "str \<Rightarrow> (str \<times> str) option" where
  "scan_number s =
     (let (sign, t) = (case s of c # cs \<Rightarrow> if c = CHR ''-'' then ([c], cs) else ([], s) | [] \<Rightarrow> ([], []));
          ip = takeWhile is_digit t; r = dropWhile is_digit t
      in if ip = [] then None
         else case r of
                c # cs \<Rightarrow> if c = CHR ''.'' \<and> takeWhile is_digit cs \<noteq> []
                          then Some (sign @ ip @ ''.'' @ takeWhile is_digit cs, dropWhile is_digit cs)
                          else Some (sign @ ip, r)
              | [] \<Rightarrow> Some (sign @ ip, []))"

definition scan_word :: "str \<Rightarrow> (js \<times> str) option" where
  "scan_word s =
     (if starts_with ''true'' s then Some (JBool True, drop 4 s)
      else if starts_with ''false'' s then Some (JBool False, drop 5 s)
      else if starts_with ''null'' s then Some (JNull, drop 4 s) else None)"

text \<open>\<open>replace(/\\(.)/g, '$1')\<close>.\<close>

fun unescape :: "str \<Rightarrow> str" where
  "unescape [] = []"
| "unescape (c # cs) =
     (if c = CHR 0x5C then (case cs of [] \<Rightarrow> [c]
        | d # ds \<Rightarrow> if of_char d \<in> {10, 13 :: nat} then c # unescape cs else d # unescape ds)
      else c # unescape cs)"

text \<open>\<open>LITERAL\<close> to the end of the text, and its value.\<close>

definition literal :: "str \<Rightarrow> js option" where
  "literal s =
     (case s of [] \<Rightarrow> None
      | c # cs \<Rightarrow>
          (let ended = (\<lambda>x. case x of None \<Rightarrow> None | Some (v, r) \<Rightarrow> if list_all is_ws r then Some v else None)
           in if c = CHR 0x27 \<or> c = CHR 0x22
              then ended (map_option (\<lambda>(t, r). (JStr (unescape t), r)) (scan_quoted c cs))
              else case scan_number s of
                     Some (n, r) \<Rightarrow> ended (Some (JNum (num_text (parse_decimal n)), r))
                   | None \<Rightarrow> ended (scan_word s)))"

section \<open>The two forms\<close>

abbreviation skip_ws :: "str \<Rightarrow> str" where
  "skip_ws s \<equiv> dropWhile is_ws s"

definition var_of :: "str \<Rightarrow> js" where
  "var_of path = JObj [(''var'', JStr path)]"

definition parse_comparison :: "str \<Rightarrow> js option" where
  "parse_comparison text =
     (case scan_path (skip_ws text) of None \<Rightarrow> None
      | Some (path, r) \<Rightarrow>
          (case scan_op (skip_ws r) of None \<Rightarrow> None
           | Some (operator, r') \<Rightarrow>
               map_option (\<lambda>v. JObj [(operator, JArr [var_of path, v])]) (literal (skip_ws r'))))"

text \<open>\<open>in\<close> or \<open>not in\<close>, with whether it is negated.\<close>

definition scan_member :: "str \<Rightarrow> (bool \<times> str) option" where
  "scan_member s =
     (if starts_with ''not'' s \<and> drop 3 s \<noteq> [] \<and> is_ws (hd (drop 3 s))
         \<and> starts_with ''in'' (skip_ws (drop 3 s))
      then Some (True, drop 2 (skip_ws (drop 3 s)))
      else if starts_with ''in'' s then Some (False, drop 2 s) else None)"

text \<open>The path, the negation and the text between the brackets.\<close>

definition parse_membership :: "str \<Rightarrow> (str \<times> bool \<times> str) option" where
  "parse_membership text =
     (case scan_path (skip_ws text) of None \<Rightarrow> None
      | Some (path, r) \<Rightarrow>
          if r = [] \<or> \<not> is_ws (hd r) then None
          else (case scan_member (skip_ws r) of None \<Rightarrow> None
                | Some (neg, r') \<Rightarrow>
                    (case skip_ws r' of
                       c # cs \<Rightarrow>
                         if c = CHR ''['' \<and> dropWhile (\<lambda>d. d \<noteq> CHR '']'') cs \<noteq> []
                            \<and> list_all is_ws (tl (dropWhile (\<lambda>d. d \<noteq> CHR '']'') cs))
                         then Some (path, neg, takeWhile (\<lambda>d. d \<noteq> CHR '']'') cs) else None
                     | [] \<Rightarrow> None)))"

fun literals :: "str list \<Rightarrow> compile_error + js list" where
  "literals [] = Inr []"
| "literals (s # ss) =
     (case literal s of None \<Rightarrow> Inl (NotALiteral s)
      | Some v \<Rightarrow> and_then (literals ss) (\<lambda>vs. Inr (v # vs)))"

definition list_values :: "str \<Rightarrow> compile_error + js list" where
  "list_values inner = literals (filter (\<lambda>s. s \<noteq> []) (map trim (split_on (CHR '','') inner)))"

definition compileCondition :: "str option \<Rightarrow> compile_error + compiled_condition" where
  "compileCondition source =
     (case source of
        None \<Rightarrow> Inr \<lparr>cc_jsonLogic = JBool True, cc_source = []\<rparr>
      | Some src \<Rightarrow>
          (let text = trim src in
           if text = [] then Inr \<lparr>cc_jsonLogic = JBool True, cc_source = []\<rparr>
           else if hd text = CHR ''{'' then
             (case json_parse text of
                None \<Rightarrow> Inl InvalidJson
              | Some (JObj kvs) \<Rightarrow> Inr \<lparr>cc_jsonLogic = JObj kvs, cc_source = src\<rparr>
              | Some _ \<Rightarrow> Inl JsonNotAnObject)
           else case parse_comparison text of
                  Some logic \<Rightarrow> Inr \<lparr>cc_jsonLogic = logic, cc_source = src\<rparr>
                | None \<Rightarrow>
                    (case parse_membership text of
                       Some (path, neg, inner) \<Rightarrow>
                         and_then (list_values inner)
                           (\<lambda>vs. let inClause = JObj [(''in'', JArr [var_of path, JArr vs])]
                                 in Inr \<lparr>cc_jsonLogic = (if neg then JObj [(''!'', inClause)] else inClause),
                                         cc_source = src\<rparr>)
                     | None \<Rightarrow> Inl UnsupportedSyntax)))"

lemma compile_examples:
  "compileCondition (Some ''matter.subclass in ['500','485']'')
     = Inr \<lparr>cc_jsonLogic = JObj [(''in'', JArr [var_of ''matter.subclass'', JArr [JStr ''500'', JStr ''485'']])],
            cc_source = ''matter.subclass in ['500','485']''\<rparr>"
  "compileCondition (Some ''screening.riskLevel !== 'critical' '')
     = Inr \<lparr>cc_jsonLogic = JObj [(''!=='', JArr [var_of ''screening.riskLevel'', JStr ''critical''])],
            cc_source = ''screening.riskLevel !== 'critical' ''\<rparr>"
  "compileCondition (Some ''a == b'') = Inl UnsupportedSyntax"
  "compileCondition (Some ''a in ['x,y']'') = Inl (NotALiteral [CHR 0x27, CHR ''x''])"
  by code_simp+


section \<open>What the text forms compile to\<close>

lemma find_one_mem: "find_one P xs = Some x \<Longrightarrow> x \<in> set xs"
  by (auto dest: find_one_SomeD)

lemma literal_plain: "literal s = Some v \<Longrightarrow> ops_of v = {}"
  by (auto simp: literal_def Let_def scan_word_def split: list.splits option.splits if_splits prod.splits)

lemma literals_plain: "literals ss = Inr vs \<Longrightarrow> ops_list vs = {}"
  by (induction ss arbitrary: vs) (auto simp: and_then_Inr_iff dest: literal_plain split: option.splits)

lemma comparison_ops:
  "parse_comparison text = Some logic \<Longrightarrow>
   \<exists>operator path v. operator \<in> set COMPARISONS \<and> ops_of v = {} \<and> logic = JObj [(operator, JArr [var_of path, v])]"
  by (fastforce simp: parse_comparison_def scan_op_def dest: literal_plain find_one_mem
      split: option.splits prod.splits)

text \<open>The four ways a condition compiles.\<close>

lemma compileCondition_InrE:
  assumes "compileCondition source = Inr c"
  obtains (blank) "\<not> (truthy_str source \<and> trim (the source) \<noteq> [])" "cc_jsonLogic c = JBool True"
  | (json) src kvs where "source = Some src" "trim src \<noteq> []" "hd (trim src) = CHR ''{''" "cc_jsonLogic c = JObj kvs"
  | (comparison) src operator path v where "source = Some src" "trim src \<noteq> []" "operator \<in> set COMPARISONS" "ops_of v = {}"
      "cc_jsonLogic c = JObj [(operator, JArr [var_of path, v])]"
  | (membership) src path neg vs where "source = Some src" "trim src \<noteq> []" "ops_list vs = {}"
      "cc_jsonLogic c = (if neg then JObj [(''!'', JObj [(''in'', JArr [var_of path, JArr vs])])]
         else JObj [(''in'', JArr [var_of path, JArr vs])])"
proof (cases source)
  case None
  then show thesis using assms by (intro blank) (auto simp: compileCondition_def)
next
  case (Some src)
  note compiled = assms [unfolded Some compileCondition_def option.case Let_def]
  show thesis
  proof (cases "trim src = []")
    case True
    then show thesis using compiled Some by (intro blank) auto
  next
    case nonblank: False
    show thesis
    proof (cases "hd (trim src) = CHR ''{''")
      case True
      then show thesis using compiled Some nonblank
        by (cases "json_parse (trim src)"; cases "the (json_parse (trim src))") (auto intro: json)
    next
      case unbraced: False
      show thesis
      proof (cases "parse_comparison (trim src)")
        case (Some logic)
        then obtain operator path v where "operator \<in> set COMPARISONS" "ops_of v = {}" "logic = JObj [(operator, JArr [var_of path, v])]"
          using comparison_ops by blast
        then show thesis using compiled \<open>source = Some src\<close> nonblank unbraced Some by (intro comparison) auto
      next
        case None
        then obtain path neg inner vs where "list_values inner = Inr vs"
          and "cc_jsonLogic c = (if neg then JObj [(''!'', JObj [(''in'', JArr [var_of path, JArr vs])])]
               else JObj [(''in'', JArr [var_of path, JArr vs])])"
          using compiled nonblank unbraced by (auto simp: and_then_Inr_iff split: option.splits)
        moreover from this have "ops_list vs = {}" using literals_plain by (auto simp: list_values_def)
        ultimately show thesis using \<open>source = Some src\<close> nonblank by (intro membership) auto
      qed
    qed
  qed
qed

text \<open>
  A condition in one of the text forms compiles to JsonLogic whose operators are
  all on the evaluator's whitelist, so the evaluator's validation never refuses it for an
  operator. Conditions written as JSON are excepted: they are taken as they stand.
\<close>

theorem text_conditions_are_whitelisted:
  assumes "compileCondition (Some src) = Inr c" "trim src = [] \<or> hd (trim src) \<noteq> CHR ''{''"
  shows "ops_of (cc_jsonLogic c) \<subseteq> set ALLOWED_OPS \<and> (\<forall>ap operator. validate ap (cc_jsonLogic c) \<noteq> RuleOperator operator)"
proof -
  have "ops_of (cc_jsonLogic c) \<subseteq> set ALLOWED_OPS"
    using assms(1)
  proof (cases rule: compileCondition_InrE)
    case blank
    then show ?thesis by simp
  next
    case json
    then show ?thesis using assms(2) by simp
  next
    case comparison
    then show ?thesis by (auto simp: COMPARISONS_def ALLOWED_OPS_def var_of_def)
  next
    case membership
    then show ?thesis by (auto simp: ALLOWED_OPS_def var_of_def)
  qed
  moreover have "validate ap (cc_jsonLogic c) \<noteq> RuleOperator operator" for ap operator
    using calculation disallowed_cases(1) [of "cc_jsonLogic c"]
    by (cases "findDisallowedOperator (cc_jsonLogic c)")
       (auto simp: validate_def Let_def split: sum.splits)
  ultimately show ?thesis by blast
qed

lemma text_conditions_are_whitelisted_witness:
  "\<exists>c. compileCondition (Some ''a not in [1, 2]'') = Inr c \<and> ops_of (cc_jsonLogic c) \<subseteq> set ALLOWED_OPS"
proof -
  have c: "compileCondition (Some ''a not in [1, 2]'')
      = Inr \<lparr>cc_jsonLogic = JObj [(''!'', JObj [(''in'', JArr [var_of ''a'', JArr [JNum ''1'', JNum ''2'']])])],
             cc_source = ''a not in [1, 2]''\<rparr>"
    by code_simp
  have "hd (trim ''a not in [1, 2]'') \<noteq> CHR ''{''" by code_simp
  from text_conditions_are_whitelisted [OF c disjI2 [OF this]] c show ?thesis by blast
qed

text \<open>A condition written as JSON may name any operator.\<close>

lemma json_conditions_are_not_checked:
  "compileCondition (Some ''{\"log\":1}'') = Inr \<lparr>cc_jsonLogic = JObj [(''log'', JNum ''1'')], cc_source = ''{\"log\":1}''\<rparr>
   \<and> ''log'' \<notin> set ALLOWED_OPS"
  by code_simp

section \<open>Printing and compiling\<close>

text \<open>The conditions of the grammar, and how an author writes them.\<close>

datatype lit = LStr str | LBool bool | LNull

datatype condition = Compare "str list" str lit | Member "str list" bool "str list"

definition quoted :: "str \<Rightarrow> str" where
  "quoted s = concat (map (\<lambda>c. if c = CHR 0x27 \<or> c = CHR 0x5C then [CHR 0x5C, c] else [c]) s)"

fun print_lit :: "lit \<Rightarrow> str" where
  "print_lit (LStr s) = CHR 0x27 # quoted s @ [CHR 0x27]"
| "print_lit (LBool b) = (if b then ''true'' else ''false'')"
| "print_lit LNull = ''null''"

fun lit_value :: "lit \<Rightarrow> js" where
  "lit_value (LStr s) = JStr s"
| "lit_value (LBool b) = JBool b"
| "lit_value LNull = JNull"

fun print_condition :: "condition \<Rightarrow> str" where
  "print_condition (Compare path operator v) = join ''.'' path @ '' '' @ operator @ '' '' @ print_lit v"
| "print_condition (Member path neg vs) =
     join ''.'' path @ (if neg then '' not in ['' else '' in ['') @ join '','' (map (\<lambda>s. print_lit (LStr s)) vs) @ '']''"

fun condition_logic :: "condition \<Rightarrow> js" where
  "condition_logic (Compare path operator v) = JObj [(operator, JArr [var_of (join ''.'' path), lit_value v])]"
| "condition_logic (Member path neg vs) =
     (let c = JObj [(''in'', JArr [var_of (join ''.'' path), JArr (map JStr vs)])]
      in if neg then JObj [(''!'', c)] else c)"

definition is_ident :: "str \<Rightarrow> bool" where
  "is_ident i \<longleftrightarrow> i \<noteq> [] \<and> ident_start (hd i) \<and> list_all is_word i"

text \<open>Inside brackets, a comma or a closing bracket in a string is taken for a separator.\<close>

fun printable :: "condition \<Rightarrow> bool" where
  "printable (Compare path operator v) \<longleftrightarrow> path \<noteq> [] \<and> list_all is_ident path \<and> operator \<in> set COMPARISONS"
| "printable (Member path neg vs) \<longleftrightarrow> path \<noteq> [] \<and> list_all is_ident path
     \<and> list_all (\<lambda>s. CHR '','' \<notin> set s \<and> CHR '']'' \<notin> set s) vs"

lemma takeWhile_all_app: "list_all P xs \<Longrightarrow> ys = [] \<or> \<not> P (hd ys) \<Longrightarrow> takeWhile P (xs @ ys) = xs"
  "list_all P xs \<Longrightarrow> ys = [] \<or> \<not> P (hd ys) \<Longrightarrow> dropWhile P (xs @ ys) = ys"
  by (induction xs; cases ys; auto)+

lemma scan_ident_app:
  assumes "is_ident i" "r = [] \<or> \<not> is_word (hd r)"
  shows "scan_ident (i @ r) = Some (i, r)"
  using assms takeWhile_all_app [of is_word i r] by (auto simp: scan_ident_def is_ident_def)

lemma dot_not_word: "\<not> is_word (CHR ''.'')" "\<not> is_word (CHR '' '')"
  by (simp_all add: is_word_def Let_def)

lemma scan_path_app:
  assumes "path \<noteq> []" "list_all is_ident path" "r = [] \<or> \<not> is_word (hd r) \<and> hd r \<noteq> CHR ''.''"
  shows "scan_path (join ''.'' path @ r) = Some (join ''.'' path, r)"
  using assms
proof (induction path)
  case (Cons i path)
  show ?case
  proof (cases path)
    case Nil
    then have "scan_ident (i @ r) = Some (i, r)" using Cons.prems by (intro scan_ident_app) auto
    then show ?thesis using Nil Cons.prems by (cases r) auto
  next
    case (Cons j rest)
    have "scan_ident (i @ ''.'' @ join ''.'' path @ r) = Some (i, ''.'' @ join ''.'' path @ r)"
      by (rule scan_ident_app) (use Cons.prems dot_not_word in auto)
    moreover have "scan_path (join ''.'' path @ r) = Some (join ''.'' path, r)"
      by (rule Cons.IH) (use Cons Cons.prems in auto)
    ultimately show ?thesis by (subst scan_path.simps) (simp add: Cons)
  qed
qed simp

lemma scan_quoted_quoted: "scan_quoted (CHR 0x27) (quoted s @ CHR 0x27 # r) = Some (quoted s, r)"
  by (induction s) (auto simp: quoted_def)

lemma unescape_quoted: "unescape (quoted s) = s"
  by (induction s) (auto simp: quoted_def)

lemma literal_print: "literal (print_lit v) = Some (lit_value v)"
proof (cases v)
  case (LStr s)
  then show ?thesis using scan_quoted_quoted [of s "[]"] by (simp add: literal_def Let_def unescape_quoted)
next
  case (LBool b)
  then show ?thesis by (cases b; simp; code_simp)
next
  case LNull
  then show ?thesis by (simp; code_simp)
qed

lemma starts_with_Nil [simp]: "starts_with [] s"
  by (simp add: starts_with_def)

lemma starts_with_Cons [simp]: "starts_with (c # p) s \<longleftrightarrow> s \<noteq> [] \<and> hd s = c \<and> starts_with p (tl s)"
  by (cases s) (auto simp: starts_with_def)

lemma scan_op_app:
  assumes "operator \<in> set COMPARISONS"
  shows "scan_op (operator @ '' '' @ r) = Some (operator, '' '' @ r)"
proof -
  consider "operator = ''===''" | "operator = ''!==''" | "operator = ''==''" | "operator = ''!=''"
    | "operator = ''>=''" | "operator = ''<=''" | "operator = ''>''" | "operator = ''<''"
    using assms unfolding COMPARISONS_def by (simp only: list.set insert_iff empty_iff) blast
  then show ?thesis by cases (simp_all add: scan_op_def COMPARISONS_def)
qed

lemma word_not_ws: "is_word c \<Longrightarrow> \<not> is_ws c"
  by (auto simp: is_word_def is_ws_def Let_def)

lemma quote_not_ws: "\<not> is_ws (CHR 0x27)" "\<not> is_ws (CHR '']'')" "\<not> is_ws (CHR ''['')" "is_ws (CHR '' '')"
  by (simp_all add: is_ws_def)

lemma print_lit_head: "\<not> is_ws (hd (print_lit v))" "print_lit v \<noteq> []" "\<not> is_ws (last (print_lit v))"
  by (cases v; auto simp: is_ws_def)+

lemma op_head: "operator \<in> set COMPARISONS \<Longrightarrow> operator \<noteq> [] \<and> \<not> is_ws (hd operator)"
  by (auto simp: COMPARISONS_def is_ws_def)

lemma skip_ws_id: "s = [] \<or> \<not> is_ws (hd s) \<Longrightarrow> skip_ws s = s"
  by (cases s) auto

lemma trim_id: "s \<noteq> [] \<Longrightarrow> \<not> is_ws (hd s) \<Longrightarrow> \<not> is_ws (last s) \<Longrightarrow> trim s = s"
  by (simp add: trim_def skip_ws_id hd_rev)

lemma path_head:
  assumes "path \<noteq> []" "list_all is_ident path"
  shows "join ''.'' path \<noteq> []" "is_word (hd (join ''.'' path))"
  using assms by (cases path; cases "tl path"; auto simp: is_ident_def ident_start_def)+



lemma trim_printed: "trim (print_lit v) = print_lit v"
  by (intro trim_id) (simp_all add: print_lit_head)

lemma compile_comparison:
  assumes "path \<noteq> []" "list_all is_ident path" "operator \<in> set COMPARISONS"
  shows "parse_comparison (join ''.'' path @ '' '' @ operator @ '' '' @ print_lit v)
           = Some (condition_logic (Compare path operator v))"
proof -
  have "scan_path (join ''.'' path @ '' '' @ operator @ '' '' @ print_lit v)
      = Some (join ''.'' path, '' '' @ operator @ '' '' @ print_lit v)"
    using assms(1,2) dot_not_word by (intro scan_path_app) auto
  moreover have "skip_ws (join ''.'' path @ '' '' @ operator @ '' '' @ print_lit v)
      = join ''.'' path @ '' '' @ operator @ '' '' @ print_lit v"
    using path_head [OF assms(1,2)] word_not_ws by (intro skip_ws_id) simp
  moreover have "skip_ws (operator @ '' '' @ print_lit v) = operator @ '' '' @ print_lit v"
    using op_head [OF assms(3)] by (intro skip_ws_id) simp
  moreover have "skip_ws (print_lit v) = print_lit v"
    using print_lit_head by (intro skip_ws_id) simp
  ultimately show ?thesis
    using scan_op_app [OF assms(3), of "print_lit v"] quote_not_ws
    by (simp add: parse_comparison_def literal_print)
qed

lemma printed_condition_text:
  assumes "printable c"
  shows "trim (print_condition c) = print_condition c" "print_condition c \<noteq> []" "hd (print_condition c) \<noteq> CHR ''{''"
proof -
  obtain path rest where c: "print_condition c = join ''.'' path @ rest" "path \<noteq> []" "list_all is_ident path"
    and rest: "rest \<noteq> []" "\<not> is_ws (last rest)"
    using assms by (cases c) (auto simp: print_lit_head quote_not_ws)
  note h = path_head [OF c(2,3)]
  show "print_condition c \<noteq> []" using c h by simp
  show "trim (print_condition c) = print_condition c"
    using c h rest word_not_ws by (intro trim_id) auto
  show "hd (print_condition c) \<noteq> CHR ''{''"
    using c h by (auto simp: is_word_def Let_def)
qed



lemma split_join:
  assumes "ss \<noteq> []" "\<forall>s\<in>set ss. c \<notin> set s"
  shows "split_on c (join [c] ss) = ss"
  using assms
proof (induction ss)
  case (Cons s ss)
  then show ?case
    by (cases ss) (simp_all add: split_on_plain split_on_dot)
qed simp

lemma quoted_clean: "c \<notin> set s \<Longrightarrow> c \<noteq> CHR 0x5C \<Longrightarrow> c \<notin> set (quoted s)"
  by (auto simp: quoted_def split: if_splits)

lemma printed_strings_clean:
  assumes "c \<notin> set s" "c \<noteq> CHR 0x5C" "c \<noteq> CHR 0x27"
  shows "c \<notin> set (print_lit (LStr s))"
  using assms quoted_clean by simp

lemma join_clean: "c \<notin> set sep \<Longrightarrow> \<forall>s\<in>set ss. c \<notin> set s \<Longrightarrow> c \<notin> set (join sep ss)"
  by (induction sep ss rule: join.induct) auto

lemma literals_printed: "literals (map (\<lambda>s. print_lit (LStr s)) vs) = Inr (map JStr vs)"
proof (induction vs)
  case (Cons s vs)
  then show ?case using literal_print [of "LStr s"] by (simp add: and_then_def)
qed simp

lemma list_values_printed:
  assumes "\<forall>s\<in>set vs. CHR '','' \<notin> set s"
  shows "list_values (join '','' (map (\<lambda>s. print_lit (LStr s)) vs)) = Inr (map JStr vs)"
proof (cases "vs = []")
  case True
  then show ?thesis by (simp add: list_values_def trim_def)
next
  case False
  have "split_on (CHR '','') (join '','' (map (\<lambda>s. print_lit (LStr s)) vs)) = map (\<lambda>s. print_lit (LStr s)) vs"
    by (rule split_join) (use False assms printed_strings_clean in auto)
  then have "filter (\<lambda>s. s \<noteq> []) (map trim (split_on (CHR '','') (join '','' (map (\<lambda>s. print_lit (LStr s)) vs))))
      = map (\<lambda>s. print_lit (LStr s)) vs"
    using trim_printed print_lit_head(2) by (simp only: map_map comp_def) (induction vs, simp_all)
  then show ?thesis unfolding list_values_def by (simp only: literals_printed)
qed

definition member_word :: "bool \<Rightarrow> str" where
  "member_word neg = (if neg then ''not in ['' else ''in ['')"

lemma member_word_scans:
  "scan_op (member_word neg @ r) = None"
  "scan_member (member_word neg @ r) = Some (neg, '' ['' @ r)"
  "member_word neg \<noteq> []" "skip_ws (member_word neg @ r) = member_word neg @ r"
  by (cases neg; simp add: member_word_def scan_op_def COMPARISONS_def scan_member_def quote_not_ws is_ws_def)+

lemma compile_membership:
  assumes "path \<noteq> []" "list_all is_ident path" "CHR '']'' \<notin> set inner"
    and src_def: "src = join ''.'' path @ '' '' @ member_word neg @ inner @ '']''"
  shows "parse_comparison src = None" "parse_membership src = Some (join ''.'' path, neg, inner)"
proof -
  have path: "scan_path src = Some (join ''.'' path, '' '' @ member_word neg @ inner @ '']'')"
    unfolding src_def using assms(1,2) dot_not_word by (intro scan_path_app) auto
  have src: "skip_ws src = src"
    unfolding src_def using path_head [OF assms(1,2)] word_not_ws by (intro skip_ws_id) simp
  have inner: "takeWhile (\<lambda>d. d \<noteq> CHR '']'') (inner @ '']'') = inner" "dropWhile (\<lambda>d. d \<noteq> CHR '']'') (inner @ '']'') = '']''"
    using assms(3) by (auto simp: takeWhile_tail intro!: takeWhile_all_app simp: list_all_iff)
  show "parse_comparison src = None"
    using src path member_word_scans quote_not_ws by (simp add: parse_comparison_def)
  show "parse_membership src = Some (join ''.'' path, neg, inner)"
    using src path member_word_scans quote_not_ws inner by (simp add: parse_membership_def)
qed

lemma compile_printed:
  assumes "printable c"
  shows "compileCondition (Some (print_condition c))
           = Inr \<lparr>cc_jsonLogic = condition_logic c, cc_source = print_condition c\<rparr>"
proof -
  note shape = printed_condition_text [OF assms]
  show ?thesis
  proof (cases c)
    case (Compare path operator v)
    then have "parse_comparison (print_condition c) = Some (condition_logic c)"
      using assms compile_comparison by simp
    then show ?thesis using shape by (simp add: compileCondition_def Let_def)
  next
    case (Member path neg vs)
    define inner where "inner = join '','' (map (\<lambda>s. print_lit (LStr s)) vs)"
    have vs: "path \<noteq> []" "list_all is_ident path" "\<forall>s\<in>set vs. CHR '','' \<notin> set s" "\<forall>s\<in>set vs. CHR '']'' \<notin> set s"
      using assms Member by (auto simp: list_all_iff)
    have src: "print_condition c = join ''.'' path @ '' '' @ member_word neg @ inner @ '']''"
      using Member by (simp add: inner_def member_word_def)
    have "CHR '']'' \<notin> set inner"
      unfolding inner_def using vs(4) printed_strings_clean by (intro join_clean) auto
    note parsed = compile_membership [OF vs(1,2) this src]
    have "list_values inner = Inr (map JStr vs)"
      unfolding inner_def using vs(3) by (rule list_values_printed)
    then show ?thesis using shape parsed Member
      by (simp add: compileCondition_def Let_def and_then_def)
  qed
qed

text \<open>
  Claim C28: every condition of the grammar, printed the way an author writes it, compiles to
  the JsonLogic it means, and keeps its text.
\<close>

theorem compile_print:
  assumes "printable c"
  shows "compileCondition (Some (print_condition c))
           = Inr \<lparr>cc_jsonLogic = condition_logic c, cc_source = print_condition c\<rparr>"
  using assms by (rule compile_printed)

lemma compile_print_witness:
  "compileCondition (Some (print_condition (Member [''matter'', ''subclass''] True [''500'', ''it's''])))
     = Inr \<lparr>cc_jsonLogic = JObj [(''!'', JObj [(''in'', JArr [var_of ''matter.subclass'', JArr [JStr ''500'', JStr ''it's'']])])],
            cc_source = print_condition (Member [''matter'', ''subclass''] True [''500'', ''it's''])\<rparr>"
proof -
  have "printable (Member [''matter'', ''subclass''] True [''500'', ''it's''])" by code_simp
  from compile_print [OF this] show ?thesis by simp
qed


end
