(* ===== verification/Sla.thy ===== *)
theory Sla
  imports Workflow
begin

text \<open>
  \<^verbatim>\<open>src/workflow/services/sla-watchdog.service.ts\<close>: the five-minute sweep over the overdue
  instances, their escalation, and what it does to them; and the steps a workflow instance
  can take altogether, with the invariant they keep.

  The sweep is \<open>runTenantBoundSweep\<close> of \<^verbatim>\<open>src/core/tenancy\<close>. What an escalation throws is turned
  into a failure of its item; a notification that cannot be queued is swallowed by the code.
\<close>

section \<open>Escalation\<close>

definition remove_dups :: "str list \<Rightarrow> str list" where
  "remove_dups xs = rev (remdups (rev xs))"

definition notice_content :: "wf_instance \<Rightarrow> str" where
  "notice_content i = ''Workflow instance '' @ in_id i @ '' breached its SLA at escalation level ''
     @ show_int (in_escalationLevel i) @ ''. Current state: '' @ in_currentStateId i @ ''.''"

definition notifyRecipients :: "wf_instance \<Rightarrow> str list option \<Rightarrow> bool \<Rightarrow> wf_effect list" where
  "notifyRecipients i notify escalate =
     (let recipients = remove_dups (filter (\<lambda>n. n \<noteq> [])
            (map (\<lambda>n. if n = ''assignee'' then in_startedBy i else n) (nullish notify [])));
          subject = (if escalate then ''Escalated: SLA breach on workflow '' @ in_workflowId i
                     else ''SLA breach on workflow '' @ in_workflowId i)
      in map (\<lambda>r. SlaNotice (in_tenantId i) r subject (notice_content i) escalate) recipients)"

definition auto_approval :: "wf_instance \<Rightarrow> str \<Rightarrow> transition_request" where
  "auto_approval i tid =
     \<lparr>rq_instanceId = in_id i, rq_tenantId = in_tenantId i, rq_transitionId = Some tid,
      rq_userId = ac_id SYSTEM_ACTOR, rq_userEmail = None, rq_userRoles = Some (ac_roles SYSTEM_ACTOR),
      rq_automated = Some (''sla-watchdog:auto_approve'', Some ''SLA breach auto-approval''),
      rq_context = Some [(''autoApprovedBySlaBreach'', JBool True)]\<rparr>"

text \<open>\<open>Repository.update(id, patch)\<close>: the row of this id, when there is one.\<close>

definition update_instance :: "str \<Rightarrow> (wf_instance \<Rightarrow> wf_instance) \<Rightarrow> wf_world \<Rightarrow> wf_world" where
  "update_instance iid patch w =
     w\<lparr>ww_db := (ww_db w)\<lparr>db_instances :=
        map (\<lambda>i. if in_id i = iid then patch i else i) (db_instances (ww_db w))\<rparr>\<rparr>"

record wf_env =
  we_ev :: evaluator
  we_packs :: "str option \<Rightarrow> price_pack"
  we_audit_ok :: bool
  we_now :: instant

definition executeEscalationActions ::
  "wf_env \<Rightarrow> als \<Rightarrow> wf_instance \<Rightarrow> escalation \<Rightarrow> wf_world \<Rightarrow> (wf_error + unit) \<times> wf_world" where
  "executeEscalationActions env ctx i e w =
     (if el_action e = ''notify'' then
        (Inr (), w\<lparr>ww_effects := ww_effects w @ notifyRecipients i (el_notify e) False\<rparr>)
      else if el_action e = ''escalate'' then
        (Inr (), w\<lparr>ww_effects := ww_effects w @ notifyRecipients i (el_notify e) True\<rparr>)
      else if el_action e = ''auto_approve'' then
        (case getAvailableTransitions (we_ev env) (we_now env) (ww_db w) ctx (in_id i) (in_tenantId i) SYSTEM_ACTOR of
           Inr (t # _) \<Rightarrow>
             (case transition (we_ev env) (we_packs env) (we_audit_ok env) (we_now env) (auto_approval i (tr_id t)) w of
                (Inl err, w') \<Rightarrow> (Inl err, w')
              | (Inr _, w') \<Rightarrow> (Inr (), w'))
         | _ \<Rightarrow> (Inr (), w))
      else if el_action e = ''cancel'' then
        (Inr (), update_instance (in_id i) (\<lambda>r. r\<lparr>in_status := InstCancelled\<rparr>) w)
      else (Inr (), w))"

definition escalation_for :: "workflow \<Rightarrow> int \<Rightarrow> escalation option" where
  "escalation_for flow level =
     find_one (\<lambda>e. el_level e = level) (nullish (sc_escalationLevels (wf_slaConfig flow)) [])"

definition processEscalation ::
  "wf_env \<Rightarrow> wf_instance \<Rightarrow> als \<Rightarrow> wf_world \<Rightarrow> (wf_error + unit) \<times> wf_world" where
  "processEscalation env i ctx w =
     (let level = in_escalationLevel i + 1 in
      case by_key wf_id (db_workflows (ww_db w)) (in_workflowId i) of
        None \<Rightarrow> (Inl WfTypeError, w)
      | Some flow \<Rightarrow>
          (case escalation_for flow level of
             None \<Rightarrow> (Inr (), w)
           | Some e \<Rightarrow>
               (case in_slaViolations i of
                  NotAnArray \<Rightarrow> (Inl WfTypeError, w)
                | Violations vs \<Rightarrow>
                    (let v = \<lparr>vi_level = level, vi_timestamp = we_now env, vi_action = el_action e\<rparr>
                     in executeEscalationActions env ctx i e
                          (update_instance (in_id i)
                            (\<lambda>r. r\<lparr>in_escalationLevel := level, in_slaViolations := Violations (vs @ [v])\<rparr>) w)))))"

section \<open>The sweep\<close>

fun thrown_of :: "wf_error \<Rightarrow> thrown" where
  "thrown_of WorkflowNotFound = ThrownError ''NotFoundException'' ''NotFoundException'' None ''Workflow not found''"
| "thrown_of InstanceNotFound = ThrownError ''NotFoundException'' ''NotFoundException'' None ''Workflow instance not found''"
| "thrown_of WfTypeError = ThrownError ''TypeError'' ''TypeError'' None []"
| "thrown_of AuditFailed = ThrownError ''Error'' ''Error'' None []"
| "thrown_of _ = ThrownError ''BadRequestException'' ''BadRequestException'' None []"

definition overdue :: "instant \<Rightarrow> wf_instance \<Rightarrow> bool" where
  "overdue now i \<longleftrightarrow> in_status i = InstActive \<and> (case in_slaDeadline i of None \<Rightarrow> False | Some d \<Rightarrow> d < now)"

definition escalate :: "wf_env \<Rightarrow> wf_instance \<Rightarrow> als \<Rightarrow> wf_world \<Rightarrow> (thrown + unit) \<times> wf_world" where
  "escalate env i ctx w =
     (case processEscalation env i ctx w of (Inl e, w') \<Rightarrow> (Inl (thrown_of e), w') | (Inr u, w') \<Rightarrow> (Inr u, w'))"

definition checkSLAViolations :: "wf_env \<Rightarrow> als \<Rightarrow> wf_world \<Rightarrow> (thrown + sweep_scope) \<times> wf_world" where
  "checkSLAViolations env =
     runTenantBoundSweep in_tenantId (\<lambda>i. Some (in_id i)) ''sla watchdog''
       (\<lambda>ctx w. (Inr (find_where (overdue (we_now env)) (db_instances (ww_db w))), w)) (escalate env)"


section \<open>The steps of the workflow tables\<close>

inductive wf_step :: "wf_world \<Rightarrow> wf_world \<Rightarrow> bool" where
  start: "startWorkflow newId now wid eid etype T uid c (ww_db w) = (r, db') \<Longrightarrow>
    newId \<notin> in_id ` set (db_instances (ww_db w)) \<Longrightarrow> wf_step w (w\<lparr>ww_db := db'\<rparr>)"
| move: "transition ev packs ok now rq w = (r, w') \<Longrightarrow> wf_step w w'"
| sweep: "checkSLAViolations env ctx w = (r, w') \<Longrightarrow> wf_step w w'"

inductive_cases wf_stepE: "wf_step w w'"

text \<open>The history leads from one state name to another, entry by entry.\<close>

fun chain :: "str \<Rightarrow> history_entry list \<Rightarrow> str \<Rightarrow> bool" where
  "chain s [] s' = (s = s')"
| "chain s (h # hs) s' = (hi_fromState h = s \<and> chain (hi_toState h) hs s')"

definition instance_ok :: "wf_db \<Rightarrow> wf_instance \<Rightarrow> bool" where
  "instance_ok db i \<longleftrightarrow>
     (\<exists>s. current_state db i = Some s
       \<and> in_status i \<in> {InstActive, InstCompleted, InstCancelled}
       \<and> (in_status i = InstActive \<longrightarrow> st_type s \<noteq> StateEnd \<and> in_completedAt i = None)
       \<and> (in_status i = InstCompleted \<longrightarrow> st_type s = StateEnd \<and> in_completedAt i \<noteq> None)
       \<and> (\<exists>s0 \<in> set (db_states db). st_type s0 = StateStart \<and> chain (st_name s0) (in_history i) (st_name s)))
     \<and> (\<forall>h \<in> set (in_history i). hi_automatedBy h \<noteq> None \<longrightarrow> hi_triggeredBy h = ac_id SYSTEM_ACTOR)"

definition wf_inv :: "wf_world \<Rightarrow> bool" where
  "wf_inv w \<longleftrightarrow> db_ok (ww_db w) \<and> keys_distinct st_id (db_states (ww_db w))
     \<and> (\<forall>i \<in> set (db_instances (ww_db w)). instance_ok (ww_db w) i)"

lemma chain_snoc: "chain s (hs @ [h]) s' \<longleftrightarrow> (\<exists>m. chain s hs m \<and> hi_fromState h = m \<and> hi_toState h = s')"
  by (induction hs arbitrary: s) auto

lemma instance_ok_cong:
  "db_states db' = db_states db \<Longrightarrow> instance_ok db' i = instance_ok db i"
  by (simp add: instance_ok_def current_state_def)

lemma wf_inv_save:
  assumes "wf_inv w" "instance_ok (ww_db w) i"
    and "by_key wf_id (db_workflows (ww_db w)) (in_workflowId i) \<noteq> None"
    and "db_instances db' = save_row in_id i (db_instances (ww_db w))"
    and "db_states db' = db_states (ww_db w)" "db_workflows db' = db_workflows (ww_db w)"
    and "ww_db w' = db'"
  shows "wf_inv w'"
proof -
  have keys: "keys_distinct in_id (db_instances (ww_db w))" using assms(1) by (simp add: wf_inv_def db_ok_def)
  have "set (db_instances db') \<subseteq> insert i (set (db_instances (ww_db w)))"
    unfolding assms(4) set_save_row [OF keys] by blast
  moreover have "keys_distinct in_id (db_instances db')"
    unfolding assms(4) using keys by (rule keys_distinct_save)
  moreover have "instance_ok db' j = instance_ok (ww_db w) j" for j
    by (rule instance_ok_cong [OF assms(5)])
  moreover have "by_key wf_id (db_workflows (ww_db w)) (in_workflowId j) \<noteq> None" "instance_ok (ww_db w) j"
    if "j \<in> insert i (set (db_instances (ww_db w)))" for j
    using that assms(1-3) unfolding wf_inv_def db_ok_def by blast+
  ultimately show ?thesis
    unfolding wf_inv_def db_ok_def assms(5,6,7)
    using assms(1) [unfolded wf_inv_def] by (metis subsetD)
qed

lemma wf_inv_update:
  assumes "wf_inv w" "\<And>i. in_id (patch i) = in_id i" "\<And>i. in_workflowId (patch i) = in_workflowId i"
    and "\<And>i. instance_ok (ww_db w) i \<Longrightarrow> instance_ok (ww_db w) (patch i)"
  shows "wf_inv (update_instance iid patch w)"
proof -
  let ?f = "\<lambda>i. if in_id i = iid then patch i else i"
  have f: "in_id (?f i) = in_id i" "in_workflowId (?f i) = in_workflowId i" for i using assms(2,3) by auto
  have ids: "map in_id (map ?f (db_instances (ww_db w))) = map in_id (db_instances (ww_db w))"
    unfolding map_map comp_def f ..
  have "\<forall>i \<in> set (db_instances (ww_db w)). instance_ok (ww_db w) (?f i)"
    using assms(1,4) by (auto simp: wf_inv_def)
  moreover have "\<forall>i \<in> set (db_instances (ww_db w)). by_key wf_id (db_workflows (ww_db w)) (in_workflowId (?f i)) \<noteq> None"
    unfolding f using assms(1) by (simp add: wf_inv_def db_ok_def)
  moreover have "instance_ok (ww_db (update_instance iid patch w)) j = instance_ok (ww_db w) j" for j
    by (rule instance_ok_cong) (simp add: update_instance_def)
  moreover have "db_instances (ww_db (update_instance iid patch w)) = map ?f (db_instances (ww_db w))"
    "db_workflows (ww_db (update_instance iid patch w)) = db_workflows (ww_db w)"
    "db_states (ww_db (update_instance iid patch w)) = db_states (ww_db w)"
    by (simp_all add: update_instance_def)
  ultimately show ?thesis
    using assms(1) ids unfolding wf_inv_def db_ok_def by (simp only: set_map ball_simps)
qed

lemma moved_ok:
  assumes "instance_ok db i" "current_state db i = Some old" "by_key st_id (db_states db) sid = Some new"
  shows "instance_ok db (moved rq flow i t signer old new now)"
proof -
  have "current_state db (moved rq flow i t signer old new now) = Some new"
    using assms(3) by_key_SomeD [OF assms(3)] by (simp add: current_state_def moved_def Let_def)
  then show ?thesis
    using assms(1,2)
    by (auto simp: instance_ok_def moved_def Let_def chain_snoc history_of_def)
qed

lemma transition_keeps:
  assumes "wf_inv w" "transition ev packs ok now rq w = (r, w')"
  shows "wf_inv w'"
  using assms(2)
proof (cases rule: transition_cases)
  case (dangling i t signer old new)
  then have "ww_db w' = ww_db w" by simp
  with assms(1) show ?thesis by (simp add: wf_inv_def)
next
  case (moved i t signer old new flow i')
  have mem: "i \<in> set (db_instances (ww_db w))" and cur: "current_state (ww_db w) i = Some old"
    using moved(1) by (auto simp: admit_Inr_iff dest: findInstance_InrD payment_gate_InrD)
  have "instance_ok (ww_db w) i'"
    unfolding moved(5) by (rule moved_ok [OF _ cur moved(2)]) (use assms(1) mem in \<open>simp add: wf_inv_def\<close>)
  then show ?thesis
    by (rule wf_inv_save [OF assms(1)]) (simp_all add: moved(3,5,7))
qed (use assms(1) in simp)

lemma start_keeps:
  assumes "wf_inv w" "startWorkflow newId now wid eid etype T uid c (ww_db w) = (r, db')"
  shows "wf_inv (w\<lparr>ww_db := db'\<rparr>)"
proof (cases "db' = ww_db w")
  case True
  then show ?thesis using assms(1) by (simp add: wf_inv_def)
next
  case False
  obtain flow s where flow: "getWorkflow (ww_db w) wid T = Inr flow"
    and s: "find_one (\<lambda>s. st_type s = StateStart) (states_of (ww_db w) (wf_id flow)) = Some s"
    and db': "db' = (ww_db w)\<lparr>db_instances :=
        save_row in_id (new_instance newId now flow s eid etype T uid c) (db_instances (ww_db w))\<rparr>"
    using assms(2) False by (auto simp: startWorkflow_def Let_def split: sum.splits if_splits option.splits)
  have mem: "s \<in> set (db_states (ww_db w))" "st_type s = StateStart"
    using find_one_SomeD [OF s] by (auto simp: states_of_def set_find_where)
  have "by_key st_id (db_states (ww_db w)) (st_id s) = Some s"
    using assms(1) mem(1) by (intro by_key_mem) (simp_all add: wf_inv_def)
  then have ok: "instance_ok (ww_db w) (new_instance newId now flow s eid etype T uid c)"
    using mem by (auto simp: instance_ok_def current_state_def new_instance_def)
  have "by_key wf_id (db_workflows (ww_db w)) (wf_id flow) \<noteq> None"
    using flow by (auto simp: getWorkflow_def by_key_None_iff split: option.splits dest!: find_one_SomeD)
  then show ?thesis
    by (intro wf_inv_save [OF assms(1) ok]) (simp_all add: db' new_instance_def)
qed

lemma escalation_keeps:
  assumes "wf_inv w" "processEscalation env i ctx w = (r, w')"
  shows "wf_inv w'"
proof (cases "w' = w")
  case False
  obtain flow e vs where e: "executeEscalationActions env ctx i e
      (update_instance (in_id i) (\<lambda>r. r\<lparr>in_escalationLevel := in_escalationLevel i + 1, in_slaViolations := Violations vs\<rparr>) w)
      = (r, w')"
    using assms(2) False
    by (auto simp: processEscalation_def Let_def split: option.splits violation_log.splits)
  let ?w = "update_instance (in_id i) (\<lambda>r. r\<lparr>in_escalationLevel := in_escalationLevel i + 1, in_slaViolations := Violations vs\<rparr>) w"
  have w1: "wf_inv ?w"
    using assms(1) by (rule wf_inv_update) (simp_all add: instance_ok_def current_state_def)
  have effects: "wf_inv (w1\<lparr>ww_effects := x\<rparr>) \<longleftrightarrow> wf_inv w1" for w1 x by (simp add: wf_inv_def)
  have cancel: "wf_inv (update_instance (in_id i) (\<lambda>r. r\<lparr>in_status := InstCancelled\<rparr>) ?w)"
    using w1 by (rule wf_inv_update) (auto simp: instance_ok_def current_state_def)
  show ?thesis
  proof (cases "el_action e = ''auto_approve''")
    case True
    then show ?thesis
      using e w1 transition_keeps [OF w1]
      by (auto simp: executeEscalationActions_def split: sum.splits list.splits prod.splits)
  next
    case False
    then show ?thesis
      using e w1 cancel effects by (auto simp: executeEscalationActions_def split: if_splits)
  qed
qed (use assms(1) in simp)

interpretation watchdog: sweep_body in_tenantId "escalate env" wf_inv for env
proof unfold_locales
  fix w :: wf_world and i r w'
  assume "wf_inv w" "escalate env i (Some (item_store (in_tenantId i))) w = (r, w')"
  then show "wf_inv w'"
    by (auto simp: escalate_def split: prod.splits sum.splits dest: escalation_keeps)
qed

lemma step_keeps: "wf_step w w' \<Longrightarrow> wf_inv w \<Longrightarrow> wf_inv w'"
proof (induction rule: wf_step.induct)
  case (sweep env ctx w r w')
  show ?case
    by (rule watchdog.sweep_keeps [OF _ sweep.prems sweep.hyps [unfolded checkSLAViolations_def]]) auto
qed (blast intro: start_keeps transition_keeps)+

text \<open>
  Claim C7: whatever sequence of starts, transitions and watchdog sweeps ran, every
  instance stands in a state of the table; it is completed only in an end state and active only
  outside one; its history leads without a gap from a start state to where it stands;
  and every entry a scheduled job made is signed by the system actor and no person.
\<close>

theorem reachable_instances_ok:
  assumes "wf_step\<^sup>*\<^sup>* w w'" "wf_inv w" "i \<in> set (db_instances (ww_db w'))"
  shows "instance_ok (ww_db w') i"
proof -
  have "wf_inv w'" using assms(1,2) by (induction rule: rtranclp_induct) (auto intro: step_keeps)
  then show ?thesis using assms(3) by (simp add: wf_inv_def)
qed

lemma demo_inv: "wf_inv demo_world"
  using demo_ok
  by (simp add: wf_inv_def instance_ok_def demo_db_def current_state_def) (simp add: demo_instance_def)

lemma reachable_instances_ok_witness:
  "\<exists>w'. wf_step\<^sup>*\<^sup>* demo_world w' \<and> ww_effects w' \<noteq> []
     \<and> (\<forall>i \<in> set (db_instances (ww_db w')). instance_ok (ww_db w') i)"
proof -
  obtain i' w' where run: "transition demo_ev no_packs True 0 demo_request demo_world = (Inr i', w')"
    using demo_runs by blast
  then have steps: "wf_step\<^sup>*\<^sup>* demo_world w'" by (blast intro: wf_step.move)
  have "ww_effects w' \<noteq> []" using demo_sends [OF run] by auto
  with steps reachable_instances_ok [OF steps demo_inv] show ?thesis by blast
qed


section \<open>What stays as it is\<close>

text \<open>A sweep keeps what each of its items keeps.\<close>

lemma sweep_loop_preserves:
  assumes "\<And>i w r w'. i \<in> set is \<Longrightarrow> P w \<Longrightarrow> body i (Some (item_store (tenantOf i))) w = (r, w') \<Longrightarrow> P w'"
    and "P w" "sweep_loop tenantOf idOf body ctx is (s, p, f, w) = (s', p', f', w')"
  shows "P w'"
  using assms
proof (induction "is" arbitrary: s p f w)
  case (Cons i "is")
  obtain r w1 where r: "body i (Some (item_store (tenantOf i))) w = (r, w1)"
    by (cases "body i (Some (item_store (tenantOf i))) w")
  have "P w1" by (rule Cons.prems(1) [OF _ Cons.prems(2) r]) simp
  moreover obtain x y z where "sweep_loop tenantOf idOf body ctx is (x, y, z, w1) = (s', p', f', w')"
    using Cons.prems(3) r by (cases r) (auto simp: tc_run_def)
  ultimately show ?case by (rule Cons.IH [rotated]) (use Cons.prems(1) in auto)
qed simp

lemma sla_sweep_preserves:
  assumes "\<And>i w1 r w2. i \<in> set (db_instances (ww_db w)) \<Longrightarrow> overdue (we_now env) i \<Longrightarrow> P w1 \<Longrightarrow>
      processEscalation env i (Some (item_store (in_tenantId i))) w1 = (r, w2) \<Longrightarrow> P w2"
    and "P w" "checkSLAViolations env ctx w = (res, w')"
  shows "P w'"
proof -
  let ?items = "find_where (overdue (we_now env)) (db_instances (ww_db w))"
  obtain s p f where loop: "sweep_loop in_tenantId (\<lambda>i. Some (in_id i)) (escalate env) ctx ?items ([], 0, [], w)
      = (s, p, f, w')"
    using assms(3)
    by (auto simp: checkSLAViolations_def runTenantBoundSweep_def runAsSystem_def tc_run_def
        split: prod.splits)
  show ?thesis
  proof (rule sweep_loop_preserves [where P = P, OF _ assms(2) loop])
    fix i w1 r w2
    assume i: "i \<in> set ?items" and "P w1" and run: "escalate env i (Some (item_store (in_tenantId i))) w1 = (r, w2)"
    obtain r' where "processEscalation env i (Some (item_store (in_tenantId i))) w1 = (r', w2)"
      using run by (auto simp: escalate_def split: prod.splits sum.splits)
    then show "P w2" using assms(1) i \<open>P w1\<close> by (auto simp: set_find_where)
  qed
qed

lemma transition_frame:
  assumes "transition ev packs ok now rq w = (r, w')" "j \<in> set (db_instances (ww_db w))"
    and "keys_distinct in_id (db_instances (ww_db w))"
    and "in_id j \<noteq> rq_instanceId rq \<or> in_status j \<noteq> InstActive"
  shows "j \<in> set (db_instances (ww_db w'))"
  using assms(1)
proof (cases rule: transition_cases)
  case (moved i t signer old new flow i')
  have i: "i \<in> set (db_instances (ww_db w))" "in_id i = rq_instanceId rq" "in_status i = InstActive"
    using moved(1) by (auto simp: admit_Inr_iff dest: findInstance_InrD)
  have "in_id j \<noteq> in_id i"
    using assms(2-4) i by (metis by_key_mem option.inject)
  then show ?thesis
    using assms(2) by (simp add: moved(5,7) set_save_row [OF assms(3)])
qed (use assms(2) in \<open>auto split: if_splits\<close>)

lemma update_frame:
  "j \<in> set (db_instances (ww_db w)) \<Longrightarrow> in_id j \<noteq> iid \<Longrightarrow> j \<in> set (db_instances (ww_db (update_instance iid patch w)))"
  by (force simp: update_instance_def)

lemma escalation_frame:
  assumes "processEscalation env i ctx w = (r, w')" "j \<in> set (db_instances (ww_db w))"
    and "keys_distinct in_id (db_instances (ww_db w))" "in_id j \<noteq> in_id i"
  shows "j \<in> set (db_instances (ww_db w'))"
proof (cases "w' = w")
  case False
  obtain flow e vs where e: "executeEscalationActions env ctx i e
      (update_instance (in_id i) (\<lambda>r. r\<lparr>in_escalationLevel := in_escalationLevel i + 1, in_slaViolations := Violations vs\<rparr>) w)
      = (r, w')"
    using assms(1) False
    by (auto simp: processEscalation_def Let_def split: option.splits violation_log.splits)
  let ?w = "update_instance (in_id i) (\<lambda>r. r\<lparr>in_escalationLevel := in_escalationLevel i + 1, in_slaViolations := Violations vs\<rparr>) w"
  have j: "j \<in> set (db_instances (ww_db ?w))" using assms(2,4) by (rule update_frame)
  have keys: "keys_distinct in_id (db_instances (ww_db ?w))"
    using assms(3) by (simp add: update_instance_def comp_def if_distrib cong: if_cong)
  show ?thesis
  proof (cases "el_action e = ''auto_approve''")
    case True
    have target: "rq_instanceId (auto_approval i tid) = in_id i" for tid by (simp add: auto_approval_def)
    have "transition (we_ev env) (we_packs env) (we_audit_ok env) (we_now env) (auto_approval i tid) ?w = (r', w')
        \<Longrightarrow> j \<in> set (db_instances (ww_db w'))" for tid r'
        by (rule transition_frame [OF _ j keys disjI1]) (simp, unfold target, rule assms(4))
    then show ?thesis
      using e j True by (auto simp: executeEscalationActions_def split: sum.splits list.splits prod.splits)
  next
    case False
    then show ?thesis
      using e j update_frame [OF j assms(4)] by (auto simp: executeEscalationActions_def split: if_splits)
  qed
qed (use assms(2) in simp)

text \<open>
  An instance that is completed or cancelled is never touched again, by a
  transition or by the watchdog.
\<close>

theorem finished_instances_stay:
  assumes "wf_step\<^sup>*\<^sup>* w w'" "wf_inv w" "i \<in> set (db_instances (ww_db w))" "in_status i \<noteq> InstActive"
  shows "i \<in> set (db_instances (ww_db w'))"
proof -
  have step: "i \<in> set (db_instances (ww_db w2))"
    if "wf_step w1 w2" "wf_inv w1" "i \<in> set (db_instances (ww_db w1))" for w1 w2
    using that
  proof (induction rule: wf_step.induct)
    case (start newId now wid eid etype T uid c v r db')
    have keys: "keys_distinct in_id (db_instances (ww_db v))" using start.prems(1) by (simp add: wf_inv_def db_ok_def)
    have "in_id i \<noteq> newId" using start.hyps(2) start.prems(2) by blast
    then show ?case
      using start.hyps(1) start.prems(2)
      by (auto simp: startWorkflow_def Let_def new_instance_def set_save_row [OF keys]
          split: sum.splits if_splits option.splits)
  next
    case (move ev packs ok now rq v r v')
    have "keys_distinct in_id (db_instances (ww_db v))" using move.prems(1) by (simp add: wf_inv_def db_ok_def)
    then show ?case
      using transition_frame [OF move.hyps move.prems(2)] assms(4) by blast
  next
    case (sweep env ctx v r v')
    have "wf_inv v' \<and> i \<in> set (db_instances (ww_db v'))"
    proof (rule sla_sweep_preserves [OF _ _ sweep.hyps])
      fix j w1 r w2
      assume j: "j \<in> set (db_instances (ww_db v))" "overdue (we_now env) j"
        and w1: "wf_inv w1 \<and> i \<in> set (db_instances (ww_db w1))"
        and run: "processEscalation env j (Some (item_store (in_tenantId j))) w1 = (r, w2)"
      have "in_id i \<noteq> in_id j"
        using j sweep.prems assms(4) by (metis by_key_mem db_ok_def option.inject overdue_def wf_inv_def)
      then show "wf_inv w2 \<and> i \<in> set (db_instances (ww_db w2))"
        using escalation_frame [OF run] escalation_keeps [OF _ run] w1 by (auto simp: wf_inv_def db_ok_def)
    qed (use sweep.prems in simp)
    then show ?case by simp
  qed
  have "wf_inv w' \<and> i \<in> set (db_instances (ww_db w'))"
    using assms(1-3) by (induction rule: rtranclp_induct) (auto intro: step step_keeps)
  then show ?thesis by simp
qed



lemma finished_instances_stay_witness:
  "\<exists>w i w'. wf_step w w' \<and> in_status i = InstCancelled \<and> i \<in> set (db_instances (ww_db w')) \<and> ww_effects w = []"
proof -
  let ?i = "demo_instance\<lparr>in_status := InstCancelled\<rparr>"
  let ?w = "\<lparr>ww_db = demo_db\<lparr>db_instances := [?i]\<rparr>, ww_audit = [], ww_effects = []\<rparr> :: wf_world"
  obtain r w' where run: "checkSLAViolations \<lparr>we_ev = demo_ev, we_packs = no_packs, we_audit_ok = True, we_now = 1\<rparr> None ?w = (r, w')"
    by fastforce
  have "wf_inv ?w"
    by (simp add: wf_inv_def db_ok_def instance_ok_def demo_db_def current_state_def)
       (simp add: demo_instance_def)
  moreover have step: "wf_step ?w w'" using run by (rule wf_step.sweep)
  ultimately have "?i \<in> set (db_instances (ww_db w'))"
    by (intro finished_instances_stay [of ?w w' ?i]) auto
  with step show ?thesis by (intro exI [of _ ?w] exI [of _ ?i] exI [of _ w']) simp
qed

section \<open>Instances whose log is not an array\<close>

lemma escalation_not_array:
  "in_slaViolations i = NotAnArray \<Longrightarrow> processEscalation env i ctx w = (r, w') \<Longrightarrow> w' = w"
  by (auto simp: processEscalation_def Let_def split: option.splits)

definition unlogged :: "wf_world \<Rightarrow> bool" where
  "unlogged w \<longleftrightarrow> (\<forall>i \<in> set (db_instances (ww_db w)). in_slaViolations i = NotAnArray)"

lemma sweep_unlogged:
  assumes "unlogged w" "checkSLAViolations env ctx w = (res, w')"
  shows "w' = w"
  by (rule sla_sweep_preserves [where P = "\<lambda>v. v = w", OF _ refl assms(2)])
     (use assms(1) escalation_not_array in \<open>auto simp: unlogged_def\<close>)

lemma step_unlogged:
  assumes "wf_step w w'" "wf_inv w" "unlogged w"
  shows "unlogged w'"
  using assms
proof (induction rule: wf_step.induct)
  case (start newId now wid eid etype T uid c v r db')
  have keys: "keys_distinct in_id (db_instances (ww_db v))" using start.prems(1) by (simp add: wf_inv_def db_ok_def)
  show ?case
    using start.hyps(1) start.prems(2)
    by (auto simp: startWorkflow_def unlogged_def Let_def new_instance_def set_save_row [OF keys]
        split: sum.splits if_splits option.splits)
next
  case (move ev packs ok now rq v r v')
  have keys: "keys_distinct in_id (db_instances (ww_db v))" using move.prems(1) by (simp add: wf_inv_def db_ok_def)
  from move.hyps show ?case
  proof (cases rule: transition_cases)
    case (moved i t signer old new flow i')
    have "i \<in> set (db_instances (ww_db v))" using moved(1) by (auto simp: admit_Inr_iff dest: findInstance_InrD)
    then have "in_slaViolations i' = NotAnArray"
      using move.prems(2) by (simp add: moved(5) moved_def Let_def unlogged_def)
    then show ?thesis using move.prems(2) by (auto simp: unlogged_def moved(7) set_save_row [OF keys])
  qed (use move.prems(2) in \<open>simp_all add: unlogged_def\<close>)
next
  case (sweep env ctx v r v')
  then show ?case using sweep_unlogged by blast
qed

text \<open>
  The watchdog never does anything to an instance whose violations column holds
  the declared default, which is what every instance is created with: after any sequence of
  starts, transitions and sweeps, a sweep leaves the whole world as it is.
\<close>

theorem watchdog_never_escalates_new_instances:
  assumes "wf_step\<^sup>*\<^sup>* w w'" "wf_inv w" "\<forall>i \<in> set (db_instances (ww_db w)). in_slaViolations i = NotAnArray"
    and "checkSLAViolations env ctx w' = (res, w'')"
  shows "w'' = w'"
proof -
  have "unlogged w" using assms(3) by (simp add: unlogged_def)
  with assms(1,2) have "wf_inv w' \<and> unlogged w'"
    by (induction rule: rtranclp_induct) (auto intro: step_keeps step_unlogged)
  then show ?thesis using sweep_unlogged [OF _ assms(4)] by blast
qed

lemma watchdog_never_escalates_new_instances_witness:
  "\<exists>w res w'. overdue 5 (hd (db_instances (ww_db w))) \<and>
     checkSLAViolations \<lparr>we_ev = demo_ev, we_packs = no_packs, we_audit_ok = True, we_now = 5\<rparr> None w = (res, w') \<and> w' = w"
proof -
  let ?i = "demo_instance\<lparr>in_slaDeadline := Some 0\<rparr>"
  let ?w = "\<lparr>ww_db = demo_db\<lparr>db_instances := [?i]\<rparr>, ww_audit = [], ww_effects = []\<rparr> :: wf_world"
  have inv: "wf_inv ?w"
    by (simp add: wf_inv_def db_ok_def instance_ok_def demo_db_def current_state_def)
       (simp add: demo_instance_def)
  have fresh: "\<forall>i \<in> set (db_instances (ww_db ?w)). in_slaViolations i = NotAnArray"
    by (simp add: demo_instance_def)
  obtain res w' where run: "checkSLAViolations \<lparr>we_ev = demo_ev, we_packs = no_packs, we_audit_ok = True, we_now = 5\<rparr> None ?w = (res, w')"
    by fastforce
  have "w' = ?w" by (rule watchdog_never_escalates_new_instances [OF _ inv fresh run]) simp
  moreover have "overdue 5 (hd (db_instances (ww_db ?w)))" by (simp add: overdue_def demo_instance_def)
  ultimately show ?thesis using run by blast
qed

section \<open>Who acts in an escalation\<close>

lemma update_row:
  assumes "keys_distinct in_id (db_instances (ww_db w))" "\<And>i. in_id (patch i) = in_id i"
  shows "by_key in_id (db_instances (ww_db (update_instance iid patch w))) k =
    map_option (\<lambda>i. if k = iid then patch i else i) (by_key in_id (db_instances (ww_db w)) k)"
proof -
  have "by_key in_id (map (\<lambda>i. if in_id i = iid then patch i else i) t) k =
      map_option (\<lambda>i. if k = iid then patch i else i) (by_key in_id t k)" for t
    by (induction t) (use assms(2) in auto)
  then show ?thesis by (simp add: update_instance_def)
qed

text \<open>
  An escalation moves an instance in the name of the system alone: the history of
  its row is as before, or longer by one entry that is triggered by the system actor, says
  which job acted, and has a critical audit entry.
\<close>

theorem escalation_acts_as_system:
  assumes "processEscalation env i ctx w = (res, w')" "wf_inv w"
    and "by_key in_id (db_instances (ww_db w)) (in_id i) = Some row"
  shows "\<exists>row'. by_key in_id (db_instances (ww_db w')) (in_id i) = Some row'
    \<and> (in_history row' = in_history row
       \<or> (\<exists>h. in_history row' = in_history row @ [h] \<and> hi_triggeredBy h = ''system''
            \<and> hi_automatedBy h = Some ''sla-watchdog:auto_approve''
            \<and> (\<exists>a \<in> set (ww_audit w'). au_critical a \<and> au_entityId a = in_id i \<and> au_transitionId a = hi_transitionId h)))"
proof (cases "w' = w")
  case True
  then show ?thesis using assms(3) by simp
next
  case False
  obtain flow e vs where e: "executeEscalationActions env ctx i e
      (update_instance (in_id i) (\<lambda>r. r\<lparr>in_escalationLevel := in_escalationLevel i + 1, in_slaViolations := Violations vs\<rparr>) w)
      = (res, w')"
    using assms(1) False
    by (auto simp: processEscalation_def Let_def split: option.splits violation_log.splits)
  let ?patch = "\<lambda>r. r\<lparr>in_escalationLevel := in_escalationLevel i + 1, in_slaViolations := Violations vs\<rparr>"
  let ?w = "update_instance (in_id i) ?patch w"
  have keys: "keys_distinct in_id (db_instances (ww_db w))" using assms(2) by (simp add: wf_inv_def db_ok_def)
  have keys1: "keys_distinct in_id (db_instances (ww_db ?w))"
    using keys by (simp add: update_instance_def comp_def if_distrib cong: if_cong)
  have row1: "by_key in_id (db_instances (ww_db ?w)) (in_id i) = Some (?patch row)"
    using assms(3) by (simp add: update_row [OF keys])
  show ?thesis
  proof (cases "el_action e = ''auto_approve'' \<and> w' \<noteq> ?w")
    case True
    then obtain tid r' where run: "transition (we_ev env) (we_packs env) (we_audit_ok env) (we_now env) (auto_approval i tid) ?w = (r', w')"
      using e by (auto simp: executeEscalationActions_def split: sum.splits list.splits prod.splits)
    from run show ?thesis
    proof (cases rule: transition_cases)
      case (dangling j t signer old new)
      then have "ww_db w' = ww_db ?w" by simp
      then show ?thesis using row1 by auto
    next
      case (moved j t signer old new flow' j')
      have "findInstanceOrThrow (ww_db ?w) (in_id i) (in_tenantId i) = Inr j"
        using moved(1) by (simp add: admit_Inr_iff auto_approval_def)
      from findInstance_InrD [OF this] have "in_id j = in_id i" "j \<in> set (db_instances (ww_db ?w))" by simp_all
      then have j: "j = ?patch row" using row1 keys1 by (metis by_key_mem option.inject)
      have new: "by_key in_id (db_instances (ww_db w')) (in_id i) = Some j'"
        using \<open>in_id j = in_id i\<close> by (simp add: moved(5,7) by_key_save)
      have history: "in_history j' = in_history row @ [history_of (auto_approval i tid) j t signer old new (we_now env)]"
        by (simp add: moved(5) moved_def Let_def j)
      have audit: "ww_audit w' = ww_audit ?w @ [automated_audit (auto_approval i tid) j t old new]"
        using moved(9) by (simp add: auto_approval_def)
      show ?thesis
        using new history audit \<open>in_id j = in_id i\<close>
        by (auto simp: history_of_def auto_approval_def automated_audit_def SYSTEM_ACTOR_def)
    qed (use True in simp)
  next
    case False
    have cancelled: "by_key in_id (db_instances (ww_db (update_instance (in_id i) (\<lambda>r. r\<lparr>in_status := InstCancelled\<rparr>) ?w)))
        (in_id i) = Some ((?patch row)\<lparr>in_status := InstCancelled\<rparr>)"
      by (subst update_row [OF keys1]) (simp_all add: row1)
    show ?thesis
      using False e row1 cancelled by (auto simp: executeEscalationActions_def split: if_splits)
  qed
qed



text \<open>The demonstration world with an overdue instance that its workflow approves by itself.\<close>

definition auto_world :: wf_world where
  "auto_world =
     (let e = \<lparr>el_level = 1, el_action = ''auto_approve'', el_notify = None\<rparr>;
          t = demo_transition\<lparr>tr_conditions := \<lparr>co_operator = None, co_rules = None, co_jsonLogic = JUndef, co_unevaluable = None\<rparr>,
                tr_permissions := \<lparr>pe_roles = None, pe_users = None, pe_requiresSignOff = False\<rparr>\<rparr>
      in \<lparr>ww_db = demo_db\<lparr>
            db_workflows := map (\<lambda>f. f\<lparr>wf_slaConfig := \<lparr>sc_enabled = True, sc_escalationLevels = Some [e]\<rparr>\<rparr>) (db_workflows demo_db),
            db_transitions := [t],
            db_instances := [demo_instance\<lparr>in_slaDeadline := Some 0, in_slaViolations := Violations []\<rparr>]\<rparr>,
          ww_audit = [], ww_effects = []\<rparr>)"

definition auto_env :: wf_env where
  "auto_env = \<lparr>we_ev = demo_ev, we_packs = no_packs, we_audit_ok = True, we_now = 5\<rparr>"

lemma escalation_acts_as_system_witness:
  "\<exists>i res w' row'. processEscalation auto_env i None auto_world = (res, w')
     \<and> by_key in_id (db_instances (ww_db w')) (in_id i) = Some row'
     \<and> (in_history row' = [] \<or> (\<exists>h. in_history row' = [h] \<and> hi_triggeredBy h = ''system''))"
proof -
  let ?i = "demo_instance\<lparr>in_slaDeadline := Some 0, in_slaViolations := Violations []\<rparr>"
  obtain res w' where run: "processEscalation auto_env ?i None auto_world = (res, w')" by fastforce
  have inv: "wf_inv auto_world"
    by (simp add: wf_inv_def db_ok_def instance_ok_def current_state_def auto_world_def demo_db_def)
       (simp add: demo_instance_def)
  have row: "by_key in_id (db_instances (ww_db auto_world)) (in_id ?i) = Some ?i"
    by (simp add: auto_world_def)
  have "in_history ?i = []" by (simp add: demo_instance_def)
  then show ?thesis using escalation_acts_as_system [OF run inv row] run by fastforce
qed

end
