(* ===== verification/PackWorkflow.thy ===== *)
theory PackWorkflow
  imports PackCondition Sla
begin

text \<open>
  \<^verbatim>\<open>src/workflow/services/pack-workflow.service.ts\<close>: turning the \<open>workflows[]\<close> section of a
  pack into rows of the workflow tables, once per tenant and pack workflow.

  The pack and its section are arguments, as \<^verbatim>\<open>vertical-pack.service.ts\<close> gives them. Of a
  state's \<open>config\<close> only \<open>slaHours\<close> is kept: the engine reads nothing else of it.
\<close>

section \<open>The section\<close>

record pack_transition =
  pt_to :: str
  pt_label :: str
  pt_condition :: "str option"

record pack_step =
  ps_id :: str
  ps_name :: str
  ps_description :: "str option"
  ps_assignedRole :: "str option"
  ps_requiresSignOff :: "bool option"
  ps_slaHours :: "int option"
  ps_transitions :: "pack_transition list option"

record pack_workflow =
  pw_id :: str
  pw_name :: str
  pw_description :: "str option"
  pw_entityType :: str
  pw_steps :: "pack_step list"

record pack_ref =
  pr_code :: str
  pr_version :: str

record materialise_report =
  mr_pack :: "pack_ref option"
  mr_created :: "(str \<times> str) list"
  mr_existing :: "(str \<times> str) list"
  mr_unevaluable :: "(str \<times> str \<times> str \<times> str) list"

section \<open>One workflow\<close>

text \<open>Why a condition did not compile; the text of the engine's own JSON error is left off.\<close>

fun reason_of :: "compile_error \<Rightarrow> str" where
  "reason_of JsonNotAnObject = ''JSON condition must be an object''"
| "reason_of InvalidJson = ''invalid JSON: ''"
| "reason_of (NotALiteral s) = ''not a literal: '' @ s"
| "reason_of UnsupportedSyntax =
     ''unsupported condition syntax; use `<path> <op> <literal>`, `<path> in [...]`, `<path> not in [...]`, or a JsonLogic object''"

definition conditions_of :: "str option \<Rightarrow> conditions" where
  "conditions_of source =
     (let base = \<lparr>co_operator = Some ''AND'', co_rules = Some [], co_jsonLogic = JUndef, co_unevaluable = None\<rparr>
      in case compileCondition source of
           Inr c \<Rightarrow> if truthy_str source \<and> trim (the source) \<noteq> [] then base\<lparr>co_jsonLogic := cc_jsonLogic c\<rparr> else base
         | Inl e \<Rightarrow> base\<lparr>co_unevaluable := Some (reason_of e)\<rparr>)"

definition step_state :: "pack_workflow \<Rightarrow> nat \<Rightarrow> pack_step \<Rightarrow> state_def" where
  "step_state def i step =
     (let hasOutgoing = map ps_id (filter (\<lambda>s. nullish (ps_transitions s) [] \<noteq> []) (pw_steps def))
      in \<lparr>sd_name = ps_id step,
          sd_type = (if i = 0 then StateStart
                     else if ps_id step \<in> set hasOutgoing then StateIntermediate else StateEnd),
          sd_description = Some (nullish (ps_description step) (ps_name step)),
          sd_slaHours = ps_slaHours step\<rparr>)"

definition step_transition :: "pack_step \<Rightarrow> pack_transition \<Rightarrow> trans_def" where
  "step_transition step t =
     \<lparr>td_name = pt_label t, td_from = ps_id step, td_to = pt_to t,
      td_type = Some (if truthy_str (pt_condition t) then TransConditional else TransManual),
      td_conditions = Some (conditions_of (pt_condition t)),
      td_actions = Some [],
      td_permissions = Some
        \<lparr>pe_roles = Some (if truthy_str (ps_assignedRole step) then [the (ps_assignedRole step)] else []),
         pe_users = None, pe_requiresSignOff = nullish (ps_requiresSignOff step) False\<rparr>\<rparr>"

text \<open>The steps with their transitions, in the order of the loops.\<close>

definition step_transitions :: "pack_workflow \<Rightarrow> (pack_step \<times> pack_transition) list" where
  "step_transitions def =
     concat (map (\<lambda>s. map (Pair s) (nullish (ps_transitions s) [])) (pw_steps def))"

definition unevaluable_of :: "pack_workflow \<Rightarrow> (str \<times> str \<times> str \<times> str) list" where
  "unevaluable_of def =
     concat (map (\<lambda>(s, t). case compileCondition (pt_condition t) of
                             Inl e \<Rightarrow> [(pw_id def, ps_id s, pt_to t, reason_of e)] | Inr _ \<Rightarrow> [])
              (step_transitions def))"

definition or_null :: "str option \<Rightarrow> js" where
  "or_null s = (case s of None \<Rightarrow> JNull | Some x \<Rightarrow> JStr x)"

definition toDefinition :: "pack_ref option \<Rightarrow> pack_workflow \<Rightarrow> workflow_def" where
  "toDefinition pack def =
     \<lparr>wd_name = pw_name def, wd_description = pw_description def, wd_entityType = pw_entityType def,
      wd_states = map (\<lambda>(i, s). step_state def i s) (zip [0..<length (pw_steps def)] (pw_steps def)),
      wd_transitions = map (\<lambda>(s, t). step_transition s t) (step_transitions def),
      wd_trigger = Some TriggerManual,
      wd_triggerConfig = Some [(''pack'', JObj
        [(''code'', or_null (map_option pr_code pack)), (''version'', or_null (map_option pr_version pack)),
         (''workflowId'', JStr (pw_id def))])],
      wd_slaConfig = Some \<lparr>sc_enabled = list_ex (\<lambda>s. truthy_num (ps_slaHours s)) (pw_steps def),
                           sc_escalationLevels = None\<rparr>\<rparr>"

section \<open>All of them\<close>

text \<open>\<open>"triggerConfig"->'pack'->>'workflowId'\<close>, for a stored string.\<close>

definition origin :: "workflow \<Rightarrow> str option" where
  "origin w =
     (case obj_get ''pack'' (wf_triggerConfig w) of
        Some (JObj p) \<Rightarrow> (case obj_get ''workflowId'' p of Some (JStr s) \<Rightarrow> Some s | _ \<Rightarrow> None)
      | _ \<Rightarrow> None)"

definition findMaterialised :: "wf_db \<Rightarrow> str \<Rightarrow> str \<Rightarrow> workflow option" where
  "findMaterialised db tenantId packWorkflowId =
     find_one (\<lambda>_. True)
       (sort_key (\<lambda>w. - int (wf_version w))
          (find_where (\<lambda>w. wf_tenantId w = tenantId \<and> origin w = Some packWorkflowId) (db_workflows db)))"

definition activate :: "str \<Rightarrow> wf_db \<Rightarrow> wf_db" where
  "activate wid db =
     db\<lparr>db_workflows := map (\<lambda>w. if wf_id w = wid then w\<lparr>wf_status := WfActive\<rparr> else w) (db_workflows db)\<rparr>"

text \<open>The loop; \<open>ids n\<close> are the ids drawn for the \<open>n\<close>-th workflow of the section.\<close>

fun materialise_loop ::
  "(nat \<Rightarrow> wf_ids) \<Rightarrow> instant \<Rightarrow> str \<Rightarrow> pack_ref option \<Rightarrow> nat \<Rightarrow> pack_workflow list
   \<Rightarrow> materialise_report \<Rightarrow> wf_db \<Rightarrow> (wf_error + materialise_report) \<times> wf_db" where
  "materialise_loop ids now tenantId pack n [] rep db = (Inr rep, db)"
| "materialise_loop ids now tenantId pack n (def # defs) rep db =
     (case findMaterialised db tenantId (pw_id def) of
        Some w \<Rightarrow>
          materialise_loop ids now tenantId pack (Suc n) defs
            (rep\<lparr>mr_existing := mr_existing rep @ [(pw_id def, wf_id w)]\<rparr>) db
      | None \<Rightarrow>
          (case createWorkflow (ids n) now tenantId (toDefinition pack def) db of
             (Inl e, db') \<Rightarrow> (Inl e, db')
           | (Inr w, db') \<Rightarrow>
               materialise_loop ids now tenantId pack (Suc n) defs
                 (rep\<lparr>mr_unevaluable := mr_unevaluable rep @ unevaluable_of def,
                      mr_created := mr_created rep @ [(pw_id def, wf_id w)]\<rparr>)
                 (activate (wf_id w) db')))"

definition selected :: "pack_workflow list option \<Rightarrow> str option \<Rightarrow> pack_workflow list" where
  "selected sect only = filter (\<lambda>d. \<not> truthy_str only \<or> pw_id d = the only) (nullish sect [])"

definition materialise ::
  "(nat \<Rightarrow> wf_ids) \<Rightarrow> instant \<Rightarrow> str \<Rightarrow> pack_ref option \<Rightarrow> pack_workflow list option \<Rightarrow> str option
   \<Rightarrow> wf_db \<Rightarrow> (wf_error + materialise_report) \<times> wf_db" where
  "materialise ids now tenantId pack sect only db =
     materialise_loop ids now tenantId pack 0 (selected sect only)
       \<lparr>mr_pack = pack, mr_created = [], mr_existing = [], mr_unevaluable = []\<rparr> db"


section \<open>Conditions\<close>

lemma reason_nonempty: "truthy_str (Some (reason_of e))"
  by (cases e) auto

lemma compiled_shape:
  assumes "compileCondition source = Inr c"
  shows "if truthy_str source \<and> trim (the source) \<noteq> [] then \<exists>kvs. cc_jsonLogic c = JObj kvs else cc_jsonLogic c = JBool True"
  using assms by (cases rule: compileCondition_InrE) (auto simp: trim_def)

text \<open>
  What the engine makes of a condition of a pack: a text that does not compile never
  opens its transition, one that compiles opens it exactly when JsonLogic says so, and no
  text at all leaves it open. The rules the stored conditions also have room for never
  decide.
\<close>

theorem pack_condition_decides:
  "evaluateConditions ev now (conditions_of source) ctx =
     Inr (case compileCondition source of
            Inl _ \<Rightarrow> False
          | Inr c \<Rightarrow> cc_jsonLogic c = JBool True \<or> matches (ev_logic ev) (ev_dates ev) now (cc_jsonLogic c) ctx)"
proof (cases "compileCondition source")
  case (Inl e)
  then show ?thesis using reason_nonempty [of e] by (simp add: conditions_of_def evaluateConditions_def)
next
  case (Inr c)
  then show ?thesis using compiled_shape [OF Inr]
    by (auto simp: conditions_of_def evaluateConditions_def Let_def split: if_splits)
qed

text \<open>A condition of the grammar, as an author prints it, opens its transition exactly when its own JsonLogic holds.\<close>

theorem printed_condition_decides:
  assumes "printable c"
  shows "evaluateConditions ev now (conditions_of (Some (print_condition c))) ctx =
     Inr (matches (ev_logic ev) (ev_dates ev) now (condition_logic c) ctx)"
proof -
  note compiled = compile_printed [OF assms]
  have "truthy_str (Some (print_condition c)) \<and> trim (print_condition c) \<noteq> []"
    using printed_condition_text [OF assms] by simp
  then obtain kvs where "condition_logic c = JObj kvs" using compiled_shape [OF compiled] by auto
  then show ?thesis
    using compiled printed_condition_text [OF assms] by (simp add: conditions_of_def evaluateConditions_def Let_def)
qed

section \<open>The loop\<close>

text \<open>Whether a workflow of the tenant records the origin.\<close>

abbreviation originates :: "str \<Rightarrow> str \<Rightarrow> workflow \<Rightarrow> bool" where
  "originates T p w \<equiv> wf_tenantId w = T \<and> origin w = Some p"

lemma findMaterialised_None_iff:
  "findMaterialised db T p = None \<longleftrightarrow> \<not> list_ex (originates T p) (db_workflows db)"
  by (auto simp: findMaterialised_def find_one_None_iff find_where_def list_ex_iff)

abbreviation materialised :: "wf_db \<Rightarrow> str \<Rightarrow> str \<Rightarrow> bool" where
  "materialised db T p \<equiv> findMaterialised db T p \<noteq> None"

lemma origin_draft: "origin (draft ids now T (toDefinition pack def)) = Some (pw_id def)"
  by (simp add: origin_def toDefinition_def)

lemma origin_activated [simp]: "origin (w\<lparr>wf_status := s\<rparr>) = origin w"
  by (simp add: origin_def)

lemma materialised_activate [simp]: "materialised (activate wid db) T p \<longleftrightarrow> materialised db T p"
proof -
  have "list_ex (originates T p) (map (\<lambda>w. if wf_id w = wid then w\<lparr>wf_status := WfActive\<rparr> else w) ws)
      \<longleftrightarrow> list_ex (originates T p) ws" for ws
    by (induction ws) auto
  then show ?thesis by (simp add: findMaterialised_None_iff activate_def)
qed

text \<open>The ids drawn for each creation are new in the tables it writes to.\<close>

fun fresh_run ::
  "(nat \<Rightarrow> wf_ids) \<Rightarrow> instant \<Rightarrow> str \<Rightarrow> pack_ref option \<Rightarrow> nat \<Rightarrow> pack_workflow list \<Rightarrow> wf_db \<Rightarrow> bool" where
  "fresh_run ids now T pack n [] db \<longleftrightarrow> True"
| "fresh_run ids now T pack n (d # ds) db \<longleftrightarrow>
     (case findMaterialised db T (pw_id d) of
        Some _ \<Rightarrow> fresh_run ids now T pack (Suc n) ds db
      | None \<Rightarrow> fresh_ids (ids n) (toDefinition pack d) db
               \<and> (case createWorkflow (ids n) now T (toDefinition pack d) db of
                    (Inl _, _) \<Rightarrow> True
                  | (Inr w, db') \<Rightarrow> fresh_run ids now T pack (Suc n) ds (activate (wf_id w) db')))"

text \<open>One turn of the loop: a workflow found, one refused, or one created.\<close>

lemma materialise_turn:
  assumes "materialise_loop ids now T pack n (d # ds) rep db = (r, db')" "fresh_run ids now T pack n (d # ds) db"
  obtains (found) w where "findMaterialised db T (pw_id d) = Some w" "fresh_run ids now T pack (Suc n) ds db"
      "materialise_loop ids now T pack (Suc n) ds (rep\<lparr>mr_existing := mr_existing rep @ [(pw_id d, wf_id w)]\<rparr>) db = (r, db')"
  | (refused) e where "r = Inl e" "db' = db" "\<not> materialised db T (pw_id d)"
  | (created) w db1 rows where "\<not> materialised db T (pw_id d)"
      "w = draft (ids n) now T (toDefinition pack d)"
      "wf_id w \<notin> wf_id ` set (db_workflows db)" "wf_id w \<notin> st_workflowId ` set (db_states db)"
      "db1 = activate (wf_id w) (db\<lparr>db_workflows := db_workflows db @ [w],
                db_states := db_states db @ new_states (ids n) (toDefinition pack d),
                db_transitions := db_transitions db @ rows\<rparr>)"
      "fresh_run ids now T pack (Suc n) ds db1"
      "materialise_loop ids now T pack (Suc n) ds
         (rep\<lparr>mr_unevaluable := mr_unevaluable rep @ unevaluable_of d,
              mr_created := mr_created rep @ [(pw_id d, wf_id w)]\<rparr>) db1 = (r, db')"
proof (cases "findMaterialised db T (pw_id d)")
  case (Some w)
  then show thesis using assms by (intro found) auto
next
  case None
  obtain r1 db1 where run: "createWorkflow (ids n) now T (toDefinition pack d) db = (r1, db1)" by fastforce
  have fresh: "fresh_ids (ids n) (toDefinition pack d) db" using assms(2) None by simp
  from run fresh show thesis
  proof (cases rule: createWorkflow_cases)
    case (refused e)
    then have "r = Inl e" "db' = db" using assms(1) None run by auto
    then show thesis using None by (intro that(2)) simp_all
  next
    case (created rows)
    show thesis
    proof (rule that(3) [OF _ refl _ _ refl])
      show "\<not> materialised db T (pw_id d)" using None by simp
      show "wf_id (draft (ids n) now T (toDefinition pack d)) \<notin> wf_id ` set (db_workflows db)"
        "wf_id (draft (ids n) now T (toDefinition pack d)) \<notin> st_workflowId ` set (db_states db)"
        using fresh by (simp_all add: fresh_ids_def)
    qed (use assms None run created in simp_all)
  qed
qed

lemma materialised_appended:
  "materialised (activate wid (db\<lparr>db_workflows := db_workflows db @ [w], db_states := ss, db_transitions := ts\<rparr>)) T p
     \<longleftrightarrow> materialised db T p \<or> wf_tenantId w = T \<and> origin w = Some p"
  unfolding materialised_activate by (simp add: findMaterialised_None_iff)

lemma loop_materialises:
  assumes "materialise_loop ids now T pack n ds rep db = (Inr rep', db')" "fresh_run ids now T pack n ds db"
  shows "(\<forall>p. materialised db T p \<longrightarrow> materialised db' T p) \<and> (\<forall>d \<in> set ds. materialised db' T (pw_id d))"
  using assms
proof (induction ds arbitrary: n rep db)
  case (Cons d ds)
  from Cons.prems show ?case
  proof (cases rule: materialise_turn)
    case (found w)
    then show ?thesis using Cons.IH [OF found(3,2)] by auto
  next
    case (created w db1 rows)
    have "materialised db1 T p \<longleftrightarrow> materialised db T p \<or> p = pw_id d" for p
      unfolding created(5) materialised_appended by (auto simp: created(2) origin_draft)
    then show ?thesis using Cons.IH [OF created(7,6)] by auto
  qed simp
qed simp

lemma loop_creates_once:
  assumes "materialise_loop ids now T pack n ds rep db = (Inr rep', db')" "fresh_run ids now T pack n ds db"
    "\<forall>p \<in> fst ` set (mr_created rep). materialised db T p" "distinct (map fst (mr_created rep))"
  shows "distinct (map fst (mr_created rep'))"
  using assms
proof (induction ds arbitrary: n rep db)
  case (Cons d ds)
  from Cons.prems(1,2) show ?case
  proof (cases rule: materialise_turn)
    case (found w)
    then show ?thesis using Cons.IH [OF found(3,2)] Cons.prems(3,4) by simp
  next
    case (created w db1 rows)
    have now_there: "materialised db1 T p \<longleftrightarrow> materialised db T p \<or> p = pw_id d" for p
      unfolding created(5) materialised_appended by (auto simp: created(2) origin_draft)
    show ?thesis
      by (rule Cons.IH [OF created(7,6)]) (use now_there created(1) Cons.prems(3,4) in auto)
  qed simp
qed simp

lemma loop_finds_all:
  assumes "\<forall>d \<in> set ds. materialised db T (pw_id d)"
  shows "materialise_loop ids now T pack n ds rep db =
     (Inr (rep\<lparr>mr_existing := mr_existing rep @
        map (\<lambda>d. (pw_id d, wf_id (the (findMaterialised db T (pw_id d))))) ds\<rparr>), db)"
  using assms by (induction ds arbitrary: n rep) auto



text \<open>
  Claim C27: materialising is idempotent. After a run that raised nothing, a second run with
  the same section, whatever the pack's version by then, writes nothing and reports every workflow
  as existing; and no run creates two workflows for one entry, not even where the section lists it twice.
\<close>

theorem materialise_is_idempotent:
  assumes "materialise ids now T pack sect only db = (Inr rep, db')"
    "fresh_run ids now T pack 0 (selected sect only) db"
  shows "\<exists>rep'. materialise ids' now' T pack' sect only db' = (Inr rep', db')
      \<and> mr_created rep' = [] \<and> mr_unevaluable rep' = []
      \<and> map fst (mr_existing rep') = map pw_id (selected sect only)
      \<and> distinct (map fst (mr_created rep))"
proof -
  note run = assms(1) [unfolded materialise_def]
  have "\<forall>d \<in> set (selected sect only). materialised db' T (pw_id d)"
    using loop_materialises [OF run assms(2)] by blast
  from loop_finds_all [OF this] have "materialise ids' now' T pack' sect only db' =
      (Inr \<lparr>mr_pack = pack', mr_created = [],
            mr_existing = map (\<lambda>d. (pw_id d, wf_id (the (findMaterialised db' T (pw_id d))))) (selected sect only),
            mr_unevaluable = []\<rparr>, db')"
    by (simp add: materialise_def)
  moreover have "distinct (map fst (mr_created rep))"
    by (rule loop_creates_once [OF run assms(2)]) simp_all
  ultimately show ?thesis by (simp add: comp_def)
qed

section \<open>What is created\<close>

lemma by_key_append:
  "by_key key (t @ [r]) k = (case by_key key t k of Some x \<Rightarrow> Some x | None \<Rightarrow> if key r = k then Some r else None)"
  by (induction t) auto

lemma by_key_map: "(\<And>x. key (f x) = key x) \<Longrightarrow> by_key key (map f t) k = map_option f (by_key key t k)"
  by (induction t) auto

text \<open>A materialised workflow is in the tables, active, with the steps of its entry as its states.\<close>

definition ready :: "wf_db \<Rightarrow> str \<Rightarrow> pack_workflow \<Rightarrow> str \<Rightarrow> bool" where
  "ready db T def wid \<longleftrightarrow>
     (\<exists>w. by_key wf_id (db_workflows db) wid = Some w \<and> wf_tenantId w = T \<and> wf_status w = WfActive
        \<and> sc_escalationLevels (wf_slaConfig w) = None
        \<and> map st_name (states_of db wid) = map ps_id (pw_steps def)
        \<and> map st_type (states_of db wid) = map sd_type (wd_states (toDefinition None def)))"

lemma by_key_activate:
  "by_key wf_id (db_workflows (activate wid db)) v =
     map_option (\<lambda>w. if wf_id w = wid then w\<lparr>wf_status := WfActive\<rparr> else w) (by_key wf_id (db_workflows db) v)"
  by (simp add: activate_def by_key_map)

lemma states_of_activate [simp]: "states_of (activate wid db) = states_of db"
  by (rule ext) (simp add: states_of_def activate_def)

lemma step_names: "map sd_name (wd_states (toDefinition pack def)) = map ps_id (pw_steps def)"
  "wd_states (toDefinition pack def) = wd_states (toDefinition None def)"
  by (rule nth_equalityI) (simp_all add: toDefinition_def step_state_def Let_def)

lemma ready_created:
  assumes "w = draft ids now T (toDefinition pack d)" "wf_id w \<notin> wf_id ` set (db_workflows db)"
    "wf_id w \<notin> st_workflowId ` set (db_states db)"
  shows "ready (activate (wf_id w) (db\<lparr>db_workflows := db_workflows db @ [w],
      db_states := db_states db @ new_states ids (toDefinition pack d), db_transitions := ts\<rparr>)) T d (wf_id w)"
proof -
  have id: "wf_id w = id_workflow ids" using assms(1) by simp
  have "by_key wf_id (db_workflows db) (wf_id w) = None" using assms(2) by (simp add: by_key_None_iff)
  moreover have "find_where (\<lambda>s. st_workflowId s = wf_id w) (db_states db @ new_states ids (toDefinition pack d))
      = new_states ids (toDefinition pack d)"
  proof (rule find_where_appended(1))
    show "\<forall>s \<in> set (db_states db). st_workflowId s \<noteq> wf_id w" using assms(3) by (metis imageI)
    show "\<forall>s \<in> set (new_states ids (toDefinition pack d)). st_workflowId s = wf_id w"
      unfolding id by (intro ballI new_states_facts(4))
  qed
  moreover have "sc_escalationLevels (wf_slaConfig w) = None"
    using assms(1) by (simp add: toDefinition_def)
  ultimately show ?thesis
    using assms(1) new_states_facts(2,3) [of ids "toDefinition pack d"] step_names [of pack d]
    by (simp add: ready_def by_key_activate by_key_append states_of_def)
qed

lemma ready_kept:
  assumes "ready db T def wid" "wf_id w \<notin> wf_id ` set (db_workflows db)"
    "\<forall>s \<in> set ss. st_workflowId s = wf_id w"
  shows "ready (activate (wf_id w) (db\<lparr>db_workflows := db_workflows db @ [w],
      db_states := db_states db @ ss, db_transitions := ts\<rparr>)) T def wid"
proof -
  obtain v where v: "by_key wf_id (db_workflows db) wid = Some v" using assms(1) by (auto simp: ready_def)
  then have other: "wid \<noteq> wf_id w" "wf_id v = wid" using assms(2) by (auto dest!: by_key_SomeD simp: image_iff)
  have "find_where (\<lambda>s. st_workflowId s = wid) (db_states db @ ss) = find_where (\<lambda>s. st_workflowId s = wid) (db_states db)"
    by (rule find_where_appended(2)) (use assms(3) other in auto)
  then show ?thesis using assms(1) v other by (simp add: ready_def by_key_activate by_key_append states_of_def)
qed

lemma loop_ready:
  assumes "materialise_loop ids now T pack n ds rep db = (Inr rep', db')" "fresh_run ids now T pack n ds db"
    "\<forall>(p, wid) \<in> set (mr_created rep). \<exists>def \<in> D. pw_id def = p \<and> ready db T def wid" "set ds \<subseteq> D"
  shows "\<forall>(p, wid) \<in> set (mr_created rep'). \<exists>def \<in> D. pw_id def = p \<and> ready db' T def wid"
  using assms
proof (induction ds arbitrary: n rep db)
  case (Cons d ds)
  from Cons.prems(1,2) show ?case
  proof (cases rule: materialise_turn)
    case (found w)
    show ?thesis by (rule Cons.IH [OF found(3,2)]) (use Cons.prems(3,4) in auto)
  next
    case (created w db1 rows)
    have kept: "ready db T def wid \<Longrightarrow> ready db1 T def wid" for def wid
      unfolding created(5) by (rule ready_kept [OF _ created(3)]) (use new_states_facts(4) created(2) in auto)
    have new: "ready db1 T d (wf_id w)"
      unfolding created(5) by (rule ready_created [OF created(2-4)])
    have "\<forall>(p, wid) \<in> set (mr_created rep). \<exists>def \<in> D. pw_id def = p \<and> ready db1 T def wid"
      using Cons.prems(3) kept by blast
    then have "\<forall>(p, wid) \<in> set (mr_created rep @ [(pw_id d, wf_id w)]). \<exists>def \<in> D. pw_id def = p \<and> ready db1 T def wid"
      using new Cons.prems(4) by auto
    then show ?thesis
      by (intro Cons.IH [OF created(7,6)]) (use Cons.prems(4) in simp_all)
  qed simp
qed simp

lemma materialise_ready:
  assumes "materialise ids now T pack sect only db = (Inr rep, db')"
    "fresh_run ids now T pack 0 (selected sect only) db" "(p, wid) \<in> set (mr_created rep)"
  obtains def where "def \<in> set (selected sect only)" "pw_id def = p" "ready db' T def wid"
  using loop_ready [OF assms(1) [unfolded materialise_def] assms(2), of "set (selected sect only)"] assms(3)
  by auto

lemma find_one_of_key:
  "by_key key t k = Some x \<Longrightarrow> P x \<Longrightarrow> find_one (\<lambda>r. key r = k \<and> P r) t = Some x"
  by (induction t) (auto split: if_splits)

lemma first_state:
  assumes "map st_name ss = map ps_id (pw_steps def)" "map st_type ss = map sd_type (wd_states (toDefinition None def))"
  shows "find_one (\<lambda>s. st_type s = StateStart) ss = (case ss of [] \<Rightarrow> None | s # _ \<Rightarrow> Some s)
    \<and> (ss \<noteq> [] \<longrightarrow> st_name (hd ss) = ps_id (hd (pw_steps def)))"
proof (cases ss)
  case (Cons s rest)
  then obtain d ds where d: "pw_steps def = d # ds" "st_name s = ps_id d"
    using assms(1) by (cases "pw_steps def") auto
  have "st_type s = hd (map st_type ss)" using Cons by simp
  also have "\<dots> = StateStart"
    unfolding assms(2) using d by (simp add: toDefinition_def step_state_def upt_conv_Cons del: upt_Suc)
  finally show ?thesis using Cons d by simp
qed simp

text \<open>
  A workflow a run created can be started at once, and an instance of it begins at
  the first step of its entry; only an entry without steps gives a workflow that cannot start.
\<close>

theorem materialised_workflows_start:
  assumes "materialise ids now T pack sect only db = (Inr rep, db')"
    "fresh_run ids now T pack 0 (selected sect only) db" "(p, wid) \<in> set (mr_created rep)"
    "startWorkflow newId now' wid entityId entityType T userId ctx db' = (r, db'')"
    "keys_distinct in_id (db_instances db')"
  shows "\<exists>def \<in> set (selected sect only). pw_id def = p \<and>
     (if pw_steps def = [] then r = Inl NoStartState \<and> db'' = db'
      else \<exists>i s. r = Inr i \<and> in_status i = InstActive \<and> in_history i = [] \<and> in_workflowId i = wid
             \<and> s \<in> set (states_of db' wid) \<and> st_id s = in_currentStateId i \<and> st_name s = ps_id (hd (pw_steps def)))"
proof -
  obtain def where def: "def \<in> set (selected sect only)" "pw_id def = p" "ready db' T def wid"
    using materialise_ready [OF assms(1-3)] by blast
  then obtain w where w: "by_key wf_id (db_workflows db') wid = Some w" "wf_tenantId w = T" "wf_status w = WfActive"
    and states: "map st_name (states_of db' wid) = map ps_id (pw_steps def)"
      "map st_type (states_of db' wid) = map sd_type (wd_states (toDefinition None def))"
    unfolding ready_def by blast
  have id: "wf_id w = wid" using w(1) by (auto dest: by_key_SomeD)
  have get: "getWorkflow db' wid T = Inr w"
    using find_one_of_key [OF w(1), of "\<lambda>x. wf_tenantId x = T"] w(2) by (simp add: getWorkflow_def)
  note start = first_state [OF states]
  have "pw_id def = p \<and>
     (if pw_steps def = [] then r = Inl NoStartState \<and> db'' = db'
      else \<exists>i s. r = Inr i \<and> in_status i = InstActive \<and> in_history i = [] \<and> in_workflowId i = wid
             \<and> s \<in> set (states_of db' wid) \<and> st_id s = in_currentStateId i \<and> st_name s = ps_id (hd (pw_steps def)))"
  proof (cases "states_of db' wid")
    case Nil
    then have "pw_steps def = []" using states(1) by simp
    then show ?thesis using assms(4) get w(3) id start Nil def(2) by (simp add: startWorkflow_def)
  next
    case (Cons s rest)
    then have "pw_steps def \<noteq> []" using states(1) by auto
    moreover define i where "i = new_instance newId now' w s entityId entityType T userId ctx"
    have "r = findInstanceOrThrow (db'\<lparr>db_instances := save_row in_id i (db_instances db')\<rparr>) newId T"
      using assms(4) get w(3) id start Cons by (auto simp: startWorkflow_def i_def Let_def)
    moreover have "in_id i = newId" "in_tenantId i = T" "in_status i = InstActive" "in_history i = []"
      "in_workflowId i = wid" "in_currentStateId i = st_id s"
      using id by (simp_all add: i_def new_instance_def)
    ultimately show ?thesis
      using start Cons def(2) by (auto simp: findInstance_saved [OF assms(5)])
  qed
  with def(1) show ?thesis by blast
qed

text \<open>
  An instance of a materialised workflow is never escalated, whatever its level and
  however late it is: the pack's hours make deadlines, but nothing gives the workflow the levels the
  watchdog looks for.
\<close>

theorem materialised_workflows_never_escalate:
  assumes "materialise ids now T pack sect only db = (Inr rep, db')"
    "fresh_run ids now T pack 0 (selected sect only) db" "(p, in_workflowId i) \<in> set (mr_created rep)"
    "ww_db w = db'"
  shows "processEscalation env i ctx w = (Inr (), w)"
proof -
  obtain def where "ready db' T def (in_workflowId i)"
    using materialise_ready [OF assms(1-3)] by blast
  then obtain flow where "by_key wf_id (db_workflows db') (in_workflowId i) = Some flow"
    "sc_escalationLevels (wf_slaConfig flow) = None"
    unfolding ready_def by blast
  then show ?thesis using assms(4) by (simp add: processEscalation_def escalation_for_def Let_def)
qed


section \<open>Examples\<close>

definition demo_pack :: "pack_workflow list" where
  "demo_pack =
     [\<lparr>pw_id = ''wf_visa'', pw_name = ''Visa'', pw_description = None, pw_entityType = ''case'',
       pw_steps =
         [\<lparr>ps_id = ''intake'', ps_name = ''Intake'', ps_description = None, ps_assignedRole = Some ''officer'',
           ps_requiresSignOff = Some True, ps_slaHours = Some 24,
           ps_transitions = Some [\<lparr>pt_to = ''lodged'', pt_label = ''Lodge'', pt_condition = Some ''a == b''\<rparr>]\<rparr>,
          \<lparr>ps_id = ''lodged'', ps_name = ''Lodged'', ps_description = None, ps_assignedRole = None,
           ps_requiresSignOff = None, ps_slaHours = None, ps_transitions = None\<rparr>]\<rparr>]"

definition empty_db :: wf_db where
  "empty_db = \<lparr>db_workflows = [], db_states = [], db_transitions = [], db_instances = [],
               db_entities = [], db_users = [], db_payments = []\<rparr>"

definition demo_supply :: "nat \<Rightarrow> wf_ids" where
  "demo_supply n = demo_ids"

definition demo_report :: materialise_report where
  "demo_report = \<lparr>mr_pack = None, mr_created = [(''wf_visa'', ''w9'')], mr_existing = [],
     mr_unevaluable = [(''wf_visa'', ''intake'', ''lodged'', reason_of UnsupportedSyntax)]\<rparr>"

definition demo_tables :: wf_db where
  "demo_tables = snd (materialise demo_supply 0 ''T'' None (Some demo_pack) None empty_db)"

lemma demo_materialise:
  "materialise demo_supply 0 ''T'' None (Some demo_pack) None empty_db = (Inr demo_report, demo_tables)"
  "fresh_run demo_supply 0 ''T'' None 0 (selected (Some demo_pack) None) empty_db"
  "keys_distinct in_id (db_instances demo_tables)"
  by code_simp+

lemma materialise_is_idempotent_witness:
  "\<exists>rep'. materialise demo_supply 5 ''T'' (Some \<lparr>pr_code = ''au'', pr_version = ''2''\<rparr>) (Some demo_pack) None demo_tables
     = (Inr rep', demo_tables) \<and> map fst (mr_existing rep') = [''wf_visa'']"
proof -
  have "map pw_id (selected (Some demo_pack) None) = [''wf_visa'']" by code_simp
  with materialise_is_idempotent [OF demo_materialise(1,2)] show ?thesis by metis
qed

lemma materialised_workflows_start_witness:
  "\<exists>i. fst (startWorkflow ''i'' 7 ''w9'' ''e'' ''case'' ''T'' ''u'' [] demo_tables) = Inr i \<and> in_workflowId i = ''w9''"
proof -
  obtain r db'' where run: "startWorkflow ''i'' 7 ''w9'' ''e'' ''case'' ''T'' ''u'' [] demo_tables = (r, db'')" by fastforce
  have "(''wf_visa'', ''w9'') \<in> set (mr_created demo_report)" by (simp add: demo_report_def)
  moreover have "\<forall>def \<in> set (selected (Some demo_pack) None). pw_steps def \<noteq> []" by code_simp
  ultimately show ?thesis
    using materialised_workflows_start [OF demo_materialise(1,2) _ run demo_materialise(3), of "''wf_visa''"] run
    by (auto split: if_splits)
qed

lemma materialised_workflows_never_escalate_witness:
  "processEscalation env (new_instance ''i'' 7 (draft demo_ids 0 ''T'' demo_def) \<lparr>st_id = ''0'', st_workflowId = ''w9'',
      st_name = ''intake'', st_type = StateStart, st_description = None, st_slaHours = Some 24\<rparr> ''e'' ''case'' ''T'' ''u'' [])
      ctx (demo_world\<lparr>ww_db := demo_tables\<rparr>) = (Inr (), demo_world\<lparr>ww_db := demo_tables\<rparr>)"
  by (rule materialised_workflows_never_escalate [OF demo_materialise(1,2)])
     (simp_all add: demo_report_def new_instance_def demo_ids_def)

lemma printed_condition_decides_witness:
  "evaluateConditions ev 0 (conditions_of (Some (print_condition (Compare [''matter'', ''fee''] ''==='' LNull)))) []
     = Inr (matches (ev_logic ev) (ev_dates ev) 0 (JObj [(''==='', JArr [var_of ''matter.fee'', JNull])]) [])"
proof -
  have "printable (Compare [''matter'', ''fee''] ''==='' LNull)" by code_simp
  from printed_condition_decides [OF this] show ?thesis by simp
qed

end
