(* ===== verification/PackMerge.thy ===== *)
theory PackMerge
  imports DeepMerge
begin

text \<open>
  The inheritance of configuration packs in \<^verbatim>\<open>src/tenant/services/config-pack-loader.service.ts\<close>:
  merging an overlay onto its base, arrays by the identity of their elements, and walking the
  \<open>extends\<close> chain of a pack.

  Packs are JSON: there are no dates and no functions in them.
\<close>

section \<open>Merging\<close>

text \<open>
  \<open>out[key] = value\<close>. Assigning \<open>__proto__\<close> sets the prototype, unless a spread already made it a
  property of its own.
\<close>

definition key_assign :: "str \<Rightarrow> js \<Rightarrow> js_obj \<Rightarrow> js_obj" where
  "key_assign k v ob = (if k = ''__proto__'' \<and> obj_get k ob = None then ob else obj_set k v ob)"

definition identityOf :: "js \<Rightarrow> str option" where
  "identityOf item =
     (case item of
        JObj record \<Rightarrow>
          find_one (\<lambda>_. True)
            (concat (map (\<lambda>field. case obj_get field record of Some (JStr s) \<Rightarrow> [field @ '':'' @ s] | _ \<Rightarrow> [])
                      [''key'', ''type'', ''id'', ''code'']))
      | _ \<Rightarrow> None)"

text \<open>The two loops, over what they do with an entry that is on both sides.\<close>

definition merge_object :: "(js option \<Rightarrow> js \<Rightarrow> js) \<Rightarrow> js_obj \<Rightarrow> js_obj \<Rightarrow> js_obj" where
  "merge_object combine base overlay =
     fold (\<lambda>kv out. if snd kv = JUndef then out
                    else key_assign (fst kv) (combine (obj_get (fst kv) out) (snd kv)) out) overlay base"

definition index_base :: "js list \<Rightarrow> js_obj \<times> str list" where
  "index_base base =
     fold (\<lambda>item (byIdentity, order). case identityOf item of None \<Rightarrow> (byIdentity, order)
             | Some i \<Rightarrow> (obj_set i item byIdentity, order @ [i])) base ([], [])"

definition merge_item :: "(js option \<Rightarrow> js \<Rightarrow> js) \<Rightarrow> js \<Rightarrow> js_obj \<times> str list \<Rightarrow> js_obj \<times> str list" where
  "merge_item combine item =
     (\<lambda>(byIdentity, order).
        (let i = the (identityOf item)
         in (obj_set i (combine (obj_get i byIdentity) item) byIdentity,
             if i \<in> set order then order else order @ [i])))"

definition mergeArrays :: "(js option \<Rightarrow> js \<Rightarrow> js) \<Rightarrow> js list \<Rightarrow> js list \<Rightarrow> js list" where
  "mergeArrays combine base overlay =
     (if list_ex (\<lambda>i. identityOf i = None) overlay then overlay
      else let (byIdentity, order) = fold (merge_item combine) overlay (index_base base)
           in map (\<lambda>i. the (obj_get i byIdentity)) order)"

lemma merge_object_cong [fundef_cong]:
  assumes "base = base'" "overlay = overlay'" "\<And>kv old. kv \<in> set overlay' \<Longrightarrow> f old (snd kv) = g old (snd kv)"
  shows "merge_object f base overlay = merge_object g base' overlay'"
  unfolding merge_object_def assms(1,2) by (intro fold_cong refl ext) (simp add: assms(3))

lemma mergeArrays_cong [fundef_cong]:
  assumes "base = base'" "overlay = overlay'" "\<And>item old. item \<in> set overlay' \<Longrightarrow> f old item = g old item"
  shows "mergeArrays f base overlay = mergeArrays g base' overlay'"
proof -
  have "fold (merge_item f) overlay' (index_base base') = fold (merge_item g) overlay' (index_base base')"
    by (intro fold_cong refl) (simp add: merge_item_def assms(3))
  then show ?thesis unfolding mergeArrays_def assms(1,2) by (simp only:)
qed

text \<open>What becomes of a value of the overlay, given what the base has there.\<close>

function merge_value :: "js option \<Rightarrow> js \<Rightarrow> js" where
  "merge_value old value =
     (case (value, old) of
        (JArr overlay, Some (JArr base)) \<Rightarrow> JArr (mergeArrays merge_value base overlay)
      | (JObj overlay, Some (JObj base)) \<Rightarrow> JObj (merge_object merge_value base overlay)
      | _ \<Rightarrow> value)"
  by pat_completeness auto

lemma size_entry: "kv \<in> set ob \<Longrightarrow> size (snd kv) < size (JObj ob)"
  using size_list_estimation' [of kv ob "size (snd kv)" "size_prod (\<lambda>_. 0) size"]
  by (cases kv) fastforce

lemma size_item: "item \<in> set xs \<Longrightarrow> size item < size (JArr xs)"
  using size_list_estimation' [of item xs "size item" size] by fastforce

termination merge_value
  by (relation "measure (\<lambda>(old, value). size value)") (use size_entry size_item in fastforce)+

declare merge_value.simps [simp del]

definition pack_merge :: "js_obj \<Rightarrow> js_obj \<Rightarrow> js_obj" where
  "pack_merge base overlay = merge_object merge_value base overlay"

lemma merge_examples:
  "pack_merge [(''entityTypes'', JArr [JObj [(''key'', JStr ''case''), (''label'', JStr ''Case'')],
                                       JObj [(''key'', JStr ''task'')]]),
               (''locales'', JArr [JStr ''en''])]
              [(''entityTypes'', JArr [JObj [(''key'', JStr ''regulator'')], JObj [(''key'', JStr ''case''), (''label'', JStr ''Matter'')]]),
               (''locales'', JArr [JStr ''ar''])]
   = [(''entityTypes'', JArr [JObj [(''key'', JStr ''case''), (''label'', JStr ''Matter'')],
                              JObj [(''key'', JStr ''task'')], JObj [(''key'', JStr ''regulator'')]]),
      (''locales'', JArr [JStr ''ar''])]"
  by code_simp

section \<open>The chain of bases\<close>

text \<open>The packs on disk by their code, later files over earlier ones.\<close>

type_synonym pack_files = "(str \<times> js_obj) list"

datatype chain_error = CircularExtends str | MissingBase str

definition extends :: "js_obj \<Rightarrow> str option" where
  "extends p = (case obj_get ''extends'' p of Some (JStr s) \<Rightarrow> Some s | _ \<Rightarrow> None)"

text \<open>
  The walk up: the bases found, the topmost first, and why it stopped when it did not reach a pack
  without \<open>extends\<close>.
\<close>

function walk_chain :: "pack_files \<Rightarrow> str list \<Rightarrow> js_obj \<Rightarrow> js_obj list \<Rightarrow> js_obj list \<times> chain_error option" where
  "walk_chain files seen current chain =
     (case extends current of
        None \<Rightarrow> (chain, None)
      | Some parentCode \<Rightarrow>
          if parentCode \<in> set seen then (chain, Some (CircularExtends parentCode))
          else case map_of files parentCode of
                 None \<Rightarrow> (chain, Some (MissingBase parentCode))
               | Some parent \<Rightarrow> walk_chain files (parentCode # seen) parent (parent # chain))"
  by pat_completeness auto

lemma unseen_shrinks:
  assumes "map_of files code = Some parent" "code \<notin> set seen"
  shows "card (fst ` set files - set (code # seen)) < card (fst ` set files - set seen)"
proof (rule psubset_card_mono)
  have "code \<in> fst ` set files" using assms(1) by (metis image_eqI fst_conv map_of_SomeD)
  then show "fst ` set files - set (code # seen) \<subset> fst ` set files - set seen" using assms(2) by auto
qed simp

termination walk_chain
  by (relation "measure (\<lambda>(files, seen, _). card (fst ` set files - set seen))") (auto dest: unseen_shrinks)

declare walk_chain.simps [simp del]

definition resolveInheritance :: "js_obj \<Rightarrow> pack_files \<Rightarrow> js_obj \<times> chain_error option" where
  "resolveInheritance raw files =
     (case walk_chain files [] raw [] of
        ([], err) \<Rightarrow> (raw, err)
      | (chain, err) \<Rightarrow> (obj_del ''extends'' (pack_merge (foldl pack_merge [] chain) raw), err))"

section \<open>What a merge gives\<close>

lemma merge_value_simps [simp]:
  "merge_value None v = v"
  "merge_value (Some (JObj b)) (JObj ov) = JObj (pack_merge b ov)"
  "merge_value (Some (JArr ys)) (JArr xs) = JArr (mergeArrays merge_value ys xs)"
  by (simp_all add: merge_value.simps pack_merge_def split: js.split)

lemma merge_value_other:
  "\<not> (\<exists>b ov. old = Some (JObj b) \<and> v = JObj ov) \<Longrightarrow> \<not> (\<exists>b xs. old = Some (JArr b) \<and> v = JArr xs) \<Longrightarrow>
   merge_value old v = v"
  by (subst merge_value.simps) (auto split: js.split option.split)

lemma key_assign_get: "k \<noteq> ''__proto__'' \<Longrightarrow> obj_get k (key_assign k' v ob) = (if k = k' then Some v else obj_get k ob)"
  by (auto simp: key_assign_def)

lemma merge_object_Cons:
  "merge_object f base (kv # rest) =
     merge_object f (if snd kv = JUndef then base
                     else key_assign (fst kv) (f (obj_get (fst kv) base) (snd kv)) base) rest"
  by (simp add: merge_object_def)

lemma merge_object_get:
  assumes "obj_wf overlay" "k \<noteq> ''__proto__''"
  shows "obj_get k (merge_object f base overlay) =
     (case obj_get k overlay of None \<Rightarrow> obj_get k base
      | Some v \<Rightarrow> if v = JUndef then obj_get k base else Some (f (obj_get k base) v))"
  using assms(1)
proof (induction overlay arbitrary: base)
  case Nil
  then show ?case by (simp add: merge_object_def)
next
  case (Cons kv rest)
  obtain key v where kv: "kv = (key, v)" by (cases kv)
  then have rest: "obj_get key rest = None" "obj_wf rest" using Cons.prems by (auto simp: obj_get_None_iff)
  define base' where "base' = (if v = JUndef then base else key_assign key (f (obj_get key base) v) base)"
  have "obj_get k base' = (if key = k \<and> v \<noteq> JUndef then Some (f (obj_get k base) v) else obj_get k base)"
    using assms(2) by (auto simp: base'_def key_assign_get)
  moreover have "merge_object f base (kv # rest) = merge_object f base' rest"
    by (simp add: merge_object_Cons kv base'_def)
  ultimately show ?case using rest Cons.IH [OF rest(2), of base']
    by (cases "key = k"; cases "obj_get k rest") (simp_all add: kv)
qed

lemma pack_merge_get:
  "obj_wf overlay \<Longrightarrow> k \<noteq> ''__proto__'' \<Longrightarrow>
   obj_get k (pack_merge base overlay) =
     (case obj_get k overlay of None \<Rightarrow> obj_get k base
      | Some v \<Rightarrow> if v = JUndef then obj_get k base else Some (merge_value (obj_get k base) v))"
  unfolding pack_merge_def by (rule merge_object_get)

section \<open>Arrays by identity\<close>

text \<open>The reference: a base element is merged with the overlay's of its identity; the overlay's others follow.\<close>

definition overlay_of :: "js list \<Rightarrow> js \<Rightarrow> js option" where
  "overlay_of overlay b = find_one (\<lambda>item. identityOf item = identityOf b) overlay"

definition merged_arrays :: "js list \<Rightarrow> js list \<Rightarrow> js list" where
  "merged_arrays base overlay =
     map (\<lambda>b. case overlay_of overlay b of None \<Rightarrow> b | Some item \<Rightarrow> merge_value (Some b) item)
         (filter (\<lambda>b. identityOf b \<noteq> None) base)
     @ filter (\<lambda>item. identityOf item \<notin> identityOf ` set base) overlay"

abbreviation identities :: "js list \<Rightarrow> str list" where
  "identities xs \<equiv> List.map_filter identityOf xs"

lemma identities_simps [simp]:
  "identities [] = []"
  "identities (x # xs) = (case identityOf x of None \<Rightarrow> identities xs | Some i \<Rightarrow> i # identities xs)"
  "identities (xs @ ys) = identities xs @ identities ys"
  by (simp_all add: List.map_filter_def split: option.split)

lemma set_identities: "i \<in> set (identities xs) \<longleftrightarrow> Some i \<in> identityOf ` set xs"
  by (induction xs) (auto split: option.split)

lemma index_base_snoc:
  "index_base (xs @ [x]) =
     (case identityOf x of None \<Rightarrow> index_base xs
      | Some i \<Rightarrow> (obj_set i x (fst (index_base xs)), snd (index_base xs) @ [i]))"
  by (simp add: index_base_def split: option.split prod.split)

lemma index_base_order: "snd (index_base base) = identities base"
proof (induction base rule: rev_induct)
  case Nil
  then show ?case by (simp add: index_base_def)
qed (auto simp: index_base_snoc split: option.split)

lemma index_base_get:
  "distinct (identities base) \<Longrightarrow>
   obj_get i (fst (index_base base)) = find_one (\<lambda>b. identityOf b = Some i) base"
proof (induction base rule: rev_induct)
  case Nil
  then show ?case by (simp add: index_base_def)
next
  case (snoc x xs)
  have app: "find_one P (xs @ [x]) = (case find_one P xs of Some y \<Rightarrow> Some y | None \<Rightarrow> if P x then Some x else None)" for P
    by (induction xs) auto
  have none: "identityOf x = Some i \<Longrightarrow> find_one (\<lambda>b. identityOf b = Some i) xs = None"
    using snoc.prems set_identities [of i xs] by (force simp: find_one_None_iff)
  show ?case
  proof (cases "identityOf x")
    case None
    then show ?thesis using snoc by (simp add: index_base_snoc app split: option.split)
  next
    case (Some j)
    then show ?thesis using snoc none by (auto simp: index_base_snoc app split: option.split)
  qed
qed

text \<open>The loop over the overlay, from any index: merged where there is an element, appended where there is none.\<close>

lemma overlay_loop:
  assumes "distinct (identities overlay)" "\<forall>item \<in> set overlay. identityOf item \<noteq> None"
    "\<forall>i. obj_get i byId \<noteq> None \<longleftrightarrow> i \<in> set order"
  shows "snd (fold (merge_item f) overlay (byId, order)) = order @ filter (\<lambda>i. i \<notin> set order) (identities overlay)
    \<and> (\<forall>i. obj_get i (fst (fold (merge_item f) overlay (byId, order))) =
          (case find_one (\<lambda>item. identityOf item = Some i) overlay of
             None \<Rightarrow> obj_get i byId | Some item \<Rightarrow> Some (f (obj_get i byId) item)))"
  using assms
proof (induction overlay arbitrary: byId order)
  case (Cons item rest)
  obtain j where j: "identityOf item = Some j" using Cons.prems(2) by auto
  have fresh: "j \<notin> set (identities rest)" using Cons.prems(1) j by simp
  then have none: "find_one (\<lambda>x. identityOf x = Some j) rest = None"
    by (force simp: set_identities find_one_None_iff)
  define order' where "order' = (if j \<in> set order then order else order @ [j])"
  define byId' where "byId' = obj_set j (f (obj_get j byId) item) byId"
  have step: "merge_item f item (byId, order) = (byId', order')"
    by (simp add: merge_item_def j order'_def byId'_def)
  have dom: "\<forall>i. obj_get i byId' \<noteq> None \<longleftrightarrow> i \<in> set order'"
    using Cons.prems(3) by (auto simp: byId'_def order'_def)
  have "filter (\<lambda>i. i \<notin> set order') (identities rest) = filter (\<lambda>i. i \<notin> set order) (identities rest)"
    using fresh by (auto simp: order'_def intro!: filter_cong)
  moreover note IH = Cons.IH [of byId' order'] Cons.prems dom
  ultimately have "snd (fold (merge_item f) rest (byId', order')) = order' @ filter (\<lambda>i. i \<notin> set order) (identities rest)"
    and get: "\<forall>i. obj_get i (fst (fold (merge_item f) rest (byId', order'))) =
          (case find_one (\<lambda>item. identityOf item = Some i) rest of
             None \<Rightarrow> obj_get i byId' | Some item \<Rightarrow> Some (f (obj_get i byId') item))"
    using j by auto
  then show ?case
    using j none by (auto simp: step order'_def byId'_def split: option.split)
qed simp



lemma find_identity:
  assumes "distinct (identities xs)" "b \<in> set xs" "identityOf b = Some i"
  shows "find_one (\<lambda>x. identityOf x = Some i) xs = Some b"
  using assms
proof (induction xs)
  case (Cons x xs)
  have "b \<notin> set xs" if "identityOf x = Some i"
    using Cons.prems(1,3) that by (auto simp: set_identities image_iff)
  then show ?case using Cons by (auto split: option.splits)
qed simp

lemma map_identities:
  "map h (identities xs) = map (h \<circ> the \<circ> identityOf) (filter (\<lambda>x. identityOf x \<noteq> None) xs)"
  by (induction xs) (auto split: option.split)

lemma filter_identities: "filter P (identities xs) = identities (filter (\<lambda>x. P (the (identityOf x))) xs)"
  by (induction xs) (auto split: option.split)



text \<open>
  Outside that case elements are lost: of two base elements with one identity the second stands in
  both places, and a base element without an identity goes, even where the overlay's array is empty.
\<close>

lemma duplicate_identities_overwrite:
  "mergeArrays merge_value [JObj [(''key'', JStr ''a''), (''n'', JNull)], JObj [(''key'', JStr ''a'')]] []
     = [JObj [(''key'', JStr ''a'')], JObj [(''key'', JStr ''a'')]]"
  "mergeArrays merge_value [JStr ''en'', JObj [(''key'', JStr ''a'')]] [] = [JObj [(''key'', JStr ''a'')]]"
  by code_simp+

section \<open>The chain\<close>

text \<open>Each pack is the base the one before it names.\<close>

fun based_on :: "pack_files \<Rightarrow> js_obj \<Rightarrow> js_obj list \<Rightarrow> bool" where
  "based_on files p [] \<longleftrightarrow> True"
| "based_on files p (q # qs) \<longleftrightarrow>
     (\<exists>code. extends p = Some code \<and> map_of files code = Some q) \<and> based_on files q qs"

definition top_of :: "js_obj \<Rightarrow> js_obj list \<Rightarrow> js_obj" where
  "top_of raw chain = (case chain of [] \<Rightarrow> raw | p # _ \<Rightarrow> p)"

lemma based_on_append:
  "based_on files p (qs @ [q]) \<longleftrightarrow>
     based_on files p qs \<and> (\<exists>code. extends (top_of p (rev qs)) = Some code \<and> map_of files code = Some q)"
proof (induction qs arbitrary: p)
  case (Cons x xs)
  then show ?case by (cases "rev xs") (auto simp: top_of_def)
qed (simp add: top_of_def)

lemma walk_chain_result:
  assumes "walk_chain files seen current chain = (chain', err)"
    "based_on files raw (rev chain)" "current = top_of raw chain" "distinct seen"
    "list_all2 (\<lambda>code p. map_of files code = Some p) seen chain"
  shows "based_on files raw (rev chain') \<and> length chain' \<le> card (fst ` set files)
    \<and> (case err of
         None \<Rightarrow> extends (top_of raw chain') = None
       | Some (MissingBase code) \<Rightarrow> extends (top_of raw chain') = Some code \<and> map_of files code = None
       | Some (CircularExtends code) \<Rightarrow> extends (top_of raw chain') = Some code
           \<and> (\<exists>base \<in> set chain'. map_of files code = Some base))"
  using assms
proof (induction files seen current chain rule: walk_chain.induct)
  case (1 files seen current chain)
  note seen = "1.prems"(5)
  have known: "\<exists>base \<in> set chain. map_of files code = Some base" if "code \<in> set seen" for code
    using seen that by (auto simp: list_all2_conv_all_nth in_set_conv_nth)
  have "set seen \<subseteq> fst ` set files"
    using known by (metis image_eqI fst_conv map_of_SomeD subsetI)
  then have len: "length chain \<le> card (fst ` set files)"
    using "1.prems"(4) list_all2_lengthD [OF seen] by (metis card_mono distinct_card finite_imageI List.finite_set)
  show ?case
  proof (cases "extends current")
    case None
    then show ?thesis using "1.prems" len by (simp add: walk_chain.simps)
  next
    case (Some code)
    show ?thesis
    proof (cases "code \<in> set seen \<or> map_of files code = None")
      case True
      then show ?thesis using "1.prems" len Some known by (auto simp: walk_chain.simps split: if_splits)
    next
      case False
      then obtain parent where parent: "map_of files code = Some parent" "code \<notin> set seen" by auto
      have "walk_chain files (code # seen) parent (parent # chain) = (chain', err)"
        using "1.prems"(1) Some parent by (simp add: walk_chain.simps)
      moreover have "based_on files raw (rev (parent # chain))" "parent = top_of raw (parent # chain)"
        using "1.prems"(2,3) Some parent by (auto simp: based_on_append top_of_def)
      moreover have "distinct (code # seen)" "list_all2 (\<lambda>code p. map_of files code = Some p) (code # seen) (parent # chain)"
        using "1.prems"(4,5) parent by simp_all
      ultimately show ?thesis using "1.IH" [OF Some parent(2,1)] by blast
    qed
  qed
qed

text \<open>
  Claim C30: walking the chain ends whatever the packs say of each other: it finds at most as
  many bases as there are packs, each the one the pack before it names, and stops at a pack that extends
  nothing, at a code that is not on disk, or at one already in the chain.
\<close>

theorem extends_chain_ends:
  assumes "walk_chain files [] raw [] = (chain, err)"
  shows "based_on files raw (rev chain) \<and> length chain \<le> card (fst ` set files)
    \<and> (case err of
         None \<Rightarrow> extends (top_of raw chain) = None
       | Some (MissingBase code) \<Rightarrow> extends (top_of raw chain) = Some code \<and> map_of files code = None
       | Some (CircularExtends code) \<Rightarrow> extends (top_of raw chain) = Some code
           \<and> (\<exists>base \<in> set chain. map_of files code = Some base))"
  using assms by (rule walk_chain_result) (simp_all add: top_of_def)

definition demo_files :: pack_files where
  "demo_files =
     [(''grc'', [(''code'', JStr ''grc''), (''name'', JStr ''GRC''), (''extends'', JStr ''base''), (''locales'', JArr [JStr ''en''])]),
      (''base'', [(''code'', JStr ''base''), (''name'', JStr ''Base''), (''extends'', JStr ''grc'')]),
      (''ae-grc'', [(''code'', JStr ''ae-grc''), (''extends'', JStr ''grc''), (''locales'', JArr [JStr ''ar''])])]"

definition demo_raw :: js_obj where
  "demo_raw = [(''code'', JStr ''ae-grc''), (''extends'', JStr ''grc''), (''locales'', JArr [JStr ''ar''])]"

lemma demo_chain:
  "walk_chain demo_files [] demo_raw [] =
     ([[(''code'', JStr ''base''), (''name'', JStr ''Base''), (''extends'', JStr ''grc'')],
       [(''code'', JStr ''grc''), (''name'', JStr ''GRC''), (''extends'', JStr ''base''), (''locales'', JArr [JStr ''en''])]],
      Some (CircularExtends ''grc''))"
  by code_simp

lemma extends_chain_ends_witness:
  "based_on demo_files demo_raw (rev (fst (walk_chain demo_files [] demo_raw [])))
   \<and> length (fst (walk_chain demo_files [] demo_raw [])) \<le> 3"
proof -
  have "card (fst ` set demo_files) = 3" by (simp add: demo_files_def)
  with extends_chain_ends [OF demo_chain] show ?thesis by (simp add: demo_chain)
qed

section \<open>What a resolved pack says\<close>

text \<open>The value of a key in the nearest pack that defines it.\<close>

definition nearest :: "str \<Rightarrow> js_obj list \<Rightarrow> js option" where
  "nearest k packs = find_one (\<lambda>v. v \<noteq> JUndef) (List.map_filter (obj_get k) packs)"

lemma nearest_Cons:
  "nearest k (p # ps) =
     (case obj_get k p of None \<Rightarrow> nearest k ps | Some v \<Rightarrow> if v = JUndef then nearest k ps else Some v)"
  by (simp add: nearest_def List.map_filter_def split: option.split)

lemma nearest_Nil [simp]: "nearest k [] = None"
  by (simp add: nearest_def List.map_filter_def)

fun scalar :: "js \<Rightarrow> bool" where
  "scalar (JArr _) = False"
| "scalar (JObj _) = False"
| "scalar _ = True"

lemma merge_scalar: "scalar v \<Longrightarrow> merge_value old v = v"
  by (cases v) (simp_all add: merge_value_other)

lemma merged_nearest:
  assumes "\<forall>p \<in> set chain. obj_wf p" "k \<noteq> ''__proto__''" "nearest k (rev chain) = Some v" "scalar v"
  shows "obj_get k (foldl pack_merge [] chain) = Some v"
  using assms
proof (induction chain rule: rev_induct)
  case (snoc p ps)
  then show ?case
    by (auto simp: nearest_Cons pack_merge_get merge_scalar split: option.splits if_splits)
qed simp

text \<open>
  A resolved pack holds, under a key whose nearest definition up its chain is neither an
  object nor an array, exactly that nearest value; the instruction \<open>extends\<close> itself is gone as soon as one base
  was found.
\<close>

theorem nearest_definition_wins:
  assumes "walk_chain files [] raw [] = (chain, err)" "\<forall>p \<in> set (raw # chain). obj_wf p"
    "nearest k (raw # rev chain) = Some v" "scalar v" "k \<noteq> ''__proto__''" "k \<noteq> ''extends''"
  shows "obj_get k (fst (resolveInheritance raw files)) = Some v
    \<and> (chain \<noteq> [] \<longrightarrow> obj_get ''extends'' (fst (resolveInheritance raw files)) = None)"
proof (cases chain)
  case Nil
  then show ?thesis
    using assms by (simp add: resolveInheritance_def nearest_Cons split: option.splits if_splits)
next
  case (Cons p ps)
  have "obj_get k (pack_merge (foldl pack_merge [] chain) raw) = Some v"
  proof (cases "nearest k (rev chain)")
    case None
    then show ?thesis
      using assms by (auto simp: nearest_Cons pack_merge_get merge_scalar split: option.splits if_splits)
  next
    case (Some w)
    show ?thesis
    proof (cases "obj_get k raw = None \<or> obj_get k raw = Some JUndef")
      case True
      then have "nearest k (rev chain) = Some v" using assms(3) by (auto simp: nearest_Cons)
      then have "obj_get k (foldl pack_merge [] chain) = Some v"
        using assms(2,4,5) by (intro merged_nearest) auto
      then show ?thesis using True assms(2,5) by (auto simp: pack_merge_get)
    next
      case False
      then show ?thesis
        using assms by (auto simp: nearest_Cons pack_merge_get merge_scalar split: option.splits if_splits)
    qed
  qed
  then show ?thesis using Cons assms(1,6) by (simp add: resolveInheritance_def)
qed

lemma nearest_definition_wins_witness:
  "obj_get ''name'' (fst (resolveInheritance demo_raw demo_files)) = Some (JStr ''GRC'')"
proof -
  have "\<forall>p \<in> set (demo_raw # fst (walk_chain demo_files [] demo_raw [])). obj_wf p"
    "nearest ''name'' (demo_raw # rev (fst (walk_chain demo_files [] demo_raw []))) = Some (JStr ''GRC'')"
    unfolding demo_chain by (simp_all add: demo_raw_def nearest_Cons)
  with nearest_definition_wins [of demo_files demo_raw "fst (walk_chain demo_files [] demo_raw [])"
      "Some (CircularExtends ''grc'')" "''name''" "JStr ''GRC''"]
  show ?thesis by (simp add: demo_chain)
qed


end
