(* ===== verification/VerticalPack.thy ===== *)
theory VerticalPack
  imports Tenancy JsOps "HOL-Library.Product_Lexorder" "HOL-Library.List_Lexorder"
begin

text \<open>
  The table of configuration packs and the pins of tenants to them:
  \<^verbatim>\<open>src/tenant/services/config-pack.service.ts\<close> writes them,
  \<^verbatim>\<open>src/tenant/services/vertical-pack.service.ts\<close> answers which pack serves a vertical,
  \<^verbatim>\<open>src/tenant/services/pack-ui.service.ts\<close> filters a pack's navigation and dashboards, and
  \<^verbatim>\<open>src/tenant/services/feature-flag.service.ts\<close> keeps flags per tenant.

  Ids, the clock and the outcome of the audit write are arguments. Texts are ordered by code
  point, as a database of C collation orders them; the order of labels in a menu is an argument.
\<close>

section \<open>Rows\<close>

record config_pack =
  cp_id :: str
  cp_code :: str
  cp_name :: str
  cp_description :: "str option"
  cp_version :: str
  cp_vertical :: "str option"
  cp_schema :: js_obj
  cp_defaults :: js_obj
  cp_uiConfig :: js_obj
  cp_isActive :: bool
  cp_createdAt :: instant

record config_pin =
  pn_id :: str
  pn_tenantId :: str
  pn_configPackId :: str
  pn_pinnedVersion :: str
  pn_overrides :: js_obj
  pn_pinnedAt :: instant
  pn_pinnedBy :: "str option"

record pack_audit =
  pa_userId :: str
  pa_entityId :: str
  pa_previousVersion :: str
  pa_newVersion :: str

record pack_db =
  pd_packs :: "config_pack list"
  pd_pins :: "config_pin list"
  pd_audit :: "pack_audit list"

datatype pack_error =
    PackExists str
  | PackNotFound str
  | AlreadyAtVersion str
  | PackStillPinned nat
  | NotPinned
  | PackAuditFailed
  | UniqueCode

interpretation pack_repo:
  repository cp_id "by_key cp_id" "save_row cp_id" "remove_row cp_id" "keys_distinct cp_id"
  by unfold_locales (auto simp: table_simps dest: by_key_SomeD)

interpretation pin_repo:
  repository pn_id "by_key pn_id" "save_row pn_id" "remove_row pn_id" "keys_distinct pn_id"
  by unfold_locales (auto simp: table_simps dest: by_key_SomeD)

section \<open>Packs\<close>

record create_pack =
  cd_code :: str
  cd_name :: str
  cd_description :: "str option"
  cd_version :: str
  cd_vertical :: "str option"
  cd_schema :: "js_obj option"
  cd_defaults :: "js_obj option"
  cd_uiConfig :: "js_obj option"

definition create_config_pack ::
  "str \<Rightarrow> instant \<Rightarrow> create_pack \<Rightarrow> pack_db \<Rightarrow> (pack_error + config_pack) \<times> pack_db" where
  "create_config_pack newId now dto db =
     (if find_one (\<lambda>p. cp_code p = cd_code dto) (pd_packs db) \<noteq> None then (Inl (PackExists (cd_code dto)), db)
      else let p = \<lparr>cp_id = newId, cp_code = cd_code dto, cp_name = cd_name dto, cp_description = cd_description dto,
                    cp_version = cd_version dto, cp_vertical = cd_vertical dto,
                    cp_schema = nullish (cd_schema dto) [], cp_defaults = nullish (cd_defaults dto) [],
                    cp_uiConfig = nullish (cd_uiConfig dto) [], cp_isActive = True, cp_createdAt = now\<rparr>
           in (Inr p, db\<lparr>pd_packs := save_row cp_id p (pd_packs db)\<rparr>))"

definition findAll_packs :: "str option \<Rightarrow> pack_db \<Rightarrow> config_pack list" where
  "findAll_packs vertical db =
     sort_key (\<lambda>p. - cp_createdAt p)
       (find_where (\<lambda>p. truthy_str vertical \<longrightarrow> cp_vertical p = vertical) (pd_packs db))"

definition findById :: "pack_db \<Rightarrow> str \<Rightarrow> pack_error + config_pack" where
  "findById db i = (case by_key cp_id (pd_packs db) i of None \<Rightarrow> Inl (PackNotFound i) | Some p \<Rightarrow> Inr p)"

definition findByCode :: "pack_db \<Rightarrow> str \<Rightarrow> pack_error + config_pack" where
  "findByCode db code =
     (case find_one (\<lambda>p. cp_code p = code) (pd_packs db) of None \<Rightarrow> Inl (PackNotFound code) | Some p \<Rightarrow> Inr p)"

text \<open>The new version is stored before the audit entry is written.\<close>

definition promoteVersion ::
  "bool \<Rightarrow> str \<Rightarrow> str \<Rightarrow> str \<Rightarrow> pack_db \<Rightarrow> (pack_error + config_pack) \<times> pack_db" where
  "promoteVersion audit_ok i newVersion userId db =
     (case findById db i of
        Inl e \<Rightarrow> (Inl e, db)
      | Inr p \<Rightarrow>
          if newVersion = cp_version p then (Inl (AlreadyAtVersion newVersion), db)
          else (let p' = p\<lparr>cp_version := newVersion\<rparr>;
                    db' = db\<lparr>pd_packs := save_row cp_id p' (pd_packs db)\<rparr>
                in if audit_ok
                   then (Inr p', db'\<lparr>pd_audit := pd_audit db' @
                           [\<lparr>pa_userId = userId, pa_entityId = i, pa_previousVersion = cp_version p,
                             pa_newVersion = newVersion\<rparr>]\<rparr>)
                   else (Inl PackAuditFailed, db')))"

text \<open>\<open>Object.assign(pack, updates)\<close>; the unique index on \<open>code\<close> is the database's.\<close>

definition update_pack :: "str \<Rightarrow> (config_pack \<Rightarrow> config_pack) \<Rightarrow> pack_db \<Rightarrow> (pack_error + config_pack) \<times> pack_db" where
  "update_pack i updates db =
     (case findById db i of
        Inl e \<Rightarrow> (Inl e, db)
      | Inr p \<Rightarrow>
          (let p' = (updates p)\<lparr>cp_id := cp_id p\<rparr> in
           if list_ex (\<lambda>q. cp_id q \<noteq> cp_id p \<and> cp_code q = cp_code p') (pd_packs db) then (Inl UniqueCode, db)
           else (Inr p', db\<lparr>pd_packs := save_row cp_id p' (pd_packs db)\<rparr>)))"

definition deactivate :: "str \<Rightarrow> pack_db \<Rightarrow> (pack_error + config_pack) \<times> pack_db" where
  "deactivate i db =
     (case findById db i of
        Inl e \<Rightarrow> (Inl e, db)
      | Inr p \<Rightarrow> (let p' = p\<lparr>cp_isActive := False\<rparr>
                  in (Inr p', db\<lparr>pd_packs := save_row cp_id p' (pd_packs db)\<rparr>)))"

definition delete_pack :: "str \<Rightarrow> pack_db \<Rightarrow> (pack_error + unit) \<times> pack_db" where
  "delete_pack i db =
     (case findById db i of
        Inl e \<Rightarrow> (Inl e, db)
      | Inr p \<Rightarrow>
          (let pins = length (find_where (\<lambda>n. pn_configPackId n = i) (pd_pins db)) in
           if 0 < pins then (Inl (PackStillPinned pins), db)
           else (Inr (), db\<lparr>pd_packs := remove_row cp_id (cp_id p) (pd_packs db)\<rparr>)))"

section \<open>Pins\<close>

record pin_dto =
  pi_configPackId :: str
  pi_pinnedVersion :: str
  pi_overrides :: "js_obj option"
  pi_pinnedBy :: "str option"

definition pin_of :: "pack_db \<Rightarrow> str \<Rightarrow> str \<Rightarrow> config_pin option" where
  "pin_of db tenantId packId =
     find_one (\<lambda>n. pn_tenantId n = tenantId \<and> pn_configPackId n = packId) (pd_pins db)"

definition pinToTenant ::
  "str \<Rightarrow> instant \<Rightarrow> str \<Rightarrow> pin_dto \<Rightarrow> pack_db \<Rightarrow> (pack_error + config_pin) \<times> pack_db" where
  "pinToTenant newId now tenantId dto db =
     (case findById db (pi_configPackId dto) of
        Inl e \<Rightarrow> (Inl e, db)
      | Inr _ \<Rightarrow>
          (let n = (case pin_of db tenantId (pi_configPackId dto) of
                      Some existing \<Rightarrow>
                        existing\<lparr>pn_pinnedVersion := pi_pinnedVersion dto,
                                 pn_overrides := nullish (pi_overrides dto) (pn_overrides existing),
                                 pn_pinnedBy := pi_pinnedBy dto, pn_pinnedAt := now\<rparr>
                    | None \<Rightarrow>
                        \<lparr>pn_id = newId, pn_tenantId = tenantId, pn_configPackId = pi_configPackId dto,
                         pn_pinnedVersion = pi_pinnedVersion dto, pn_overrides = nullish (pi_overrides dto) [],
                         pn_pinnedAt = now, pn_pinnedBy = pi_pinnedBy dto\<rparr>)
           in (Inr n, db\<lparr>pd_pins := save_row pn_id n (pd_pins db)\<rparr>)))"

definition unpinFromTenant :: "str \<Rightarrow> str \<Rightarrow> pack_db \<Rightarrow> (pack_error + unit) \<times> pack_db" where
  "unpinFromTenant tenantId packId db =
     (case pin_of db tenantId packId of
        None \<Rightarrow> (Inl NotPinned, db)
      | Some n \<Rightarrow> (Inr (), db\<lparr>pd_pins := remove_row pn_id (pn_id n) (pd_pins db)\<rparr>))"

definition getTenantPins :: "pack_db \<Rightarrow> str \<Rightarrow> config_pin list" where
  "getTenantPins db tenantId =
     sort_key (\<lambda>n. - pn_pinnedAt n) (find_where (\<lambda>n. pn_tenantId n = tenantId) (pd_pins db))"

definition pack_object :: "config_pack \<Rightarrow> js_obj" where
  "pack_object p =
     [(''id'', JStr (cp_id p)), (''code'', JStr (cp_code p)), (''name'', JStr (cp_name p)),
      (''description'', case cp_description p of None \<Rightarrow> JNull | Some d \<Rightarrow> JStr d),
      (''version'', JStr (cp_version p)),
      (''vertical'', case cp_vertical p of None \<Rightarrow> JNull | Some v \<Rightarrow> JStr v),
      (''schema'', JObj (cp_schema p)), (''defaults'', JObj (cp_defaults p)), (''uiConfig'', JObj (cp_uiConfig p)),
      (''isActive'', JBool (cp_isActive p)), (''createdAt'', JDate (Some (cp_createdAt p)))]"

text \<open>\<open>{ ...pinnedPack, ...pin.overrides, overrides }\<close>.\<close>

definition getTenantEffectiveConfig :: "pack_db \<Rightarrow> str \<Rightarrow> str \<Rightarrow> pack_error + js_obj" where
  "getTenantEffectiveConfig db tenantId code =
     and_then (findByCode db code) (\<lambda>pack.
       case pin_of db tenantId (cp_id pack) of
         None \<Rightarrow> Inl NotPinned
       | Some pin \<Rightarrow>
           Inr (case by_key cp_id (pd_packs db) (pn_configPackId pin) of
                  None \<Rightarrow> obj_set ''overrides'' (JObj (pn_overrides pin)) (pack_object pack)
                | Some p \<Rightarrow> obj_set ''overrides'' (JObj (pn_overrides pin))
                              (obj_spread (pack_object p) (pn_overrides pin))))"

definition promoteToAllTenants ::
  "instant \<Rightarrow> str \<Rightarrow> str \<Rightarrow> str \<Rightarrow> pack_db \<Rightarrow> (pack_error + nat \<times> str) \<times> pack_db" where
  "promoteToAllTenants now packId newVersion promotedBy db =
     (case findById db packId of
        Inl e \<Rightarrow> (Inl e, db)
      | Inr p \<Rightarrow>
          (let pins = find_where (\<lambda>n. pn_configPackId n = packId) (pd_pins db);
               promoted = (\<lambda>n. n\<lparr>pn_pinnedVersion := newVersion, pn_pinnedBy := Some promotedBy, pn_pinnedAt := now\<rparr>)
           in (Inr (length pins, newVersion),
               db\<lparr>pd_pins := fold (\<lambda>n. save_row pn_id (promoted n)) pins (pd_pins db),
                  pd_packs := save_row cp_id (p\<lparr>cp_version := newVersion\<rparr>) (pd_packs db)\<rparr>)))"

section \<open>Which pack serves a vertical\<close>

text \<open>Newest pin first; \<open>pins_ok\<close> says whether the pins can be read.\<close>

definition pinnedFor :: "bool \<Rightarrow> pack_db \<Rightarrow> str \<Rightarrow> str \<Rightarrow> config_pack option" where
  "pinnedFor pins_ok db tenantId vertical =
     (if pins_ok
      then find_one (\<lambda>p. cp_isActive p \<and> cp_vertical p = Some vertical)
             (List.map_filter (\<lambda>n. by_key cp_id (pd_packs db) (pn_configPackId n)) (getTenantPins db tenantId))
      else None)"

text \<open>\<open>(schema->>'country') IS NULL\<close>.\<close>

definition is_base :: "config_pack \<Rightarrow> bool" where
  "is_base p \<longleftrightarrow> (case obj_get ''country'' (cp_schema p) of None \<Rightarrow> True | Some v \<Rightarrow> v = JNull)"

definition served_before :: "config_pack \<Rightarrow> config_pack \<Rightarrow> bool" where
  "served_before p q \<longleftrightarrow>
     is_base p \<and> \<not> is_base q
     \<or> is_base p = is_base q
        \<and> (str_less (cp_version q) (cp_version p)
           \<or> cp_version p = cp_version q \<and> str_less (cp_code p) (cp_code q))"

definition base_for :: "pack_db \<Rightarrow> str \<Rightarrow> config_pack option" where
  "base_for db vertical =
     (let candidates = find_where (\<lambda>p. cp_vertical p = Some vertical \<and> cp_isActive p) (pd_packs db)
      in find_one (\<lambda>p. list_all (\<lambda>q. \<not> served_before q p) candidates) candidates)"

definition forVertical :: "bool \<Rightarrow> pack_db \<Rightarrow> als \<Rightarrow> str option \<Rightarrow> config_pack option" where
  "forVertical pins_ok db ctx vertical =
     (if \<not> truthy_str vertical then None
      else let v = the vertical; tenantId = getTenantId ctx;
               pinned = (if truthy_str tenantId then pinnedFor pins_ok db (the tenantId) v else None)
           in case pinned of Some p \<Rightarrow> Some p | None \<Rightarrow> base_for db v)"

definition sectionWithPack ::
  "bool \<Rightarrow> pack_db \<Rightarrow> als \<Rightarrow> str option \<Rightarrow> str \<Rightarrow> config_pack option \<times> js option" where
  "sectionWithPack pins_ok db ctx vertical key =
     (case forVertical pins_ok db ctx vertical of
        None \<Rightarrow> (None, None)
      | Some p \<Rightarrow>
          (Some p, case obj_get key (cp_schema p) of
                     None \<Rightarrow> None | Some v \<Rightarrow> if v = JUndef \<or> v = JNull then None else Some v))"

definition pack_section :: "bool \<Rightarrow> pack_db \<Rightarrow> als \<Rightarrow> str option \<Rightarrow> str \<Rightarrow> js option" where
  "pack_section pins_ok db ctx vertical key = snd (sectionWithPack pins_ok db ctx vertical key)"

definition list_section :: "bool \<Rightarrow> pack_db \<Rightarrow> als \<Rightarrow> str option \<Rightarrow> str \<Rightarrow> js list" where
  "list_section pins_ok db ctx vertical key =
     (case pack_section pins_ok db ctx vertical key of Some (JArr xs) \<Rightarrow> xs | _ \<Rightarrow> [])"

section \<open>Navigation and dashboards\<close>

datatype portal = PortalAdmin | PortalStaff | PortalClient | PortalPlatform

record ui_item =
  ui_key :: str
  ui_label :: str
  ui_roles :: "str list option"
  ui_portal :: "portal option"
  ui_module :: "str option"
  ui_order :: "int option"

text \<open>No \<open>modules\<close> means that the entitlements are not known.\<close>

record ui_audience =
  ud_roles :: "str list"
  ud_modules :: "str list option"
  ud_portal :: "portal option"

definition audienceFor ::
  "(str \<Rightarrow> 'e + str list) \<Rightarrow> str option \<Rightarrow> str list \<Rightarrow> portal option \<Rightarrow> ui_audience" where
  "audienceFor getEntitlements tenantId roles port =
     (if \<not> truthy_str tenantId then \<lparr>ud_roles = roles, ud_modules = None, ud_portal = port\<rparr>
      else case getEntitlements (the tenantId) of
             Inl _ \<Rightarrow> \<lparr>ud_roles = roles, ud_modules = None, ud_portal = port\<rparr>
           | Inr modules \<Rightarrow> \<lparr>ud_roles = roles, ud_modules = Some modules, ud_portal = port\<rparr>)"

definition ui_visible :: "ui_item \<Rightarrow> ui_audience \<Rightarrow> bool" where
  "ui_visible item a =
     (let roles = nullish (ui_roles item) [] in
      if ud_portal a \<noteq> None \<and> nullish (ui_portal item) PortalStaff \<noteq> the (ud_portal a) then False
      else if roles \<noteq> [] \<and> \<not> list_ex (\<lambda>r. r \<in> set (ud_roles a)) roles then False
      else if truthy_str (ui_module item) \<and> ud_modules a \<noteq> None
              \<and> the (ui_module item) \<notin> set (the (ud_modules a)) then False
      else True)"

text \<open>\<open>collate\<close> gives the sort key of a label, for \<open>localeCompare\<close>.\<close>

definition navigationFor :: "(str \<Rightarrow> nat) \<Rightarrow> ui_item list \<Rightarrow> ui_audience \<Rightarrow> ui_item list" where
  "navigationFor collate items a =
     sort_key (\<lambda>i. (nullish (ui_order i) 0, collate (ui_label i))) (filter (\<lambda>i. ui_visible i a) items)"

definition dashboardsFor :: "ui_item list \<Rightarrow> ui_audience \<Rightarrow> ui_item list" where
  "dashboardsFor dashboards a = filter (\<lambda>d. ui_visible d a) dashboards"

definition dashboardFor :: "ui_item list \<Rightarrow> str \<Rightarrow> ui_audience \<Rightarrow> ui_item option" where
  "dashboardFor dashboards key a = find_one (\<lambda>d. ui_key d = key) (dashboardsFor dashboards a)"

section \<open>Feature flags\<close>

record feature_flag =
  ff_id :: str
  ff_tenantId :: str
  ff_flagKey :: str
  ff_flagValue :: js
  ff_description :: "str option"
  ff_isActive :: bool
  ff_rolloutPercentage :: int
  ff_targetRoles :: "str list option"

record flag_dto =
  fd_value :: "js option"
  fd_description :: "str option"
  fd_isActive :: "bool option"
  fd_rolloutPercentage :: "int option"
  fd_targetRoles :: "str list option"

definition flag_of :: "feature_flag list \<Rightarrow> str \<Rightarrow> str \<Rightarrow> feature_flag option" where
  "flag_of flags tenantId key = find_one (\<lambda>f. ff_tenantId f = tenantId \<and> ff_flagKey f = key) flags"

text \<open>A new flag takes the table's defaults.\<close>

definition new_flag :: "str \<Rightarrow> str \<Rightarrow> str \<Rightarrow> feature_flag" where
  "new_flag newId tenantId key =
     \<lparr>ff_id = newId, ff_tenantId = tenantId, ff_flagKey = key, ff_flagValue = JBool True, ff_description = None,
      ff_isActive = True, ff_rolloutPercentage = 100, ff_targetRoles = None\<rparr>"

definition upsert_flag ::
  "str \<Rightarrow> str \<Rightarrow> str \<Rightarrow> flag_dto \<Rightarrow> feature_flag list \<Rightarrow> feature_flag \<times> feature_flag list" where
  "upsert_flag newId tenantId key dto flags =
     (let base = (case flag_of flags tenantId key of Some f \<Rightarrow> f
                  | None \<Rightarrow> new_flag newId tenantId key);
          f = base\<lparr>ff_flagValue := nullish (fd_value dto) (ff_flagValue base),
                   ff_description := nullish_opt (fd_description dto) (ff_description base),
                   ff_isActive := nullish (fd_isActive dto) (ff_isActive base),
                   ff_rolloutPercentage := nullish (fd_rolloutPercentage dto) (ff_rolloutPercentage base),
                   ff_targetRoles := nullish_opt (fd_targetRoles dto) (ff_targetRoles base)\<rparr>
      in (f, save_row ff_id f flags))"

definition list_flags :: "str \<Rightarrow> feature_flag list \<Rightarrow> feature_flag list" where
  "list_flags tenantId flags =
     sort_key (\<lambda>f. map of_char (ff_flagKey f) :: nat list) (find_where (\<lambda>f. ff_tenantId f = tenantId) flags)"

definition remove_flag :: "str \<Rightarrow> str \<Rightarrow> feature_flag list \<Rightarrow> bool \<times> feature_flag list" where
  "remove_flag tenantId key flags =
     (list_ex (\<lambda>f. ff_tenantId f = tenantId \<and> ff_flagKey f = key) flags,
      filter (\<lambda>f. \<not> (ff_tenantId f = tenantId \<and> ff_flagKey f = key)) flags)"

section \<open>The order packs are served in\<close>

lemma str_less_trans: "str_less a b \<Longrightarrow> str_less b c \<Longrightarrow> str_less a c"
proof (induction a b arbitrary: c rule: str_less.induct)
  case (2 x xs)
  then show ?case by (cases c) simp_all
next
  case (3 x xs y ys)
  show ?case
  proof (cases c)
    case (Cons z zs)
    consider "(of_char x :: nat) < of_char y" | "x = y" "str_less xs ys" using "3.prems"(1) by auto
    then show ?thesis
    proof cases
      case 1
      then show ?thesis using "3.prems"(2) Cons by auto
    next
      case 2
      then show ?thesis using "3.prems"(2) Cons "3.IH" by auto
    qed
  qed (use "3.prems" in simp)
qed simp

lemma str_less_irrefl [simp]: "\<not> str_less a a"
  by (induction a) simp_all

lemma served_before_irrefl [simp]: "\<not> served_before p p"
  by (simp add: served_before_def)

lemma served_before_trans: "served_before p q \<Longrightarrow> served_before q r \<Longrightarrow> served_before p r"
  unfolding served_before_def by (elim disjE conjE) (simp_all, auto intro: str_less_trans)

lemma a_first_one:
  assumes "xs \<noteq> []"
  obtains p where "p \<in> set xs" "\<forall>q \<in> set xs. \<not> served_before q p"
proof -
  let ?r = "{(p, q). p \<in> set xs \<and> q \<in> set xs \<and> served_before p q}"
  have "trans ?r" using served_before_trans by (auto intro!: transI)
  then have "?r\<^sup>+ = ?r" by (rule trancl_id)
  then have "acyclic ?r" unfolding acyclic_def by simp
  moreover have "finite ?r" by (rule finite_subset [of _ "set xs \<times> set xs"]) auto
  ultimately have "wf ?r" by (simp add: finite_acyclic_wf)
  moreover obtain x where "x \<in> set xs" using assms by (cases xs) auto
  ultimately show thesis
  proof (rule wfE_min)
    fix p assume p: "p \<in> set xs" "\<And>q. (q, p) \<in> ?r \<Longrightarrow> q \<notin> set xs"
    then have "\<forall>q \<in> set xs. \<not> served_before q p" by blast
    with p(1) show thesis by (rule that)
  qed
qed

lemma base_for_None_iff:
  "base_for db v = None \<longleftrightarrow> (\<forall>p \<in> set (pd_packs db). \<not> (cp_vertical p = Some v \<and> cp_isActive p))"
proof -
  let ?c = "find_where (\<lambda>p. cp_vertical p = Some v \<and> cp_isActive p) (pd_packs db)"
  have first: "base_for db v = None \<longleftrightarrow> (\<forall>p \<in> set ?c. \<not> (\<forall>q \<in> set ?c. \<not> served_before q p))"
    unfolding base_for_def Let_def find_one_None_iff list_all_iff by (rule refl)
  have "base_for db v = None \<longleftrightarrow> ?c = []"
  proof (cases "?c = []")
    case False
    then obtain p where "p \<in> set ?c" "\<forall>q \<in> set ?c. \<not> served_before q p" by (rule a_first_one)
    with False first show ?thesis by blast
  qed (simp add: first)
  then show ?thesis by (auto simp: find_where_def filter_empty_conv)
qed

lemma base_for_SomeD:
  assumes "base_for db v = Some p"
  shows "p \<in> set (pd_packs db) \<and> cp_vertical p = Some v \<and> cp_isActive p
    \<and> (\<forall>q \<in> set (pd_packs db). cp_vertical q = Some v \<and> cp_isActive q \<longrightarrow> \<not> served_before q p)"
  using find_one_SomeD [OF assms [unfolded base_for_def Let_def]]
  by (auto simp: set_find_where list_all_iff)

text \<open>The pins of a tenant that decide for a vertical.\<close>

definition pin_serves :: "pack_db \<Rightarrow> str \<Rightarrow> str \<Rightarrow> config_pack \<Rightarrow> bool" where
  "pin_serves db tenantId v p \<longleftrightarrow>
     (\<exists>n \<in> set (pd_pins db). pn_tenantId n = tenantId \<and> by_key cp_id (pd_packs db) (pn_configPackId n) = Some p)
     \<and> cp_isActive p \<and> cp_vertical p = Some v"

lemma set_getTenantPins: "set (getTenantPins db t) = {n \<in> set (pd_pins db). pn_tenantId n = t}"
  by (simp add: getTenantPins_def set_find_where)

lemma set_map_filter: "set (List.map_filter f xs) = {y. \<exists>x \<in> set xs. f x = Some y}"
  by (force simp: List.map_filter_def)

lemma pinnedFor_SomeD: "pinnedFor ok db t v = Some p \<Longrightarrow> ok \<and> pin_serves db t v p"
  by (auto simp: pinnedFor_def pin_serves_def set_map_filter set_getTenantPins split: if_splits dest!: find_one_SomeD)

lemma pinnedFor_NoneD: "pinnedFor True db t v = None \<Longrightarrow> \<not> pin_serves db t v p"
  by (auto simp: pinnedFor_def pin_serves_def find_one_None_iff set_map_filter set_getTenantPins)



section \<open>What the tables always satisfy\<close>

inductive pack_db_step :: "pack_db \<Rightarrow> pack_db \<Rightarrow> bool" where
  create: "create_config_pack newId now dto db = (r, db') \<Longrightarrow> newId \<notin> cp_id ` set (pd_packs db) \<Longrightarrow> pack_db_step db db'"
| promote: "promoteVersion audit_ok i newVersion userId db = (r, db') \<Longrightarrow> pack_db_step db db'"
| update: "update_pack i updates db = (r, db') \<Longrightarrow> pack_db_step db db'"
| deactivate: "deactivate i db = (r, db') \<Longrightarrow> pack_db_step db db'"
| delete: "delete_pack i db = (d, db') \<Longrightarrow> pack_db_step db db'"
| pin: "pinToTenant newId now t pd db = (p, db') \<Longrightarrow> newId \<notin> pn_id ` set (pd_pins db) \<Longrightarrow> pack_db_step db db'"
| unpin: "unpinFromTenant t i db = (d, db') \<Longrightarrow> pack_db_step db db'"
| promote_all: "promoteToAllTenants now i newVersion userId db = (n, db') \<Longrightarrow> pack_db_step db db'"

inductive_cases pack_stepE: "pack_db_step db db'"

abbreviation pin_key :: "config_pin \<Rightarrow> str \<times> str" where
  "pin_key n \<equiv> (pn_tenantId n, pn_configPackId n)"

text \<open>Codes are unique, a tenant pins a pack once, and what is pinned exists.\<close>

definition pack_inv :: "pack_db \<Rightarrow> bool" where
  "pack_inv db \<longleftrightarrow>
     keys_distinct cp_id (pd_packs db) \<and> inj_on cp_code (set (pd_packs db))
     \<and> keys_distinct pn_id (pd_pins db) \<and> inj_on pin_key (set (pd_pins db))
     \<and> pn_configPackId ` set (pd_pins db) \<subseteq> cp_id ` set (pd_packs db)"

lemma inj_on_saved:
  assumes "inj_on f (set t)" "\<forall>q \<in> set t. key q \<noteq> key r \<longrightarrow> f q \<noteq> f r" "keys_distinct key t"
  shows "inj_on f (set (save_row key r t))"
  unfolding set_save_row [OF assms(3)] using assms(1,2) by (auto simp: inj_on_def)

lemma pack_inv_save:
  assumes "pack_inv db" "\<forall>q \<in> set (pd_packs db). cp_id q \<noteq> cp_id p \<longrightarrow> cp_code q \<noteq> cp_code p"
  shows "pack_inv (db\<lparr>pd_packs := save_row cp_id p (pd_packs db)\<rparr>)"
  using assms inj_on_saved [of cp_code "pd_packs db" cp_id p]
  by (auto simp: pack_inv_def keys_distinct_save keys_save)

lemma pack_inv_save_pin:
  assumes "pack_inv db" "pn_configPackId n \<in> cp_id ` set (pd_packs db)"
    "\<forall>m \<in> set (pd_pins db). pn_id m \<noteq> pn_id n \<longrightarrow> pin_key m \<noteq> pin_key n"
  shows "pack_inv (db\<lparr>pd_pins := save_row pn_id n (pd_pins db)\<rparr>)"
  using assms inj_on_saved [of pin_key "pd_pins db" pn_id n] set_save_row [of pn_id "pd_pins db" n]
  by (auto simp: pack_inv_def keys_distinct_save)

lemma findById_InrD: "findById db i = Inr p \<Longrightarrow> p \<in> set (pd_packs db) \<and> cp_id p = i"
  by (auto simp: findById_def split: option.splits dest: by_key_SomeD)

lemma same_code_saved:
  assumes "pack_inv db" "findById db i = Inr p" "cp_id p' = cp_id p" "cp_code p' = cp_code p"
  shows "pack_inv (db\<lparr>pd_packs := save_row cp_id p' (pd_packs db)\<rparr>)"
  using assms findById_InrD [OF assms(2)]
  by (intro pack_inv_save) (auto simp: pack_inv_def inj_on_def)

lemma pin_of_SomeD: "pin_of db t i = Some n \<Longrightarrow> n \<in> set (pd_pins db) \<and> pin_key n = (t, i)"
  by (auto simp: pin_of_def dest: find_one_SomeD)

lemma pin_of_NoneD: "pin_of db t i = None \<Longrightarrow> m \<in> set (pd_pins db) \<Longrightarrow> pin_key m \<noteq> (t, i)"
  by (auto simp: pin_of_def find_one_None_iff)

lemma pack_inv_pinned:
  assumes "pack_inv db" "pinToTenant newId now t dto db = (r, db')" "newId \<notin> pn_id ` set (pd_pins db)"
  shows "pack_inv db'"
proof (cases "findById db (pi_configPackId dto)")
  case (Inl e)
  then show ?thesis using assms by (auto simp: pinToTenant_def)
next
  case (Inr p)
  then have there: "pi_configPackId dto \<in> cp_id ` set (pd_packs db)" by (metis findById_InrD imageI)
  show ?thesis
  proof (cases "pin_of db t (pi_configPackId dto)")
    case None
    then show ?thesis
      using assms Inr there pin_of_NoneD [OF None]
      by (auto simp: pinToTenant_def Let_def intro!: pack_inv_save_pin)
  next
    case (Some n)
    note n = pin_of_SomeD [OF Some]
    have "\<forall>m \<in> set (pd_pins db). pn_id m \<noteq> pn_id n \<longrightarrow> pin_key m \<noteq> pin_key n"
      using assms(1) n by (auto simp: pack_inv_def inj_on_def)
    then show ?thesis
      using assms Inr Some there n by (auto simp: pinToTenant_def Let_def intro!: pack_inv_save_pin)
  qed
qed

lemma image_save_same:
  assumes "keys_distinct key t" "m \<in> set t" "key m = key r" "g m = g r"
  shows "g ` set (save_row key r t) = g ` set t"
  using assms
proof (induction t)
  case (Cons x xs)
  show ?case
  proof (cases "key x = key r")
    case True
    then have "m = x" using Cons.prems(1-3) by (auto simp: image_iff)
    then show ?thesis using True Cons.prems(4) by simp
  next
    case False
    then have "g ` set (save_row key r xs) = g ` set xs" using Cons by (intro Cons.IH) auto
    then show ?thesis using False by simp
  qed
qed simp

text \<open>Saving pins over themselves, with other versions.\<close>

lemma pack_inv_resave:
  assumes "pack_inv db" "\<forall>n. pn_id (f n) = pn_id n \<and> pin_key (f n) = pin_key n"
    "set ns \<subseteq> M" "(\<lambda>n. (pn_id n, pin_key n)) ` M = (\<lambda>n. (pn_id n, pin_key n)) ` set (pd_pins db)"
  shows "pack_inv (db\<lparr>pd_pins := fold (\<lambda>n. save_row pn_id (f n)) ns (pd_pins db)\<rparr>)"
  using assms
proof (induction ns arbitrary: db)
  case (Cons n ns)
  define db1 where "db1 = db\<lparr>pd_pins := save_row pn_id (f n) (pd_pins db)\<rparr>"
  have "(pn_id n, pin_key n) \<in> (\<lambda>n. (pn_id n, pin_key n)) ` set (pd_pins db)"
    unfolding Cons.prems(4) [symmetric] using Cons.prems(3) by (intro imageI) auto
  then obtain m where m: "m \<in> set (pd_pins db)" "pn_id m = pn_id n" "pin_key m = pin_key n" by auto
  have inv: "keys_distinct pn_id (pd_pins db)" "inj_on pin_key (set (pd_pins db))"
    "pn_configPackId ` set (pd_pins db) \<subseteq> cp_id ` set (pd_packs db)"
    using Cons.prems(1) by (auto simp: pack_inv_def)
  have "pack_inv db1"
    unfolding db1_def
  proof (rule pack_inv_save_pin [OF Cons.prems(1)])
    show "pn_configPackId (f n) \<in> cp_id ` set (pd_packs db)"
    proof -
      have "pn_configPackId (f n) = pn_configPackId m" using m(3) Cons.prems(2) by simp
      then show ?thesis using inv(3) m(1) by auto
    qed
    show "\<forall>m' \<in> set (pd_pins db). pn_id m' \<noteq> pn_id (f n) \<longrightarrow> pin_key m' \<noteq> pin_key (f n)"
    proof (intro ballI impI notI)
      fix m' assume m': "m' \<in> set (pd_pins db)" "pn_id m' \<noteq> pn_id (f n)" "pin_key m' = pin_key (f n)"
      have "pin_key m' = pin_key m" using m'(3) m(3) Cons.prems(2) by simp
      then have "m' = m" by (rule inj_onD [OF inv(2) _ m'(1) m(1)])
      then show False using m'(2) m(2) Cons.prems(2) by simp
    qed
  qed
  moreover have "(\<lambda>n. (pn_id n, pin_key n)) ` set (pd_pins db1) = (\<lambda>n. (pn_id n, pin_key n)) ` set (pd_pins db)"
    unfolding db1_def using m Cons.prems(2) by (simp add: image_save_same [OF inv(1) m(1)])
  ultimately have "pack_inv (db1\<lparr>pd_pins := fold (\<lambda>n. save_row pn_id (f n)) ns (pd_pins db1)\<rparr>)"
    using Cons.prems(2-4) by (intro Cons.IH) auto
  then show ?case by (simp add: db1_def)
qed simp

lemma pack_inv_audit: "pack_inv (db\<lparr>pd_audit := a\<rparr>) = pack_inv db"
  by (simp add: pack_inv_def)

lemma set_remove_subset: "set (remove_row key k t) \<subseteq> set t"
  by (auto simp: set_remove_row)

lemma keys_remove: "key ` set (remove_row key k t) = key ` set t - {k}"
  by (auto simp: set_remove_row)

lemma pack_inv_step: "pack_db_step db db' \<Longrightarrow> pack_inv db \<Longrightarrow> pack_inv db'"
proof (induction rule: pack_db_step.induct)
  case (create newId now dto db r db')
  then show ?case
    by (auto simp: create_config_pack_def Let_def find_one_None_iff split: if_splits intro!: pack_inv_save)
next
  case (promote audit_ok i newVersion userId db r db')
  show ?case
  proof (cases "findById db i")
    case (Inr p)
    let ?db1 = "db\<lparr>pd_packs := save_row cp_id (p\<lparr>cp_version := newVersion\<rparr>) (pd_packs db)\<rparr>"
    have "pack_inv ?db1" by (rule same_code_saved [OF promote(2) Inr]) simp_all
    moreover have "db' = db \<or> db' = ?db1 \<or> (\<exists>a. db' = ?db1\<lparr>pd_audit := a\<rparr>)"
      using promote(1) Inr by (auto simp: promoteVersion_def Let_def split: if_splits)
    ultimately show ?thesis using promote(2) pack_inv_audit by metis
  qed (use promote in \<open>auto simp: promoteVersion_def\<close>)
next
  case (update i updates db r db')
  then show ?case
    by (auto simp: update_pack_def Let_def list_ex_iff split: sum.splits if_splits intro!: pack_inv_save)
next
  case (deactivate i db r db')
  then show ?case
    by (auto simp: deactivate_def Let_def split: sum.splits intro!: same_code_saved)
next
  case (delete i db d db')
  have "db' = db \<or> db' = db\<lparr>pd_packs := remove_row cp_id i (pd_packs db)\<rparr>
      \<and> i \<notin> pn_configPackId ` set (pd_pins db)"
    using delete(1)
    by (auto simp: delete_pack_def Let_def find_where_def filter_empty_conv dest!: findById_InrD split: sum.splits if_splits)
  then show ?case
  proof
    assume del: "db' = db\<lparr>pd_packs := remove_row cp_id i (pd_packs db)\<rparr> \<and> i \<notin> pn_configPackId ` set (pd_pins db)"
    then have "pn_configPackId ` set (pd_pins db) \<subseteq> cp_id ` set (pd_packs db) - {i}"
      using delete(2) unfolding pack_inv_def by blast
    moreover have "inj_on cp_code (set (remove_row cp_id i (pd_packs db)))"
      using delete(2) set_remove_subset unfolding pack_inv_def by (metis inj_on_subset)
    ultimately show ?thesis using del delete(2) by (auto simp: pack_inv_def keys_distinct_remove keys_remove)
  qed (use delete(2) in simp)
next
  case (pin newId now t pd db p db')
  then show ?case using pack_inv_pinned by blast
next
  case (unpin t i db d db')
  then show ?case
    by (auto simp: unpinFromTenant_def pack_inv_def keys_distinct_remove image_subset_iff set_remove_row
        split: option.splits intro: inj_on_subset)
next
  case (promote_all now i newVersion userId db n db')
  show ?case
  proof (cases "findById db i")
    case (Inr p)
    define f :: "config_pin \<Rightarrow> config_pin" where "f = (\<lambda>n. n\<lparr>pn_pinnedVersion := newVersion, pn_pinnedBy := Some userId, pn_pinnedAt := now\<rparr>)"
    let ?pins = "find_where (\<lambda>n. pn_configPackId n = i) (pd_pins db)"
    have "pack_inv (db\<lparr>pd_pins := fold (\<lambda>n. save_row pn_id (f n)) ?pins (pd_pins db)\<rparr>)" (is "pack_inv ?db1")
      by (rule pack_inv_resave [OF promote_all(2), of _ _ "set (pd_pins db)"]) (auto simp: f_def set_find_where)
    moreover have "findById ?db1 i = Inr p" using Inr by (simp add: findById_def)
    ultimately have "pack_inv (?db1\<lparr>pd_packs := save_row cp_id (p\<lparr>cp_version := newVersion\<rparr>) (pd_packs ?db1)\<rparr>)"
      by (rule same_code_saved) simp_all
    then show ?thesis using promote_all(1) Inr by (auto simp: promoteToAllTenants_def Let_def f_def)
  qed (use promote_all in \<open>auto simp: promoteToAllTenants_def\<close>)
qed




definition demo_base :: config_pack where
  "demo_base = \<lparr>cp_id = ''1'', cp_code = ''grc'', cp_name = ''GRC'', cp_description = None, cp_version = ''1.9.0'',
     cp_vertical = Some ''grc'', cp_schema = [], cp_defaults = [], cp_uiConfig = [], cp_isActive = True, cp_createdAt = 0\<rparr>"

definition demo_overlay :: config_pack where
  "demo_overlay = \<lparr>cp_id = ''2'', cp_code = ''ae-grc'', cp_name = ''UAE'', cp_description = None, cp_version = ''1.10.0'',
     cp_vertical = Some ''grc'', cp_schema = [(''country'', JStr ''AE'')], cp_defaults = [], cp_uiConfig = [],
     cp_isActive = True, cp_createdAt = 0\<rparr>"

definition demo_packs :: pack_db where
  "demo_packs = \<lparr>pd_packs = [demo_overlay, demo_base], pd_pins = [], pd_audit = []\<rparr>"

definition demo_pin :: pin_dto where
  "demo_pin = \<lparr>pi_configPackId = ''2'', pi_pinnedVersion = ''1.0.0'', pi_overrides = None, pi_pinnedBy = None\<rparr>"



section \<open>Pinned versions\<close>

definition repinned :: "(config_pin \<Rightarrow> str) \<Rightarrow> pack_db \<Rightarrow> pack_db" where
  "repinned version db = db\<lparr>pd_pins := map (\<lambda>n. n\<lparr>pn_pinnedVersion := version n\<rparr>) (pd_pins db)\<rparr>"

lemma sort_key_map: "(\<And>x. k (f x) = k x) \<Longrightarrow> sort_key k (map f xs) = map f (sort_key k xs)"
proof (induction xs)
  case (Cons x xs)
  have "insort_key k (f x) (map f ys) = map f (insort_key k x ys)" for ys
    by (induction ys) (simp_all add: Cons.prems)
  then show ?case using Cons by simp
qed simp

lemma repinned_pins: "getTenantPins (repinned version db) t = map (\<lambda>n. n\<lparr>pn_pinnedVersion := version n\<rparr>) (getTenantPins db t)"
  by (simp add: getTenantPins_def repinned_def find_where_def filter_map comp_def sort_key_map)

lemma find_one_pins:
  "find_one (\<lambda>n. pn_tenantId n = t \<and> pn_configPackId n = i) (map (\<lambda>n. n\<lparr>pn_pinnedVersion := version n\<rparr>) ns)
     = map_option (\<lambda>n. n\<lparr>pn_pinnedVersion := version n\<rparr>) (find_one (\<lambda>n. pn_tenantId n = t \<and> pn_configPackId n = i) ns)"
  by (induction ns) simp_all

lemma repinned_pin_of: "pin_of (repinned version db) t i = map_option (\<lambda>n. n\<lparr>pn_pinnedVersion := version n\<rparr>) (pin_of db t i)"
  by (simp add: pin_of_def repinned_def find_one_pins)

text \<open>
  The version a tenant is pinned to decides nothing: neither the pack served for a
  vertical nor the effective configuration changes when the pinned versions do, so a pin to an old version
  follows every upgrade of its pack.
\<close>

theorem pinned_version_is_ignored:
  "forVertical ok (repinned version db) ctx v = forVertical ok db ctx v
   \<and> getTenantEffectiveConfig (repinned version db) t code = getTenantEffectiveConfig db t code"
proof
  have packs: "pd_packs (repinned version db) = pd_packs db" by (simp add: repinned_def)
  have "pinnedFor ok (repinned version db) t w = pinnedFor ok db t w" for t w
    by (simp add: pinnedFor_def repinned_pins packs List.map_filter_def filter_map comp_def)
  moreover have "base_for (repinned version db) w = base_for db w" for w by (simp add: base_for_def packs)
  ultimately show "forVertical ok (repinned version db) ctx v = forVertical ok db ctx v"
    by (simp only: forVertical_def)
  show "getTenantEffectiveConfig (repinned version db) t code = getTenantEffectiveConfig db t code"
    by (simp add: getTenantEffectiveConfig_def findByCode_def packs repinned_pin_of and_then_def split: sum.split option.split)
qed

text \<open>Versions are ordered as texts.\<close>

lemma version_order_is_textual:
  "served_before demo_base (demo_base\<lparr>cp_version := ''1.10.0''\<rparr>)"
  by (simp add: served_before_def demo_base_def is_base_def)

end
