(* ===== verification/PackLoader.thy ===== *)
theory PackLoader
  imports PackMerge VerticalPack Json
begin

text \<open>
  \<^verbatim>\<open>src/tenant/services/config-pack-loader.service.ts\<close>: every pack file is parsed, resolved against the
  packs it extends, validated, checked for references the schema cannot express, and stored when it is new or of a
  higher version.

  The file system is the list of the pack files with their contents, \<open>None\<close> for one that
  cannot be read. The Zod schema is an argument: the message of its issues or the validated pack.
\<close>

section \<open>Versions\<close>

datatype version_order = Newer | SameVersion | Older | NotComparable

definition version_part :: "js_num list \<Rightarrow> nat \<Rightarrow> js_num option" where
  "version_part ps i = (if i < length ps then Some (ps ! i) else None)"

text \<open>\<open>===\<close> on a part, \<open>undefined\<close> where the version is shorter, and the sign of the difference of others.\<close>

fun same_part :: "js_num option \<Rightarrow> js_num option \<Rightarrow> bool" where
  "same_part None None = True"
| "same_part (Some x) (Some y) = (x \<noteq> NaN \<and> y \<noteq> NaN \<and> \<not> num_less x y \<and> \<not> num_less y x)"
| "same_part _ _ = False"

fun part_difference :: "js_num option \<Rightarrow> js_num option \<Rightarrow> version_order" where
  "part_difference (Some x) (Some y) =
     (if num_less y x then Newer else if num_less x y then Older else NotComparable)"
| "part_difference _ _ = NotComparable"

fun compare_parts :: "js_num list \<Rightarrow> js_num list \<Rightarrow> nat list \<Rightarrow> version_order" where
  "compare_parts pa pb [] = SameVersion"
| "compare_parts pa pb (i # rest) =
     (if same_part (version_part pa i) (version_part pb i) then compare_parts pa pb rest
      else part_difference (version_part pa i) (version_part pb i))"

definition compareVersions :: "str \<Rightarrow> str \<Rightarrow> version_order" where
  "compareVersions a b =
     compare_parts (map string_to_number (split_on (CHR ''.'') a)) (map string_to_number (split_on (CHR ''.'') b)) [0, 1, 2]"

section \<open>Checks across sections\<close>

definition pack_items :: "str \<Rightarrow> js_obj \<Rightarrow> js_obj list" where
  "pack_items k p = (case obj_get k p of Some (JArr xs) \<Rightarrow> map obj_of xs | _ \<Rightarrow> [])"

datatype pack_problem =
    DanglingFee str str
  | DanglingStage str str
  | UnnamedSubjects str str

definition step_ids :: "js_obj \<Rightarrow> str list" where
  "step_ids p =
     concat (map (\<lambda>w. List.map_filter (text_of ''id'') (pack_items ''steps'' w)) (pack_items ''workflows'' p))"

definition danglingStepReferences :: "js_obj \<Rightarrow> pack_problem list" where
  "danglingStepReferences p =
     (if pack_items ''workflows'' p = [] then []
      else concat (map (\<lambda>fee. if truthy_str (text_of ''atStep'' fee) \<and> the (text_of ''atStep'' fee) \<notin> set (step_ids p)
                              then [DanglingFee (nullish (text_of ''key'' fee) []) (the (text_of ''atStep'' fee))] else [])
                     (pack_items ''fees'' p))
           @ concat (map (\<lambda>plan. concat (map (\<lambda>stage.
                        if nullish (text_of ''atStep'' stage) [] \<notin> set (step_ids p)
                        then [DanglingStage (nullish (text_of ''key'' plan) []) (nullish (text_of ''atStep'' stage) [])] else [])
                        (pack_items ''stages'' plan))) (pack_items ''paymentPlans'' p)))"

definition unnamedSubjectMappings :: "js_obj \<Rightarrow> pack_problem list" where
  "unnamedSubjectMappings p =
     concat (map (\<lambda>mapping.
         let target = nullish (text_of ''targetEntityType'' mapping) [];
             targets = List.map_filter (text_of ''to'') (pack_items ''fields'' mapping)
         in if target \<notin> set [''person'', ''organization'', ''lead''] then []
            else if list_ex (\<lambda>t. t \<in> set targets) [''firstName'', ''lastName'', ''email''] then []
            else [UnnamedSubjects (nullish (text_of ''key'' mapping) []) target])
       (pack_items ''importMappings'' p))"

section \<open>Storing a pack\<close>

definition section_or :: "js_obj \<Rightarrow> str \<Rightarrow> js \<Rightarrow> str \<times> js" where
  "section_or p k d =
     (k, case obj_get k p of None \<Rightarrow> d | Some v \<Rightarrow> if v = JUndef \<or> v = JNull then d else v)"

text \<open>A value that is \<open>undefined\<close> is not stored.\<close>

definition section_if :: "js_obj \<Rightarrow> str \<Rightarrow> js_obj" where
  "section_if p k = (case obj_get k p of None \<Rightarrow> [] | Some v \<Rightarrow> if v = JUndef then [] else [(k, v)])"

definition schema_of :: "js_obj \<Rightarrow> js_obj" where
  "schema_of p =
     map (\<lambda>k. section_or p k (JArr [])) [''roles'', ''documentTypes'', ''workflows'']
     @ map (\<lambda>k. section_or p k JNull) [''screening'', ''compliance'']
     @ map (\<lambda>k. section_or p k (JArr [])) [''kpis'', ''entityTypes'', ''regulators'', ''prompts'']
     @ [section_or p ''messaging'' (JObj [(''templates'', JArr []), (''sequences'', JArr [])])]
     @ map (\<lambda>k. section_or p k (JArr []))
         [''rules'', ''alertRules'', ''fees'', ''paymentPlans'', ''scoringModels'', ''relationships'', ''navigation'',
          ''dashboards'', ''importMappings'', ''documentTemplates'']
     @ section_if p ''country'' @ section_if p ''locales''
     @ [section_or p ''metadata'' (JObj [])]"

text \<open>The row of a pack over the one it replaces, or over a new one.\<close>

definition pack_data :: "js_obj \<Rightarrow> config_pack \<Rightarrow> config_pack" where
  "pack_data p row =
     row\<lparr>cp_code := nullish (text_of ''code'' p) [], cp_name := nullish (text_of ''name'' p) [],
         cp_description := Some (nullish (text_of ''description'' p) []),
         cp_version := nullish (text_of ''version'' p) [], cp_vertical := text_of ''vertical'' p,
         cp_schema := schema_of p,
         cp_defaults := obj_of (snd (section_or p ''defaults'' (JObj []))),
         cp_uiConfig := obj_of (snd (section_or p ''uiConfig'' (JObj []))), cp_isActive := True\<rparr>"

definition new_pack :: "str \<Rightarrow> instant \<Rightarrow> config_pack" where
  "new_pack newId now =
     \<lparr>cp_id = newId, cp_code = [], cp_name = [], cp_description = None, cp_version = [], cp_vertical = None,
      cp_schema = [], cp_defaults = [], cp_uiConfig = [], cp_isActive = True, cp_createdAt = now\<rparr>"

datatype load_outcome = Inserted | UpToDate | Upgraded

definition stored_pack :: "pack_db \<Rightarrow> str \<Rightarrow> config_pack option" where
  "stored_pack db code = find_one (\<lambda>p. cp_code p = code) (pd_packs db)"

text \<open>
  The table is written under an RLS bypass only: without one an insert is refused, and an
  update changes no row and says nothing.
\<close>

definition upsertPack :: "als \<Rightarrow> str \<Rightarrow> instant \<Rightarrow> js_obj \<Rightarrow> pack_db \<Rightarrow> load_outcome option \<times> pack_db" where
  "upsertPack ctx newId now def db =
     (case stored_pack db (nullish (text_of ''code'' def) []) of
        None \<Rightarrow>
          if isBypassed ctx
          then (Some Inserted, db\<lparr>pd_packs := save_row cp_id (pack_data def (new_pack newId now)) (pd_packs db)\<rparr>)
          else (None, db)
      | Some existing \<Rightarrow>
          if compareVersions (nullish (text_of ''version'' def) []) (cp_version existing) = Newer
          then (Some Upgraded,
                if isBypassed ctx then db\<lparr>pd_packs := save_row cp_id (pack_data def existing) (pd_packs db)\<rparr> else db)
          else (Some UpToDate, db))"

section \<open>Loading\<close>

datatype load_error =
    Unreadable str
  | BadJson str
  | NotAnObject str
  | ChainError "str option" chain_error
  | InvalidPack str str
  | InconsistentPack str "pack_problem list"
  | WriteRefused str
  | StoredVersionDiffers str load_outcome str str

record pack_report =
  rp_code :: str
  rp_fileVersion :: str
  rp_storedVersion :: "str option"
  rp_outcome :: load_outcome
  rp_verified :: bool
  rp_sections :: "str list"

record load_report =
  lr_filesFound :: nat
  lr_inserted :: nat
  lr_upgraded :: nat
  lr_upToDate :: nat
  lr_packs :: "pack_report list"
  lr_errors :: "load_error list"

definition read_pack :: "str \<times> str option \<Rightarrow> load_error + js" where
  "read_pack file =
     (case snd file of
        None \<Rightarrow> Inl (Unreadable (fst file))
      | Some content \<Rightarrow>
          (case json_parse content of
             None \<Rightarrow> Inl (BadJson (fst file))
           | Some v \<Rightarrow> if v = JNull then Inl (NotAnObject (fst file)) else Inr v))"

text \<open>The first pass: the packs by code, a later file over an earlier one of the same code.\<close>

definition read_all :: "(str \<times> str option) list \<Rightarrow> load_error list \<times> pack_files" where
  "read_all files =
     fold (\<lambda>file (errs, all).
             case read_pack file of
               Inl e \<Rightarrow> (errs @ [e], all)
             | Inr (JObj raw) \<Rightarrow>
                 (case text_of ''code'' raw of
                    None \<Rightarrow> (errs, all)
                  | Some code \<Rightarrow> (errs, (code, raw) # filter (\<lambda>kv. fst kv \<noteq> code) all))
             | Inr _ \<Rightarrow> (errs, all)) files ([], [])"

definition resolve_pack :: "pack_files \<Rightarrow> js \<Rightarrow> js \<times> load_error list" where
  "resolve_pack all raw =
     (case raw of
        JObj p \<Rightarrow>
          (case resolveInheritance p all of
             (q, None) \<Rightarrow> (JObj q, []) | (q, Some e) \<Rightarrow> (JObj q, [ChainError (text_of ''code'' p) e]))
      | _ \<Rightarrow> (raw, []))"

definition checked_pack :: "(js \<Rightarrow> str + js_obj) \<Rightarrow> str \<Rightarrow> js \<Rightarrow> load_error + js_obj" where
  "checked_pack schema path resolved =
     (case schema resolved of
        Inl issues \<Rightarrow> Inl (InvalidPack path issues)
      | Inr def \<Rightarrow>
          if danglingStepReferences def \<noteq> [] then Inl (InconsistentPack path (danglingStepReferences def))
          else if unnamedSubjectMappings def \<noteq> [] then Inl (InconsistentPack path (unnamedSubjectMappings def))
          else Inr def)"

definition count_outcome :: "load_outcome \<Rightarrow> load_report \<Rightarrow> load_report" where
  "count_outcome out rep =
     (case out of
        Inserted \<Rightarrow> rep\<lparr>lr_inserted := Suc (lr_inserted rep)\<rparr>
      | Upgraded \<Rightarrow> rep\<lparr>lr_upgraded := Suc (lr_upgraded rep)\<rparr>
      | UpToDate \<Rightarrow> rep\<lparr>lr_upToDate := Suc (lr_upToDate rep)\<rparr>)"

text \<open>What the row read back after the write says.\<close>

definition read_back :: "js_obj \<Rightarrow> load_outcome \<Rightarrow> pack_db \<Rightarrow> load_report \<Rightarrow> load_report" where
  "read_back def out db rep =
     (let code = nullish (text_of ''code'' def) []; version = nullish (text_of ''version'' def) [];
          stored = map_option cp_version (stored_pack db code);
          sections = (case stored_pack db code of None \<Rightarrow> [] | Some p \<Rightarrow> map fst (cp_schema p))
      in rep\<lparr>lr_packs := lr_packs rep @ [\<lparr>rp_code = code, rp_fileVersion = version, rp_storedVersion = stored,
                                          rp_outcome = out, rp_verified = (stored = Some version),
                                          rp_sections = sort_key (map of_char :: str \<Rightarrow> nat list) sections\<rparr>],
             lr_errors := lr_errors rep @
               (case stored of None \<Rightarrow> []
                | Some v \<Rightarrow> if v \<noteq> version then [StoredVersionDiffers code out v version] else [])\<rparr>)"

definition load_file ::
  "(js \<Rightarrow> str + js_obj) \<Rightarrow> als \<Rightarrow> str \<Rightarrow> instant \<Rightarrow> pack_files \<Rightarrow> str \<times> str option
   \<Rightarrow> load_report \<times> pack_db \<Rightarrow> load_report \<times> pack_db" where
  "load_file schema ctx newId now all file st =
     (let (rep, db) = st; fail = (\<lambda>es. (rep\<lparr>lr_errors := lr_errors rep @ es\<rparr>, db)) in
      case read_pack file of
        Inl e \<Rightarrow> fail [e]
      | Inr raw \<Rightarrow>
          (let (resolved, errs) = resolve_pack all raw in
           case checked_pack schema (fst file) resolved of
             Inl e \<Rightarrow> fail (errs @ [e])
           | Inr def \<Rightarrow>
               (case upsertPack ctx newId now def db of
                  (None, db') \<Rightarrow> fail (errs @ [WriteRefused (fst file)])
                | (Some out, db') \<Rightarrow>
                    (read_back def out db' (count_outcome out (rep\<lparr>lr_errors := lr_errors rep @ errs\<rparr>)), db'))))"

definition loadAll ::
  "(js \<Rightarrow> str + js_obj) \<Rightarrow> (nat \<Rightarrow> str) \<Rightarrow> instant \<Rightarrow> (str \<times> str option) list \<Rightarrow> als \<Rightarrow> pack_db
   \<Rightarrow> load_report \<times> pack_db" where
  "loadAll schema ids now files ctx db =
     (let (errs, all) = read_all files
      in fold (\<lambda>(n, file). load_file schema ctx (ids n) now all file) (zip [0..<length files] files)
           (\<lparr>lr_filesFound = length files, lr_inserted = 0, lr_upgraded = 0, lr_upToDate = 0, lr_packs = [],
             lr_errors = errs\<rparr>, db))"

definition reload ::
  "(js \<Rightarrow> str + js_obj) \<Rightarrow> (nat \<Rightarrow> str) \<Rightarrow> instant \<Rightarrow> (str \<times> str option) list \<Rightarrow> als \<Rightarrow> pack_db
   \<Rightarrow> load_report \<times> pack_db" where
  "reload schema ids now files ctx db =
     runAsSystem ''load config packs from disk'' (\<lambda>ctx'. loadAll schema ids now files ctx' db) ctx"

section \<open>Versions of three numbers\<close>

definition digits :: "str \<Rightarrow> bool" where
  "digits s \<longleftrightarrow> s \<noteq> [] \<and> list_all is_digit s"

lemma digit_range: "is_digit c \<Longrightarrow> 48 \<le> (of_char c :: nat) \<and> (of_char c :: nat) \<le> 57"
  by (simp add: is_digit_def Let_def)

lemma digit_facts:
  assumes "is_digit c"
  shows "\<not> is_ws c" "lower_char c = c" "c \<noteq> CHR ''-''" "c \<noteq> CHR ''+''" "c \<noteq> CHR ''.''" "c \<noteq> CHR ''I''"
    "c \<noteq> CHR ''x''" "c \<noteq> CHR ''o''" "c \<noteq> CHR ''b''"
  using digit_range [OF assms] by (auto simp: is_ws_def lower_char_def Let_def)

lemma string_to_number_digits: "digits s \<Longrightarrow> string_to_number s = Fin (digits_value s) 0"
proof -
  assume s: "digits s"
  then obtain c cs where c: "s = c # cs" "is_digit c" "list_all is_digit cs" by (cases s) (auto simp: digits_def)
  have all: "\<forall>d \<in> set s. is_digit d" using s by (simp add: digits_def list_all_iff)
  then have "last s \<in> set s \<and> is_digit (last s)" using s by (simp add: digits_def)
  moreover have "dropWhile is_ws s = s" using c digit_facts(1) by simp
  moreover have "hd (rev s) = last s" "rev s \<noteq> []" using c by (simp_all add: hd_rev)
  ultimately have "dropWhile is_ws s = s" "dropWhile is_ws (rev s) = rev s"
    using digit_facts(1) by (simp, metis dropWhile_eq_self_iff)
  then have "trim s = s" by (simp add: trim_def)
  moreover have whole: "takeWhile is_digit s = s" "dropWhile is_digit s = []"
    using all by (auto simp: takeWhile_eq_all_conv)
  moreover have "to_lower (take 2 s) = take 2 s"
    using all digit_facts(2) by (auto simp: to_lower_def intro!: map_idI dest!: in_set_takeD)
  moreover have "take 2 s \<noteq> ''0x'' \<and> take 2 s \<noteq> ''0o'' \<and> take 2 s \<noteq> ''0b''"
    using c digit_facts(7-9) by (cases cs) auto
  moreover have "signed_text s = (False, s)" using c digit_facts(3,4) by (simp add: signed_text_def)
  moreover have "s \<noteq> ''Infinity''" using c digit_facts(6) by auto
  ultimately show ?thesis using s by (simp add: string_to_number_def Let_def parse_decimal_def digits_def whole)
qed

definition semver :: "str \<Rightarrow> bool" where
  "semver v \<longleftrightarrow> (\<exists>x y z. digits x \<and> digits y \<and> digits z \<and> v = x @ ''.'' @ y @ ''.'' @ z)"

lemma digits_no_dot: "digits s \<Longrightarrow> CHR ''.'' \<notin> set s"
  using digit_facts(5) by (auto simp: digits_def list_all_iff)

lemma version_parts:
  "digits x \<Longrightarrow> digits y \<Longrightarrow> digits z \<Longrightarrow>
   map string_to_number (split_on (CHR ''.'') (x @ ''.'' @ y @ ''.'' @ z))
     = [Fin (digits_value x) 0, Fin (digits_value y) 0, Fin (digits_value z) 0]"
  by (simp add: split_on_dot split_on_plain digits_no_dot string_to_number_digits)

lemma same_part_int: "same_part (Some (Fin a 0)) (Some (Fin b 0)) \<longleftrightarrow> a = b"
  by auto

lemma part_difference_int:
  "a \<noteq> b \<Longrightarrow> part_difference (Some (Fin a 0)) (Some (Fin b 0)) = (if b < a then Newer else Older)"
  by auto

lemma versions_numerically:
  assumes "list_all digits [x, y, z, x', y', z']"
  shows "compareVersions (x @ ''.'' @ y @ ''.'' @ z) (x' @ ''.'' @ y' @ ''.'' @ z') =
    (let v = (digits_value x, digits_value y, digits_value z); w = (digits_value x', digits_value y', digits_value z')
     in if w < v then Newer else if v < w then Older else SameVersion)"
proof -
  have parts: "map string_to_number (split_on (CHR ''.'') (x @ ''.'' @ y @ ''.'' @ z))
      = [Fin (digits_value x) 0, Fin (digits_value y) 0, Fin (digits_value z) 0]"
    "map string_to_number (split_on (CHR ''.'') (x' @ ''.'' @ y' @ ''.'' @ z'))
      = [Fin (digits_value x') 0, Fin (digits_value y') 0, Fin (digits_value z') 0]"
    by (rule version_parts; use assms in simp)+
  define a b c a' b' c' where "a = digits_value x" "b = digits_value y" "c = digits_value z"
    "a' = digits_value x'" "b' = digits_value y'" "c' = digits_value z'"
  note abc = this
  have "compareVersions (x @ ''.'' @ y @ ''.'' @ z) (x' @ ''.'' @ y' @ ''.'' @ z')
      = compare_parts [Fin a 0, Fin b 0, Fin c 0] [Fin a' 0, Fin b' 0, Fin c' 0] [0, 1, 2]"
    unfolding compareVersions_def parts abc by (rule refl)
  also have "\<dots> = (let v = (a, b, c); w = (a', b', c')
      in if w < v then Newer else if v < w then Older else SameVersion)"
    by (cases "a = a'"; cases "b = b'"; cases "c = c'")
       (auto simp: version_part_def same_part_int part_difference_int Let_def
          simp del: same_part.simps part_difference.simps)
  finally show ?thesis by (simp only: abc)
qed

text \<open>
  Versions of three numbers are compared as numbers, the first difference deciding:
  1.10.0 is newer than 1.9.0.
\<close>

theorem versions_compare_numerically:
  assumes "list_all digits [x, y, z, x', y', z']"
  shows "compareVersions (x @ ''.'' @ y @ ''.'' @ z) (x' @ ''.'' @ y' @ ''.'' @ z') =
    (let v = (digits_value x, digits_value y, digits_value z); w = (digits_value x', digits_value y', digits_value z')
     in if w < v then Newer else if v < w then Older else SameVersion)"
  using assms by (rule versions_numerically)

lemma versions_compare_numerically_witness: "compareVersions ''1.10.0'' ''1.9.0'' = Newer"
proof -
  have "list_all digits [''1'', ''10'', ''0'', ''1'', ''9'', ''0'']" by code_simp
  from versions_compare_numerically [OF this] show ?thesis by (simp add: digits_value_def is_digit_def)
qed


text \<open>Against a stored version of any form, a larger number stays newer.\<close>

lemma num_less_larger:
  assumes "b < a" "\<not> num_less (Fin b 0) y" "y \<noteq> NaN"
  shows "num_less y (Fin a 0)"
proof (cases y)
  case (Fin m e)
  define p where "p = (10 :: int) ^ nat (0 - min e 0)"
  have "0 < p" by (simp add: p_def)
  moreover have "m * 10 ^ nat (e - min e 0) \<le> b * p"
    using assms(2) Fin by (simp add: p_def Let_def min.commute)
  ultimately have "m * 10 ^ nat (e - min e 0) < a * p"
    using assms(1) by (meson le_less_trans mult_strict_right_mono)
  then show ?thesis using Fin by (simp add: p_def Let_def)
qed (use assms in simp_all)

lemma num_less_asym: "num_less x y \<Longrightarrow> \<not> num_less y x"
  by (cases x; cases y) (auto simp: Let_def min.commute)

lemma part_larger:
  assumes "b < a" "same_part (Some (Fin b 0)) q \<or> part_difference (Some (Fin b 0)) q = Newer"
  shows "\<not> same_part (Some (Fin a 0)) q \<and> part_difference (Some (Fin a 0)) q = Newer"
proof (cases q)
  case (Some y)
  have "\<not> num_less (Fin b 0) y \<and> y \<noteq> NaN"
    using assms(2) Some num_less_asym [of y "Fin b 0"] by (auto split: if_splits)
  then show ?thesis using num_less_larger [OF assms(1)] Some by simp
qed (use assms in simp)

lemma newer_than_replacement:
  assumes "semver v" "semver w" "compareVersions w q = Newer" "compareVersions v w = Newer"
  shows "compareVersions v q = Newer"
proof -
  obtain x y z x' y' z' where digits: "digits x" "digits y" "digits z" "digits x'" "digits y'" "digits z'"
    and vw: "v = x @ ''.'' @ y @ ''.'' @ z" "w = x' @ ''.'' @ y' @ ''.'' @ z'"
    using assms(1,2) unfolding semver_def by blast
  define a b c a' b' c' where "a = digits_value x" "b = digits_value y" "c = digits_value z"
    "a' = digits_value x'" "b' = digits_value y'" "c' = digits_value z'"
  note abc = this
  define Q where "Q = version_part (map string_to_number (split_on (CHR ''.'') q))"
  have v: "compareVersions v q =
      (if same_part (Some (Fin a 0)) (Q 0)
       then if same_part (Some (Fin b 0)) (Q 1)
            then if same_part (Some (Fin c 0)) (Q 2) then SameVersion else part_difference (Some (Fin c 0)) (Q 2)
            else part_difference (Some (Fin b 0)) (Q 1)
       else part_difference (Some (Fin a 0)) (Q 0))"
    unfolding vw(1) compareVersions_def version_parts [OF digits(1-3)] abc Q_def
    by (simp only: compare_parts.simps) (simp add: version_part_def del: same_part.simps part_difference.simps)
  have w: "compareVersions w q =
      (if same_part (Some (Fin a' 0)) (Q 0)
       then if same_part (Some (Fin b' 0)) (Q 1)
            then if same_part (Some (Fin c' 0)) (Q 2) then SameVersion else part_difference (Some (Fin c' 0)) (Q 2)
            else part_difference (Some (Fin b' 0)) (Q 1)
       else part_difference (Some (Fin a' 0)) (Q 0))"
    unfolding vw(2) compareVersions_def version_parts [OF digits(4-6)] abc Q_def
    by (simp only: compare_parts.simps) (simp add: version_part_def del: same_part.simps part_difference.simps)
  have "compareVersions v w = (let v = (a, b, c); w = (a', b', c')
      in if w < v then Newer else if v < w then Older else SameVersion)"
    unfolding vw abc by (rule versions_numerically) (use digits in simp)
  then have "a' < a \<or> a' = a \<and> b' < b \<or> a' = a \<and> b' = b \<and> c' < c"
    using assms(4) by (auto simp: Let_def split: if_splits)
  then show ?thesis
  proof (elim disjE conjE)
    assume "a' < a"
    moreover have "same_part (Some (Fin a' 0)) (Q 0) \<or> part_difference (Some (Fin a' 0)) (Q 0) = Newer"
      using assms(3) w by metis
    ultimately show ?thesis unfolding v using part_larger by metis
  next
    assume "a' = a" "b' < b"
    moreover from this have "same_part (Some (Fin a 0)) (Q 0) \<Longrightarrow>
        same_part (Some (Fin b' 0)) (Q 1) \<or> part_difference (Some (Fin b' 0)) (Q 1) = Newer"
      using assms(3) w by metis
    ultimately show ?thesis unfolding v using part_larger assms(3) w by metis
  next
    assume "a' = a" "b' = b" "c' < c"
    moreover from this have "same_part (Some (Fin a 0)) (Q 0) \<Longrightarrow> same_part (Some (Fin b 0)) (Q 1) \<Longrightarrow>
        same_part (Some (Fin c' 0)) (Q 2) \<or> part_difference (Some (Fin c' 0)) (Q 2) = Newer"
      using assms(3) w by metis
    ultimately show ?thesis unfolding v using part_larger assms(3) w by metis
  qed
qed

lemma semver_same: "semver v \<Longrightarrow> compareVersions v v = SameVersion"
  unfolding semver_def by (elim exE conjE, hypsubst, subst versions_numerically) (simp_all add: Let_def)


section \<open>One file\<close>

lemma stored_pack_SomeD: "stored_pack db code = Some p \<Longrightarrow> p \<in> set (pd_packs db) \<and> cp_code p = code"
  by (auto simp: stored_pack_def dest: find_one_SomeD)

lemma stored_pack_None_iff: "stored_pack db code = None \<longleftrightarrow> code \<notin> cp_code ` set (pd_packs db)"
  by (auto simp: stored_pack_def find_one_None_iff)

lemma stored_pack_iff:
  assumes "pack_inv db"
  shows "stored_pack db code = Some p \<longleftrightarrow> p \<in> set (pd_packs db) \<and> cp_code p = code"
proof
  assume p: "p \<in> set (pd_packs db) \<and> cp_code p = code"
  then have "code \<in> cp_code ` set (pd_packs db)" by blast
  then obtain q where q: "stored_pack db code = Some q" using stored_pack_None_iff [of db code] by auto
  then have "q \<in> set (pd_packs db)" "cp_code q = cp_code p" using stored_pack_SomeD p by auto
  then have "q = p" using assms p by (auto simp: pack_inv_def inj_on_def)
  then show "stored_pack db code = Some p" using q by simp
qed (rule stored_pack_SomeD)

abbreviation code_of :: "js_obj \<Rightarrow> str" where
  "code_of def \<equiv> nullish (text_of ''code'' def) []"

abbreviation version_of :: "js_obj \<Rightarrow> str" where
  "version_of def \<equiv> nullish (text_of ''version'' def) []"

lemma pack_data_sel [simp]:
  "cp_id (pack_data def row) = cp_id row" "cp_code (pack_data def row) = code_of def"
  "cp_version (pack_data def row) = version_of def" "cp_schema (pack_data def row) = schema_of def"
  by (simp_all add: pack_data_def)

text \<open>What a file does to the table under a bypass: nothing, or one row.\<close>

lemma load_file_cases:
  assumes "load_file schema ctx newId now all file (rep, db) = (rep', db')" "isBypassed ctx"
  obtains (failed) "db' = db" "\<forall>raw. read_pack file = Inr raw \<longrightarrow>
        (\<forall>def. checked_pack schema (fst file) (fst (resolve_pack all raw)) \<noteq> Inr def)"
      "lr_inserted rep' = lr_inserted rep" "lr_upgraded rep' = lr_upgraded rep"
  | (current) raw def p where "read_pack file = Inr raw"
      "checked_pack schema (fst file) (fst (resolve_pack all raw)) = Inr def"
      "stored_pack db (code_of def) = Some p" "compareVersions (version_of def) (cp_version p) \<noteq> Newer" "db' = db"
      "lr_inserted rep' = lr_inserted rep" "lr_upgraded rep' = lr_upgraded rep"
  | (written) raw def row where "read_pack file = Inr raw"
      "checked_pack schema (fst file) (fst (resolve_pack all raw)) = Inr def"
      "(stored_pack db (code_of def) = None \<and> row = new_pack newId now)
       \<or> (stored_pack db (code_of def) = Some row \<and> compareVersions (version_of def) (cp_version row) = Newer)"
      "db' = db\<lparr>pd_packs := save_row cp_id (pack_data def row) (pd_packs db)\<rparr>"
proof (cases "read_pack file")
  case (Inl e)
  then show thesis using assms(1) by (intro failed) (auto simp: load_file_def Let_def)
next
  case read: (Inr raw)
  obtain resolved errs where res: "resolve_pack all raw = (resolved, errs)" by fastforce
  show thesis
  proof (cases "checked_pack schema (fst file) resolved")
    case (Inl e)
    then show thesis using assms(1) read res by (intro failed) (auto simp: load_file_def Let_def)
  next
    case checked: (Inr def)
    have run: "(rep', db') = (case upsertPack ctx newId now def db of
        (None, db') \<Rightarrow> (rep\<lparr>lr_errors := lr_errors rep @ errs @ [WriteRefused (fst file)]\<rparr>, db)
      | (Some out, db') \<Rightarrow> (read_back def out db' (count_outcome out (rep\<lparr>lr_errors := lr_errors rep @ errs\<rparr>)), db'))"
      using assms(1) read res checked by (simp add: load_file_def Let_def split: prod.splits option.splits)
    have keeps: "lr_inserted (read_back d out x r) = lr_inserted r" "lr_upgraded (read_back d out x r) = lr_upgraded r"
      for d out x r by (simp_all add: read_back_def Let_def)
    show thesis
    proof (cases "stored_pack db (code_of def)")
      case None
      then have "db' = db\<lparr>pd_packs := save_row cp_id (pack_data def (new_pack newId now)) (pd_packs db)\<rparr>"
        using run assms(2) by (simp add: upsertPack_def)
      with None show thesis using read res checked by (intro written) auto
    next
      case (Some p)
      show thesis
      proof (cases "compareVersions (version_of def) (cp_version p) = Newer")
        case True
        then have "db' = db\<lparr>pd_packs := save_row cp_id (pack_data def p) (pd_packs db)\<rparr>"
          using run assms(2) Some by (simp add: upsertPack_def)
        with Some True show thesis using read res checked by (intro written) auto
      next
        case False
        then have "db' = db" "lr_inserted rep' = lr_inserted rep" "lr_upgraded rep' = lr_upgraded rep"
          using run Some by (simp_all add: upsertPack_def keeps count_outcome_def)
        with Some False show thesis using read res checked by (intro current) auto
      qed
    qed
  qed
qed

text \<open>What every step keeps: consistent tables, and the ids still to be drawn new.\<close>

definition load_inv :: "(nat \<Rightarrow> str) \<Rightarrow> nat \<Rightarrow> pack_db \<Rightarrow> bool" where
  "load_inv ids n db \<longleftrightarrow> pack_inv db \<and> (\<forall>m \<ge> n. ids m \<notin> cp_id ` set (pd_packs db))"

lemma load_inv_step:
  assumes "load_inv ids n db" "inj ids" "isBypassed ctx"
    "load_file schema ctx (ids n) now all file (rep, db) = (rep', db')"
  shows "load_inv ids (Suc n) db'"
  using assms(4,3)
proof (cases rule: load_file_cases)
  case (written raw def row)
  have inv: "pack_inv db" using assms(1) by (simp add: load_inv_def)
  have "\<forall>q \<in> set (pd_packs db). cp_id q \<noteq> cp_id row \<longrightarrow> cp_code q \<noteq> code_of def"
    using written(3)
  proof (elim disjE conjE)
    assume "stored_pack db (code_of def) = None"
    then show ?thesis unfolding stored_pack_None_iff by (metis imageI)
  next
    assume "stored_pack db (code_of def) = Some row"
    then have "row \<in> set (pd_packs db)" "cp_code row = code_of def" using stored_pack_SomeD by blast+
    then show ?thesis using inv unfolding pack_inv_def by (metis inj_onD)
  qed
  then have "pack_inv db'"
    unfolding written(4) by (intro pack_inv_save [OF inv]) simp
  moreover have "cp_id row \<in> insert (ids n) (cp_id ` set (pd_packs db))"
    using written(3) stored_pack_SomeD [of db "code_of def" row] by (auto simp: new_pack_def)
  then have "cp_id ` set (pd_packs db') \<subseteq> insert (ids n) (cp_id ` set (pd_packs db))"
    unfolding written(4) by (simp add: keys_save) blast
  moreover have "ids m \<notin> insert (ids n) (cp_id ` set (pd_packs db))" if "Suc n \<le> m" for m
    using assms(1,2) that by (auto simp: load_inv_def dest: injD)
  ultimately show ?thesis unfolding load_inv_def by blast
qed (use assms(1) in \<open>auto simp: load_inv_def\<close>)

section \<open>A reload\<close>

text \<open>The loop over the files, from any position, and a property every step adds to.\<close>

abbreviation load_loop where
  "load_loop schema ids now all ctx \<equiv> fold (\<lambda>(n, file). load_file schema ctx (ids n) now all file)"

lemma load_loop_induct:
  assumes "load_loop schema ids now all ctx (zip [n..<n + length files] files) (rep, db) = (rep', db')"
    "load_inv ids n db" "inj ids" "isBypassed ctx"
    "\<And>db. P db db"
    "\<And>k file rep1 db1 rep2 db2. file \<in> set files \<Longrightarrow> load_inv ids k db1 \<Longrightarrow> P db db1 \<Longrightarrow>
       load_file schema ctx (ids k) now all file (rep1, db1) = (rep2, db2) \<Longrightarrow> P db db2"
  shows "P db db' \<and> load_inv ids (n + length files) db'"
proof -
  have "P db db' \<and> load_inv ids (k + length fs) db'"
    if "load_loop schema ids now all ctx (zip [k..<k + length fs] fs) (rep1, db1) = (rep', db')"
      "load_inv ids k db1" "P db db1" "set fs \<subseteq> set files" for k fs rep1 db1
    using that
  proof (induction fs arbitrary: k rep1 db1)
    case (Cons x fs)
    obtain rep2 db2 where step: "load_file schema ctx (ids k) now all x (rep1, db1) = (rep2, db2)" by fastforce
    have "zip [k..<k + length (x # fs)] (x # fs) = (k, x) # zip [Suc k..<Suc k + length fs] fs"
      by (simp add: upt_conv_Cons del: upt_Suc)
    then have rest: "load_loop schema ids now all ctx (zip [Suc k..<Suc k + length fs] fs) (rep2, db2) = (rep', db')"
      using Cons.prems(1) step by simp
    have "load_inv ids (Suc k) db2" by (rule load_inv_step [OF Cons.prems(2) assms(3,4) step])
    moreover have "P db db2" by (rule assms(6) [OF _ Cons.prems(2,3) step]) (use Cons.prems(4) in simp)
    ultimately show ?case using Cons.IH [OF rest] Cons.prems(4) by simp
  qed simp
  from this [OF assms(1,2) assms(5)] show ?thesis by simp
qed


text \<open>A reload is the loop, under a bypass.\<close>

lemma reload_loop:
  assumes "reload schema ids now files ctx db = (rep, db')"
  obtains ctx' rep0 where "isBypassed ctx'"
    "load_loop schema ids now (snd (read_all files)) ctx' (zip [0..<0 + length files] files) (rep0, db) = (rep, db')"
    "lr_inserted rep0 = 0" "lr_upgraded rep0 = 0"
proof -
  obtain errs all where all: "read_all files = (errs, all)" by fastforce
  define ctx' where "ctx' = Some ((spread_store ctx)\<lparr>ts_bypass := Some \<lparr>bp_kind = SystemBypass,
      bp_reason = ''load config packs from disk'', bp_actorId = None\<rparr>\<rparr>)"
  have "isBypassed ctx'" by (simp add: ctx'_def isBypassed_def getBypass_def)
  moreover have "loadAll schema ids now files ctx' db = (rep, db')"
    using assms by (simp add: reload_def runAsSystem_def ctx'_def)
  ultimately show thesis
    using all
    by (intro that [of ctx' "\<lparr>lr_filesFound = length files, lr_inserted = 0, lr_upgraded = 0,
          lr_upToDate = 0, lr_packs = [], lr_errors = errs\<rparr>"]) (simp_all add: loadAll_def)
qed

lemma reload_induct:
  assumes "reload schema ids now files ctx db = (rep', db')" "load_inv ids 0 db" "inj ids" "\<And>db. P db db"
    "\<And>ctx' k file rep1 db1 rep2 db2. file \<in> set files \<Longrightarrow> isBypassed ctx' \<Longrightarrow> load_inv ids k db1 \<Longrightarrow> P db db1 \<Longrightarrow>
       load_file schema ctx' (ids k) now (snd (read_all files)) file (rep1, db1) = (rep2, db2) \<Longrightarrow> P db db2"
  shows "P db db'"
proof -
  obtain ctx' rep0 where bypass: "isBypassed ctx'"
    and loop: "load_loop schema ids now (snd (read_all files)) ctx' (zip [0..<0 + length files] files) (rep0, db) = (rep', db')"
    using assms(1) by (rule reload_loop)
  from load_loop_induct [where P = P, OF loop assms(2,3) bypass assms(4)] assms(5) bypass show ?thesis by blast
qed

text \<open>Every pack the schema accepts has a version of three numbers.\<close>

definition versioned :: "(js \<Rightarrow> str + js_obj) \<Rightarrow> bool" where
  "versioned schema \<longleftrightarrow> (\<forall>v def. schema v = Inr def \<longrightarrow> semver (version_of def))"

lemma checked_pack_InrE:
  assumes "checked_pack schema path v = Inr def"
  obtains "schema v = Inr def" "danglingStepReferences def = []" "unnamedSubjectMappings def = []"
  using assms by (auto simp: checked_pack_def split: sum.splits if_splits)

lemma checked_pack_semver: "checked_pack schema path v = Inr def \<Longrightarrow> versioned schema \<Longrightarrow> semver (version_of def)"
  by (erule checked_pack_InrE) (simp add: versioned_def)

text \<open>A row after the reload over the same row before it.\<close>

definition raised :: "config_pack \<Rightarrow> config_pack \<Rightarrow> bool" where
  "raised p p' \<longleftrightarrow> cp_id p' = cp_id p \<and> cp_code p' = cp_code p
     \<and> (p' = p \<or> semver (cp_version p') \<and> compareVersions (cp_version p') (cp_version p) = Newer)"

lemma raised_step:
  assumes "raised p q" "semver (version_of def)" "code_of def = cp_code q" "compareVersions (version_of def) (cp_version q) = Newer"
  shows "raised p (pack_data def q)"
  using assms newer_than_replacement [of "version_of def" "cp_version q" "cp_version p"] by (auto simp: raised_def)

lemma written_row:
  assumes "load_inv ids k db" "stored_pack db code = None \<and> row = new_pack (ids k) now
      \<or> stored_pack db code = Some row \<and> newer" "q \<in> set (pd_packs db)" "cp_id q = cp_id row"
  shows "q = row \<and> stored_pack db code = Some row \<and> newer"
proof -
  have "cp_id (new_pack (ids k) now) \<notin> cp_id ` set (pd_packs db)" using assms(1) by (simp add: load_inv_def new_pack_def)
  then have row: "stored_pack db code = Some row" newer using assms(2-4) by (metis imageI)+
  have "keys_distinct cp_id (pd_packs db)" using assms(1) by (simp add: load_inv_def pack_inv_def)
  then have "q = row" using stored_pack_SomeD [OF row(1)] assms(3,4) by (auto simp: distinct_map inj_on_def)
  with row show ?thesis by simp
qed

text \<open>
  Claim C8: no pack is lost in a reload and none is downgraded: every row is still there under its
  id and code, either as it was or with a higher version.
\<close>

theorem loader_never_downgrades:
  assumes "reload schema ids now files ctx db = (rep, db')" "load_inv ids 0 db" "inj ids" "versioned schema"
    "p \<in> set (pd_packs db)"
  shows "\<exists>p' \<in> set (pd_packs db'). raised p p'"
proof -
  define P :: "pack_db \<Rightarrow> pack_db \<Rightarrow> bool"
    where "P = (\<lambda>d d'. \<forall>p \<in> set (pd_packs d). \<exists>p' \<in> set (pd_packs d'). raised p p')"
  have "P db db'"
  proof (rule reload_induct [where P = P, OF assms(1-3)])
    show "P d d" for d by (auto simp: P_def raised_def)
    fix ctx' k path rep1 db1 rep2 db2
    assume bypass: "isBypassed ctx'" and inv: "load_inv ids k db1" and P: "P db db1"
      and step: "load_file schema ctx' (ids k) now (snd (read_all files)) path (rep1, db1) = (rep2, db2)"
    have distinct: "keys_distinct cp_id (pd_packs db1)" using inv by (simp add: load_inv_def pack_inv_def)
    from step bypass show "P db db2"
    proof (cases rule: load_file_cases)
      case (written raw def row)
      have "\<exists>q' \<in> set (pd_packs db2). raised p q'" if q: "q \<in> set (pd_packs db1)" "raised p q" for p q
      proof (cases "cp_id q = cp_id row")
        case True
        note row = written_row [OF inv written(3) q(1) True]
        then have "raised p (pack_data def row)"
          using q(2) stored_pack_SomeD [of db1 "code_of def" row] checked_pack_semver [OF written(2) assms(4)]
          by (auto intro: raised_step)
        then show ?thesis unfolding written(4) by (auto simp: set_save_row [OF distinct])
      next
        case False
        then show ?thesis using q unfolding written(4) by (auto simp: set_save_row [OF distinct])
      qed
      then show ?thesis using P unfolding P_def by blast
    qed (use P in simp_all)
  qed
  with assms(5) show ?thesis by (simp add: P_def)
qed

text \<open>
  Claim C18: whatever row a reload adds or changes is the data of a file that parsed, that the
  schema accepted after its bases were merged in, and whose fees, stages and import mappings refer to what
  the pack defines.
\<close>

theorem only_checked_packs_are_stored:
  assumes "reload schema ids now files ctx db = (rep, db')" "load_inv ids 0 db" "inj ids"
    "p \<in> set (pd_packs db')" "p \<notin> set (pd_packs db)"
  shows "\<exists>file \<in> set files. \<exists>raw def row. read_pack file = Inr raw
    \<and> schema (fst (resolve_pack (snd (read_all files)) raw)) = Inr def
    \<and> danglingStepReferences def = [] \<and> unnamedSubjectMappings def = [] \<and> p = pack_data def row"
proof -
  define S :: "config_pack \<Rightarrow> bool" where "S = (\<lambda>p. \<exists>file \<in> set files. \<exists>raw def row. read_pack file = Inr raw
    \<and> schema (fst (resolve_pack (snd (read_all files)) raw)) = Inr def
    \<and> danglingStepReferences def = [] \<and> unnamedSubjectMappings def = [] \<and> p = pack_data def row)"
  define P :: "pack_db \<Rightarrow> pack_db \<Rightarrow> bool" where "P = (\<lambda>d d'. \<forall>p \<in> set (pd_packs d'). p \<in> set (pd_packs d) \<or> S p)"
  have "P db db'"
  proof (rule reload_induct [where P = P, OF assms(1-3)])
    show "P d d" for d by (simp add: P_def)
    fix ctx' k path rep1 db1 rep2 db2
    assume mem: "path \<in> set files" and bypass: "isBypassed ctx'" and inv: "load_inv ids k db1" and P: "P db db1"
      and step: "load_file schema ctx' (ids k) now (snd (read_all files)) path (rep1, db1) = (rep2, db2)"
    have distinct: "keys_distinct cp_id (pd_packs db1)" using inv by (simp add: load_inv_def pack_inv_def)
    from step bypass show "P db db2"
    proof (cases rule: load_file_cases)
      case (written raw def row)
      then have "schema (fst (resolve_pack (snd (read_all files)) raw)) = Inr def"
        "danglingStepReferences def = []" "unnamedSubjectMappings def = []"
        by (blast elim: checked_pack_InrE)+
      then have "S (pack_data def row)" using mem written(1) unfolding S_def by blast
      moreover have "set (pd_packs db2) \<subseteq> insert (pack_data def row) (set (pd_packs db1))"
        unfolding written(4) by (auto simp: set_save_row [OF distinct])
      ultimately show ?thesis using P unfolding P_def by blast
    qed (use P in simp_all)
  qed
  with assms(4,5) show ?thesis unfolding P_def S_def by blast
qed


section \<open>A second reload\<close>

text \<open>What a file has to store is stored, in its version or a higher one.\<close>

definition file_settled :: "(js \<Rightarrow> str + js_obj) \<Rightarrow> pack_files \<Rightarrow> pack_db \<Rightarrow> str \<times> str option \<Rightarrow> bool" where
  "file_settled schema all db file \<longleftrightarrow>
     (\<forall>raw def. read_pack file = Inr raw \<longrightarrow> checked_pack schema (fst file) (fst (resolve_pack all raw)) = Inr def \<longrightarrow>
        (\<exists>e. stored_pack db (code_of def) = Some e \<and> compareVersions (version_of def) (cp_version e) \<noteq> Newer))"

lemma settled_kept:
  assumes "load_inv ids k db" "load_inv ids (Suc k) db'" "versioned schema" "semver (version_of def)"
    "stored_pack db (code_of def) = None \<and> row = new_pack (ids k) now
     \<or> stored_pack db (code_of def) = Some row \<and> compareVersions (version_of def) (cp_version row) = Newer"
    "db' = db\<lparr>pd_packs := save_row cp_id (pack_data def row) (pd_packs db)\<rparr>" "file_settled schema all db g"
  shows "file_settled schema all db' g"
  unfolding file_settled_def
proof (intro allI impI)
  fix raw def'
  assume def': "read_pack g = Inr raw" "checked_pack schema (fst g) (fst (resolve_pack all raw)) = Inr def'"
  then obtain e where e: "stored_pack db (code_of def') = Some e" "compareVersions (version_of def') (cp_version e) \<noteq> Newer"
    using assms(7) by (auto simp: file_settled_def)
  have distinct: "keys_distinct cp_id (pd_packs db)" using assms(1) by (simp add: load_inv_def pack_inv_def)
  have inv: "pack_inv db'" using assms(2) by (simp add: load_inv_def)
  have e_in: "e \<in> set (pd_packs db)" "cp_code e = code_of def'" using stored_pack_SomeD [OF e(1)] by simp_all
  show "\<exists>e. stored_pack db' (code_of def') = Some e \<and> compareVersions (version_of def') (cp_version e) \<noteq> Newer"
  proof (cases "cp_id e = cp_id row")
    case True
    note row = written_row [OF assms(1,5) e_in(1) True]
    then have code: "code_of def = code_of def'" using e_in stored_pack_SomeD [of db "code_of def" row] by simp
    have "stored_pack db' (code_of def') = Some (pack_data def row)"
      by (simp add: stored_pack_iff [OF inv] code) (simp add: assms(6) set_save_row [OF distinct])
    moreover have "compareVersions (version_of def') (version_of def) \<noteq> Newer"
      using newer_than_replacement [OF checked_pack_semver [OF def'(2) assms(3)] assms(4), of "cp_version row"] row e(2)
      by auto
    ultimately show ?thesis by simp
  next
    case False
    then have "stored_pack db' (code_of def') = Some e"
      using e_in by (simp add: stored_pack_iff [OF inv]) (simp add: assms(6) set_save_row [OF distinct])
    with e(2) show ?thesis by blast
  qed
qed

lemma settled_step:
  assumes "load_inv ids k db" "inj ids" "isBypassed ctx" "versioned schema"
    "load_file schema ctx (ids k) now all file (rep, db) = (rep', db')"
  shows "file_settled schema all db' file" "file_settled schema all db g \<Longrightarrow> file_settled schema all db' g"
proof -
  note inv' = load_inv_step [OF assms(1,2,3,5)]
  have "file_settled schema all db' file \<and> (file_settled schema all db g \<longrightarrow> file_settled schema all db' g)"
    using assms(5,3)
  proof (cases rule: load_file_cases)
    case failed
    then show ?thesis by (simp add: file_settled_def)
  next
    case (current raw def p)
    then show ?thesis by (auto simp: file_settled_def)
  next
    case (written raw def row)
    have semver: "semver (version_of def)" by (rule checked_pack_semver [OF written(2) assms(4)])
    have distinct: "keys_distinct cp_id (pd_packs db)" using assms(1) by (simp add: load_inv_def pack_inv_def)
    have "stored_pack db' (code_of def) = Some (pack_data def row)"
      using inv' by (subst stored_pack_iff) (simp_all add: load_inv_def written(4) set_save_row [OF distinct])
    then have "file_settled schema all db' file" using written(1,2) by (simp add: file_settled_def semver_same [OF semver])
    with settled_kept [OF assms(1) inv' assms(4) semver written(3,4)] show ?thesis by blast
  qed
  then show "file_settled schema all db' file" "file_settled schema all db g \<Longrightarrow> file_settled schema all db' g" by blast+
qed

lemma loop_settles:
  assumes "load_loop schema ids now all ctx (zip [n..<n + length fs] fs) (rep, db) = (rep', db')"
    "load_inv ids n db" "inj ids" "isBypassed ctx" "versioned schema"
  shows "(\<forall>file \<in> set fs. file_settled schema all db' file) \<and> (\<forall>g. file_settled schema all db g \<longrightarrow> file_settled schema all db' g)"
  using assms(1,2)
proof (induction fs arbitrary: n rep db)
  case (Cons x fs)
  obtain rep2 db2 where step: "load_file schema ctx (ids n) now all x (rep, db) = (rep2, db2)" by fastforce
  have "zip [n..<n + length (x # fs)] (x # fs) = (n, x) # zip [Suc n..<Suc n + length fs] fs"
    by (simp add: upt_conv_Cons del: upt_Suc)
  then have rest: "load_loop schema ids now all ctx (zip [Suc n..<Suc n + length fs] fs) (rep2, db2) = (rep', db')"
    using Cons.prems(1) step by simp
  note settled = settled_step [OF Cons.prems(2) assms(3-5) step]
  note IH = Cons.IH [OF rest load_inv_step [OF Cons.prems(2) assms(3,4) step]]
  from IH have "file_settled schema all db' x" "\<forall>g. file_settled schema all db g \<longrightarrow> file_settled schema all db' g"
    using settled by blast+
  with IH show ?case by (simp del: split_paired_All)
qed simp

lemma settled_loop:
  assumes "load_loop schema ids now all ctx (zip ns fs) (rep, db) = (rep', db')"
    "\<forall>file \<in> set fs. file_settled schema all db file" "isBypassed ctx"
  shows "db' = db \<and> lr_inserted rep' = lr_inserted rep \<and> lr_upgraded rep' = lr_upgraded rep"
  using assms(1,2)
proof (induction fs arbitrary: ns rep)
  case (Cons x fs)
  show ?case
  proof (cases ns)
    case (Cons n ns')
    obtain rep2 db2 where step: "load_file schema ctx (ids n) now all x (rep, db) = (rep2, db2)" by fastforce
    have "db2 = db \<and> lr_inserted rep2 = lr_inserted rep \<and> lr_upgraded rep2 = lr_upgraded rep"
      using step assms(3)
    proof (cases rule: load_file_cases)
      case (written raw def row)
      then show ?thesis using Cons.prems(2) by (auto simp: file_settled_def)
    qed simp_all
    then show ?thesis using Cons.IH [of ns' rep2] Cons.prems step \<open>ns = n # ns'\<close> by simp
  qed (use Cons.prems in simp)
qed simp

text \<open>
  Claim C13: a second reload of the same files changes nothing and says so: no row is inserted or
  upgraded, whatever the first one did.
\<close>

theorem reload_is_idempotent:
  assumes "reload schema ids now files ctx db = (rep, db')" "load_inv ids 0 db" "inj ids" "versioned schema"
  shows "\<exists>rep'. reload schema ids' now' files ctx' db' = (rep', db') \<and> lr_inserted rep' = 0 \<and> lr_upgraded rep' = 0"
proof -
  obtain c1 r1 where first: "isBypassed c1"
    "load_loop schema ids now (snd (read_all files)) c1 (zip [0..<0 + length files] files) (r1, db) = (rep, db')"
    using assms(1) by (rule reload_loop)
  have settled: "\<forall>file \<in> set files. file_settled schema (snd (read_all files)) db' file"
    using loop_settles [OF first(2) assms(2,3) first(1) assms(4)] by blast
  obtain rep' db'' where second: "reload schema ids' now' files ctx' db' = (rep', db'')" by fastforce
  then obtain c2 r2 where loop: "isBypassed c2"
    "load_loop schema ids' now' (snd (read_all files)) c2 (zip [0..<0 + length files] files) (r2, db') = (rep', db'')"
    "lr_inserted r2 = 0" "lr_upgraded r2 = 0" by (rule reload_loop)
  from settled_loop [OF loop(2) settled loop(1)] second loop(3,4) show ?thesis by simp
qed

section \<open>A reload of two files\<close>

definition demo_schema :: "js \<Rightarrow> str + js_obj" where
  "demo_schema v = (case v of
     JObj p \<Rightarrow> if text_of ''version'' p = Some ''2.0.0'' then Inr p else Inl ''version'' | _ \<Rightarrow> Inl ''object'')"

definition load_files :: "(str \<times> str option) list" where
  "load_files = [(''grc.json'', Some ''{\"code\":\"grc\",\"name\":\"GRC\",\"version\":\"2.0.0\",\"vertical\":\"grc\"}''),
     (''broken.json'', None)]"

definition load_ids :: "nat \<Rightarrow> str" where
  "load_ids n = CHR ''x'' # replicate n CHR ''9''"

definition demo_reload :: "load_report \<times> pack_db" where
  "demo_reload = reload demo_schema load_ids 0 load_files None demo_packs"

lemma load_ids: "inj load_ids"
  by (rule injI) (simp add: load_ids_def replicate_eq_replicate)

lemma demo_load_inv: "load_inv load_ids 0 demo_packs"
  by (simp add: load_inv_def pack_inv_def load_ids_def demo_packs_def demo_base_def demo_overlay_def)

lemma demo_versioned: "versioned demo_schema"
proof -
  have "semver ''2.0.0''"
    unfolding semver_def by (rule exI [of _ "''2''"], rule exI [of _ "''0''"], rule exI [of _ "''0''"]) (simp add: digits_def is_digit_def)
  then show ?thesis by (auto simp: versioned_def demo_schema_def nullish_def split: js.splits if_splits)
qed

definition demo_bypass :: als where
  "demo_bypass = Some ((spread_store None)\<lparr>ts_bypass := Some \<lparr>bp_kind = SystemBypass,
      bp_reason = ''load config packs from disk'', bp_actorId = None\<rparr>\<rparr>)"

lemma demo_reload_loop: "demo_reload = loadAll demo_schema load_ids 0 load_files demo_bypass demo_packs"
  by (simp add: demo_reload_def reload_def runAsSystem_def demo_bypass_def)

lemma demo_stored: "map cp_version (pd_packs (snd demo_reload)) = [''1.10.0'', ''2.0.0'']"
  unfolding demo_reload_loop by code_simp

lemma demo_errors:
  "lr_errors (fst demo_reload) = [Unreadable ''broken.json'', Unreadable ''broken.json'']"
  unfolding demo_reload_loop by code_simp

lemma loader_never_downgrades_witness:
  "\<exists>p' \<in> set (pd_packs (snd demo_reload)). raised demo_base p'"
  by (rule loader_never_downgrades [OF _ demo_load_inv load_ids demo_versioned, of 0 load_files None "fst demo_reload"])
     (simp_all add: demo_packs_def demo_reload_def)

lemma reload_is_idempotent_witness:
  "\<exists>rep'. reload demo_schema load_ids 7 load_files None (snd demo_reload) = (rep', snd demo_reload)
     \<and> lr_inserted rep' = 0 \<and> lr_upgraded rep' = 0"
  by (rule reload_is_idempotent [OF _ demo_load_inv load_ids demo_versioned, of 0 _ None "fst demo_reload"])
     (simp add: demo_reload_def)

lemma only_checked_packs_are_stored_witness:
  "\<exists>p. cp_version p = ''2.0.0'' \<and> (\<exists>file \<in> set load_files. \<exists>raw def row. read_pack file = Inr raw
    \<and> demo_schema (fst (resolve_pack (snd (read_all load_files)) raw)) = Inr def
    \<and> danglingStepReferences def = [] \<and> unnamedSubjectMappings def = [] \<and> p = pack_data def row)"
proof -
  have "''2.0.0'' \<in> cp_version ` set (pd_packs (snd demo_reload))"
    by (simp flip: set_map add: demo_stored)
  then obtain p where p: "p \<in> set (pd_packs (snd demo_reload))" "cp_version p = ''2.0.0''" by (elim imageE) (rule that [OF _ sym])
  have "cp_version q \<noteq> ''2.0.0''" if "q \<in> set (pd_packs demo_packs)" for q
  proof -
    have "q = demo_overlay \<or> q = demo_base" using that by (simp add: demo_packs_def)
    then show ?thesis by (elim disjE) (simp_all add: demo_base_def demo_overlay_def)
  qed
  with p(2) have new: "p \<notin> set (pd_packs demo_packs)" by blast
  have run: "reload demo_schema load_ids 0 load_files None demo_packs = (fst demo_reload, snd demo_reload)"
    by (simp add: demo_reload_def)
  show ?thesis
    by (rule exI [of _ p], rule conjI [OF p(2)], rule only_checked_packs_are_stored [OF run demo_load_inv load_ids p(1) new])
qed

end
