(* ===== verification/Tasks.thy ===== *)
theory Tasks
  imports Access JsValue "HOL-Library.Product_Lexorder"
begin

text \<open>
  \<^verbatim>\<open>src/tasks/task.service.ts\<close> over \<^verbatim>\<open>src/tasks/entities\<close>: tasks and their status, the lists and
  the inbox, comments, the calendar, and the recurring jobs that make tasks out of a template.

  What concerns documents, search and the model provider is not here. A task is stored with the
  defaults of its columns; a value that is none of a Postgres enum is refused by the database.
\<close>

section \<open>Tasks\<close>

datatype task_status = TaskTodo | TaskInProgress | TaskUnderReview | TaskDone | TaskCancelled | TaskBlocked

datatype task_priority = TaskLow | TaskMedium | TaskHigh | TaskUrgent

datatype task_type =
  TaskApproval | TaskReview | TaskAction | TaskNotification | TaskReminder | TaskWorkflow | TaskRecurring

definition task_statuses :: "task_status list" where
  "task_statuses = [TaskTodo, TaskInProgress, TaskUnderReview, TaskDone, TaskCancelled, TaskBlocked]"

definition task_priorities :: "(str \<times> task_priority) list" where
  "task_priorities = [(''low'', TaskLow), (''medium'', TaskMedium), (''high'', TaskHigh), (''urgent'', TaskUrgent)]"

definition task_types :: "(str \<times> task_type) list" where
  "task_types = [(''approval'', TaskApproval), (''review'', TaskReview), (''action'', TaskAction),
     (''notification'', TaskNotification), (''reminder'', TaskReminder), (''workflow'', TaskWorkflow),
     (''recurring'', TaskRecurring)]"

record task =
  ta_id :: str
  ta_tenantId :: str
  ta_title :: str
  ta_description :: "str option"
  ta_type :: task_type
  ta_status :: task_status
  ta_priority :: task_priority
  ta_assignedTo :: str
  ta_assignedBy :: "str option"
  ta_dueDate :: "instant option"
  ta_reminderDate :: "instant option"
  ta_entityId :: "str option"
  ta_entityType :: "str option"
  ta_workflowInstanceId :: "str option"
  ta_config :: js_obj
  ta_metadata :: js_obj
  ta_startedAt :: "instant option"
  ta_completedAt :: "instant option"
  ta_completedBy :: "str option"
  ta_createdAt :: instant

record task_comment =
  tc_id :: str
  tc_taskId :: str
  tc_userId :: str
  tc_content :: str
  tc_mentions :: "str list"
  tc_createdAt :: instant

datatype recurring_status = RecurActive | RecurPaused | RecurCompleted | RecurError

record task_template =
  tt_title :: str
  tt_description :: str
  tt_type :: str
  tt_priority :: str
  tt_assignedTo :: str
  tt_config :: js_obj

record recurring_config =
  rc_timezone :: "str option"
  rc_skipWeekends :: "bool option"
  rc_skipHolidays :: "bool option"
  rc_maxRuns :: "int option"
  rc_retryOnError :: "bool option"

text \<open>\<open>InvalidEnum\<close> is Postgres refusing the value of an enum column.\<close>

datatype task_error = TaskNotFound | RecurringNotFound | InvalidEnum str str

datatype recurring_run = RunSucceeded instant str | RunFailed instant task_error

record recurring_job =
  rj_id :: str
  rj_tenantId :: str
  rj_name :: str
  rj_description :: "str option"
  rj_schedule :: str
  rj_taskTemplate :: task_template
  rj_status :: recurring_status
  rj_lastRunAt :: "instant option"
  rj_nextRunAt :: "instant option"
  rj_runCount :: int
  rj_startDate :: "instant option"
  rj_endDate :: "instant option"
  rj_runHistory :: "recurring_run list"
  rj_config :: recurring_config
  rj_createdAt :: instant

record task_db =
  td_tasks :: "task list"
  td_comments :: "task_comment list"
  td_recurring :: "recurring_job list"

record create_task_dto =
  ct_title :: str
  ct_description :: "str option"
  ct_type :: "str option"
  ct_priority :: "str option"
  ct_assignedTo :: str
  ct_assignedBy :: str
  ct_dueDate :: "instant option"
  ct_reminderDate :: "instant option"
  ct_entityId :: "str option"
  ct_entityType :: "str option"
  ct_workflowInstanceId :: "str option"
  ct_config :: "js_obj option"
  ct_metadata :: "js_obj option"

interpretation task_repo:
  repository ta_id "\<lambda>t. by_key ta_id t" "save_row ta_id" "remove_row ta_id" "keys_distinct ta_id"
  by unfold_locales (auto simp: table_simps keys_distinct_save keys_distinct_remove dest: by_key_SomeD)

definition enum_value :: "str \<Rightarrow> (str \<times> 'a) list \<Rightarrow> 'a \<Rightarrow> str option \<Rightarrow> task_error + 'a" where
  "enum_value column values dflt v =
     (case v of None \<Rightarrow> Inr dflt
      | Some s \<Rightarrow> (case map_of values s of None \<Rightarrow> Inl (InvalidEnum column s) | Some x \<Rightarrow> Inr x))"

definition findTaskOrThrow :: "task_db \<Rightarrow> str \<Rightarrow> str \<Rightarrow> task_error + task" where
  "findTaskOrThrow db i tenantId =
     (case find_one (\<lambda>t. ta_id t = i \<and> ta_tenantId t = tenantId) (td_tasks db) of
        None \<Rightarrow> Inl TaskNotFound | Some t \<Rightarrow> Inr t)"

definition new_task :: "str \<Rightarrow> instant \<Rightarrow> str \<Rightarrow> create_task_dto \<Rightarrow> task_type \<Rightarrow> task_priority \<Rightarrow> task" where
  "new_task newId now tenantId dto ty prio =
     \<lparr>ta_id = newId, ta_tenantId = tenantId, ta_title = ct_title dto, ta_description = ct_description dto,
      ta_type = ty, ta_status = TaskTodo, ta_priority = prio, ta_assignedTo = ct_assignedTo dto,
      ta_assignedBy = Some (ct_assignedBy dto), ta_dueDate = ct_dueDate dto, ta_reminderDate = ct_reminderDate dto,
      ta_entityId = ct_entityId dto, ta_entityType = ct_entityType dto,
      ta_workflowInstanceId = ct_workflowInstanceId dto, ta_config = nullish (ct_config dto) [],
      ta_metadata = nullish (ct_metadata dto) [], ta_startedAt = None, ta_completedAt = None,
      ta_completedBy = None, ta_createdAt = now\<rparr>"

definition createTask ::
  "str \<Rightarrow> instant \<Rightarrow> str \<Rightarrow> create_task_dto \<Rightarrow> task_db \<Rightarrow> (task_error + task) \<times> task_db" where
  "createTask newId now tenantId dto db =
     (case and_then (enum_value ''type'' task_types TaskAction (ct_type dto)) (\<lambda>ty.
            and_then (enum_value ''priority'' task_priorities TaskMedium (ct_priority dto)) (\<lambda>prio.
              Inr (new_task newId now tenantId dto ty prio))) of
        Inl e \<Rightarrow> (Inl e, db)
      | Inr t \<Rightarrow>
          (let db' = db\<lparr>td_tasks := save_row ta_id t (td_tasks db)\<rparr>
           in (findTaskOrThrow db' (ta_id t) tenantId, db')))"

definition assertOwnedByOrTenant :: "als \<Rightarrow> task \<Rightarrow> actor \<Rightarrow> task_error + unit" where
  "assertOwnedByOrTenant ctx t a =
     (if \<not> hasTenantWideReach ctx a \<and> ta_assignedTo t \<noteq> ac_id a then Inl TaskNotFound else Inr ())"

definition getTask :: "als \<Rightarrow> task_db \<Rightarrow> str \<Rightarrow> str \<Rightarrow> actor \<Rightarrow> task_error + task" where
  "getTask ctx db i tenantId a =
     and_then (findTaskOrThrow db i tenantId) (\<lambda>t.
       and_then (assertOwnedByOrTenant ctx t a) (\<lambda>_. Inr t))"

section \<open>Lists\<close>

record task_options =
  to_status :: "task_status option"
  to_assignedTo :: "str option"
  to_priority :: "task_priority option"
  to_type :: "task_type option"
  to_entityId :: "str option"
  to_dueBefore :: "instant option"
  to_dueAfter :: "instant option"
  to_page :: "int option"
  to_limit :: "int option"

record task_page =
  tp_items :: "task list"
  tp_total :: nat
  tp_page :: int
  tp_limit :: int

text \<open>A condition on a nullable date is false on \<open>NULL\<close>.\<close>

definition due_in :: "instant option \<Rightarrow> instant option \<Rightarrow> instant option \<Rightarrow> bool" where
  "due_in before after due =
     (case (before, after) of
        (Some b, Some a) \<Rightarrow> (case due of None \<Rightarrow> False | Some d \<Rightarrow> a \<le> d \<and> d \<le> b)
      | (Some b, None) \<Rightarrow> (case due of None \<Rightarrow> False | Some d \<Rightarrow> d < b)
      | (None, Some a) \<Rightarrow> (case due of None \<Rightarrow> False | Some d \<Rightarrow> a \<le> d)
      | (None, None) \<Rightarrow> True)"

definition task_where :: "als \<Rightarrow> str \<Rightarrow> task_options \<Rightarrow> actor \<Rightarrow> task \<Rightarrow> bool" where
  "task_where ctx tenantId opts a t =
     (ta_tenantId t = tenantId
      \<and> (to_status opts \<noteq> None \<longrightarrow> to_status opts = Some (ta_status t))
      \<and> (if hasTenantWideReach ctx a
         then truthy_str (to_assignedTo opts) \<longrightarrow> to_assignedTo opts = Some (ta_assignedTo t)
         else ta_assignedTo t = ac_id a)
      \<and> (to_priority opts \<noteq> None \<longrightarrow> to_priority opts = Some (ta_priority t))
      \<and> (to_type opts \<noteq> None \<longrightarrow> to_type opts = Some (ta_type t))
      \<and> (truthy_str (to_entityId opts) \<longrightarrow> to_entityId opts = ta_entityId t)
      \<and> due_in (to_dueBefore opts) (to_dueAfter opts) (ta_dueDate t))"

definition page_limit :: "int option \<Rightarrow> int" where
  "page_limit l = min 200 (max 1 (or_default l 50))"

definition listTasks :: "als \<Rightarrow> task_db \<Rightarrow> str \<Rightarrow> task_options \<Rightarrow> actor \<Rightarrow> task_page" where
  "listTasks ctx db tenantId opts a =
     (let hits = sort_key (\<lambda>t. - ta_createdAt t) (find_where (task_where ctx tenantId opts a) (td_tasks db));
          page = max 1 (or_default (to_page opts) 1); limit = page_limit (to_limit opts)
      in \<lparr>tp_items = take (nat limit) (drop (nat ((page - 1) * limit)) hits), tp_total = length hits,
          tp_page = page, tp_limit = limit\<rparr>)"

section \<open>Commands\<close>

text \<open>\<open>Object.assign(task, updates)\<close>, the updates as a function of the row; the primary key is not one of them.\<close>

definition updateTask ::
  "str \<Rightarrow> str \<Rightarrow> (task \<Rightarrow> task) \<Rightarrow> task_db \<Rightarrow> (task_error + task) \<times> task_db" where
  "updateTask i tenantId updates db =
     (case findTaskOrThrow db i tenantId of
        Inl e \<Rightarrow> (Inl e, db)
      | Inr t \<Rightarrow>
          (let db' = db\<lparr>td_tasks := save_row ta_id ((updates t)\<lparr>ta_id := ta_id t\<rparr>) (td_tasks db)\<rparr>
           in (findTaskOrThrow db' i tenantId, db')))"

definition startTask ::
  "als \<Rightarrow> instant \<Rightarrow> str \<Rightarrow> str \<Rightarrow> actor \<Rightarrow> task_db \<Rightarrow> (task_error + task) \<times> task_db" where
  "startTask ctx now i tenantId a db =
     (case and_then (findTaskOrThrow db i tenantId) (\<lambda>t. assertOwnedByOrTenant ctx t a) of
        Inl e \<Rightarrow> (Inl e, db)
      | Inr _ \<Rightarrow>
          updateTask i tenantId (\<lambda>t. t\<lparr>ta_status := TaskInProgress, ta_startedAt := Some now\<rparr>) db)"

definition completeTask ::
  "als \<Rightarrow> instant \<Rightarrow> str \<Rightarrow> str \<Rightarrow> actor \<Rightarrow> task_db \<Rightarrow> (task_error + task) \<times> task_db" where
  "completeTask ctx now i tenantId a db =
     (case and_then (findTaskOrThrow db i tenantId) (\<lambda>t. assertOwnedByOrTenant ctx t a) of
        Inl e \<Rightarrow> (Inl e, db)
      | Inr _ \<Rightarrow>
          updateTask i tenantId
            (\<lambda>t. t\<lparr>ta_status := TaskDone, ta_completedAt := Some now, ta_completedBy := Some (ac_id a)\<rparr>) db)"

definition cancelTask :: "str \<Rightarrow> str \<Rightarrow> task_db \<Rightarrow> (task_error + task) \<times> task_db" where
  "cancelTask i tenantId db = updateTask i tenantId (\<lambda>t. t\<lparr>ta_status := TaskCancelled\<rparr>) db"

section \<open>The inbox\<close>

fun priority_rank :: "task_priority \<Rightarrow> int" where
  "priority_rank TaskLow = 0"
| "priority_rank TaskMedium = 1"
| "priority_rank TaskHigh = 2"
| "priority_rank TaskUrgent = 3"

text \<open>\<open>priority DESC, dueDate ASC\<close>; Postgres puts \<open>NULL\<close> last in ascending order.\<close>

definition inbox_order :: "task \<Rightarrow> int \<times> int \<times> instant" where
  "inbox_order t = (- priority_rank (ta_priority t),
     case ta_dueDate t of None \<Rightarrow> (1, 0) | Some d \<Rightarrow> (0, d))"

record work_options =
  wo_status :: "task_status list option"
  wo_includeCompleted :: bool
  wo_limit :: "int option"

definition work_where :: "str \<Rightarrow> str \<Rightarrow> work_options \<Rightarrow> task \<Rightarrow> bool" where
  "work_where tenantId userId opts t =
     (ta_tenantId t = tenantId \<and> ta_assignedTo t = userId
      \<and> (if nullish (wo_status opts) [] \<noteq> [] then ta_status t \<in> set (nullish (wo_status opts) [])
         else wo_includeCompleted opts
              \<or> ta_status t \<in> {TaskTodo, TaskInProgress, TaskUnderReview, TaskBlocked}))"

definition getTaskCounts :: "task_db \<Rightarrow> str \<Rightarrow> str \<Rightarrow> (task_status \<times> nat) list \<times> nat" where
  "getTaskCounts db tenantId userId =
     (let own = find_where (\<lambda>t. ta_tenantId t = tenantId \<and> ta_assignedTo t = userId) (td_tasks db);
          rows = map (\<lambda>s. (s, length (filter (\<lambda>t. ta_status t = s) own))) (remdups (map ta_status own))
      in (map (\<lambda>s. (s, case map_of rows s of None \<Rightarrow> 0 | Some n \<Rightarrow> n)) task_statuses,
          sum_list (map snd rows)))"

definition getMyWork ::
  "task_db \<Rightarrow> str \<Rightarrow> str \<Rightarrow> work_options \<Rightarrow> task list \<times> (task_status \<times> nat) list \<times> nat" where
  "getMyWork db tenantId userId opts =
     (take (nat (page_limit (wo_limit opts)))
        (sort_key inbox_order (find_where (work_where tenantId userId opts) (td_tasks db))),
      getTaskCounts db tenantId userId)"

section \<open>Comments\<close>

definition mention_char :: "char \<Rightarrow> bool" where
  "mention_char c \<longleftrightarrow>
     (let n = of_char c :: nat in 97 \<le> n \<and> n \<le> 122 \<or> 65 \<le> n \<and> n \<le> 90 \<or> 48 \<le> n \<and> n \<le> 57 \<or> n = 95 \<or> n = 45)"

text \<open>The matches of \<open>/@([a-zA-Z0-9_-]+)/g\<close> without their first character.\<close>

function extractMentions :: "str \<Rightarrow> str list" where
  "extractMentions [] = []"
| "extractMentions (c # cs) =
     (if c = CHR 0x40 \<and> takeWhile mention_char cs \<noteq> []
      then takeWhile mention_char cs # extractMentions (dropWhile mention_char cs)
      else extractMentions cs)"
  by pat_completeness auto
termination extractMentions
  by (relation "measure length") (auto simp: le_imp_less_Suc length_dropWhile_le)

definition addComment ::
  "als \<Rightarrow> str \<Rightarrow> instant \<Rightarrow> str \<Rightarrow> str \<Rightarrow> actor \<Rightarrow> str \<Rightarrow> task_db \<Rightarrow> (task_error + task_comment) \<times> task_db" where
  "addComment ctx newId now taskId tenantId a content db =
     (case and_then (findTaskOrThrow db taskId tenantId) (\<lambda>t. assertOwnedByOrTenant ctx t a) of
        Inl e \<Rightarrow> (Inl e, db)
      | Inr _ \<Rightarrow>
          (let c = \<lparr>tc_id = newId, tc_taskId = taskId, tc_userId = ac_id a, tc_content = content,
                    tc_mentions = extractMentions content, tc_createdAt = now\<rparr>
           in (Inr c, db\<lparr>td_comments := save_row tc_id c (td_comments db)\<rparr>)))"

section \<open>Recurring jobs\<close>

text \<open>\<open>setMonth(getMonth() + 1)\<close>: a day the next month does not have runs over into the one after.\<close>

definition next_month :: "instant \<Rightarrow> instant" where
  "next_month t =
     (let (y, m, d) = civil_of_days (t div ms_per_day);
          (y', m') = (if m = 12 then (y + 1, 1) else (y, m + 1))
      in (days_of_civil y' m' 1 + d - 1) * ms_per_day + t mod ms_per_day)"

definition calculateNextRun :: "str \<Rightarrow> instant option \<Rightarrow> instant \<Rightarrow> instant" where
  "calculateNextRun schedule startDate now =
     (let base = (case startDate of None \<Rightarrow> now | Some s \<Rightarrow> if s > now then s else now) in
      if schedule = ''daily'' then base + ms_per_day
      else if schedule = ''weekly'' then base + 7 * ms_per_day
      else if schedule = ''monthly'' then next_month base
      else base + ms_per_day)"

record recurring_dto =
  rd_name :: str
  rd_description :: "str option"
  rd_schedule :: str
  rd_taskTemplate :: task_template
  rd_startDate :: "instant option"
  rd_endDate :: "instant option"
  rd_config :: "recurring_config option"

definition no_config :: recurring_config where
  "no_config = \<lparr>rc_timezone = None, rc_skipWeekends = None, rc_skipHolidays = None, rc_maxRuns = None,
     rc_retryOnError = None\<rparr>"

definition createRecurringJob ::
  "str \<Rightarrow> instant \<Rightarrow> str \<Rightarrow> recurring_dto \<Rightarrow> task_db \<Rightarrow> recurring_job \<times> task_db" where
  "createRecurringJob newId now tenantId dto db =
     (let job = \<lparr>rj_id = newId, rj_tenantId = tenantId, rj_name = rd_name dto, rj_description = rd_description dto,
                 rj_schedule = rd_schedule dto, rj_taskTemplate = rd_taskTemplate dto, rj_status = RecurActive,
                 rj_lastRunAt = None,
                 rj_nextRunAt = Some (calculateNextRun (rd_schedule dto) (rd_startDate dto) now),
                 rj_runCount = 0, rj_startDate = rd_startDate dto, rj_endDate = rd_endDate dto,
                 rj_runHistory = [], rj_config = nullish (rd_config dto) no_config, rj_createdAt = now\<rparr>
      in (job, db\<lparr>td_recurring := save_row rj_id job (td_recurring db)\<rparr>))"

definition listRecurringJobs :: "task_db \<Rightarrow> str \<Rightarrow> recurring_status option \<Rightarrow> recurring_job list" where
  "listRecurringJobs db tenantId status =
     sort_key (\<lambda>j. - rj_createdAt j)
       (find_where (\<lambda>j. rj_tenantId j = tenantId \<and> (status \<noteq> None \<longrightarrow> status = Some (rj_status j))) (td_recurring db))"

definition find_recurring :: "task_db \<Rightarrow> str \<Rightarrow> str \<Rightarrow> recurring_job option" where
  "find_recurring db i tenantId = find_one (\<lambda>j. rj_id j = i \<and> rj_tenantId j = tenantId) (td_recurring db)"

definition save_recurring :: "recurring_job \<Rightarrow> task_db \<Rightarrow> task_db" where
  "save_recurring job db = db\<lparr>td_recurring := save_row rj_id job (td_recurring db)\<rparr>"

definition pauseRecurringJob :: "str \<Rightarrow> str \<Rightarrow> task_db \<Rightarrow> (task_error + recurring_job) \<times> task_db" where
  "pauseRecurringJob i tenantId db =
     (case find_recurring db i tenantId of
        None \<Rightarrow> (Inl RecurringNotFound, db)
      | Some j \<Rightarrow> (let j' = j\<lparr>rj_status := RecurPaused\<rparr> in (Inr j', save_recurring j' db)))"

definition resumeRecurringJob :: "instant \<Rightarrow> str \<Rightarrow> str \<Rightarrow> task_db \<Rightarrow> (task_error + recurring_job) \<times> task_db" where
  "resumeRecurringJob now i tenantId db =
     (case find_recurring db i tenantId of
        None \<Rightarrow> (Inl RecurringNotFound, db)
      | Some j \<Rightarrow>
          (let j' = j\<lparr>rj_status := RecurActive, rj_nextRunAt := Some (calculateNextRun (rj_schedule j) None now)\<rparr>
           in (Inr j', save_recurring j' db)))"

definition template_dto :: "task_template \<Rightarrow> create_task_dto" where
  "template_dto t =
     \<lparr>ct_title = tt_title t, ct_description = Some (tt_description t), ct_type = Some (tt_type t),
      ct_priority = Some (tt_priority t), ct_assignedTo = tt_assignedTo t, ct_assignedBy = ''system'',
      ct_dueDate = None, ct_reminderDate = None, ct_entityId = None, ct_entityType = None,
      ct_workflowInstanceId = None, ct_config = Some (tt_config t), ct_metadata = None\<rparr>"

definition recurring_done :: "recurring_job \<Rightarrow> bool" where
  "recurring_done job \<longleftrightarrow>
     truthy_num (rc_maxRuns (rj_config job)) \<and> the (rc_maxRuns (rj_config job)) \<le> rj_runCount job"

text \<open>\<open>ids db\<close> is the id the database draws for the next task.\<close>

definition executeRecurringJob ::
  "(task_db \<Rightarrow> str) \<Rightarrow> instant \<Rightarrow> recurring_job \<Rightarrow> task_db \<Rightarrow> (task_error + unit) \<times> task_db" where
  "executeRecurringJob ids now job db =
     (if recurring_done job then (Inr (), save_recurring (job\<lparr>rj_status := RecurCompleted\<rparr>) db)
      else case createTask (ids db) now (rj_tenantId job) (template_dto (rj_taskTemplate job)) db of
             (Inr t, db') \<Rightarrow>
               (Inr (), save_recurring
                  (job\<lparr>rj_runCount := rj_runCount job + 1, rj_lastRunAt := Some now,
                       rj_nextRunAt := Some (calculateNextRun (rj_schedule job) None now),
                       rj_runHistory := rj_runHistory job @ [RunSucceeded now (ta_id t)]\<rparr>) db')
           | (Inl e, db') \<Rightarrow>
               (Inl e, save_recurring
                  (job\<lparr>rj_runHistory := rj_runHistory job @ [RunFailed now e],
                       rj_status := (if rc_retryOnError (rj_config job) = Some True then RecurError
                                     else rj_status job)\<rparr>) db'))"

fun task_thrown :: "task_error \<Rightarrow> thrown" where
  "task_thrown (InvalidEnum col v) = ThrownError ''QueryFailedError'' ''QueryFailedError'' (Some ''22P02'')
     (''invalid input value for enum tasks_'' @ col @ ''_enum: '' @ json_quote v)"
| "task_thrown _ = ThrownError ''NotFoundException'' ''NotFoundException'' None ''Task not found''"

definition recurring_due :: "instant \<Rightarrow> recurring_job \<Rightarrow> bool" where
  "recurring_due now j \<longleftrightarrow>
     rj_status j = RecurActive \<and> (case rj_nextRunAt j of None \<Rightarrow> False | Some t \<Rightarrow> t < now)"

definition run_recurring ::
  "(task_db \<Rightarrow> str) \<Rightarrow> instant \<Rightarrow> recurring_job \<Rightarrow> als \<Rightarrow> task_db \<Rightarrow> (thrown + unit) \<times> task_db" where
  "run_recurring ids now job ctx db =
     (case executeRecurringJob ids now job db of (Inl e, db') \<Rightarrow> (Inl (task_thrown e), db') | (Inr u, db') \<Rightarrow> (Inr u, db'))"

definition processRecurringJobs ::
  "(task_db \<Rightarrow> str) \<Rightarrow> instant \<Rightarrow> als \<Rightarrow> task_db \<Rightarrow> (thrown + sweep_scope) \<times> task_db" where
  "processRecurringJobs ids now =
     runTenantBoundSweep rj_tenantId (\<lambda>j. Some (rj_id j)) ''recurring tasks''
       (\<lambda>ctx db. (Inr (find_where (recurring_due now) (td_recurring db)), db)) (run_recurring ids now)"

section \<open>The calendar\<close>

datatype calendar_scope = MineOnly | WholeFirm

definition getCalendarEvents ::
  "als \<Rightarrow> task_db \<Rightarrow> str \<Rightarrow> str \<Rightarrow> actor \<Rightarrow> instant \<Rightarrow> instant \<Rightarrow> calendar_scope \<Rightarrow> task list" where
  "getCalendarEvents ctx db tenantId userId a startDate endDate scope =
     (let eff = (if hasTenantWideReach ctx a then scope else MineOnly)
      in sort_key (\<lambda>t. the (ta_dueDate t))
           (find_where (\<lambda>t. ta_tenantId t = tenantId \<and> (eff = WholeFirm \<or> ta_assignedTo t = userId)
                            \<and> due_in (Some endDate) (Some startDate) (ta_dueDate t)) (td_tasks db)))"

section \<open>Reads and lists\<close>

lemma findTask_Inr_iff:
  assumes "keys_distinct ta_id (td_tasks db)"
  shows "findTaskOrThrow db i T = Inr t \<longleftrightarrow> t \<in> set (td_tasks db) \<and> ta_id t = i \<and> ta_tenantId t = T"
proof
  assume "findTaskOrThrow db i T = Inr t"
  then show "t \<in> set (td_tasks db) \<and> ta_id t = i \<and> ta_tenantId t = T"
    by (auto simp: findTaskOrThrow_def split: option.splits dest: find_one_SomeD)
next
  assume t: "t \<in> set (td_tasks db) \<and> ta_id t = i \<and> ta_tenantId t = T"
  then obtain u where u: "find_one (\<lambda>t. ta_id t = i \<and> ta_tenantId t = T) (td_tasks db) = Some u"
    by (cases "find_one (\<lambda>t. ta_id t = i \<and> ta_tenantId t = T) (td_tasks db)") (auto simp: find_one_None_iff)
  then have "u = t" using t assms find_one_SomeD [OF u] by (auto simp: distinct_map inj_on_def)
  with u show "findTaskOrThrow db i T = Inr t" by (simp add: findTaskOrThrow_def)
qed

lemma getTask_Inr_iff:
  assumes "keys_distinct ta_id (td_tasks db)"
  shows "getTask ctx db i T a = Inr t \<longleftrightarrow>
     t \<in> set (td_tasks db) \<and> ta_id t = i \<and> ta_tenantId t = T
     \<and> (hasTenantWideReach ctx a \<or> ta_assignedTo t = ac_id a)"
  unfolding getTask_def and_then_Inr_iff findTask_Inr_iff [OF assms]
  by (auto simp: assertOwnedByOrTenant_def)

text \<open>What the options ask for, besides whose tasks they are; only staff may ask for an assignee.\<close>

definition asked :: "bool \<Rightarrow> task_options \<Rightarrow> task \<Rightarrow> bool" where
  "asked wide opts t \<longleftrightarrow>
     (to_status opts \<noteq> None \<longrightarrow> to_status opts = Some (ta_status t))
     \<and> (wide \<and> truthy_str (to_assignedTo opts) \<longrightarrow> to_assignedTo opts = Some (ta_assignedTo t))
     \<and> (to_priority opts \<noteq> None \<longrightarrow> to_priority opts = Some (ta_priority t))
     \<and> (to_type opts \<noteq> None \<longrightarrow> to_type opts = Some (ta_type t))
     \<and> (truthy_str (to_entityId opts) \<longrightarrow> to_entityId opts = ta_entityId t)
     \<and> due_in (to_dueBefore opts) (to_dueAfter opts) (ta_dueDate t)"

text \<open>
  A task is in the list exactly when a read of it by the same caller succeeds and it
  is what the options ask for: the pages cut one list of those tasks, newest first, and the total counts them.
\<close>

theorem task_list_matches_read:
  assumes "keys_distinct ta_id (td_tasks db)"
  shows "\<exists>hits. set hits = {t \<in> set (td_tasks db). getTask ctx db (ta_id t) T a = Inr t
        \<and> asked (hasTenantWideReach ctx a) opts t}
     \<and> distinct hits \<and> sorted (map (\<lambda>t. - ta_createdAt t) hits)
     \<and> (let p = listTasks ctx db T opts a in
          tp_total p = length hits \<and> 1 \<le> tp_page p \<and> 1 \<le> tp_limit p \<and> tp_limit p \<le> 200
          \<and> tp_items p = take (nat (tp_limit p)) (drop (nat ((tp_page p - 1) * tp_limit p)) hits))"
proof -
  let ?hits = "sort_key (\<lambda>t. - ta_createdAt t) (find_where (task_where ctx T opts a) (td_tasks db))"
  have "set ?hits = {t \<in> set (td_tasks db). getTask ctx db (ta_id t) T a = Inr t
      \<and> asked (hasTenantWideReach ctx a) opts t}"
    by (auto simp: set_find_where getTask_Inr_iff [OF assms] task_where_def asked_def)
  moreover have "distinct ?hits" using assms by (simp add: find_where_def distinct_map)
  moreover have "sorted (map (\<lambda>t. - ta_createdAt t) ?hits)" by simp
  ultimately show ?thesis
    by (intro exI [of _ ?hits]) (simp add: listTasks_def Let_def page_limit_def)
qed

text \<open>
  The inbox holds the caller's own tasks, the most urgent first and then by due date,
  and its counters are those of the statuses, with their sum as total.
\<close>

lemma sum_of_counts:
  "distinct ss \<Longrightarrow> set (map f xs) \<subseteq> set ss \<Longrightarrow> sum_list (map (\<lambda>s. length (filter (\<lambda>x. f x = s) xs)) ss) = length xs"
proof (induction xs)
  case (Cons x xs)
  have "sum_list (map (\<lambda>s. length (filter (\<lambda>y. f y = s) (x # xs))) ss)
      = sum_list (map (\<lambda>s. (if s = f x then 1 else 0) + length (filter (\<lambda>y. f y = s) xs)) ss)"
    by (intro arg_cong [of _ _ sum_list] map_cong refl) auto
  also have "\<dots> = (\<Sum>s\<leftarrow>ss. if s = f x then 1 else 0) + (\<Sum>s\<leftarrow>ss. length (filter (\<lambda>y. f y = s) xs))"
    by (rule sum_list_addf)
  also have "(\<Sum>s\<leftarrow>ss. if s = f x then 1 else (0 :: nat)) = 1"
    using Cons.prems by (simp add: sum_list_distinct_conv_sum_set)
  finally show ?case using Cons by simp
qed simp

lemma counts_map_of:
  "map_of (map (\<lambda>s. (s, g s)) ss) k = (if k \<in> set ss then Some (g k) else None)"
  by (induction ss) auto

theorem inbox_counts:
  "getMyWork db T u opts = (items, counts, tot) \<Longrightarrow>
   sorted (map inbox_order items)
   \<and> (\<forall>t \<in> set items. t \<in> set (td_tasks db) \<and> ta_tenantId t = T \<and> ta_assignedTo t = u)
   \<and> map fst counts = task_statuses \<and> tot = sum_list (map snd counts)
   \<and> (\<forall>(s, n) \<in> set counts. n = length (filter (\<lambda>t. ta_tenantId t = T \<and> ta_assignedTo t = u \<and> ta_status t = s) (td_tasks db)))"
proof -
  assume work: "getMyWork db T u opts = (items, counts, tot)"
  define own where "own = find_where (\<lambda>t. ta_tenantId t = T \<and> ta_assignedTo t = u) (td_tasks db)"
  define n where "n s = length (filter (\<lambda>t. ta_status t = s) own)" for s
  have counts: "counts = map (\<lambda>s. (s, n s)) task_statuses" and tot: "tot = sum_list (map n (remdups (map ta_status own)))"
    using work
    by (auto simp: getMyWork_def getTaskCounts_def Let_def own_def [symmetric] n_def [symmetric] counts_map_of comp_def)
       (auto simp: n_def filter_empty_conv)
  have statuses: "distinct task_statuses" "\<And>s. s \<in> set task_statuses"
    by (simp add: task_statuses_def, case_tac s) (simp_all add: task_statuses_def)
  have sub: "set (map ta_status own) \<subseteq> set task_statuses" using statuses(2) by blast
  have "tot = length own" "sum_list (map snd counts) = length own"
    unfolding tot counts n_def using sum_of_counts [OF statuses(1) sub] by (simp_all add: comp_def sum_of_counts)
  moreover have "n s = length (filter (\<lambda>t. ta_tenantId t = T \<and> ta_assignedTo t = u \<and> ta_status t = s) (td_tasks db))" for s
    by (simp add: n_def own_def find_where_def conj_assoc)
  moreover have items: "items = take (nat (page_limit (wo_limit opts)))
      (sort_key inbox_order (find_where (work_where T u opts) (td_tasks db)))"
    using work by (simp add: getMyWork_def)
  then have "sorted (map inbox_order items)" by (simp add: take_map [symmetric] sorted_wrt_take)
  moreover have "set items \<subseteq> set (find_where (work_where T u opts) (td_tasks db))"
    unfolding items by (metis set_sort set_take_subset)
  then have "\<forall>t \<in> set items. t \<in> set (td_tasks db) \<and> ta_tenantId t = T \<and> ta_assignedTo t = u"
    by (auto simp: set_find_where work_where_def)
  ultimately show ?thesis by (auto simp: counts comp_def)
qed

section \<open>Recurring jobs over time\<close>

definition succeeded :: "recurring_run \<Rightarrow> bool" where
  "succeeded r = (case r of RunSucceeded _ _ \<Rightarrow> True | _ \<Rightarrow> False)"

text \<open>
  The run count is the number of successes in the history, no higher than the limit, and every success names a
  task that exists.
\<close>

definition runs_ok :: "task_db \<Rightarrow> recurring_job \<Rightarrow> bool" where
  "runs_ok db j \<longleftrightarrow>
     rj_runCount j = int (length (filter succeeded (rj_runHistory j)))
     \<and> (\<forall>m. rc_maxRuns (rj_config j) = Some m \<and> m \<noteq> 0 \<longrightarrow> rj_runCount j \<le> max 0 m)
     \<and> (\<forall>now i. RunSucceeded now i \<in> set (rj_runHistory j) \<longrightarrow> i \<in> ta_id ` set (td_tasks db))"

definition recurring_inv :: "task_db \<Rightarrow> bool" where
  "recurring_inv db \<longleftrightarrow> keys_distinct ta_id (td_tasks db) \<and> (\<forall>j \<in> set (td_recurring db). runs_ok db j)"

lemma save_row_subset: "set (save_row key r t) \<subseteq> insert r (set t)"
  by (induction t) auto

lemma runs_ok_mono: "runs_ok db j \<Longrightarrow> ta_id ` set (td_tasks db) \<subseteq> ta_id ` set (td_tasks db') \<Longrightarrow> runs_ok db' j"
  unfolding runs_ok_def by blast

lemma runs_ok_same:
  assumes "runs_ok db j" "rj_runCount j' = rj_runCount j" "rj_config j' = rj_config j"
    "filter succeeded (rj_runHistory j') = filter succeeded (rj_runHistory j)"
  shows "runs_ok db j'"
proof -
  have mem: "RunSucceeded now i \<in> set h \<longleftrightarrow> RunSucceeded now i \<in> set (filter succeeded h)" for now i h
    by (simp add: succeeded_def)
  have "RunSucceeded now i \<in> set (rj_runHistory j') \<longleftrightarrow> RunSucceeded now i \<in> set (rj_runHistory j)" for now i
    using mem [of now i "rj_runHistory j"] mem [of now i "rj_runHistory j'"] assms(4) by simp
  then show ?thesis using assms unfolding runs_ok_def by metis
qed

lemma inv_save_recurring:
  "recurring_inv db \<Longrightarrow> runs_ok db j \<Longrightarrow> recurring_inv (save_recurring j db)"
  using save_row_subset [of rj_id j "td_recurring db"]
  by (auto simp: recurring_inv_def save_recurring_def runs_ok_def)

lemma find_recurring_ok: "recurring_inv db \<Longrightarrow> find_recurring db i T = Some j \<Longrightarrow> runs_ok db j"
  by (auto simp: find_recurring_def recurring_inv_def dest!: find_one_SomeD)

lemma inv_save_task:
  assumes "recurring_inv db"
  shows "recurring_inv (db\<lparr>td_tasks := save_row ta_id t (td_tasks db)\<rparr>)"
  using assms by (auto simp: recurring_inv_def keys_distinct_save keys_save elim!: runs_ok_mono)

lemma createTask_cases:
  assumes "createTask newId now T dto db = (r, db')" "keys_distinct ta_id (td_tasks db)"
  obtains e where "r = Inl e" "db' = db" | t where "r = Inr t" "ta_id t = newId"
    "db' = db\<lparr>td_tasks := save_row ta_id t (td_tasks db)\<rparr>"
proof -
  have "findTaskOrThrow (db\<lparr>td_tasks := save_row ta_id (new_task newId now T dto ty prio) (td_tasks db)\<rparr>)
      (ta_id (new_task newId now T dto ty prio)) T = Inr (new_task newId now T dto ty prio)" for ty prio
    using assms(2) by (subst findTask_Inr_iff) (simp_all add: keys_distinct_save set_save_row new_task_def)
  then show thesis
    using assms(1) by (auto simp: createTask_def Let_def new_task_def and_then_def split: sum.splits intro: that)
qed

lemma execute_keeps:
  assumes "recurring_inv db" "runs_ok db job" "executeRecurringJob ids now job db = (r, db')"
  shows "recurring_inv db' \<and> ta_id ` set (td_tasks db) \<subseteq> ta_id ` set (td_tasks db')"
proof (cases "recurring_done job")
  case True
  then have db': "db' = save_recurring (job\<lparr>rj_status := RecurCompleted\<rparr>) db"
    using assms(3) by (simp add: executeRecurringJob_def)
  have "recurring_inv db'" unfolding db'
    by (rule inv_save_recurring [OF assms(1) runs_ok_same [OF assms(2)]]) simp_all
  then show ?thesis by (simp add: db' save_recurring_def)
next
  case False
  obtain r1 db1 where c: "createTask (ids db) now (rj_tenantId job) (template_dto (rj_taskTemplate job)) db = (r1, db1)"
    by fastforce
  have "keys_distinct ta_id (td_tasks db)" using assms(1) by (simp add: recurring_inv_def)
  from c this show ?thesis
  proof (cases rule: createTask_cases)
    case (1 e)
    have "recurring_inv (save_recurring (job\<lparr>rj_runHistory := rj_runHistory job @ [RunFailed now e], rj_status := s\<rparr>) db)" for s
      by (rule inv_save_recurring [OF assms(1) runs_ok_same [OF assms(2)]]) (auto simp: succeeded_def)
    then show ?thesis using assms(3) False c 1 by (auto simp: executeRecurringJob_def save_recurring_def)
  next
    case (2 t)
    have db1: "recurring_inv db1" unfolding 2 by (rule inv_save_task [OF assms(1)])
    have ids: "ta_id ` set (td_tasks db1) = insert (ta_id t) (ta_id ` set (td_tasks db))" by (simp add: 2(3) keys_save)
    let ?job = "job\<lparr>rj_runCount := rj_runCount job + 1, rj_lastRunAt := Some now,
        rj_nextRunAt := Some (calculateNextRun (rj_schedule job) None now),
        rj_runHistory := rj_runHistory job @ [RunSucceeded now (ta_id t)]\<rparr>"
    have "runs_ok db1 ?job"
      using assms(2) False ids by (auto simp: runs_ok_def succeeded_def recurring_done_def)
    from inv_save_recurring [OF db1 this] show ?thesis
      using assms(3) False c 2(1) ids by (auto simp: executeRecurringJob_def save_recurring_def)
  qed
qed

interpretation recurring_sweep:
  sweep_items rj_tenantId "run_recurring ids now" recurring_inv runs_ok for ids now
proof unfold_locales
  fix db :: task_db and job r db'
  assume inv: "recurring_inv db" "runs_ok db job"
    and run: "run_recurring ids now job (Some (item_store (rj_tenantId job))) db = (r, db')"
  obtain r1 db1 where e: "executeRecurringJob ids now job db = (r1, db1)" by fastforce
  then have "db' = db1" using run by (auto simp: run_recurring_def split: sum.splits)
  with execute_keeps [OF inv e] show "recurring_inv db' \<and> (\<forall>j. runs_ok db j \<longrightarrow> runs_ok db' j)"
    by (blast intro: runs_ok_mono)
qed

inductive task_step :: "task_db \<Rightarrow> task_db \<Rightarrow> bool" where
  create: "createTask newId now T dto db = (r, db') \<Longrightarrow> task_step db db'"
| update: "updateTask i T patch db = (r, db') \<Longrightarrow> task_step db db'"
| start: "startTask ctx now i T a db = (r, db') \<Longrightarrow> task_step db db'"
| complete: "completeTask ctx now i T a db = (r, db') \<Longrightarrow> task_step db db'"
| cancel: "cancelTask i T db = (r, db') \<Longrightarrow> task_step db db'"
| comment: "addComment ctx newId now i T a content db = (r, db') \<Longrightarrow> task_step db db'"
| new_job: "createRecurringJob newId now T rdto db = (job, db') \<Longrightarrow> task_step db db'"
| pause: "pauseRecurringJob i T db = (rj, db') \<Longrightarrow> task_step db db'"
| resume: "resumeRecurringJob now i T db = (rj, db') \<Longrightarrow> task_step db db'"
| sweep: "processRecurringJobs ids now ctx db = (sr, db') \<Longrightarrow> task_step db db'"

inductive_cases task_stepE: "task_step db db'"

lemma update_keeps:
  assumes "recurring_inv db" "updateTask i T patch db = (r, db')"
  shows "recurring_inv db'"
  using assms inv_save_task [OF assms(1)] by (auto simp: updateTask_def Let_def split: sum.splits)

lemma task_step_keeps: "task_step db db' \<Longrightarrow> recurring_inv db \<Longrightarrow> recurring_inv db'"
proof (induction rule: task_step.induct)
  case (create newId now T dto db r db')
  then have "keys_distinct ta_id (td_tasks db)" by (simp add: recurring_inv_def)
  from create(1) this show ?case by (cases rule: createTask_cases) (simp_all add: create.prems inv_save_task)
next
  case (start ctx now i T a db r db')
  then show ?case by (auto simp: startTask_def split: sum.splits intro: update_keeps)
next
  case (complete ctx now i T a db r db')
  then show ?case by (auto simp: completeTask_def split: sum.splits intro: update_keeps)
next
  case (comment ctx newId now i T a content db r db')
  then show ?case by (auto simp: addComment_def recurring_inv_def runs_ok_def Let_def split: sum.splits)
next
  case (new_job newId now T rdto db job db')
  then have "db' = save_recurring job db" "runs_ok db job"
    by (auto simp: createRecurringJob_def save_recurring_def runs_ok_def Let_def)
  then show ?case using inv_save_recurring [OF new_job.prems] by simp
next
  case (pause i T db rj db')
  show ?case
  proof (cases "find_recurring db i T")
    case (Some j)
    then have "runs_ok db j" using find_recurring_ok [OF pause.prems] by blast
    then have "runs_ok db (j\<lparr>rj_status := RecurPaused\<rparr>)" by (rule runs_ok_same) simp_all
    with inv_save_recurring [OF pause.prems] pause.hyps Some show ?thesis by (auto simp: pauseRecurringJob_def Let_def)
  qed (use pause in \<open>simp add: pauseRecurringJob_def\<close>)
next
  case (resume now i T db rj db')
  show ?case
  proof (cases "find_recurring db i T")
    case (Some j)
    then have "runs_ok db j" using find_recurring_ok [OF resume.prems] by blast
    then have "runs_ok db (j\<lparr>rj_status := RecurActive, rj_nextRunAt := x\<rparr>)" for x by (rule runs_ok_same) simp_all
    with inv_save_recurring [OF resume.prems] resume.hyps Some show ?thesis by (auto simp: resumeRecurringJob_def Let_def)
  qed (use resume in \<open>simp add: resumeRecurringJob_def\<close>)
next
  case (sweep ids now ctx db sr db')
  show ?case
    by (rule recurring_sweep.sweep_keeps_items [OF _ sweep.prems sweep.hyps [unfolded processRecurringJobs_def]])
       (auto simp: recurring_inv_def set_find_where)
qed (simp_all add: update_keeps cancelTask_def)

text \<open>
  However tasks and recurring jobs are created, changed, paused, resumed and swept, a
  recurring job has run as often as its history has successes, never more often than its limit, and each of them left
  a task that is still there.
\<close>

theorem recurring_jobs_keep_count:
  assumes "task_step\<^sup>*\<^sup>* db db'" "recurring_inv db"
  shows "recurring_inv db'"
  using assms by (induction rule: rtranclp_induct) (auto intro: task_step_keeps)

text \<open>
  A template the database refuses is tried again at every sweep: the job stays active and
  due, with one more error in its history and no task made, unless it asks to be retried on errors, which stops it.
\<close>

theorem failing_template_stays_due:
  assumes "recurring_due now j" "\<not> recurring_done j" "now \<le> now'"
    "map_of task_types (tt_type (rj_taskTemplate j)) = None"
  shows "\<exists>e j'. executeRecurringJob ids now j db = (Inl e, save_recurring j' db)
     \<and> rj_runHistory j' = rj_runHistory j @ [RunFailed now e] \<and> rj_runCount j' = rj_runCount j
     \<and> (recurring_due now' j' \<longleftrightarrow> rc_retryOnError (rj_config j) \<noteq> Some True)"
proof -
  have "createTask i now T (template_dto (rj_taskTemplate j)) db
      = (Inl (InvalidEnum ''type'' (tt_type (rj_taskTemplate j))), db)" for i T
    using assms(4) by (simp add: createTask_def enum_value_def template_dto_def)
  moreover define e where "e = InvalidEnum ''type'' (tt_type (rj_taskTemplate j))"
  moreover define j' where "j' = j\<lparr>rj_runHistory := rj_runHistory j @ [RunFailed now e],
      rj_status := (if rc_retryOnError (rj_config j) = Some True then RecurError else rj_status j)\<rparr>"
  ultimately have "executeRecurringJob ids now j db = (Inl e, save_recurring j' db)"
    using assms(2) by (simp add: executeRecurringJob_def)
  moreover have "recurring_due now' j' \<longleftrightarrow> rc_retryOnError (rj_config j) \<noteq> Some True"
    using assms(1,3) by (auto simp: j'_def recurring_due_def split: option.splits)
  moreover have "rj_runHistory j' = rj_runHistory j @ [RunFailed now e]" "rj_runCount j' = rj_runCount j"
    by (simp_all add: j'_def)
  ultimately show ?thesis by blast
qed

section \<open>A practice with two tasks\<close>

definition sample_task :: "str \<Rightarrow> str \<Rightarrow> instant \<Rightarrow> task" where
  "sample_task i u now = new_task i now ''T'' \<lparr>ct_title = ''Call'', ct_description = None, ct_type = None,
     ct_priority = None, ct_assignedTo = u, ct_assignedBy = ''boss'', ct_dueDate = None, ct_reminderDate = None,
     ct_entityId = None, ct_entityType = None, ct_workflowInstanceId = None, ct_config = None, ct_metadata = None\<rparr>
     TaskAction TaskMedium"

definition weekly_review :: "str \<Rightarrow> recurring_job" where
  "weekly_review ty = \<lparr>rj_id = ''j'', rj_tenantId = ''T'', rj_name = ''Review'', rj_description = None,
     rj_schedule = ''daily'', rj_taskTemplate = \<lparr>tt_title = ''Review'', tt_description = [], tt_type = ty,
       tt_priority = ''low'', tt_assignedTo = ''ann'', tt_config = []\<rparr>, rj_status = RecurActive,
     rj_lastRunAt = None, rj_nextRunAt = Some 5, rj_runCount = 0, rj_startDate = None, rj_endDate = None,
     rj_runHistory = [], rj_config = no_config\<lparr>rc_maxRuns := Some 1\<rparr>, rj_createdAt = 0\<rparr>"

definition sample_tasks :: task_db where
  "sample_tasks = \<lparr>td_tasks = [sample_task ''1'' ''ann'' 3, sample_task ''2'' ''bob'' 4], td_comments = [],
     td_recurring = [weekly_review ''review'']\<rparr>"

definition bobs_tasks :: task_options where
  "bobs_tasks = \<lparr>to_status = None, to_assignedTo = Some ''bob'', to_priority = None, to_type = None,
     to_entityId = None, to_dueBefore = None, to_dueAfter = None, to_page = None, to_limit = None\<rparr>"

lemma sample_inv: "recurring_inv sample_tasks"
  by (simp add: recurring_inv_def sample_tasks_def sample_task_def new_task_def runs_ok_def weekly_review_def)

text \<open>A client who asks for another user's tasks gets the client's own.\<close>

lemma task_list_matches_read_witness:
  "map ta_id (tp_items (listTasks None sample_tasks ''T'' bobs_tasks \<lparr>ac_id = ''ann'', ac_roles = [CLIENT], ac_email = None\<rparr>))
     = [''1'']
   \<and> (\<exists>hits. set hits = {t \<in> set (td_tasks sample_tasks).
        getTask None sample_tasks (ta_id t) ''T'' \<lparr>ac_id = ''ann'', ac_roles = [CLIENT], ac_email = None\<rparr> = Inr t
        \<and> asked (hasTenantWideReach None \<lparr>ac_id = ''ann'', ac_roles = [CLIENT], ac_email = None\<rparr>) bobs_tasks t})"
proof -
  have "keys_distinct ta_id (td_tasks sample_tasks)" using sample_inv by (simp add: recurring_inv_def)
  from task_list_matches_read [OF this, of None "''T''" "\<lparr>ac_id = ''ann'', ac_roles = [CLIENT], ac_email = None\<rparr>" bobs_tasks]
  have "\<exists>hits. set hits = {t \<in> set (td_tasks sample_tasks).
        getTask None sample_tasks (ta_id t) ''T'' \<lparr>ac_id = ''ann'', ac_roles = [CLIENT], ac_email = None\<rparr> = Inr t
        \<and> asked (hasTenantWideReach None \<lparr>ac_id = ''ann'', ac_roles = [CLIENT], ac_email = None\<rparr>) bobs_tasks t}"
    by (elim exE conjE) (rule exI)
  moreover have "map ta_id (tp_items (listTasks None sample_tasks ''T'' bobs_tasks
      \<lparr>ac_id = ''ann'', ac_roles = [CLIENT], ac_email = None\<rparr>)) = [''1'']"
    by code_simp
  ultimately show ?thesis by simp
qed

lemma recurring_jobs_keep_count_witness:
  "recurring_inv (snd (processRecurringJobs (\<lambda>_. ''3'') 9 None sample_tasks))
   \<and> map ta_id (td_tasks (snd (processRecurringJobs (\<lambda>_. ''3'') 9 None sample_tasks))) = [''1'', ''2'', ''3'']"
proof
  have "task_step sample_tasks (snd (processRecurringJobs (\<lambda>_. ''3'') 9 None sample_tasks))"
    by (rule task_step.sweep [OF prod.collapse [symmetric]])
  then show "recurring_inv (snd (processRecurringJobs (\<lambda>_. ''3'') 9 None sample_tasks))"
    by (intro recurring_jobs_keep_count [OF r_into_rtranclp sample_inv])
qed code_simp

lemma failing_template_stays_due_witness:
  "\<exists>e j'. executeRecurringJob (\<lambda>_. ''3'') 9 (weekly_review ''chore'') sample_tasks = (Inl e, save_recurring j' sample_tasks)
     \<and> rj_runHistory j' = rj_runHistory (weekly_review ''chore'') @ [RunFailed 9 e]
     \<and> rj_runCount j' = rj_runCount (weekly_review ''chore'')
     \<and> (recurring_due 99 j' \<longleftrightarrow> rc_retryOnError (rj_config (weekly_review ''chore'')) \<noteq> Some True)"
  by (rule failing_template_stays_due)
     (simp_all add: recurring_due_def recurring_done_def weekly_review_def no_config_def task_types_def)

text \<open>A job started on the last day of January is next due in March.\<close>

lemma monthly_overflows:
  "(let t = (days_of_civil 2025 1 31) * ms_per_day in civil_of_days (next_month t div ms_per_day)) = (2025, 3, 3)"
  by code_simp

end
