(* ===== verification/Alerts.thy ===== *)
theory Alerts
  imports DeepMerge Tasks VerticalPack
begin

text \<open>
  \<^verbatim>\<open>src/rules/alert-rule.service.ts\<close> over \<^verbatim>\<open>src/rules/entities/alert-firing.entity.ts\<close>: the sweep that
  evaluates the alert rules of every tenant's pack against its records, and the memory it
  keeps of what fired, so that a condition that stays true notifies once per cooldown and escalates once.

  A record of the CRM is the row as the object the evaluator gets. A notice is the call the
  sweep makes of the notification service; what that service answers or throws is swallowed, so it has no
  part in the state. The section of the pack is read as it was validated: a field of another type is
  taken as absent.
\<close>

section \<open>Rules and firings\<close>

datatype alert_severity = AlertInfo | AlertWarning | AlertCritical

record alert_rule =
  ar_key :: str
  ar_label :: str
  ar_entityType :: str
  ar_when :: js
  ar_severity :: "alert_severity option"
  ar_templateKey :: "str option"
  ar_notifyRoles :: "str list option"
  ar_createTask :: bool
  ar_escalateAfterHours :: "js_num option"
  ar_escalateToRoles :: "str list option"
  ar_cooldownHours :: "js_num option"

definition texts_of :: "str \<Rightarrow> js_obj \<Rightarrow> str list option" where
  "texts_of k ob = (case obj_get k ob of
     Some (JArr xs) \<Rightarrow> Some (concat (map (\<lambda>x. case x of JStr s \<Rightarrow> [s] | _ \<Rightarrow> []) xs)) | _ \<Rightarrow> None)"

definition hours_of :: "str \<Rightarrow> js_obj \<Rightarrow> js_num option" where
  "hours_of k ob = (case obj_get k ob of Some (JNum n) \<Rightarrow> Some (string_to_number n) | _ \<Rightarrow> None)"

definition severities :: "(str \<times> alert_severity) list" where
  "severities = [(''info'', AlertInfo), (''warning'', AlertWarning), (''critical'', AlertCritical)]"

definition alert_rule_of :: "js_obj \<Rightarrow> alert_rule" where
  "alert_rule_of ob =
     \<lparr>ar_key = nullish (text_of ''key'' ob) [], ar_label = nullish (text_of ''label'' ob) [],
      ar_entityType = nullish (text_of ''entityType'' ob) [],
      ar_when = (case obj_get ''when'' ob of None \<Rightarrow> JUndef | Some v \<Rightarrow> v),
      ar_severity = Option.bind (text_of ''severity'' ob) (map_of severities),
      ar_templateKey = text_of ''templateKey'' ob, ar_notifyRoles = texts_of ''notifyRoles'' ob,
      ar_createTask = (obj_get ''createTask'' ob = Some (JBool True)),
      ar_escalateAfterHours = hours_of ''escalateAfterHours'' ob,
      ar_escalateToRoles = texts_of ''escalateToRoles'' ob, ar_cooldownHours = hours_of ''cooldownHours'' ob\<rparr>"

record alert_firing =
  af_id :: str
  af_tenantId :: str
  af_ruleKey :: str
  af_entityId :: str
  af_entityType :: str
  af_firstMatchedAt :: instant
  af_lastMatchedAt :: instant
  af_lastNotifiedAt :: "instant option"
  af_notifyCount :: nat
  af_escalatedAt :: "instant option"
  af_resolvedAt :: "instant option"
  af_taskId :: "str option"
  af_createdAt :: instant

text \<open>A call of \<open>sendFromTemplate\<close> or of \<open>sendNotification\<close>.\<close>

datatype notice_priority = PrioritySoft | PriorityHigh | PriorityUrgent

datatype alert_notice =
    TemplateNotice (no_tenant: str) (no_recipient: str) str js_obj "str option"
  | PlainNotice (no_tenant: str) (no_recipient: str) notice_priority str str str str bool

datatype tenant_status = TenantActive | TenantSuspended | TenantDeleted | TenantTrial

record tenant_row =
  tn_id :: str
  tn_status :: tenant_status
  tn_vertical :: "str option"

record staff_row =
  sf_id :: str
  sf_tenant :: str
  sf_active :: bool
  sf_roles :: "str list option"

record alert_summary =
  as_tenantsScanned :: nat
  as_rulesEvaluated :: nat
  as_entitiesScanned :: nat
  as_opened :: nat
  as_notified :: nat
  as_escalated :: nat
  as_resolved :: nat
  as_tasksCreated :: nat
  as_invalidRules :: "(str \<times> str \<times> rule_verdict) list"

record alert_world =
  aw_firings :: "alert_firing list"
  aw_tasks :: task_db
  aw_notices :: "alert_notice list"
  aw_summary :: alert_summary

text \<open>What a sweep only reads; \<open>al_firingId\<close> and \<open>al_taskId\<close> are the ids the database draws next.\<close>

record alert_env =
  al_apply :: json_logic
  al_host_date :: "str \<Rightarrow> instant option"
  al_pins_ok :: bool
  al_packs :: pack_db
  al_tenants :: "tenant_row list"
  al_entities :: "js_obj list"
  al_users :: "staff_row list"
  al_firingId :: "alert_firing list \<Rightarrow> str"
  al_taskId :: "task_db \<Rightarrow> str"
  al_now :: instant

interpretation firing_repo:
  repository af_id "\<lambda>t. by_key af_id t" "save_row af_id" "remove_row af_id" "keys_distinct af_id"
  by unfold_locales (auto simp: table_simps keys_distinct_save keys_distinct_remove dest: by_key_SomeD)

section \<open>Who is told and what\<close>

definition en_text :: "str \<Rightarrow> js_obj \<Rightarrow> str" where
  "en_text k e = nullish (text_of k e) []"

definition attributes_of :: "js_obj \<Rightarrow> js_obj" where
  "attributes_of e = (case obj_get ''verticalAttributes'' e of Some (JObj a) \<Rightarrow> a | _ \<Rightarrow> [])"

definition owner_of :: "js_obj \<Rightarrow> str list" where
  "owner_of e = (if truthy_str (text_of ''assignedTo'' e) then [the (text_of ''assignedTo'' e)] else [])"

definition describe :: "js_obj \<Rightarrow> str" where
  "describe e =
     (let attrs = attributes_of e;
          named = filter (\<lambda>s. s \<noteq> [])
            (join '' '' (filter (\<lambda>s. s \<noteq> []) [en_text ''firstName'' e, en_text ''lastName'' e])
             # map (\<lambda>k. nullish (text_of k attrs) []) [''name'', ''title'', ''reference''])
      in case named of s # _ \<Rightarrow> s | [] \<Rightarrow> en_text ''type'' e @ '' '' @ take 8 (en_text ''id'' e))"

definition recipientsFor :: "alert_env \<Rightarrow> str \<Rightarrow> str list \<Rightarrow> js_obj \<Rightarrow> str list" where
  "recipientsFor env tenantId roles e =
     (if roles = [] then owner_of e
      else let matched = map sf_id (filter (\<lambda>u. \<exists>r \<in> set (nullish (sf_roles u) []). r \<in> set roles)
                 (find_where (\<lambda>u. sf_tenant u = tenantId \<and> sf_active u) (al_users env)))
           in if matched = [] then owner_of e else matched)"

definition notice_variables :: "alert_rule \<Rightarrow> js_obj \<Rightarrow> js_obj" where
  "notice_variables rule e =
     obj_spread (attributes_of e)
       [(''entityId'', JStr (en_text ''id'' e)), (''entityType'', JStr (en_text ''type'' e)),
        (''entityName'', JStr (describe e)), (''ruleLabel'', JStr (ar_label rule)),
        (''dueDate'', JStr (case obj_get ''dueDate'' e of Some (JDate (Some t)) \<Rightarrow> iso_string t | _ \<Rightarrow> []))]"

definition notice_priority_of :: "alert_rule \<Rightarrow> bool \<Rightarrow> notice_priority" where
  "notice_priority_of rule isEscalation =
     (if ar_severity rule = Some AlertCritical \<or> isEscalation then PriorityUrgent
      else if ar_severity rule = Some AlertInfo then PrioritySoft else PriorityHigh)"

definition alert_notify ::
  "tenant_row \<Rightarrow> alert_rule \<Rightarrow> js_obj \<Rightarrow> str list \<Rightarrow> bool \<Rightarrow> alert_notice list" where
  "alert_notify tenant rule e recipients isEscalation =
     map (\<lambda>r. if truthy_str (ar_templateKey rule)
              then TemplateNotice (tn_id tenant) r (the (ar_templateKey rule)) (notice_variables rule e) (tn_vertical tenant)
              else PlainNotice (tn_id tenant) r (notice_priority_of rule isEscalation)
                     ((if isEscalation then ''ESCALATED: '' else []) @ ar_label rule)
                     (ar_label rule @ '' '' @ em_dash @ '' '' @ describe e)
                     (ar_key rule) (en_text ''id'' e) isEscalation) recipients"

section \<open>One match\<close>

text \<open>Whether \<open>ms\<close> milliseconds are at least \<open>h\<close> hours.\<close>

definition hours_passed :: "js_num \<Rightarrow> int \<Rightarrow> bool" where
  "hours_passed h ms =
     (case h of Fin m e \<Rightarrow> \<not> num_less (Fin ms 0) (Fin (m * 3600000) e) | NegInf \<Rightarrow> True | _ \<Rightarrow> False)"

definition opened_firing ::
  "str \<Rightarrow> instant \<Rightarrow> str \<Rightarrow> alert_rule \<Rightarrow> js_obj \<Rightarrow> alert_firing option \<Rightarrow> alert_firing" where
  "opened_firing newId now tenantId rule e old =
     \<lparr>af_id = (case old of None \<Rightarrow> newId | Some f \<Rightarrow> af_id f), af_tenantId = tenantId, af_ruleKey = ar_key rule,
      af_entityId = en_text ''id'' e, af_entityType = en_text ''type'' e, af_firstMatchedAt = now,
      af_lastMatchedAt = now, af_lastNotifiedAt = None, af_notifyCount = 0, af_escalatedAt = None,
      af_resolvedAt = None, af_taskId = Option.bind old af_taskId,
      af_createdAt = (case old of None \<Rightarrow> now | Some f \<Rightarrow> af_createdAt f)\<rparr>"

definition due_for_notify :: "alert_rule \<Rightarrow> instant \<Rightarrow> alert_firing \<Rightarrow> bool" where
  "due_for_notify rule now f =
     (case af_lastNotifiedAt f of None \<Rightarrow> True
      | Some t \<Rightarrow> hours_passed (nullish (ar_cooldownHours rule) (Fin 24 0)) (now - t))"

definition alert_task :: "alert_rule \<Rightarrow> js_obj \<Rightarrow> str \<Rightarrow> create_task_dto" where
  "alert_task rule e assignee =
     \<lparr>ct_title = ar_label rule @ '' '' @ em_dash @ '' '' @ describe e,
      ct_description = Some (''Raised automatically by alert rule '' @ [CHR 0x27] @ ar_key rule @ [CHR 0x27]
        @ ''. Resolves when the condition no longer holds.''),
      ct_type = Some ''action'',
      ct_priority = Some (if ar_severity rule = Some AlertCritical then ''urgent'' else ''medium''),
      ct_assignedTo = assignee, ct_assignedBy = ''system'', ct_dueDate = None, ct_reminderDate = None,
      ct_entityId = Some (en_text ''id'' e), ct_entityType = Some (en_text ''type'' e),
      ct_workflowInstanceId = None, ct_config = None, ct_metadata = None\<rparr>"

definition summed :: "(alert_summary \<Rightarrow> alert_summary) \<Rightarrow> alert_world \<Rightarrow> alert_world" where
  "summed f w = w\<lparr>aw_summary := f (aw_summary w)\<rparr>"

text \<open>The notification of a match that is due, and its task: the firing after it and the world.\<close>

definition raise_alert ::
  "alert_env \<Rightarrow> tenant_row \<Rightarrow> alert_rule \<Rightarrow> js_obj \<Rightarrow> alert_firing \<Rightarrow> alert_world
   \<Rightarrow> (task_error + alert_firing) \<times> alert_world" where
  "raise_alert env tenant rule e f w =
     (let now = al_now env;
          recipients = recipientsFor env (tn_id tenant) (nullish (ar_notifyRoles rule) []) e;
          w1 = summed (\<lambda>s. s\<lparr>as_notified := Suc (as_notified s)\<rparr>)
                 (w\<lparr>aw_notices := aw_notices w @ alert_notify tenant rule e recipients False\<rparr>);
          f1 = f\<lparr>af_lastNotifiedAt := Some now, af_notifyCount := Suc (af_notifyCount f)\<rparr>
      in if ar_createTask rule \<and> \<not> truthy_str (af_taskId f)
         then case nullish_opt (text_of ''assignedTo'' e) (case recipients of [] \<Rightarrow> None | r # _ \<Rightarrow> Some r) of
                Some a \<Rightarrow>
                  if a \<noteq> []
                  then (case createTask (al_taskId env (aw_tasks w)) now (tn_id tenant) (alert_task rule e a) (aw_tasks w1) of
                          (Inl err, db) \<Rightarrow> (Inl err, w1\<lparr>aw_tasks := db\<rparr>)
                        | (Inr t, db) \<Rightarrow>
                            (Inr (f1\<lparr>af_taskId := Some (ta_id t)\<rparr>),
                             summed (\<lambda>s. s\<lparr>as_tasksCreated := Suc (as_tasksCreated s)\<rparr>) (w1\<lparr>aw_tasks := db\<rparr>)))
                  else (Inr f1, w1)
              | None \<Rightarrow> (Inr f1, w1)
         else (Inr f1, w1))"

definition escalate_alert ::
  "alert_env \<Rightarrow> tenant_row \<Rightarrow> alert_rule \<Rightarrow> js_obj \<Rightarrow> alert_firing \<Rightarrow> alert_world \<Rightarrow> alert_firing \<times> alert_world" where
  "escalate_alert env tenant rule e f w =
     (case ar_escalateAfterHours rule of
        None \<Rightarrow> (f, w)
      | Some h \<Rightarrow>
          if af_escalatedAt f = None \<and> hours_passed h (al_now env - af_firstMatchedAt f)
          then (let recipients = recipientsFor env (tn_id tenant) (nullish (ar_escalateToRoles rule) []) e
                in if recipients = [] then (f, w)
                   else (f\<lparr>af_escalatedAt := Some (al_now env)\<rparr>,
                         summed (\<lambda>s. s\<lparr>as_escalated := Suc (as_escalated s)\<rparr>)
                           (w\<lparr>aw_notices := aw_notices w @ alert_notify tenant rule e recipients True\<rparr>)))
          else (f, w))"

definition save_firing :: "alert_firing \<Rightarrow> alert_world \<Rightarrow> alert_world" where
  "save_firing f w = w\<lparr>aw_firings := save_row af_id f (aw_firings w)\<rparr>"

definition is_open :: "alert_firing option \<Rightarrow> bool" where
  "is_open f = (case f of None \<Rightarrow> False | Some f \<Rightarrow> af_resolvedAt f = None)"

definition start_firing ::
  "str \<Rightarrow> instant \<Rightarrow> str \<Rightarrow> alert_rule \<Rightarrow> js_obj \<Rightarrow> alert_firing option \<Rightarrow> alert_firing" where
  "start_firing newId now tenantId rule e existing =
     (if is_open existing then (the existing)\<lparr>af_lastMatchedAt := now\<rparr>
      else opened_firing newId now tenantId rule e existing)"

definition handleMatch ::
  "alert_env \<Rightarrow> tenant_row \<Rightarrow> alert_rule \<Rightarrow> js_obj \<Rightarrow> alert_firing option \<Rightarrow> alert_world
   \<Rightarrow> (task_error + unit) \<times> alert_world" where
  "handleMatch env tenant rule e existing w =
     (let now = al_now env;
          f = start_firing (al_firingId env (aw_firings w)) now (tn_id tenant) rule e existing;
          w0 = (if is_open existing then w else summed (\<lambda>s. s\<lparr>as_opened := Suc (as_opened s)\<rparr>) w)
      in case (if due_for_notify rule now f then raise_alert env tenant rule e f w0 else (Inr f, w0)) of
           (Inl err, w1) \<Rightarrow> (Inl err, w1)
         | (Inr f1, w1) \<Rightarrow>
             (case escalate_alert env tenant rule e f1 w1 of (f2, w2) \<Rightarrow> (Inr (), save_firing f2 w2)))"

section \<open>The sweep\<close>

definition MAX_ENTITIES_PER_RULE :: nat where
  "MAX_ENTITIES_PER_RULE = 2000"

definition updated_at :: "js_obj \<Rightarrow> instant" where
  "updated_at e = (case obj_get ''updatedAt'' e of Some (JDate (Some t)) \<Rightarrow> t | _ \<Rightarrow> 0)"

definition scanned_entities :: "alert_env \<Rightarrow> str \<Rightarrow> alert_rule \<Rightarrow> js_obj list" where
  "scanned_entities env tenantId rule =
     take MAX_ENTITIES_PER_RULE
       (sort_key (\<lambda>e. - updated_at e)
          (find_where (\<lambda>e. text_of ''tenantId'' e = Some tenantId \<and> text_of ''type'' e = Some (ar_entityType rule)
                           \<and> obj_get ''deletedAt'' e \<in> {None, Some JNull}) (al_entities env)))"

definition rule_matches :: "alert_env \<Rightarrow> alert_rule \<Rightarrow> js_obj \<Rightarrow> bool" where
  "rule_matches env rule e = matches (al_apply env) (al_host_date env) (al_now env) (ar_when rule) e"

definition scan_entity ::
  "alert_env \<Rightarrow> tenant_row \<Rightarrow> alert_rule \<Rightarrow> alert_firing list \<Rightarrow> js_obj \<Rightarrow> alert_world
   \<Rightarrow> (task_error + unit) \<times> alert_world" where
  "scan_entity env tenant rule firings e w =
     (let w = summed (\<lambda>s. s\<lparr>as_entitiesScanned := Suc (as_entitiesScanned s)\<rparr>) w;
          existing = map_get af_entityId firings (en_text ''id'' e)
      in if rule_matches env rule e then handleMatch env tenant rule e existing w
         else if is_open existing
         then (Inr (), summed (\<lambda>s. s\<lparr>as_resolved := Suc (as_resolved s)\<rparr>)
                 (save_firing ((the existing)\<lparr>af_resolvedAt := Some (al_now env)\<rparr>) w))
         else (Inr (), w))"

definition applyRule ::
  "alert_env \<Rightarrow> tenant_row \<Rightarrow> alert_rule \<Rightarrow> alert_world \<Rightarrow> (task_error + unit) \<times> alert_world" where
  "applyRule env tenant rule w =
     (let verdict = validate (al_apply env) (ar_when rule) in
      if verdict \<noteq> RuleValid
      then (Inr (), summed (\<lambda>s. s\<lparr>as_invalidRules := as_invalidRules s @ [(tn_id tenant, ar_key rule, verdict)]\<rparr>) w)
      else let w = summed (\<lambda>s. s\<lparr>as_rulesEvaluated := Suc (as_rulesEvaluated s)\<rparr>) w;
               firings = find_where (\<lambda>f. af_tenantId f = tn_id tenant \<and> af_ruleKey f = ar_key rule) (aw_firings w)
           in try_loop (scan_entity env tenant rule firings) (scanned_entities env (tn_id tenant) rule) w)"

text \<open>The pack is read in the context of the caller under a bypass, not in the tenant's.\<close>

definition tenant_rules :: "alert_env \<Rightarrow> als \<Rightarrow> tenant_row \<Rightarrow> alert_rule list" where
  "tenant_rules env ctx tenant =
     map (\<lambda>x. alert_rule_of (obj_of x))
       (runAsSystem ''alert rule sweep: read pack''
          (\<lambda>ctx'. list_section (al_pins_ok env) (al_packs env) ctx' (tn_vertical tenant) ''alertRules'') ctx)"

definition sweep_tenant ::
  "alert_env \<Rightarrow> als \<Rightarrow> tenant_row \<Rightarrow> alert_world \<Rightarrow> (task_error + unit) \<times> alert_world" where
  "sweep_tenant env ctx tenant w =
     (let rules = tenant_rules env ctx tenant in
      if rules = [] then (Inr (), w)
      else try_loop (applyRule env tenant) rules
             (summed (\<lambda>s. s\<lparr>as_tenantsScanned := Suc (as_tenantsScanned s)\<rparr>) w))"

definition alert_sweep :: "alert_env \<Rightarrow> als \<Rightarrow> alert_world \<Rightarrow> (task_error + unit) \<times> alert_world" where
  "alert_sweep env ctx w =
     try_loop (sweep_tenant env ctx) (find_where (\<lambda>t. tn_status t \<in> {TenantActive, TenantTrial}) (al_tenants env))
       (w\<lparr>aw_summary := \<lparr>as_tenantsScanned = 0, as_rulesEvaluated = 0, as_entitiesScanned = 0, as_opened = 0,
            as_notified = 0, as_escalated = 0, as_resolved = 0, as_tasksCreated = 0, as_invalidRules = []\<rparr>\<rparr>)"

definition listOpen :: "str \<Rightarrow> alert_world \<Rightarrow> alert_firing list" where
  "listOpen tenantId w =
     take 200 (sort_key (\<lambda>f. - af_firstMatchedAt f)
       (find_where (\<lambda>f. af_tenantId f = tenantId \<and> af_resolvedAt f = None) (aw_firings w)))"

definition listResolved :: "str \<Rightarrow> nat \<Rightarrow> alert_world \<Rightarrow> alert_firing list" where
  "listResolved tenantId limit w =
     take limit (sort_key (\<lambda>f. - the (af_resolvedAt f))
       (find_where (\<lambda>f. af_tenantId f = tenantId \<and> af_resolvedAt f \<noteq> None) (aw_firings w)))"

section \<open>The memory of a rule and a record\<close>

definition firing_of :: "alert_world \<Rightarrow> str \<Rightarrow> str \<Rightarrow> str \<Rightarrow> alert_firing option" where
  "firing_of w T k i =
     find_one (\<lambda>f. af_tenantId f = T \<and> af_ruleKey f = k \<and> af_entityId f = i) (aw_firings w)"

abbreviation firing_key :: "alert_firing \<Rightarrow> str \<times> str \<times> str" where
  "firing_key f \<equiv> (af_tenantId f, af_ruleKey f, af_entityId f)"

definition firing_ok :: "task_db \<Rightarrow> alert_firing \<Rightarrow> bool" where
  "firing_ok db f \<longleftrightarrow> af_lastNotifiedAt f \<noteq> None \<and> 0 < af_notifyCount f
     \<and> (\<forall>i. af_taskId f = Some i \<longrightarrow> i \<in> ta_id ` set (td_tasks db))"

text \<open>
  One firing for a tenant, rule and record, as the unique index has it; each was notified at
  least once, and a task it names exists.
\<close>

definition alert_inv :: "alert_world \<Rightarrow> bool" where
  "alert_inv w \<longleftrightarrow> keys_distinct ta_id (td_tasks (aw_tasks w)) \<and> keys_distinct af_id (aw_firings w)
     \<and> inj_on firing_key (set (aw_firings w)) \<and> (\<forall>f \<in> set (aw_firings w). firing_ok (aw_tasks w) f)"

lemma alert_inv_summed [simp]:
  "alert_inv (summed g w) \<longleftrightarrow> alert_inv w" "firing_of (summed g w) = firing_of w"
  "aw_firings (summed g w) = aw_firings w" "aw_tasks (summed g w) = aw_tasks w"
  by (simp_all add: alert_inv_def summed_def firing_of_def fun_eq_iff)

lemma firing_of_SomeD:
  "firing_of w T k i = Some f \<Longrightarrow> f \<in> set (aw_firings w) \<and> firing_key f = (T, k, i)"
  by (auto simp: firing_of_def dest: find_one_SomeD)

lemma firing_of_iff:
  assumes "inj_on firing_key (set (aw_firings w))"
  shows "firing_of w T k i = Some f \<longleftrightarrow> f \<in> set (aw_firings w) \<and> firing_key f = (T, k, i)"
proof
  assume f: "f \<in> set (aw_firings w) \<and> firing_key f = (T, k, i)"
  then have "firing_of w T k i \<noteq> None" by (auto simp: firing_of_def find_one_None_iff)
  then obtain g where g: "firing_of w T k i = Some g" by blast
  then have "g = f" using firing_of_SomeD [OF g] f assms by (auto simp: inj_on_def)
  with g show "firing_of w T k i = Some f" by simp
qed (rule firing_of_SomeD)

lemma firing_of_eqI:
  assumes "inj_on firing_key (set (aw_firings w))" "inj_on firing_key (set (aw_firings w'))"
    "\<And>f. firing_key f = (T, k, i) \<Longrightarrow> f \<in> set (aw_firings w) \<longleftrightarrow> f \<in> set (aw_firings w')"
  shows "firing_of w T k i = firing_of w' T k i"
proof -
  have "firing_of w T k i = Some f \<longleftrightarrow> firing_of w' T k i = Some f" for f
    using assms(3) by (auto simp: firing_of_iff [OF assms(1)] firing_of_iff [OF assms(2)])
  then show ?thesis by (metis option.exhaust)
qed

text \<open>Storing a firing under the id its key already has, or under a new one.\<close>

lemma save_firing_inv:
  assumes "alert_inv w" "firing_ok (aw_tasks w) f"
    "\<forall>g \<in> set (aw_firings w). af_id g = af_id f \<longleftrightarrow> firing_key g = firing_key f"
  shows "alert_inv (save_firing f w)"
    "firing_of (save_firing f w) T k i = (if (T, k, i) = firing_key f then Some f else firing_of w T k i)"
proof -
  have distinct: "keys_distinct af_id (aw_firings w)" using assms(1) by (simp add: alert_inv_def)
  then have rows: "set (aw_firings (save_firing f w)) = insert f {g \<in> set (aw_firings w). af_id g \<noteq> af_id f}"
    by (simp add: save_firing_def set_save_row)
  have old: "inj_on firing_key (set (aw_firings w))" using assms(1) by (simp add: alert_inv_def)
  then have inj: "inj_on firing_key (set (aw_firings (save_firing f w)))"
    unfolding rows using assms(3) by (auto simp: inj_on_def)
  have "\<forall>g \<in> set (aw_firings (save_firing f w)). firing_ok (aw_tasks w) g"
    unfolding rows using assms(1,2) by (auto simp: alert_inv_def)
  with inj show "alert_inv (save_firing f w)"
    using assms(1) distinct by (simp add: alert_inv_def save_firing_def keys_distinct_save)
  show "firing_of (save_firing f w) T k i = (if (T, k, i) = firing_key f then Some f else firing_of w T k i)"
  proof (cases "(T, k, i) = firing_key f")
    case True
    then show ?thesis by (simp add: firing_of_iff [OF inj] rows)
  next
    case False
    have "firing_of (save_firing f w) T k i = firing_of w T k i"
    proof (rule firing_of_eqI [OF inj old])
      fix g assume "firing_key g = (T, k, i)"
      then show "g \<in> set (aw_firings (save_firing f w)) \<longleftrightarrow> g \<in> set (aw_firings w)"
        using False assms(3) unfolding rows by auto
    qed
    with False show ?thesis by auto
  qed
qed

section \<open>One match\<close>

lemma createTask_alert:
  assumes "keys_distinct ta_id (td_tasks db)"
  shows "\<exists>t. createTask i now T (alert_task rule e a) db = (Inr t, db\<lparr>td_tasks := save_row ta_id t (td_tasks db)\<rparr>) \<and> ta_id t = i"
proof -
  obtain r db' where c: "createTask i now T (alert_task rule e a) db = (r, db')" by fastforce
  have "fst (createTask i now T (alert_task rule e a) db) \<noteq> Inl x" for x
  proof -
    define prio where "prio = (if ar_severity rule = Some AlertCritical then TaskUrgent else TaskMedium)"
    define t where "t = new_task i now T (alert_task rule e a) TaskAction prio"
    have "map_of task_types ''action'' = Some TaskAction"
      "map_of task_priorities (if ar_severity rule = Some AlertCritical then ''urgent'' else ''medium'') = Some prio"
      by (simp_all add: task_types_def task_priorities_def prio_def)
    moreover have "findTaskOrThrow (db\<lparr>td_tasks := save_row ta_id t (td_tasks db)\<rparr>) (ta_id t) T = Inr t"
      using assms by (subst findTask_Inr_iff) (simp_all add: keys_distinct_save set_save_row t_def new_task_def)
    ultimately show ?thesis
      by (simp add: createTask_def alert_task_def enum_value_def Let_def t_def)
  qed
  then show ?thesis using c by (cases rule: createTask_cases [OF c assms]) auto
qed

lemma raise_alert_result:
  assumes "keys_distinct ta_id (td_tasks (aw_tasks w))"
  obtains f' w' where "raise_alert env tenant rule e f w = (Inr f', w')"
    "f' = f\<lparr>af_lastNotifiedAt := Some (al_now env), af_notifyCount := Suc (af_notifyCount f), af_taskId := af_taskId f'\<rparr>"
    "aw_firings w' = aw_firings w" "keys_distinct ta_id (td_tasks (aw_tasks w'))"
    "ta_id ` set (td_tasks (aw_tasks w)) \<subseteq> ta_id ` set (td_tasks (aw_tasks w'))"
    "af_taskId f' = af_taskId f \<or> (\<not> truthy_str (af_taskId f) \<and> (\<exists>i \<in> ta_id ` set (td_tasks (aw_tasks w')). af_taskId f' = Some i))"
    "truthy_str (af_taskId f) \<longrightarrow> aw_tasks w' = aw_tasks w"
proof (cases "raise_alert env tenant rule e f w = (Inr (f\<lparr>af_lastNotifiedAt := Some (al_now env), af_notifyCount := Suc (af_notifyCount f)\<rparr>),
    summed (\<lambda>s. s\<lparr>as_notified := Suc (as_notified s)\<rparr>)
      (w\<lparr>aw_notices := aw_notices w @ alert_notify tenant rule e (recipientsFor env (tn_id tenant) (nullish (ar_notifyRoles rule) []) e) False\<rparr>))")
  case True
  show thesis by (rule that [OF True]) (simp_all add: assms summed_def)
next
  case False
  let ?rs = "recipientsFor env (tn_id tenant) (nullish (ar_notifyRoles rule) []) e"
  let ?w1 = "summed (\<lambda>s. s\<lparr>as_notified := Suc (as_notified s)\<rparr>) (w\<lparr>aw_notices := aw_notices w @ alert_notify tenant rule e ?rs False\<rparr>)"
  obtain a where a: "ar_createTask rule \<and> \<not> truthy_str (af_taskId f)" "a \<noteq> []"
      "nullish_opt (text_of ''assignedTo'' e) (case ?rs of [] \<Rightarrow> None | r # _ \<Rightarrow> Some r) = Some a"
    using False by (auto simp: raise_alert_def Let_def split: if_splits option.splits)
  obtain t where t: "createTask (al_taskId env (aw_tasks w)) (al_now env) (tn_id tenant) (alert_task rule e a) (aw_tasks w)
      = (Inr t, (aw_tasks w)\<lparr>td_tasks := save_row ta_id t (td_tasks (aw_tasks w))\<rparr>)"
    using createTask_alert [OF assms] by blast
  let ?db = "(aw_tasks w)\<lparr>td_tasks := save_row ta_id t (td_tasks (aw_tasks w))\<rparr>"
  have run: "raise_alert env tenant rule e f w =
      (Inr (f\<lparr>af_lastNotifiedAt := Some (al_now env), af_notifyCount := Suc (af_notifyCount f), af_taskId := Some (ta_id t)\<rparr>),
       summed (\<lambda>s. s\<lparr>as_tasksCreated := Suc (as_tasksCreated s)\<rparr>) (?w1\<lparr>aw_tasks := ?db\<rparr>))"
    using a t by (simp add: raise_alert_def Let_def summed_def)
  show thesis
    by (rule that [OF run]) (use a assms in \<open>simp_all add: summed_def keys_distinct_save keys_save subset_insertI\<close>)
qed

lemma escalate_alert_result:
  assumes "escalate_alert env tenant rule e f w = (f', w')"
  shows "aw_firings w' = aw_firings w" "aw_tasks w' = aw_tasks w"
    "f' = f \<or> (f' = f\<lparr>af_escalatedAt := Some (al_now env)\<rparr> \<and> af_escalatedAt f = None
       \<and> (\<exists>h. ar_escalateAfterHours rule = Some h \<and> hours_passed h (al_now env - af_firstMatchedAt f)))"
  using assms by (auto simp: escalate_alert_def Let_def summed_def split: option.splits if_splits)

text \<open>
  The incident of a record, as the documentation of the firing has it: since when the condition holds, when it was last
  notified, how often, when it was escalated, and its task. While the condition holds the incident is
  notified after every cooldown and escalated once, after the delay; an incident that was resolved
  starts anew, with the task it had.
\<close>

record incident =
  ic_since :: instant
  ic_notified :: "instant option"
  ic_count :: nat
  ic_escalated :: "instant option"
  ic_task :: "str option"

definition incident_of :: "alert_firing \<Rightarrow> incident" where
  "incident_of f = \<lparr>ic_since = af_firstMatchedAt f, ic_notified = af_lastNotifiedAt f, ic_count = af_notifyCount f,
     ic_escalated = af_escalatedAt f, ic_task = af_taskId f\<rparr>"

definition incident_at :: "instant \<Rightarrow> alert_firing option \<Rightarrow> incident" where
  "incident_at now old =
     (if is_open old then incident_of (the old)
      else \<lparr>ic_since = now, ic_notified = None, ic_count = 0, ic_escalated = None, ic_task = Option.bind old af_taskId\<rparr>)"

definition incident_step :: "alert_rule \<Rightarrow> instant \<Rightarrow> incident \<Rightarrow> incident \<Rightarrow> bool" where
  "incident_step rule now c c' \<longleftrightarrow>
     ic_since c' = ic_since c
     \<and> (if (case ic_notified c of None \<Rightarrow> True
            | Some t \<Rightarrow> hours_passed (nullish (ar_cooldownHours rule) (Fin 24 0)) (now - t))
        then ic_notified c' = Some now \<and> ic_count c' = Suc (ic_count c)
        else ic_notified c' = ic_notified c \<and> ic_count c' = ic_count c)
     \<and> (ic_escalated c' = ic_escalated c
        \<or> ic_escalated c = None \<and> ic_escalated c' = Some now
          \<and> (\<exists>h. ar_escalateAfterHours rule = Some h \<and> hours_passed h (now - ic_since c)))
     \<and> (truthy_str (ic_task c) \<longrightarrow> ic_task c' = ic_task c)"

definition resolved_at :: "instant \<Rightarrow> alert_firing \<Rightarrow> alert_firing" where
  "resolved_at now f = (if af_resolvedAt f = None then f\<lparr>af_resolvedAt := Some now\<rparr> else f)"

text \<open>What a pass makes of the firing of a record for which the condition holds or not.\<close>

definition pass_of :: "alert_rule \<Rightarrow> instant \<Rightarrow> bool \<Rightarrow> alert_firing option \<Rightarrow> alert_firing option \<Rightarrow> bool" where
  "pass_of rule now holds old new \<longleftrightarrow>
     (if holds
      then \<exists>f. new = Some f \<and> af_resolvedAt f = None \<and> af_lastMatchedAt f = now
             \<and> incident_step rule now (incident_at now old) (incident_of f)
      else new = map_option (resolved_at now) old)"

lemma start_firing_facts:
  assumes "\<forall>g. existing = Some g \<longrightarrow> firing_key g = (T, ar_key rule, en_text ''id'' e)"
    "f = start_firing newId now T rule e existing"
  shows "firing_key f = (T, ar_key rule, en_text ''id'' e)" "af_resolvedAt f = None \<and> af_lastMatchedAt f = now"
    "incident_of f = incident_at now existing" "af_taskId f = Option.bind existing af_taskId"
    "af_id f = (case existing of None \<Rightarrow> newId | Some g \<Rightarrow> af_id g)"
    "\<not> due_for_notify rule now f \<Longrightarrow> \<exists>g. existing = Some g \<and> af_lastNotifiedAt f = af_lastNotifiedAt g \<and> af_notifyCount f = af_notifyCount g"
proof -
  note defs = assms(2) start_firing_def opened_firing_def is_open_def
  show "firing_key f = (T, ar_key rule, en_text ''id'' e)"
    by (cases existing) (use assms(1) in \<open>auto simp: defs\<close>)
  show "af_resolvedAt f = None \<and> af_lastMatchedAt f = now" "af_taskId f = Option.bind existing af_taskId"
    "af_id f = (case existing of None \<Rightarrow> newId | Some g \<Rightarrow> af_id g)"
    by (cases existing; simp add: defs)+
  show "incident_of f = incident_at now existing"
    by (cases existing) (simp_all add: defs incident_of_def incident_at_def)
  assume "\<not> due_for_notify rule now f"
  then show "\<exists>g. existing = Some g \<and> af_lastNotifiedAt f = af_lastNotifiedAt g \<and> af_notifyCount f = af_notifyCount g"
    by (cases existing) (auto simp: defs due_for_notify_def split: if_splits)
qed

lemma raise_when_due:
  assumes "keys_distinct ta_id (td_tasks (aw_tasks w))"
    "\<And>i. af_taskId f = Some i \<Longrightarrow> i \<in> ta_id ` set (td_tasks (aw_tasks w))"
  obtains f1 w1 where
    "(if due_for_notify rule (al_now env) f then raise_alert env tenant rule e f w else (Inr f, w)) = (Inr f1, w1)"
    "f1 = f\<lparr>af_lastNotifiedAt := (if due_for_notify rule (al_now env) f then Some (al_now env) else af_lastNotifiedAt f),
            af_notifyCount := (if due_for_notify rule (al_now env) f then Suc (af_notifyCount f) else af_notifyCount f),
            af_taskId := af_taskId f1\<rparr>"
    "truthy_str (af_taskId f) \<longrightarrow> af_taskId f1 = af_taskId f"
    "aw_firings w1 = aw_firings w" "keys_distinct ta_id (td_tasks (aw_tasks w1))"
    "ta_id ` set (td_tasks (aw_tasks w)) \<subseteq> ta_id ` set (td_tasks (aw_tasks w1))"
    "\<forall>i. af_taskId f1 = Some i \<longrightarrow> i \<in> ta_id ` set (td_tasks (aw_tasks w1))"
proof (cases "due_for_notify rule (al_now env) f")
  case True
  obtain f' w' where r: "raise_alert env tenant rule e f w = (Inr f', w')"
    "f' = f\<lparr>af_lastNotifiedAt := Some (al_now env), af_notifyCount := Suc (af_notifyCount f), af_taskId := af_taskId f'\<rparr>"
    "aw_firings w' = aw_firings w" "keys_distinct ta_id (td_tasks (aw_tasks w'))"
    "ta_id ` set (td_tasks (aw_tasks w)) \<subseteq> ta_id ` set (td_tasks (aw_tasks w'))"
    "af_taskId f' = af_taskId f \<or> (\<not> truthy_str (af_taskId f) \<and> (\<exists>i \<in> ta_id ` set (td_tasks (aw_tasks w')). af_taskId f' = Some i))"
    "truthy_str (af_taskId f) \<longrightarrow> aw_tasks w' = aw_tasks w"
    by (rule raise_alert_result [OF assms(1)])
  have "\<forall>i. af_taskId f' = Some i \<longrightarrow> i \<in> ta_id ` set (td_tasks (aw_tasks w'))"
    using r(5,6) assms(2) by auto
  then show thesis using True r by (intro that [of f' w']) auto
next
  case False
  then show thesis using assms by (intro that [of f w]) auto
qed

lemma handleMatch_result:
  assumes "alert_inv w" "existing = firing_of w (tn_id tenant) (ar_key rule) (en_text ''id'' e)"
    "\<And>fs. al_firingId env fs \<notin> af_id ` set fs"
  obtains w' where "handleMatch env tenant rule e existing w = (Inr (), w')" "alert_inv w'"
    "\<forall>T k i. (T, k, i) \<noteq> (tn_id tenant, ar_key rule, en_text ''id'' e) \<longrightarrow> firing_of w' T k i = firing_of w T k i"
    "pass_of rule (al_now env) True existing (firing_of w' (tn_id tenant) (ar_key rule) (en_text ''id'' e))"
proof -
  let ?now = "al_now env"
  define f where "f = start_firing (al_firingId env (aw_firings w)) ?now (tn_id tenant) rule e existing"
  define w0 where "w0 = (if is_open existing then w else summed (\<lambda>s. s\<lparr>as_opened := Suc (as_opened s)\<rparr>) w)"
  have w0: "aw_firings w0 = aw_firings w" "aw_tasks w0 = aw_tasks w" by (simp_all add: w0_def)
  have old: "g \<in> set (aw_firings w)" "firing_key g = (tn_id tenant, ar_key rule, en_text ''id'' e)" if "existing = Some g" for g
    using firing_of_SomeD [of w "tn_id tenant" "ar_key rule" "en_text ''id'' e" g] that assms(2) by simp_all
  then have "\<forall>g. existing = Some g \<longrightarrow> firing_key g = (tn_id tenant, ar_key rule, en_text ''id'' e)" by blast
  note start = start_firing_facts [OF this f_def]
  have distinct: "keys_distinct ta_id (td_tasks (aw_tasks w0))" using assms(1) w0 by (simp add: alert_inv_def)
  have task: "i \<in> ta_id ` set (td_tasks (aw_tasks w0))" if "af_taskId f = Some i" for i
  proof -
    obtain g where g: "existing = Some g" "af_taskId g = Some i" using \<open>af_taskId f = Some i\<close> start(4) by (cases existing) auto
    then have "firing_ok (aw_tasks w) g" using old(1) assms(1) by (simp add: alert_inv_def)
    with g show ?thesis by (simp add: firing_ok_def w0)
  qed
  obtain f1 w1 where raised:
    "(if due_for_notify rule ?now f then raise_alert env tenant rule e f w0 else (Inr f, w0)) = (Inr f1, w1)"
    and f1: "f1 = f\<lparr>af_lastNotifiedAt := (if due_for_notify rule ?now f then Some ?now else af_lastNotifiedAt f),
            af_notifyCount := (if due_for_notify rule ?now f then Suc (af_notifyCount f) else af_notifyCount f),
            af_taskId := af_taskId f1\<rparr>"
    and kept: "truthy_str (af_taskId f) \<longrightarrow> af_taskId f1 = af_taskId f"
    and w1: "aw_firings w1 = aw_firings w0" "keys_distinct ta_id (td_tasks (aw_tasks w1))"
      "ta_id ` set (td_tasks (aw_tasks w0)) \<subseteq> ta_id ` set (td_tasks (aw_tasks w1))"
      "\<forall>i. af_taskId f1 = Some i \<longrightarrow> i \<in> ta_id ` set (td_tasks (aw_tasks w1))"
    by (rule raise_when_due [OF distinct task])
  obtain f2 w2 where esc: "escalate_alert env tenant rule e f1 w1 = (f2, w2)" by fastforce
  note esc' = escalate_alert_result [OF esc]
  have f1': "af_resolvedAt f1 = None" "af_lastMatchedAt f1 = ?now" "af_id f1 = af_id f" "firing_key f1 = firing_key f"
    "af_firstMatchedAt f1 = af_firstMatchedAt f" "af_escalatedAt f1 = af_escalatedAt f"
    "af_lastNotifiedAt f1 = (if due_for_notify rule ?now f then Some ?now else af_lastNotifiedAt f)"
    "af_notifyCount f1 = (if due_for_notify rule ?now f then Suc (af_notifyCount f) else af_notifyCount f)"
    using start(2) by (subst f1, simp)+
  have f2: "af_resolvedAt f2 = None" "af_lastMatchedAt f2 = ?now" "af_id f2 = af_id f" "firing_key f2 = firing_key f"
    "af_firstMatchedAt f2 = af_firstMatchedAt f" "af_lastNotifiedAt f2 = af_lastNotifiedAt f1"
    "af_notifyCount f2 = af_notifyCount f1" "af_taskId f2 = af_taskId f1"
    using esc'(3) f1' by auto
  have run: "handleMatch env tenant rule e existing w = (Inr (), save_firing f2 w2)"
    unfolding handleMatch_def Let_def f_def [symmetric] w0_def [symmetric] raised by (simp add: esc)
  have rows: "aw_firings w2 = aw_firings w" using esc'(1) w1(1) w0(1) by simp
  have inv2: "alert_inv w2"
    using assms(1) w1(2,3) w0(2) esc'(2) rows by (auto simp: alert_inv_def firing_ok_def)
  have "af_lastNotifiedAt f1 \<noteq> None \<and> 0 < af_notifyCount f1"
  proof (cases "due_for_notify rule ?now f")
    case False
    obtain g where g: "existing = Some g" "af_lastNotifiedAt f = af_lastNotifiedAt g" "af_notifyCount f = af_notifyCount g"
      using start(6) [OF False] by blast
    have "firing_ok (aw_tasks w) g" using old(1) [OF g(1)] assms(1) by (simp add: alert_inv_def)
    then show ?thesis using f1'(7,8) False g by (simp add: firing_ok_def)
  qed (simp add: f1'(7,8))
  then have ok: "firing_ok (aw_tasks w2) f2"
    using w1(4) f2(6-8) esc'(2) by (simp add: firing_ok_def)
  have same: "\<forall>g \<in> set (aw_firings w2). af_id g = af_id f2 \<longleftrightarrow> firing_key g = firing_key f2"
  proof
    fix g assume "g \<in> set (aw_firings w2)"
    then have g: "g \<in> set (aw_firings w)" using rows by simp
    show "af_id g = af_id f2 \<longleftrightarrow> firing_key g = firing_key f2"
    proof (cases existing)
      case None
      then have "firing_key g \<noteq> (tn_id tenant, ar_key rule, en_text ''id'' e)"
        using g assms(2) by (auto simp: firing_of_def find_one_None_iff)
      moreover have "af_id g \<noteq> al_firingId env (aw_firings w)" using g assms(3) by (metis imageI)
      ultimately show ?thesis using f2(3,4) start(1,5) None by simp
    next
      case (Some h)
      have "firing_key h = firing_key f2" "af_id f2 = af_id h"
        using old(2) [OF Some] f2(3,4) start(1,5) Some by simp_all
      then show ?thesis using g old(1) [OF Some] assms(1) unfolding alert_inv_def distinct_map
        by (metis (no_types, lifting) inj_on_eq_iff)
    qed
  qed
  note saved = save_firing_inv [OF inv2 ok same]
  have "firing_of w2 = firing_of w" using rows by (simp add: firing_of_def fun_eq_iff)
  then have after: "firing_of (save_firing f2 w2) T k i =
      (if (T, k, i) = (tn_id tenant, ar_key rule, en_text ''id'' e) then Some f2 else firing_of w T k i)" for T k i
    using saved(2) f2(4) start(1) by simp
  have "incident_step rule ?now (incident_of f) (incident_of f2)"
    using esc'(3) f1' f2(5-8) kept
    by (auto simp: incident_step_def incident_of_def due_for_notify_def split: option.splits if_splits)
  then show thesis
    using start(3) f2(1,2) by (intro that [OF run saved(1)]) (auto simp: after pass_of_def)
qed

section \<open>One pass of a rule\<close>

lemma scan_entity_result:
  assumes "alert_inv w" "map_get af_entityId firings (en_text ''id'' e) = firing_of w (tn_id tenant) (ar_key rule) (en_text ''id'' e)"
    "\<And>fs. al_firingId env fs \<notin> af_id ` set fs"
  obtains w' where "scan_entity env tenant rule firings e w = (Inr (), w')" "alert_inv w'"
    "\<forall>T k i. (T, k, i) \<noteq> (tn_id tenant, ar_key rule, en_text ''id'' e) \<longrightarrow> firing_of w' T k i = firing_of w T k i"
    "pass_of rule (al_now env) (rule_matches env rule e) (firing_of w (tn_id tenant) (ar_key rule) (en_text ''id'' e))
       (firing_of w' (tn_id tenant) (ar_key rule) (en_text ''id'' e))"
proof -
  let ?T = "tn_id tenant" and ?k = "ar_key rule" and ?i = "en_text ''id'' e"
  let ?w = "summed (\<lambda>s. s\<lparr>as_entitiesScanned := Suc (as_entitiesScanned s)\<rparr>) w"
  define old where "old = firing_of w ?T ?k ?i"
  have inv: "alert_inv ?w" "old = firing_of ?w ?T ?k ?i" using assms(1) by (simp_all add: old_def)
  consider "rule_matches env rule e" | f where "\<not> rule_matches env rule e" "old = Some f" "af_resolvedAt f = None"
    | "\<not> rule_matches env rule e" "\<not> is_open old" by (cases old) (auto simp: is_open_def)
  then show thesis
  proof cases
    case 1
    obtain w' where "handleMatch env tenant rule e old ?w = (Inr (), w')" "alert_inv w'"
      "\<forall>T k i. (T, k, i) \<noteq> (?T, ?k, ?i) \<longrightarrow> firing_of w' T k i = firing_of ?w T k i"
      "pass_of rule (al_now env) True old (firing_of w' ?T ?k ?i)"
      by (rule handleMatch_result [OF inv assms(3)])
    with 1 show thesis by (intro that [of w']) (simp_all add: scan_entity_def Let_def assms(2) old_def)
  next
    case (2 f)
    let ?f = "f\<lparr>af_resolvedAt := Some (al_now env)\<rparr>"
    have f: "f \<in> set (aw_firings w)" "firing_key f = (?T, ?k, ?i)"
      using firing_of_SomeD [of w ?T ?k ?i f] 2(2) by (simp_all add: old_def)
    have "firing_ok (aw_tasks ?w) ?f" using f(1) assms(1) by (auto simp: alert_inv_def firing_ok_def)
    moreover have "\<forall>g \<in> set (aw_firings ?w). af_id g = af_id ?f \<longleftrightarrow> firing_key g = firing_key ?f"
      using f(1) assms(1) by (auto simp: alert_inv_def distinct_map inj_on_def)
    ultimately have saved: "alert_inv (save_firing ?f ?w)"
      "firing_of (save_firing ?f ?w) T k i = (if (T, k, i) = (?T, ?k, ?i) then Some ?f else firing_of w T k i)" for T k i
      using save_firing_inv [OF inv(1)] f(2) by simp_all
    have run: "scan_entity env tenant rule firings e w =
        (Inr (), summed (\<lambda>s. s\<lparr>as_resolved := Suc (as_resolved s)\<rparr>) (save_firing ?f ?w))"
      using 2 by (simp add: scan_entity_def Let_def assms(2) old_def [symmetric] is_open_def)
    from 2 saved show thesis by (intro that [OF run]) (auto simp: pass_of_def resolved_at_def old_def [symmetric])
  next
    case 3
    then have run: "scan_entity env tenant rule firings e w = (Inr (), ?w)"
      by (simp add: scan_entity_def Let_def assms(2) old_def [symmetric])
    have "map_option (resolved_at (al_now env)) old = old"
      using 3(2) by (cases old) (auto simp: is_open_def resolved_at_def)
    then show thesis using 3 inv by (intro that [OF run]) (simp_all add: pass_of_def old_def)
  qed
qed

lemma scan_loop:
  assumes "distinct (map (en_text ''id'') es)" "alert_inv w" "\<And>fs. al_firingId env fs \<notin> af_id ` set fs"
    "\<And>e. e \<in> set es \<Longrightarrow> map_get af_entityId firings (en_text ''id'' e) = firing_of w (tn_id tenant) (ar_key rule) (en_text ''id'' e)"
  shows "\<exists>w'. try_loop (scan_entity env tenant rule firings) es w = (Inr (), w') \<and> alert_inv w'
    \<and> (\<forall>T k i. (T, k) \<noteq> (tn_id tenant, ar_key rule) \<or> i \<notin> en_text ''id'' ` set es \<longrightarrow> firing_of w' T k i = firing_of w T k i)
    \<and> (\<forall>e \<in> set es. pass_of rule (al_now env) (rule_matches env rule e)
         (firing_of w (tn_id tenant) (ar_key rule) (en_text ''id'' e)) (firing_of w' (tn_id tenant) (ar_key rule) (en_text ''id'' e)))"
  using assms(1,2,4)
proof (induction es arbitrary: w)
  case (Cons e es)
  let ?T = "tn_id tenant" and ?k = "ar_key rule"
  obtain w1 where w1: "scan_entity env tenant rule firings e w = (Inr (), w1)" "alert_inv w1"
    and frame: "\<forall>T k i. (T, k, i) \<noteq> (?T, ?k, en_text ''id'' e) \<longrightarrow> firing_of w1 T k i = firing_of w T k i"
    and pass: "pass_of rule (al_now env) (rule_matches env rule e) (firing_of w ?T ?k (en_text ''id'' e))
       (firing_of w1 ?T ?k (en_text ''id'' e))"
    by (rule scan_entity_result [OF Cons.prems(2) _ assms(3), of firings e tenant rule]) (use Cons.prems(3) in auto)
  have new: "en_text ''id'' e \<notin> en_text ''id'' ` set es" "distinct (map (en_text ''id'') es)" using Cons.prems(1) by simp_all
  have other: "firing_of w1 ?T ?k (en_text ''id'' x) = firing_of w ?T ?k (en_text ''id'' x)" if "x \<in> set es" for x
  proof -
    have "en_text ''id'' x \<noteq> en_text ''id'' e" using new(1) that by (metis imageI)
    then show ?thesis using frame by simp
  qed
  obtain w' where w': "try_loop (scan_entity env tenant rule firings) es w1 = (Inr (), w')" "alert_inv w'"
    "\<And>T k i. (T, k) \<noteq> (?T, ?k) \<or> i \<notin> en_text ''id'' ` set es \<Longrightarrow> firing_of w' T k i = firing_of w1 T k i"
    "\<And>x. x \<in> set es \<Longrightarrow> pass_of rule (al_now env) (rule_matches env rule x)
         (firing_of w1 ?T ?k (en_text ''id'' x)) (firing_of w' ?T ?k (en_text ''id'' x))"
    using Cons.IH [OF new(2) w1(2)] Cons.prems(3) other by auto
  have "firing_of w' ?T ?k (en_text ''id'' e) = firing_of w1 ?T ?k (en_text ''id'' e)" by (rule w'(3)) (use new(1) in simp)
  then have "\<forall>x \<in> set (e # es). pass_of rule (al_now env) (rule_matches env rule x)
         (firing_of w ?T ?k (en_text ''id'' x)) (firing_of w' ?T ?k (en_text ''id'' x))"
    using pass w'(4) other by auto
  moreover have "firing_of w' T k i = firing_of w T k i"
    if "(T, k) \<noteq> (?T, ?k) \<or> i \<notin> en_text ''id'' ` set (e # es)" for T k i
    using that w'(3) [of T k i] frame by auto
  ultimately show ?case using w1(1) w'(1,2) by (intro exI [of _ w']) simp
qed simp

lemma map_get_firings:
  assumes "alert_inv w"
  shows "map_get af_entityId (find_where (\<lambda>f. af_tenantId f = T \<and> af_ruleKey f = k) (aw_firings w)) i = firing_of w T k i"
proof -
  have inj: "inj_on firing_key (set (aw_firings w))" using assms by (simp add: alert_inv_def)
  have "map_get af_entityId (find_where (\<lambda>f. af_tenantId f = T \<and> af_ruleKey f = k) (aw_firings w)) i = Some f
      \<longleftrightarrow> firing_of w T k i = Some f" for f
  proof
    assume "map_get af_entityId (find_where (\<lambda>f. af_tenantId f = T \<and> af_ruleKey f = k) (aw_firings w)) i = Some f"
    then show "firing_of w T k i = Some f"
      using map_get_SomeD by (fastforce simp: firing_of_iff [OF inj] set_find_where)
  next
    assume f: "firing_of w T k i = Some f"
    then have "i \<in> af_entityId ` set (find_where (\<lambda>f. af_tenantId f = T \<and> af_ruleKey f = k) (aw_firings w))"
      by (auto simp: firing_of_iff [OF inj] set_find_where)
    then obtain g where g: "map_get af_entityId (find_where (\<lambda>f. af_tenantId f = T \<and> af_ruleKey f = k) (aw_firings w)) i = Some g"
      by (metis map_get_None_iff option.exhaust)
    from map_get_SomeD [OF g] f inj have "g = f"
      by (auto simp: firing_of_iff [OF inj] set_find_where inj_on_def)
    with g show "map_get af_entityId (find_where (\<lambda>f. af_tenantId f = T \<and> af_ruleKey f = k) (aw_firings w)) i = Some f" by simp
  qed
  then show ?thesis by (metis option.exhaust)
qed

lemma scanned_distinct: "distinct (map (en_text ''id'') (al_entities env)) \<Longrightarrow> distinct (map (en_text ''id'') (scanned_entities env T rule))"
  by (auto simp: scanned_entities_def find_where_def distinct_map intro!: distinct_take inj_on_subset [of _ "set (al_entities env)"]
      dest: in_set_takeD)

lemma applyRule_result:
  assumes "alert_inv w" "distinct (map (en_text ''id'') (al_entities env))" "\<And>fs. al_firingId env fs \<notin> af_id ` set fs"
  shows "\<exists>w'. applyRule env tenant rule w = (Inr (), w') \<and> alert_inv w'
    \<and> (validate (al_apply env) (ar_when rule) \<noteq> RuleValid \<longrightarrow> aw_firings w' = aw_firings w)
    \<and> (validate (al_apply env) (ar_when rule) = RuleValid \<longrightarrow>
       (\<forall>T k i. (T, k) \<noteq> (tn_id tenant, ar_key rule) \<or> i \<notin> en_text ''id'' ` set (scanned_entities env (tn_id tenant) rule)
          \<longrightarrow> firing_of w' T k i = firing_of w T k i)
       \<and> (\<forall>e \<in> set (scanned_entities env (tn_id tenant) rule).
            pass_of rule (al_now env) (rule_matches env rule e)
              (firing_of w (tn_id tenant) (ar_key rule) (en_text ''id'' e))
              (firing_of w' (tn_id tenant) (ar_key rule) (en_text ''id'' e))))"
proof (cases "validate (al_apply env) (ar_when rule) = RuleValid")
  case True
  let ?w = "summed (\<lambda>s. s\<lparr>as_rulesEvaluated := Suc (as_rulesEvaluated s)\<rparr>) w"
  have "alert_inv ?w" using assms(1) by simp
  from scan_loop [OF scanned_distinct [OF assms(2)] this assms(3), of "tn_id tenant" rule
      "find_where (\<lambda>f. af_tenantId f = tn_id tenant \<and> af_ruleKey f = ar_key rule) (aw_firings ?w)" tenant rule]
  show ?thesis using True map_get_firings [OF \<open>alert_inv ?w\<close>] by (simp add: applyRule_def Let_def)
next
  case False
  then show ?thesis using assms(1) by (simp add: applyRule_def Let_def)
qed


section \<open>The sweep\<close>

lemma try_loop_keeps:
  assumes "I s" "\<And>x s. x \<in> set xs \<Longrightarrow> I s \<Longrightarrow> \<exists>s'. body x s = (Inr (), s') \<and> I s'"
  shows "\<exists>s'. try_loop body xs s = (Inr (), s') \<and> I s'"
  using assms
proof (induction xs arbitrary: s)
  case (Cons x xs)
  obtain s1 where "body x s = (Inr (), s1)" "I s1" using Cons.prems by (meson list.set_intros(1))
  then show ?case using Cons.IH [of s1] Cons.prems(2) by simp
qed simp

text \<open>
  A sweep over any tenants, packs and records runs to its end, and leaves one firing for
  a tenant, rule and record, each notified and with no task but an existing one.
\<close>

theorem alert_sweep_completes:
  assumes "alert_inv w" "distinct (map (en_text ''id'') (al_entities env))" "\<And>fs. al_firingId env fs \<notin> af_id ` set fs"
  shows "\<exists>w'. alert_sweep env ctx w = (Inr (), w') \<and> alert_inv w'"
proof -
  have "\<exists>w'. sweep_tenant env ctx tenant w = (Inr (), w') \<and> alert_inv w'" if inv: "alert_inv w" for tenant w
  proof (cases "tenant_rules env ctx tenant = []")
    case False
    have "alert_inv (summed (\<lambda>s. s\<lparr>as_tenantsScanned := Suc (as_tenantsScanned s)\<rparr>) w)" using inv by simp
    then have "\<exists>w'. try_loop (applyRule env tenant) (tenant_rules env ctx tenant)
        (summed (\<lambda>s. s\<lparr>as_tenantsScanned := Suc (as_tenantsScanned s)\<rparr>) w) = (Inr (), w') \<and> alert_inv w'"
      by (rule try_loop_keeps) (use applyRule_result [OF _ assms(2,3)] in blast)
    then show ?thesis using False by (simp add: sweep_tenant_def Let_def)
  qed (use inv in \<open>simp add: sweep_tenant_def Let_def\<close>)
  moreover have "alert_inv (w\<lparr>aw_summary := s\<rparr>)" for s using assms(1) by (simp add: alert_inv_def)
  ultimately show ?thesis unfolding alert_sweep_def by (intro try_loop_keeps)
qed

text \<open>
  An incident that returns gets no task of its own: the firing kept the task of the one
  that was resolved, so the tasks are as they were, whatever became of that task.
\<close>

theorem returning_incident_gets_no_task:
  assumes "existing = Some f" "truthy_str (af_taskId f)" "handleMatch env tenant rule e existing w = (r, w')"
  shows "aw_tasks w' = aw_tasks w"
proof -
  have task: "af_taskId (start_firing i t T rule e existing) = af_taskId f" for i t T
    by (simp add: assms(1) start_firing_def opened_firing_def is_open_def)
  have "aw_tasks (snd (raise_alert env tenant rule e g v)) = aw_tasks v" if "af_taskId g = af_taskId f" for g v
    using assms(2) that by (simp add: raise_alert_def Let_def summed_def)
  then have raised: "aw_tasks v' = aw_tasks v" if "raise_alert env tenant rule e g v = (x, v')" "af_taskId g = af_taskId f" for g v x v'
    using that by (metis snd_conv)
  show ?thesis
    using assms(3) task
    by (auto simp: handleMatch_def Let_def save_firing_def split: prod.splits sum.splits if_splits
        dest!: raised escalate_alert_result(2))
qed

text \<open>
  The sweep of a scheduler, outside any tenant, reads the same rules whatever the
  tenants have pinned: the alert rules of a country overlay are never evaluated.
\<close>

theorem alert_sweep_ignores_pins:
  "alert_sweep (env\<lparr>al_packs := (al_packs env)\<lparr>pd_pins := pins\<rparr>\<rparr>) None w = alert_sweep env None w"
proof -
  let ?env = "env\<lparr>al_packs := (al_packs env)\<lparr>pd_pins := pins\<rparr>\<rparr>"
  have base: "base_for ((al_packs env)\<lparr>pd_pins := pins\<rparr>) v = base_for (al_packs env) v" for v
    by (simp add: base_for_def)
  have rules: "tenant_rules ?env None tenant = tenant_rules env None tenant" for tenant
    by (simp add: tenant_rules_def runAsSystem_def list_section_def pack_section_def sectionWithPack_def
        forVertical_def getTenantId_def spread_store_def base Let_def)
  have sel: "al_now ?env = al_now env" "al_taskId ?env = al_taskId env" "al_firingId ?env = al_firingId env"
    "al_users ?env = al_users env" "al_entities ?env = al_entities env" "al_apply ?env = al_apply env"
    "al_host_date ?env = al_host_date env" "al_tenants ?env = al_tenants env" by simp_all
  have recipients: "recipientsFor ?env = recipientsFor env" by (intro ext) (unfold recipientsFor_def sel, rule refl)
  have raised: "raise_alert ?env = raise_alert env" by (intro ext) (unfold raise_alert_def sel recipients, rule refl)
  have escalated: "escalate_alert ?env = escalate_alert env" by (intro ext) (unfold escalate_alert_def sel recipients, rule refl)
  have matched: "handleMatch ?env = handleMatch env" by (intro ext) (unfold handleMatch_def sel raised escalated, rule refl)
  have scanned: "scan_entity ?env = scan_entity env" by (intro ext) (unfold scan_entity_def rule_matches_def sel matched, rule refl)
  have applied: "applyRule ?env = applyRule env" by (intro ext) (unfold applyRule_def scanned_entities_def sel scanned, rule refl)
  have "sweep_tenant ?env None = sweep_tenant env None" by (intro ext) (unfold sweep_tenant_def rules applied, rule refl)
  then show ?thesis by (simp only: alert_sweep_def sel)
qed

section \<open>A sweep over one record\<close>

definition alert_pack :: config_pack where
  "alert_pack = demo_base\<lparr>cp_schema := [(''alertRules'', JArr [JObj [(''key'', JStr ''expiry''), (''label'', JStr ''Expiring''),
     (''entityType'', JStr ''case''), (''when'', JObj [(''var'', JStr ''id'')]), (''createTask'', JBool True),
     (''cooldownHours'', JNum ''24'')]])]\<rparr>"

definition longer_id :: "alert_firing list \<Rightarrow> str" where
  "longer_id fs = CHR ''x'' # concat (map af_id fs)"

definition alert_demo :: alert_env where
  "alert_demo = \<lparr>al_apply = (\<lambda>rule data. Inr (JBool True)), al_host_date = (\<lambda>_. None), al_pins_ok = True,
     al_packs = \<lparr>pd_packs = [alert_pack], pd_pins = [], pd_audit = []\<rparr>,
     al_tenants = [\<lparr>tn_id = ''T'', tn_status = TenantActive, tn_vertical = Some ''grc''\<rparr>],
     al_entities = [[(''id'', JStr ''c1''), (''tenantId'', JStr ''T''), (''type'', JStr ''case''), (''assignedTo'', JStr ''ann'')]],
     al_users = [], al_firingId = longer_id, al_taskId = (\<lambda>_. ''t1''), al_now = 1000\<rparr>"

definition no_alerts :: alert_world where
  "no_alerts = \<lparr>aw_firings = [], aw_tasks = \<lparr>td_tasks = [], td_comments = [], td_recurring = []\<rparr>, aw_notices = [],
     aw_summary = \<lparr>as_tenantsScanned = 0, as_rulesEvaluated = 0, as_entitiesScanned = 0, as_opened = 0,
       as_notified = 0, as_escalated = 0, as_resolved = 0, as_tasksCreated = 0, as_invalidRules = []\<rparr>\<rparr>"

lemma longer_id_fresh: "longer_id fs \<notin> af_id ` set fs"
proof
  assume "longer_id fs \<in> af_id ` set fs"
  then obtain f where f: "f \<in> set fs" "longer_id fs = af_id f" by blast
  then have "length (af_id f) \<le> length (concat (map af_id fs))"
    by (simp add: length_concat comp_def member_le_sum_list)
  moreover have "length (longer_id fs) = Suc (length (concat (map af_id fs)))" by (simp add: longer_id_def)
  ultimately show False using f(2) by simp
qed

lemma alert_demo_ok:
  "alert_inv no_alerts" "distinct (map (en_text ''id'') (al_entities alert_demo))"
  "al_firingId alert_demo fs \<notin> af_id ` set fs"
  by (simp_all add: no_alerts_def alert_inv_def alert_demo_def longer_id_fresh)

lemma alert_sweep_completes_witness:
  "(\<exists>w'. alert_sweep alert_demo None no_alerts = (Inr (), w') \<and> alert_inv w')
   \<and> map af_taskId (aw_firings (snd (alert_sweep alert_demo None no_alerts))) = [Some ''t1'']"
proof
  show "\<exists>w'. alert_sweep alert_demo None no_alerts = (Inr (), w') \<and> alert_inv w'"
    by (rule alert_sweep_completes [OF alert_demo_ok])
qed code_simp

definition expiry_rule :: alert_rule where
  "expiry_rule = alert_rule_of [(''key'', JStr ''expiry''), (''label'', JStr ''Expiring''), (''entityType'', JStr ''case''),
     (''when'', JObj [(''var'', JStr ''id'')])]"


lemma returning_incident_gets_no_task_witness:
  "let f = (opened_firing ''f'' 0 ''T'' expiry_rule [] None)\<lparr>af_resolvedAt := Some 5, af_taskId := Some ''t0''\<rparr>
   in aw_tasks (snd (handleMatch alert_demo (hd (al_tenants alert_demo)) (expiry_rule\<lparr>ar_createTask := True\<rparr>)
        (hd (al_entities alert_demo)) (Some f) no_alerts)) = aw_tasks no_alerts"
  unfolding Let_def by (rule returning_incident_gets_no_task [OF refl _ prod.collapse [symmetric]]) simp

end
