(* ===== verification/PackRules.thy ===== *)
theory PackRules
  imports DeepMerge VerticalPack
begin

text \<open>
  \<^verbatim>\<open>src/rules/pack-rule.service.ts\<close>: the declarative rules of a pack evaluated against one record, and
  the report of what matched, what could not be evaluated and why.
\<close>

section \<open>Rules and the report\<close>

datatype rule_severity = RuleInfo | RuleWarning | RuleError

definition rule_severities :: "(str \<times> rule_severity) list" where
  "rule_severities = [(''info'', RuleInfo), (''warning'', RuleWarning), (''error'', RuleError)]"

record pack_rule =
  pu_key :: str
  pu_label :: str
  pu_when :: js
  pu_message :: "str option"
  pu_severity :: "rule_severity option"

record rule_violation =
  rv_key :: str
  rv_label :: str
  rv_severity :: rule_severity
  rv_message :: "str option"

datatype skip_reason = NotEvaluable rule_verdict | RecordLacks "str list"

record rule_report =
  rr_pack :: "(str \<times> str) option"
  rr_evaluated :: nat
  rr_invalid :: "(str \<times> skip_reason) list"
  rr_skipped :: "(str \<times> skip_reason) list"
  rr_violations :: "rule_violation list"
  rr_blocked :: bool

definition pack_rule_of :: "js_obj \<Rightarrow> pack_rule" where
  "pack_rule_of ob =
     \<lparr>pu_key = nullish (text_of ''key'' ob) [], pu_label = nullish (text_of ''label'' ob) [],
      pu_when = (case obj_get ''when'' ob of None \<Rightarrow> JUndef | Some v \<Rightarrow> v), pu_message = text_of ''message'' ob,
      pu_severity = Option.bind (text_of ''severity'' ob) (map_of rule_severities)\<rparr>"

section \<open>Variables and messages\<close>

definition path_value :: "js_obj \<Rightarrow> str \<Rightarrow> js" where
  "path_value data path = lookup_path (JObj data) (split_on (CHR ''.'') path)"

definition var_text :: "js \<Rightarrow> str list" where
  "var_text v = (case v of JStr s \<Rightarrow> [s] | JArr (JStr s # _) \<Rightarrow> [s] | _ \<Rightarrow> [])"

text \<open>The names below a node, in the order they are met; a node with no key but \<open>var\<close> is a name and nothing more.\<close>

fun rule_vars :: "js \<Rightarrow> str list"
  and rule_vars_list :: "js list \<Rightarrow> str list"
  and rule_vars_entries :: "(str \<times> js) list \<Rightarrow> str list" where
  "rule_vars (JArr xs) = rule_vars_list xs"
| "rule_vars (JObj kvs) =
     (if map fst kvs = [''var''] then var_text (snd (hd kvs)) else rule_vars_entries kvs)"
| "rule_vars JUndef = []"
| "rule_vars JNull = []"
| "rule_vars (JBool b) = []"
| "rule_vars (JNum n) = []"
| "rule_vars (JStr s) = []"
| "rule_vars (JDate d) = []"
| "rule_vars_list [] = []"
| "rule_vars_list (x # xs) = rule_vars x @ rule_vars_list xs"
| "rule_vars_entries [] = []"
| "rule_vars_entries ((k, v) # kvs) = rule_vars v @ rule_vars_entries kvs"

definition missingVariables :: "js \<Rightarrow> js_obj \<Rightarrow> str list" where
  "missingVariables rule data =
     filter (\<lambda>n. path_value data n = JUndef) (fold set_add (rule_vars rule) [])"

definition path_char :: "char \<Rightarrow> bool" where
  "path_char c \<longleftrightarrow> is_word c \<or> c = CHR ''.''"

text \<open>A match of \<open>/\{\{\s*([\w.]+)\s*\}\}/\<close> at the front: the text of it, its path, and what follows it.\<close>

definition message_field :: "str \<Rightarrow> (str \<times> str \<times> str) option" where
  "message_field s =
     (let inner = dropWhile is_ws (drop 2 s); path = takeWhile path_char inner;
          rest = dropWhile is_ws (dropWhile path_char inner)
      in if take 2 s = ''{{'' \<and> path \<noteq> [] \<and> take 2 rest = ''}}''
         then Some (take (length s - length (drop 2 rest)) s, path, drop 2 rest) else None)"

lemma message_field_shorter: "message_field s = Some (whole, path, rest) \<Longrightarrow> length rest < length s"
proof -
  assume "message_field s = Some (whole, path, rest)"
  then have s: "take 2 s = ''{{''"
    and rest: "rest = drop 2 (dropWhile is_ws (dropWhile path_char (dropWhile is_ws (drop 2 s))))"
    by (auto simp: message_field_def Let_def split: if_splits)
  have "length rest \<le> length (drop 2 s)"
    unfolding rest by (metis (no_types, lifting) diff_le_self le_trans length_drop length_dropWhile_le)
  moreover have "s \<noteq> []" using s by auto
  ultimately show ?thesis by (cases s) auto
qed

function render_message :: "str \<Rightarrow> js_obj \<Rightarrow> str" where
  "render_message [] data = []"
| "render_message (c # cs) data =
     (case message_field (c # cs) of
        None \<Rightarrow> c # render_message cs data
      | Some (whole, path, rest) \<Rightarrow>
          (let v = path_value data path
           in (if v = JUndef \<or> v = JNull then whole else js_string v) @ render_message rest data))"
  by pat_completeness auto
termination render_message
  by (relation "measure (\<lambda>(s, _). length s)") (auto dest: message_field_shorter)

lemma render_examples:
  "render_message ''Due {{ a.b }}, {{c}}!'' [(''a'', JObj [(''b'', JStr ''now'')])] = ''Due now, {{c}}!''"
  by code_simp

section \<open>Evaluation\<close>

definition rule_data :: "js_obj \<Rightarrow> js_obj" where
  "rule_data row = obj_spread (case obj_get ''verticalAttributes'' row of Some (JObj a) \<Rightarrow> a | _ \<Rightarrow> []) row"

definition evaluate_rule ::
  "json_logic \<Rightarrow> (str \<Rightarrow> instant option) \<Rightarrow> instant \<Rightarrow> js_obj \<Rightarrow> pack_rule \<Rightarrow> rule_report \<Rightarrow> rule_report" where
  "evaluate_rule ev host_date now data rule rep =
     (let verdict = validate ev (pu_when rule) in
      if verdict \<noteq> RuleValid then rep\<lparr>rr_invalid := rr_invalid rep @ [(pu_key rule, NotEvaluable verdict)]\<rparr>
      else let missing = missingVariables (pu_when rule) data in
      if missing \<noteq> [] then rep\<lparr>rr_skipped := rr_skipped rep @ [(pu_key rule, RecordLacks missing)]\<rparr>
      else let rep = rep\<lparr>rr_evaluated := Suc (rr_evaluated rep)\<rparr> in
      if \<not> matches ev host_date now (pu_when rule) data then rep
      else let severity = nullish (pu_severity rule) RuleError;
               v = \<lparr>rv_key = pu_key rule, rv_label = pu_label rule, rv_severity = severity,
                    rv_message = (if truthy_str (pu_message rule)
                                  then Some (render_message (the (pu_message rule)) data) else None)\<rparr>
           in rep\<lparr>rr_violations := rr_violations rep @ [v],
                  rr_blocked := (if severity = RuleError then True else rr_blocked rep)\<rparr>)"

definition evaluate_pack ::
  "json_logic \<Rightarrow> (str \<Rightarrow> instant option) \<Rightarrow> instant \<Rightarrow> bool \<Rightarrow> pack_db \<Rightarrow> als \<Rightarrow> str option \<Rightarrow> js_obj \<Rightarrow> rule_report" where
  "evaluate_pack ev host_date now pins_ok packs ctx vertical row =
     (let (pack, sec) = sectionWithPack pins_ok packs ctx vertical ''rules'';
          rules = (case sec of Some (JArr xs) \<Rightarrow> map (\<lambda>x. pack_rule_of (obj_of x)) xs | _ \<Rightarrow> [])
      in fold (evaluate_rule ev host_date now (rule_data row)) rules
           \<lparr>rr_pack = map_option (\<lambda>p. (cp_code p, cp_version p)) pack, rr_evaluated = 0, rr_invalid = [],
            rr_skipped = [], rr_violations = [], rr_blocked = False\<rparr>)"

section \<open>What the report says\<close>

lemma fold_set_add: "set (fold set_add xs acc) = set acc \<union> set xs"
  by (induction xs arbitrary: acc) (auto simp: set_add_def)

lemma missing_Nil_iff: "missingVariables rule data = [] \<longleftrightarrow> (\<forall>n \<in> set (rule_vars rule). path_value data n \<noteq> JUndef)"
  by (auto simp: missingVariables_def filter_empty_conv fold_set_add)

text \<open>A rule that may be evaluated, and one that is violated.\<close>

definition evaluable :: "json_logic \<Rightarrow> js_obj \<Rightarrow> pack_rule \<Rightarrow> bool" where
  "evaluable ev data rule \<longleftrightarrow> validate ev (pu_when rule) = RuleValid
     \<and> (\<forall>n \<in> set (rule_vars (pu_when rule)). path_value data n \<noteq> JUndef)"

definition violated ::
  "json_logic \<Rightarrow> (str \<Rightarrow> instant option) \<Rightarrow> instant \<Rightarrow> js_obj \<Rightarrow> pack_rule \<Rightarrow> bool" where
  "violated ev host_date now data rule \<longleftrightarrow> evaluable ev data rule \<and> matches ev host_date now (pu_when rule) data"

text \<open>What one rule adds to the report.\<close>

lemma evaluate_rule_report:
  "rr_evaluated (evaluate_rule ev host_date now data r rep) = rr_evaluated rep + (if evaluable ev data r then 1 else 0)"
  "length (rr_invalid (evaluate_rule ev host_date now data r rep)) + length (rr_skipped (evaluate_rule ev host_date now data r rep))
     = length (rr_invalid rep) + length (rr_skipped rep) + (if evaluable ev data r then 0 else 1)"
  "map rv_key (rr_violations (evaluate_rule ev host_date now data r rep))
     = map rv_key (rr_violations rep) @ (if violated ev host_date now data r then [pu_key r] else [])"
  "rr_blocked (evaluate_rule ev host_date now data r rep) \<longleftrightarrow> rr_blocked rep
     \<or> violated ev host_date now data r \<and> nullish (pu_severity r) RuleError = RuleError"
proof -
  let ?out = "evaluate_rule ev host_date now data r rep"
  consider "validate ev (pu_when r) \<noteq> RuleValid" | "validate ev (pu_when r) = RuleValid" "missingVariables (pu_when r) data \<noteq> []"
    | "validate ev (pu_when r) = RuleValid" "missingVariables (pu_when r) data = []" by blast
  then have "rr_evaluated ?out = rr_evaluated rep + (if evaluable ev data r then 1 else 0)
    \<and> length (rr_invalid ?out) + length (rr_skipped ?out)
        = length (rr_invalid rep) + length (rr_skipped rep) + (if evaluable ev data r then 0 else 1)
    \<and> map rv_key (rr_violations ?out) = map rv_key (rr_violations rep) @ (if violated ev host_date now data r then [pu_key r] else [])
    \<and> (rr_blocked ?out \<longleftrightarrow> rr_blocked rep \<or> violated ev host_date now data r \<and> nullish (pu_severity r) RuleError = RuleError)"
  proof cases
    case 1
    then show ?thesis by (simp add: evaluate_rule_def evaluable_def violated_def Let_def)
  next
    case 2
    then have "\<not> evaluable ev data r" by (simp add: evaluable_def missing_Nil_iff)
    with 2 show ?thesis by (simp add: evaluate_rule_def violated_def Let_def)
  next
    case 3
    then have "evaluable ev data r" by (simp add: evaluable_def missing_Nil_iff)
    with 3 show ?thesis
      by (cases "matches ev host_date now (pu_when r) data") (simp_all add: evaluate_rule_def violated_def Let_def)
  qed
  then show "rr_evaluated ?out = rr_evaluated rep + (if evaluable ev data r then 1 else 0)"
    "length (rr_invalid ?out) + length (rr_skipped ?out)
       = length (rr_invalid rep) + length (rr_skipped rep) + (if evaluable ev data r then 0 else 1)"
    "map rv_key (rr_violations ?out) = map rv_key (rr_violations rep) @ (if violated ev host_date now data r then [pu_key r] else [])"
    "rr_blocked ?out \<longleftrightarrow> rr_blocked rep \<or> violated ev host_date now data r \<and> nullish (pu_severity r) RuleError = RuleError"
    by blast+
qed

lemma evaluate_rules_report:
  fixes rep :: rule_report
  shows "rr_evaluated (fold (evaluate_rule ev host_date now data) rules rep) = rr_evaluated rep + length (filter (evaluable ev data) rules)"
    "length (rr_invalid (fold (evaluate_rule ev host_date now data) rules rep)) + length (rr_skipped (fold (evaluate_rule ev host_date now data) rules rep))
       = length (rr_invalid rep) + length (rr_skipped rep) + length (filter (\<lambda>r. \<not> evaluable ev data r) rules)"
    "map rv_key (rr_violations (fold (evaluate_rule ev host_date now data) rules rep)) = map rv_key (rr_violations rep) @ map pu_key (filter (violated ev host_date now data) rules)"
    "rr_blocked (fold (evaluate_rule ev host_date now data) rules rep) \<longleftrightarrow> rr_blocked rep
       \<or> (\<exists>r \<in> set rules. violated ev host_date now data r \<and> nullish (pu_severity r) RuleError = RuleError)"
proof -
  show "rr_evaluated (fold (evaluate_rule ev host_date now data) rules rep) = rr_evaluated rep + length (filter (evaluable ev data) rules)"
    by (induction rules arbitrary: rep) (simp_all add: evaluate_rule_report)
  show "length (rr_invalid (fold (evaluate_rule ev host_date now data) rules rep)) + length (rr_skipped (fold (evaluate_rule ev host_date now data) rules rep))
       = length (rr_invalid rep) + length (rr_skipped rep) + length (filter (\<lambda>r. \<not> evaluable ev data r) rules)"
    by (induction rules arbitrary: rep) (simp_all add: evaluate_rule_report)
  show "map rv_key (rr_violations (fold (evaluate_rule ev host_date now data) rules rep)) = map rv_key (rr_violations rep) @ map pu_key (filter (violated ev host_date now data) rules)"
    by (induction rules arbitrary: rep) (simp_all add: evaluate_rule_report)
  show "rr_blocked (fold (evaluate_rule ev host_date now data) rules rep) \<longleftrightarrow> rr_blocked rep
       \<or> (\<exists>r \<in> set rules. violated ev host_date now data r \<and> nullish (pu_severity r) RuleError = RuleError)"
    by (induction rules arbitrary: rep) (auto simp: evaluate_rule_report)
qed


definition rules_pack :: config_pack where
  "rules_pack = demo_base\<lparr>cp_schema := [(''rules'', JArr [
     JObj [(''key'', JStr ''named''), (''label'', JStr ''Name''), (''when'', JObj [(''var'', JStr ''name'')])],
     JObj [(''key'', JStr ''aged''), (''label'', JStr ''Age''), (''when'', JObj [(''var'', JStr ''age'')])]])]\<rparr>"


end
