(* ===== verification/Notify.thy ===== *)
theory Notify
  imports Access VerticalPack DeepMerge
begin

text \<open>
  \<^verbatim>\<open>src/notifications/notifications.service.ts\<close> and \<^verbatim>\<open>notification-dispatch.service.ts\<close>: the rows of
  \<^verbatim>\<open>notifications\<close>, the preferences that keep some from being written, templates, reads and marks, and the
  sweeps that deliver what is pending and put failed attempts back.

  The mail provider, the receivers of webhooks, the signature and the database's refusal of a
  row are arguments; the calls made of the first two are a log in the state. The clock is UTC. The quiet hours
  are of the form HH:MM.

  TypeORM drops a condition whose value is null or undefined from a \<open>where\<close>, as
  \<^verbatim>\<open>src/iam/iam.service.ts\<close> says; and it refuses \<open>softDelete\<close> on an entity without a
  deletion column.
\<close>

section \<open>Rows\<close>

datatype channel = ChEmail | ChSms | ChWhatsapp | ChPush | ChInApp | ChSlack | ChTeams | ChWebhook

datatype notification_status =
  NtPending | NtQueued | NtSending | NtSent | NtDelivered | NtRead | NtFailed | NtRetrying | NtCancelled

datatype notification_priority = NtLow | NtNormal | NtHigh | NtUrgent

datatype notification_category =
  CatSystem | CatWorkflow | CatTask | CatBilling | CatSecurity | CatMarketing | CatCollaboration

fun channel_text :: "channel \<Rightarrow> str" where
  "channel_text ChEmail = ''email''"
| "channel_text ChSms = ''sms''"
| "channel_text ChWhatsapp = ''whatsapp''"
| "channel_text ChPush = ''push''"
| "channel_text ChInApp = ''in_app''"
| "channel_text ChSlack = ''slack''"
| "channel_text ChTeams = ''teams''"
| "channel_text ChWebhook = ''webhook''"

fun category_text :: "notification_category \<Rightarrow> str" where
  "category_text CatSystem = ''system''"
| "category_text CatWorkflow = ''workflow''"
| "category_text CatTask = ''task''"
| "category_text CatBilling = ''billing''"
| "category_text CatSecurity = ''security''"
| "category_text CatMarketing = ''marketing''"
| "category_text CatCollaboration = ''collaboration''"

record delivery_attempt =
  da_timestamp :: instant
  da_channel :: channel
  da_success :: bool
  da_error :: "str option"

record notification =
  nt_id :: str
  nt_tenantId :: str
  nt_type :: channel
  nt_status :: notification_status
  nt_priority :: notification_priority
  nt_category :: notification_category
  nt_threadKey :: "str option"
  nt_recipientId :: str
  nt_recipientEmail :: "str option"
  nt_subject :: str
  nt_content :: str
  nt_templateData :: js_obj
  nt_metadata :: js_obj
  nt_attempts :: "delivery_attempt list"
  nt_retryCount :: nat
  nt_scheduledAt :: "instant option"
  nt_sentAt :: "instant option"
  nt_readAt :: "instant option"
  nt_createdAt :: instant

record quiet_hours =
  qh_enabled :: bool
  qh_startTime :: str
  qh_endTime :: str

record preference =
  pf_id :: str
  pf_tenantId :: str
  pf_userId :: str
  pf_channels :: "(str \<times> bool) list"
  pf_categories :: "(notification_category \<times> bool \<times> channel list) list"
  pf_quietHours :: "quiet_hours option"
  pf_digest :: bool

record message_template =
  mt_id :: str
  mt_tenantId :: str
  mt_key :: str
  mt_name :: str
  mt_type :: str
  mt_subject :: str
  mt_content :: str
  mt_variables :: "str list"

datatype transport_call = MailSent str str str | WebhookPosted str str "str option"

record notify_world =
  nw_rows :: "notification list"
  nw_preferences :: "preference list"
  nw_templates :: "message_template list"
  nw_events :: "notification list"
  nw_calls :: "transport_call list"

datatype notify_error =
  RecipientRequired | TemplateNotFound str | NotificationNotFound | EmptyCriteria | NoDeletionColumn | InvalidChannel str

interpretation notification_repo:
  repository nt_id "\<lambda>t. by_key nt_id t" "save_row nt_id" "remove_row nt_id" "keys_distinct nt_id"
  by unfold_locales (auto simp: table_simps keys_distinct_save keys_distinct_remove dest: by_key_SomeD)

text \<open>\<open>/^[0-9a-f]{8}-[0-9a-f]{4}-[0-9a-f]{4}-[0-9a-f]{4}-[0-9a-f]{12}$/i\<close>.\<close>

definition is_uuid :: "str \<Rightarrow> bool" where
  "is_uuid s \<longleftrightarrow> length s = 36
     \<and> list_all (\<lambda>(i, c). if i \<in> {8, 13, 18, 23} then c = CHR ''-'' else hex_value c \<noteq> None) (zip [0..<36] s)"

section \<open>Preferences\<close>

definition default_preferences :: "str \<Rightarrow> str \<Rightarrow> str \<Rightarrow> preference" where
  "default_preferences newId tenantId userId =
     \<lparr>pf_id = newId, pf_tenantId = tenantId, pf_userId = userId,
      pf_channels = [(''email'', True), (''inApp'', True)],
      pf_categories = [(CatSystem, True, [ChInApp, ChEmail]), (CatWorkflow, True, [ChInApp, ChEmail]),
        (CatTask, True, [ChInApp]), (CatBilling, True, [ChEmail]), (CatSecurity, True, [ChEmail, ChInApp])],
      pf_quietHours = None, pf_digest = False\<rparr>"

definition getUserPreferences :: "str \<Rightarrow> str \<Rightarrow> str \<Rightarrow> notify_world \<Rightarrow> preference \<times> notify_world" where
  "getUserPreferences newId tenantId userId w =
     (case find_one (\<lambda>p. pf_tenantId p = tenantId \<and> pf_userId p = userId) (nw_preferences w) of
        Some p \<Rightarrow> (p, w)
      | None \<Rightarrow>
          (let p = default_preferences newId tenantId userId
           in (p, w\<lparr>nw_preferences := save_row pf_id p (nw_preferences w)\<rparr>)))"

definition updatePreferences ::
  "str \<Rightarrow> str \<Rightarrow> str \<Rightarrow> (preference \<Rightarrow> preference) \<Rightarrow> notify_world \<Rightarrow> preference \<times> notify_world" where
  "updatePreferences newId tenantId userId updates w =
     (let (p, w') = getUserPreferences newId tenantId userId w; p' = updates p
      in (p', w'\<lparr>nw_preferences := save_row pf_id p' (nw_preferences w')\<rparr>))"

record send_options =
  so_tenantId :: str
  so_type :: channel
  so_recipientId :: "str option"
  so_recipientEmail :: "str option"
  so_subject :: str
  so_content :: str
  so_priority :: "notification_priority option"
  so_category :: "notification_category option"
  so_metadata :: "js_obj option"
  so_templateData :: "js_obj option"

definition shouldSendNotification :: "preference \<Rightarrow> send_options \<Rightarrow> bool" where
  "shouldSendNotification p opts =
     (case map_of (pf_categories p) (nullish (so_category opts) CatSystem) of
        None \<Rightarrow> False
      | Some (enabled, channels) \<Rightarrow>
          enabled \<and> so_type opts \<in> set channels
          \<and> map_of (pf_channels p) (channel_text (so_type opts)) \<noteq> Some False)"

definition clock_text :: "instant \<Rightarrow> str" where
  "clock_text now = (let ms = now mod ms_per_day in pad_int 2 (ms div 3600000) @ '':'' @ pad_int 2 (ms div 60000 mod 60))"

definition isInQuietHours :: "preference \<Rightarrow> instant \<Rightarrow> bool" where
  "isInQuietHours p now =
     (case pf_quietHours p of
        None \<Rightarrow> False
      | Some q \<Rightarrow>
          qh_enabled q
          \<and> (let t = clock_text now in
             if str_less (qh_startTime q) (qh_endTime q)
             then \<not> str_less t (qh_startTime q) \<and> \<not> str_less (qh_endTime q) t
             else \<not> str_less t (qh_startTime q) \<or> \<not> str_less (qh_endTime q) t))"

definition getQuietHoursEnd :: "preference \<Rightarrow> instant \<Rightarrow> instant" where
  "getQuietHoursEnd p now =
     (case pf_quietHours p of
        None \<Rightarrow> now
      | Some q \<Rightarrow>
          if qh_endTime q = [] then now
          else let t = now - now mod ms_per_day + digits_value (take 2 (qh_endTime q)) * 3600000
                         + digits_value (take 2 (drop 3 (qh_endTime q))) * 60000
               in if t < now then t + ms_per_day else t)"

section \<open>Sending\<close>

definition threadKeyFor :: "send_options \<Rightarrow> str" where
  "threadKeyFor opts =
     (let m = nullish (so_metadata opts) [];
          counterparty = find_one truthy_str [text_of ''email'' m, text_of ''phone'' m, so_recipientEmail opts]
      in channel_text (so_type opts) @ '':''
         @ to_lower (trim (case counterparty of Some (Some s) \<Rightarrow> s | _ \<Rightarrow> nullish (so_recipientId opts) ''undefined'')))"

definition new_notification :: "str \<Rightarrow> instant \<Rightarrow> send_options \<Rightarrow> notification" where
  "new_notification newId now opts =
     \<lparr>nt_id = newId, nt_tenantId = so_tenantId opts, nt_type = so_type opts, nt_status = NtPending,
      nt_priority = nullish (so_priority opts) NtNormal, nt_category = nullish (so_category opts) CatSystem,
      nt_threadKey = Some (threadKeyFor opts),
      nt_recipientId = nullish (nullish_opt (so_recipientId opts) (so_recipientEmail opts)) [],
      nt_recipientEmail = so_recipientEmail opts, nt_subject = so_subject opts, nt_content = so_content opts,
      nt_templateData = nullish (so_templateData opts) [], nt_metadata = nullish (so_metadata opts) [],
      nt_attempts = [], nt_retryCount = 0, nt_scheduledAt = None, nt_sentAt = None, nt_readAt = None,
      nt_createdAt = now\<rparr>"

text \<open>A scheduled notification keeps the user it is for and not an address.\<close>

definition scheduleNotification ::
  "str \<Rightarrow> instant \<Rightarrow> send_options \<Rightarrow> instant \<Rightarrow> notify_world \<Rightarrow> notification \<times> notify_world" where
  "scheduleNotification newId now opts scheduledAt w =
     (let n = (new_notification newId now opts)\<lparr>nt_recipientId := nullish (so_recipientId opts) [],
                nt_recipientEmail := None, nt_scheduledAt := Some scheduledAt\<rparr>
      in (n, w\<lparr>nw_rows := save_row nt_id n (nw_rows w)\<rparr>))"

definition sendNotification ::
  "str \<Rightarrow> str \<Rightarrow> instant \<Rightarrow> send_options \<Rightarrow> notify_world \<Rightarrow> (notify_error + notification option) \<times> notify_world" where
  "sendNotification newId prefId now opts w =
     (if \<not> truthy_str (so_recipientId opts) \<and> \<not> truthy_str (so_recipientEmail opts) then (Inl RecipientRequired, w)
      else let known = (truthy_str (so_recipientId opts) \<and> is_uuid (the (so_recipientId opts)));
               (p, w) = (if known
                         then map_prod Some id (getUserPreferences prefId (so_tenantId opts) (the (so_recipientId opts)) w)
                         else (None, w))
           in if (case p of None \<Rightarrow> False | Some p \<Rightarrow> \<not> shouldSendNotification p opts) then (Inr None, w)
              else if (case p of None \<Rightarrow> False | Some p \<Rightarrow> isInQuietHours p now)
              then map_prod (\<lambda>n. Inr (Some n)) id (scheduleNotification newId now opts (getQuietHoursEnd (the p) now) w)
              else let n = new_notification newId now opts
                   in (Inr (Some n), w\<lparr>nw_rows := save_row nt_id n (nw_rows w), nw_events := nw_events w @ [n]\<rparr>))"

text \<open>The ids drawn are functions of the rows there are.\<close>

definition sendBulkNotifications ::
  "(notify_world \<Rightarrow> str) \<Rightarrow> (notify_world \<Rightarrow> str) \<Rightarrow> instant \<Rightarrow> str \<Rightarrow> send_options list \<Rightarrow> notify_world
   \<Rightarrow> notification list \<times> notify_world" where
  "sendBulkNotifications ids prefIds now tenantId opts w =
     fold (\<lambda>o' (sent, w).
             case sendNotification (ids w) (prefIds w) now (o'\<lparr>so_tenantId := tenantId\<rparr>) w of
               (Inr (Some n), w') \<Rightarrow> (sent @ [n], w') | (_, w') \<Rightarrow> (sent, w')) opts ([], w)"

section \<open>Templates\<close>

text \<open>
  The replacement text of \<open>String.replace\<close>: \<open>$$\<close> is a dollar sign, \<open>$&\<close> the match, a dollar
  sign and a quote what stands before or after it.
\<close>

fun expand_replacement :: "str \<Rightarrow> str \<Rightarrow> str \<Rightarrow> str \<Rightarrow> str" where
  "expand_replacement before found after (c # d # s) =
     (if c \<noteq> CHR ''$'' then c # expand_replacement before found after (d # s)
      else if d = CHR ''$'' then CHR ''$'' # expand_replacement before found after s
      else if d = CHR ''&'' then found @ expand_replacement before found after s
      else if d = CHR 0x60 then before @ expand_replacement before found after s
      else if d = CHR 0x27 then after @ expand_replacement before found after s
      else c # expand_replacement before found after (d # s))"
| "expand_replacement before found after s = s"

function replace_all :: "str \<Rightarrow> str \<Rightarrow> str \<Rightarrow> str \<Rightarrow> str" where
  "replace_all found new before [] = []"
| "replace_all found new before (c # cs) =
     (if found \<noteq> [] \<and> take (length found) (c # cs) = found
      then expand_replacement before found (drop (length found) (c # cs)) new
           @ replace_all found new (before @ found) (drop (length found) (c # cs))
      else c # replace_all found new (before @ [c]) cs)"
  by pat_completeness auto
termination replace_all
proof (relation "measure (\<lambda>(_, _, _, s). length s)")
  fix found new before :: str and c cs
  assume "found \<noteq> [] \<and> take (length found) (c # cs) = found"
  then show "((found, new, before @ found, drop (length found) (c # cs)), found, new, before, c # cs)
      \<in> measure (\<lambda>(_, _, _, s). length s)"
    by (cases found) auto
qed simp_all

function placeholders :: "str \<Rightarrow> str list" where
  "placeholders [] = []"
| "placeholders (c # cs) =
     (case placeholder (c # cs) of None \<Rightarrow> placeholders cs | Some (name, rest) \<Rightarrow> name # placeholders rest)"
  by pat_completeness auto
termination placeholders
  by (relation "measure length") (auto dest: placeholder_shorter)

record resolved_template =
  rs_subject :: str
  rs_body :: str
  rs_channel :: str
  rs_templateId :: "str option"

definition pack_templates :: "bool \<Rightarrow> pack_db \<Rightarrow> als \<Rightarrow> str option \<Rightarrow> js_obj list" where
  "pack_templates pins_ok packs ctx vertical =
     (case pack_section pins_ok packs ctx vertical ''messaging'' of
        Some (JObj m) \<Rightarrow> (case obj_get ''templates'' m of Some (JArr ts) \<Rightarrow> map obj_of ts | _ \<Rightarrow> [])
      | _ \<Rightarrow> [])"

definition resolveTemplate ::
  "bool \<Rightarrow> pack_db \<Rightarrow> als \<Rightarrow> str \<Rightarrow> str \<Rightarrow> str option \<Rightarrow> notify_world \<Rightarrow> notify_error + resolved_template" where
  "resolveTemplate pins_ok packs ctx tenantId templateKey vertical w =
     (case find_one (\<lambda>t. mt_key t = templateKey \<and> mt_tenantId t = tenantId) (nw_templates w) of
        Some t \<Rightarrow> Inr \<lparr>rs_subject = mt_subject t, rs_body = mt_content t, rs_channel = mt_type t,
                       rs_templateId = Some (mt_id t)\<rparr>
      | None \<Rightarrow>
          case find_one (\<lambda>t. text_of ''key'' t = Some templateKey) (pack_templates pins_ok packs ctx vertical) of
            None \<Rightarrow> Inl (TemplateNotFound templateKey)
          | Some t \<Rightarrow> Inr \<lparr>rs_subject = nullish (text_of ''subject'' t) [], rs_body = nullish (text_of ''body'' t) [],
                           rs_channel = nullish (text_of ''channel'' t) [], rs_templateId = None\<rparr>)"

text \<open>The variables one after another, over the text the earlier ones left; their names are identifiers.\<close>

definition substitute :: "js_obj \<Rightarrow> str \<Rightarrow> str" where
  "substitute variables s =
     fold (\<lambda>(key, value) s. replace_all (''{{'' @ key @ ''}}'') (js_string value) [] s) variables s"

record rendered =
  rd_resolved :: resolved_template
  rd_subject :: str
  rd_content :: str
  rd_unrendered :: "str list"

definition renderTemplate ::
  "bool \<Rightarrow> pack_db \<Rightarrow> als \<Rightarrow> str \<Rightarrow> str \<Rightarrow> js_obj \<Rightarrow> str option \<Rightarrow> notify_world \<Rightarrow> notify_error + rendered" where
  "renderTemplate pins_ok packs ctx tenantId templateKey variables vertical w =
     and_then (resolveTemplate pins_ok packs ctx tenantId templateKey vertical w) (\<lambda>r.
       let subject = substitute variables (rs_subject r); content = substitute variables (rs_body r)
       in Inr \<lparr>rd_resolved = r, rd_subject = subject, rd_content = content,
               rd_unrendered = fold set_add (placeholders subject @ placeholders content) []\<rparr>)"

definition channel_of :: "str \<Rightarrow> channel option" where
  "channel_of s =
     find_one (\<lambda>c. channel_text c = s) [ChEmail, ChSms, ChWhatsapp, ChPush, ChInApp, ChSlack, ChTeams, ChWebhook]"

text \<open>
  The channel is whatever the template says: one that is no channel is in no list of allowed ones, and
  the column refuses it.
\<close>

definition sendFromTemplate ::
  "bool \<Rightarrow> pack_db \<Rightarrow> als \<Rightarrow> str \<Rightarrow> str \<Rightarrow> instant \<Rightarrow> str \<Rightarrow> str \<Rightarrow> str \<Rightarrow> js_obj \<Rightarrow> str option \<Rightarrow> str option \<Rightarrow> js_obj
   \<Rightarrow> notify_world \<Rightarrow> (notify_error + notification option) \<times> notify_world" where
  "sendFromTemplate pins_ok packs ctx newId prefId now tenantId templateKey recipientId variables vertical recipientEmail metadata w =
     (case renderTemplate pins_ok packs ctx tenantId templateKey variables vertical w of
        Inl e \<Rightarrow> (Inl e, w)
      | Inr r \<Rightarrow>
          let data = (case rs_templateId (rd_resolved r) of Some i \<Rightarrow> [(''templateId'', JStr i)] | None \<Rightarrow> [])
                @ [(''templateKey'', JStr templateKey),
                   (''source'', JStr (if rs_templateId (rd_resolved r) = None then ''config_pack'' else ''tenant_override'')),
                   (''variables'', JObj variables)]
          in case channel_of (rs_channel (rd_resolved r)) of
               Some c \<Rightarrow>
                 sendNotification newId prefId now
                   \<lparr>so_tenantId = tenantId, so_type = c, so_recipientId = Some recipientId, so_recipientEmail = None,
                    so_subject = rd_subject r, so_content = rd_content r, so_priority = None, so_category = None,
                    so_metadata = Some (if truthy_str recipientEmail then obj_set ''email'' (JStr (the recipientEmail)) metadata else metadata),
                    so_templateData = Some data\<rparr> w
             | None \<Rightarrow>
                 if recipientId = [] then (Inl RecipientRequired, w)
                 else if is_uuid recipientId
                 then (Inr None, snd (getUserPreferences prefId tenantId recipientId w))
                 else (Inl (InvalidChannel (rs_channel (rd_resolved r))), w))"

definition createTemplate :: "message_template \<Rightarrow> notify_world \<Rightarrow> message_template \<times> notify_world" where
  "createTemplate t w = (t, w\<lparr>nw_templates := save_row mt_id t (nw_templates w)\<rparr>)"

record template_view =
  tv_id :: "str option"
  tv_key :: str
  tv_name :: str
  tv_type :: str
  tv_subject :: str
  tv_content :: str
  tv_variables :: "str list"
  tv_from_pack :: bool

definition getTemplates ::
  "bool \<Rightarrow> pack_db \<Rightarrow> als \<Rightarrow> str \<Rightarrow> str option \<Rightarrow> str option \<Rightarrow> notify_world \<Rightarrow> template_view list" where
  "getTemplates pins_ok packs ctx tenantId type vertical w =
     (let rows = find_where (\<lambda>t. mt_tenantId t = tenantId \<and> (truthy_str type \<longrightarrow> mt_type t = the type)) (nw_templates w);
          text = (\<lambda>k t. nullish (text_of k t) [])
      in map (\<lambda>t. \<lparr>tv_id = Some (mt_id t), tv_key = mt_key t, tv_name = mt_name t, tv_type = mt_type t,
                   tv_subject = mt_subject t, tv_content = mt_content t, tv_variables = mt_variables t, tv_from_pack = False\<rparr>) rows
         @ map (\<lambda>t. \<lparr>tv_id = None, tv_key = text ''key'' t, tv_name = text ''name'' t, tv_type = text ''channel'' t,
                     tv_subject = text ''subject'' t, tv_content = text ''body'' t,
                     tv_variables = (case obj_get ''variables'' t of Some (JArr vs) \<Rightarrow> map js_string vs | _ \<Rightarrow> []),
                     tv_from_pack = True\<rparr>)
             (filter (\<lambda>t. \<not> truthy_str type \<or> text ''channel'' t = the type)
               (filter (\<lambda>t. text ''key'' t \<notin> mt_key ` set rows) (pack_templates pins_ok packs ctx vertical))))"

section \<open>Reads and marks\<close>

record list_options =
  lo_status :: "notification_status option"
  lo_type :: "channel option"
  lo_category :: "notification_category option"
  lo_isRead :: "bool option"
  lo_page :: "nat option"
  lo_limit :: "nat option"

definition or_nat :: "nat option \<Rightarrow> nat \<Rightarrow> nat" where
  "or_nat n d = (case n of None \<Rightarrow> d | Some x \<Rightarrow> if x = 0 then d else x)"

text \<open>\<open>isRead: false\<close> sets \<open>readAt\<close> to null, which is no condition.\<close>

definition getNotifications :: "notify_world \<Rightarrow> str \<Rightarrow> str \<Rightarrow> list_options \<Rightarrow> notification list \<times> nat" where
  "getNotifications w tenantId userId opts =
     (let hits = sort_key (\<lambda>n. - nt_createdAt n)
            (find_where (\<lambda>n. nt_tenantId n = tenantId \<and> nt_recipientId n = userId
               \<and> (lo_status opts \<noteq> None \<longrightarrow> lo_status opts = Some (nt_status n))
               \<and> (lo_type opts \<noteq> None \<longrightarrow> lo_type opts = Some (nt_type n))
               \<and> (lo_category opts \<noteq> None \<longrightarrow> lo_category opts = Some (nt_category n))
               \<and> (lo_isRead opts = Some True \<longrightarrow> (case nt_readAt n of None \<Rightarrow> False | Some t \<Rightarrow> 0 < t))) (nw_rows w));
          limit = or_nat (lo_limit opts) 20
      in (take limit (drop ((or_nat (lo_page opts) 1 - 1) * limit) hits), length hits))"

definition getUnreadCount :: "notify_world \<Rightarrow> str \<Rightarrow> str \<Rightarrow> nat" where
  "getUnreadCount w tenantId userId =
     length (find_where (\<lambda>n. nt_tenantId n = tenantId \<and> nt_recipientId n = userId) (nw_rows w))"

definition mark_read :: "(notification \<Rightarrow> bool) \<Rightarrow> instant \<Rightarrow> notify_world \<Rightarrow> notify_world" where
  "mark_read P now w =
     w\<lparr>nw_rows := map (\<lambda>n. if P n then n\<lparr>nt_status := NtRead, nt_readAt := Some now\<rparr> else n) (nw_rows w)\<rparr>"

text \<open>The user is not looked at; the row-level security of the caller's connection confines the update to the tenant.\<close>

definition markAsRead ::
  "als \<Rightarrow> instant \<Rightarrow> str list \<Rightarrow> str \<Rightarrow> notify_world \<Rightarrow> (notify_error + unit) \<times> notify_world" where
  "markAsRead ctx now ids userId w =
     (if ids = [] then (Inl EmptyCriteria, w)
      else (Inr (), mark_read (\<lambda>n. nt_id n \<in> set ids \<and> rls_visible ctx (nt_tenantId n)) now w))"

definition markAllAsRead :: "instant \<Rightarrow> str \<Rightarrow> str \<Rightarrow> notify_world \<Rightarrow> notify_world" where
  "markAllAsRead now tenantId userId w =
     mark_read (\<lambda>n. nt_tenantId n = tenantId \<and> nt_recipientId n = userId) now w"

definition deleteNotification :: "notify_world \<Rightarrow> str \<Rightarrow> str \<Rightarrow> notify_error + unit" where
  "deleteNotification w i userId =
     (case find_one (\<lambda>n. nt_id n = i \<and> nt_recipientId n = userId) (nw_rows w) of
        None \<Rightarrow> Inl NotificationNotFound | Some _ \<Rightarrow> Inl NoDeletionColumn)"

section \<open>Delivery\<close>

datatype web_outcome = WebOk | WebStatus int | WebThrew str

record notify_env =
  ne_now :: instant
  ne_mail :: "str \<Rightarrow> str \<Rightarrow> str \<Rightarrow> bool"
  ne_web :: "str \<Rightarrow> str \<Rightarrow> web_outcome"
  ne_secret :: "str option"
  ne_hmac :: "str \<Rightarrow> str \<Rightarrow> str"
  ne_refuses :: "notification \<Rightarrow> str option"
  ne_users :: "user list"

definition recordAttempt :: "instant \<Rightarrow> bool \<Rightarrow> str option \<Rightarrow> notification \<Rightarrow> notification" where
  "recordAttempt now success error n =
     n\<lparr>nt_attempts := nt_attempts n @ [\<lparr>da_timestamp = now, da_channel = nt_type n, da_success = success, da_error = error\<rparr>]\<rparr>"

definition resolveEmail :: "notify_env \<Rightarrow> notification \<Rightarrow> str option" where
  "resolveEmail env n =
     (if truthy_str (text_of ''email'' (nt_metadata n)) then text_of ''email'' (nt_metadata n)
      else if truthy_str (nt_recipientEmail n) then nt_recipientEmail n
      else if nt_recipientId n = [] then None
      else if \<not> is_uuid (nt_recipientId n)
      then (if CHR 0x40 \<in> set (nt_recipientId n) then Some (nt_recipientId n) else None)
      else map_option us_email (find_one (\<lambda>u. us_id u = nt_recipientId n) (ne_users env)))"

definition webhook_url :: "notification \<Rightarrow> str option" where
  "webhook_url n =
     nullish_opt (text_of ''url'' (nt_metadata n))
       (case obj_get ''customData'' (nt_metadata n) of Some (JObj d) \<Rightarrow> text_of ''url'' d | _ \<Rightarrow> None)"

definition webhook_body :: "instant \<Rightarrow> notification \<Rightarrow> str" where
  "webhook_body now n = json_str (JObj
     [(''id'', JStr (nt_id n)), (''tenantId'', JStr (nt_tenantId n)), (''category'', JStr (category_text (nt_category n))),
      (''subject'', JStr (nt_subject n)), (''content'', JStr (nt_content n)), (''data'', JObj (nt_templateData n)),
      (''sentAt'', JStr (iso_string now))])"

definition dispatchWebhook :: "notify_env \<Rightarrow> notification \<Rightarrow> bool \<times> notification \<times> transport_call list" where
  "dispatchWebhook env n =
     (if \<not> truthy_str (webhook_url n)
      then (False, recordAttempt (ne_now env) False (Some ''webhook notification carries no target url in metadata.url'') n, [])
      else let url = the (webhook_url n); body = webhook_body (ne_now env) n;
               call = WebhookPosted url body (if truthy_str (ne_secret env) then Some (ne_hmac env (the (ne_secret env)) body) else None)
           in case ne_web env url body of
                WebOk \<Rightarrow> (True, recordAttempt (ne_now env) True None n, [call])
              | WebStatus code \<Rightarrow>
                  (False, recordAttempt (ne_now env) False (Some (''webhook returned HTTP '' @ show_int code)) n, [call])
              | WebThrew e \<Rightarrow>
                  (False, recordAttempt (ne_now env) False (Some (''webhook request failed: '' @ e)) n, [call]))"

datatype delivery = Delivered | DeliveryFailed | InAppOnly

text \<open>One more failed attempt: again later, or given up at the third.\<close>

definition retry_or_fail :: "notification \<Rightarrow> notification" where
  "retry_or_fail n =
     (let c = Suc (nt_retryCount n)
      in n\<lparr>nt_retryCount := c, nt_status := (if 3 \<le> c then NtFailed else NtRetrying)\<rparr>)"

text \<open>The row a delivery stores, what it reports and the calls it made.\<close>

definition deliver_row :: "notify_env \<Rightarrow> notification \<Rightarrow> notification \<times> delivery \<times> transport_call list" where
  "deliver_row env n =
     (if nt_type n = ChInApp then (n\<lparr>nt_status := NtDelivered, nt_sentAt := Some (ne_now env)\<rparr>, InAppOnly, [])
      else if nt_type n = ChWebhook then
        (case dispatchWebhook env n of
           (True, n', calls) \<Rightarrow> (n'\<lparr>nt_status := NtSent, nt_sentAt := Some (ne_now env)\<rparr>, Delivered, calls)
         | (False, n', calls) \<Rightarrow> (retry_or_fail n', DeliveryFailed, calls))
      else if nt_type n \<noteq> ChEmail then
        ((recordAttempt (ne_now env) False
            (Some (''no transport configured for channel '' @ [CHR 0x27] @ channel_text (nt_type n) @ [CHR 0x27])) n)
           \<lparr>nt_status := NtFailed\<rparr>, DeliveryFailed, [])
      else if \<not> truthy_str (resolveEmail env n) then
        ((recordAttempt (ne_now env) False (Some ''recipient has no email address'') n)\<lparr>nt_status := NtFailed\<rparr>,
         DeliveryFailed, [])
      else let address = the (resolveEmail env n);
               subject = (if nt_subject n = [] then ''Notification'' else nt_subject n);
               n1 = n\<lparr>nt_recipientEmail := Some address,
                      nt_threadKey := Some (channel_text (nt_type n) @ '':'' @ to_lower (trim address))\<rparr>;
               call = MailSent address subject (nt_content n)
           in if ne_mail env address subject (nt_content n)
              then (recordAttempt (ne_now env) True None (n1\<lparr>nt_status := NtSent, nt_sentAt := Some (ne_now env)\<rparr>),
                    Delivered, [call])
              else (recordAttempt (ne_now env) False (Some ''mail provider did not deliver'') (retry_or_fail n1),
                    DeliveryFailed, [call]))"

text \<open>A row the database refuses is parked as failed; when that is refused as well it stays as it was.\<close>

definition deliverOne :: "notify_env \<Rightarrow> notification \<Rightarrow> notify_world \<Rightarrow> delivery \<times> notify_world" where
  "deliverOne env n w =
     (let (n1, out, calls) = deliver_row env n; w1 = w\<lparr>nw_calls := nw_calls w @ calls\<rparr>
      in case ne_refuses env n1 of
           None \<Rightarrow> (out, w1\<lparr>nw_rows := save_row nt_id n1 (nw_rows w1)\<rparr>)
         | Some reason \<Rightarrow>
             (let parked = (recordAttempt (ne_now env) False (Some (''dispatch error: '' @ reason)) n1)\<lparr>nt_status := NtFailed\<rparr>
              in case ne_refuses env parked of
                   None \<Rightarrow> (DeliveryFailed, w1\<lparr>nw_rows := save_row nt_id parked (nw_rows w1)\<rparr>)
                 | Some _ \<Rightarrow> (DeliveryFailed, w1)))"

record dispatch_report =
  dr_processed :: nat
  dr_delivered :: nat
  dr_failed :: nat
  dr_skipped :: nat

definition notification_due :: "instant \<Rightarrow> notification \<Rightarrow> bool" where
  "notification_due now n \<longleftrightarrow>
     (nt_status n = NtPending \<and> (case nt_scheduledAt n of None \<Rightarrow> True | Some t \<Rightarrow> t \<le> now)) \<or> nt_status n = NtQueued"

definition due_batch :: "instant \<Rightarrow> nat \<Rightarrow> notify_world \<Rightarrow> notification list" where
  "due_batch now limit w = take limit (sort_key nt_createdAt (find_where (notification_due now) (nw_rows w)))"

definition dispatch_item :: "notify_env \<Rightarrow> notification \<Rightarrow> dispatch_report \<times> notify_world \<Rightarrow> dispatch_report \<times> notify_world" where
  "dispatch_item env n = (\<lambda>(rep, w).
     case deliverOne env n w of
       (Delivered, w') \<Rightarrow> (rep\<lparr>dr_delivered := Suc (dr_delivered rep)\<rparr>, w')
     | (InAppOnly, w') \<Rightarrow> (rep\<lparr>dr_skipped := Suc (dr_skipped rep)\<rparr>, w')
     | (DeliveryFailed, w') \<Rightarrow> (rep\<lparr>dr_failed := Suc (dr_failed rep)\<rparr>, w'))"

definition dispatchPending :: "notify_env \<Rightarrow> nat \<Rightarrow> notify_world \<Rightarrow> dispatch_report \<times> notify_world" where
  "dispatchPending env limit w =
     (let due = due_batch (ne_now env) limit w
      in fold (dispatch_item env) due
           (\<lparr>dr_processed = length due, dr_delivered = 0, dr_failed = 0, dr_skipped = 0\<rparr>, w))"

definition retryFailed :: "nat \<Rightarrow> notify_world \<Rightarrow> nat \<times> notify_world" where
  "retryFailed limit w =
     (min (length (find_where (\<lambda>n. nt_status n = NtRetrying) (nw_rows w))) limit,
      w\<lparr>nw_rows := map (\<lambda>n. if nt_status n = NtRetrying then n\<lparr>nt_status := NtPending\<rparr> else n) (nw_rows w)\<rparr>)"

section \<open>Scheduled sweeps\<close>

definition emit_scheduled :: "notification \<Rightarrow> als \<Rightarrow> notify_world \<Rightarrow> (thrown + unit) \<times> notify_world" where
  "emit_scheduled n ctx w = (Inr (), w\<lparr>nw_events := nw_events w @ [n]\<rparr>)"

definition processScheduledNotifications :: "instant \<Rightarrow> als \<Rightarrow> notify_world \<Rightarrow> (thrown + sweep_scope) \<times> notify_world" where
  "processScheduledNotifications now =
     runTenantBoundSweep nt_tenantId (\<lambda>n. Some (nt_id n)) ''scheduled notifications''
       (\<lambda>ctx w. (Inr (find_where (\<lambda>n. nt_status n = NtPending
                    \<and> (case nt_scheduledAt n of None \<Rightarrow> False | Some t \<Rightarrow> t < now)) (nw_rows w)), w))
       emit_scheduled"

definition digest_options :: "preference \<Rightarrow> nat \<Rightarrow> send_options" where
  "digest_options p n =
     (let count = show_int (int n)
      in \<lparr>so_tenantId = pf_tenantId p, so_type = ChEmail, so_recipientId = Some (pf_userId p), so_recipientEmail = None,
          so_subject = ''You have '' @ count @ '' unread notifications'',
          so_content = ''You have '' @ count @ '' unread notifications. Log in to view them.'',
          so_priority = None, so_category = Some CatSystem, so_metadata = None, so_templateData = None\<rparr>)"

definition digest_one ::
  "(notify_world \<Rightarrow> str) \<Rightarrow> (notify_world \<Rightarrow> str) \<Rightarrow> instant \<Rightarrow> preference \<Rightarrow> als \<Rightarrow> notify_world \<Rightarrow> (thrown + unit) \<times> notify_world" where
  "digest_one ids prefIds now p ctx w =
     (if \<not> pf_digest p then (Inr (), w)
      else let (items, n) = getNotifications w (pf_tenantId p) (pf_userId p)
                 \<lparr>lo_status = None, lo_type = None, lo_category = None, lo_isRead = Some False, lo_page = None, lo_limit = None\<rparr>
           in if items = [] then (Inr (), w)
              else case sendNotification (ids w) (prefIds w) now (digest_options p n) w of
                     (Inl _, w') \<Rightarrow> (Inl (ThrownError ''BadRequestException'' ''BadRequestException'' None []), w')
                   | (Inr _, w') \<Rightarrow> (Inr (), w'))"

definition sendDigestEmails ::
  "(notify_world \<Rightarrow> str) \<Rightarrow> (notify_world \<Rightarrow> str) \<Rightarrow> instant \<Rightarrow> als \<Rightarrow> notify_world \<Rightarrow> (thrown + sweep_scope) \<times> notify_world" where
  "sendDigestEmails ids prefIds now =
     runTenantBoundSweep pf_tenantId (\<lambda>p. Some (pf_id p)) ''digest emails''
       (\<lambda>ctx w. (Inr (nw_preferences w), w)) (digest_one ids prefIds now)"

section \<open>Lemmas\<close>

text \<open>Waiting to be delivered, now or after another attempt.\<close>

definition live :: "notification \<Rightarrow> bool" where
  "live n \<longleftrightarrow> nt_status n \<in> {NtPending, NtQueued, NtRetrying}"

text \<open>A row that waits has failed as often as it counts, fewer than three times; any other was tried four times at most.\<close>

definition row_ok :: "notification \<Rightarrow> bool" where
  "row_ok n \<longleftrightarrow> (live n \<longrightarrow> nt_retryCount n < 3 \<and> length (nt_attempts n) = nt_retryCount n)
     \<and> nt_retryCount n \<le> 3 \<and> length (nt_attempts n) \<le> 4"

lemma recordAttempt_simps [simp]:
  "nt_id (recordAttempt now s e n) = nt_id n"
  "nt_status (recordAttempt now s e n) = nt_status n"
  "nt_retryCount (recordAttempt now s e n) = nt_retryCount n"
  "length (nt_attempts (recordAttempt now s e n)) = Suc (length (nt_attempts n))"
  by (simp_all add: recordAttempt_def)

lemma retry_or_fail_simps [simp]:
  "nt_id (retry_or_fail n) = nt_id n"
  "nt_retryCount (retry_or_fail n) = Suc (nt_retryCount n)"
  "nt_status (retry_or_fail n) = (if 2 \<le> nt_retryCount n then NtFailed else NtRetrying)"
  "nt_attempts (retry_or_fail n) = nt_attempts n"
  by (auto simp: retry_or_fail_def Let_def)

lemma dispatchWebhook_cases:
  assumes "dispatchWebhook env n = (ok, n', calls)"
  obtains e where "n' = recordAttempt (ne_now env) ok e n" "length calls \<le> 1"
  using assms by (auto simp: dispatchWebhook_def Let_def split: if_splits web_outcome.splits)

text \<open>What a delivery leaves: a row that no longer waits, or one that waits for another attempt.\<close>

lemma deliver_row_cases:
  assumes "deliver_row env n = (n', out, calls)" "live n" "row_ok n"
  shows "nt_id n' = nt_id n \<and> row_ok n' \<and> length (nt_attempts n') \<le> 3 \<and> length calls \<le> 1
    \<and> nt_status n' \<notin> {NtPending, NtQueued}"
proof -
  have n: "nt_retryCount n < 3" "length (nt_attempts n) = nt_retryCount n" using assms(2,3) by (simp_all add: row_ok_def)
  consider (inapp) "nt_type n = ChInApp" | (web) "nt_type n = ChWebhook"
    | (none) "nt_type n \<notin> {ChInApp, ChWebhook, ChEmail}" | (mail) "nt_type n = ChEmail" by auto
  then show ?thesis
  proof cases
    case inapp
    then show ?thesis using assms(1) n by (auto simp: deliver_row_def row_ok_def live_def)
  next
    case web
    obtain ok n1 c where d: "dispatchWebhook env n = (ok, n1, c)" by (metis prod_cases3)
    then obtain e where "n1 = recordAttempt (ne_now env) ok e n" "length c \<le> 1" by (rule dispatchWebhook_cases)
    then show ?thesis using assms(1) n web d by (cases ok) (auto simp: deliver_row_def row_ok_def live_def split: if_splits)
  next
    case none
    then show ?thesis using assms(1) n by (auto simp: deliver_row_def row_ok_def live_def)
  next
    case mail
    then show ?thesis using assms(1) n
      by (auto simp: deliver_row_def row_ok_def live_def Let_def split: if_splits)
  qed
qed

text \<open>
  One delivery: what it stores is settled or waits for another attempt, unless the database refused
  both the row and its parking.
\<close>

definition stuck :: "notify_env \<Rightarrow> notification \<Rightarrow> bool" where
  "stuck env n =
     (let n1 = fst (deliver_row env n)
      in case ne_refuses env n1 of
           None \<Rightarrow> False
         | Some reason \<Rightarrow>
             ne_refuses env ((recordAttempt (ne_now env) False (Some (''dispatch error: '' @ reason)) n1)\<lparr>nt_status := NtFailed\<rparr>) \<noteq> None)"

lemma deliverOne_cases:
  assumes "deliverOne env n w = (out, w')" "live n" "row_ok n"
  obtains "stuck env n" "nw_rows w' = nw_rows w"
  | n' where "\<not> stuck env n" "nw_rows w' = save_row nt_id n' (nw_rows w)" "nt_id n' = nt_id n" "row_ok n'"
      "nt_status n' \<notin> {NtPending, NtQueued}"
proof -
  obtain n1 out1 calls where d: "deliver_row env n = (n1, out1, calls)" by (metis prod_cases3)
  note c = deliver_row_cases [OF d assms(2,3)]
  let ?parked = "\<lambda>reason. (recordAttempt (ne_now env) False (Some (''dispatch error: '' @ reason)) n1)\<lparr>nt_status := NtFailed\<rparr>"
  have parked: "row_ok (?parked reason)" for reason using c by (auto simp: row_ok_def live_def)
  show thesis
  proof (cases "ne_refuses env n1")
    case None
    then show thesis using assms(1) d c by (intro that(2) [of n1]) (auto simp: deliverOne_def stuck_def)
  next
    case (Some reason)
    show thesis
    proof (cases "ne_refuses env (?parked reason)")
      case None
      then show thesis using assms(1) d c parked Some
        by (intro that(2) [of "?parked reason"]) (auto simp: deliverOne_def stuck_def Let_def)
    next
      case (Some r)
      then show thesis using assms(1) d \<open>ne_refuses env n1 = Some reason\<close>
        by (intro that(1)) (auto simp: deliverOne_def stuck_def Let_def)
    qed
  qed
qed


lemma dispatch_item_cases:
  assumes "dispatch_item env n (rep, w) = (rep', w')"
  obtains out where "deliverOne env n w = (out, w')" "dr_processed rep' = dr_processed rep"
    "dr_delivered rep' + dr_failed rep' + dr_skipped rep' = Suc (dr_delivered rep + dr_failed rep + dr_skipped rep)"
  using assms that by (auto simp: dispatch_item_def split: prod.splits delivery.splits)

text \<open>Where a sweep leaves a row of its batch.\<close>

definition handled :: "notify_env \<Rightarrow> notification \<Rightarrow> notification option \<Rightarrow> bool" where
  "handled env n r =
     (case r of None \<Rightarrow> False
      | Some n' \<Rightarrow> if stuck env n then n' = n else row_ok n' \<and> nt_status n' \<notin> {NtPending, NtQueued})"

lemma dispatch_fold:
  assumes "fold (dispatch_item env) ns (rep, w) = (rep', w')"
    "\<forall>n \<in> set ns. live n \<and> row_ok n \<and> by_key nt_id (nw_rows w) (nt_id n) = Some n" "distinct (map nt_id ns)"
    "keys_distinct nt_id (nw_rows w)"
  shows "dr_processed rep' = dr_processed rep
    \<and> dr_delivered rep' + dr_failed rep' + dr_skipped rep' = length ns + (dr_delivered rep + dr_failed rep + dr_skipped rep)
    \<and> keys_distinct nt_id (nw_rows w')
    \<and> (\<forall>k. k \<notin> nt_id ` set ns \<longrightarrow> by_key nt_id (nw_rows w') k = by_key nt_id (nw_rows w) k)
    \<and> (\<forall>n \<in> set ns. handled env n (by_key nt_id (nw_rows w') (nt_id n)))"
  using assms
proof (induction ns arbitrary: rep w)
  case (Cons n ns)
  obtain rep1 w1 where item: "dispatch_item env n (rep, w) = (rep1, w1)" by fastforce
  then obtain out where d: "deliverOne env n w = (out, w1)" and p: "dr_processed rep1 = dr_processed rep"
      "dr_delivered rep1 + dr_failed rep1 + dr_skipped rep1 = Suc (dr_delivered rep + dr_failed rep + dr_skipped rep)"
    by (rule dispatch_item_cases)
  have n: "live n" "row_ok n" "by_key nt_id (nw_rows w) (nt_id n) = Some n" using Cons.prems(2) by simp_all
  have "keys_distinct nt_id (nw_rows w1) \<and> handled env n (by_key nt_id (nw_rows w1) (nt_id n))
      \<and> (\<forall>k. k \<noteq> nt_id n \<longrightarrow> by_key nt_id (nw_rows w1) k = by_key nt_id (nw_rows w) k)"
    using d n(1,2)
    by (cases rule: deliverOne_cases) (use n Cons.prems(4) in \<open>simp_all add: handled_def by_key_save keys_distinct_save\<close>)
  then have w1: "keys_distinct nt_id (nw_rows w1)" "handled env n (by_key nt_id (nw_rows w1) (nt_id n))"
      "\<forall>k. k \<noteq> nt_id n \<longrightarrow> by_key nt_id (nw_rows w1) k = by_key nt_id (nw_rows w) k" by blast+
  have "\<forall>m \<in> set ns. live m \<and> row_ok m \<and> by_key nt_id (nw_rows w1) (nt_id m) = Some m"
    using Cons.prems(2,3) w1(3) by (metis distinct.simps(2) image_eqI list.set_intros(2) list.simps(9) set_map)
  from Cons.IH [OF _ this _ w1(1)] Cons.prems(1,3) item
  have ih: "dr_processed rep' = dr_processed rep1"
    "dr_delivered rep' + dr_failed rep' + dr_skipped rep' = length ns + (dr_delivered rep1 + dr_failed rep1 + dr_skipped rep1)"
    "keys_distinct nt_id (nw_rows w')"
    "\<forall>k. k \<notin> nt_id ` set ns \<longrightarrow> by_key nt_id (nw_rows w') k = by_key nt_id (nw_rows w1) k"
    "\<forall>n \<in> set ns. handled env n (by_key nt_id (nw_rows w') (nt_id n))" by auto
  have "nt_id n \<notin> nt_id ` set ns" using Cons.prems(3) by simp
  then show ?case using ih p w1 by simp
qed simp

text \<open>The rows there are, each under its own id.\<close>

definition notify_inv :: "notify_world \<Rightarrow> bool" where
  "notify_inv w \<longleftrightarrow> keys_distinct nt_id (nw_rows w) \<and> (\<forall>n \<in> set (nw_rows w). row_ok n)"

lemma set_due_batch: "n \<in> set (due_batch now limit w) \<Longrightarrow> n \<in> set (nw_rows w) \<and> notification_due now n"
  by (auto simp: due_batch_def find_where_def dest!: in_set_takeD)

lemma due_live: "notification_due now n \<Longrightarrow> live n"
  by (auto simp: notification_due_def live_def)

lemma batch_unique:
  assumes "keys_distinct nt_id (nw_rows w)" "n \<in> set (nw_rows w)" "m \<in> set (due_batch now limit w)" "nt_id n = nt_id m"
  shows "n = m"
proof -
  have "m \<in> set (nw_rows w)" using set_due_batch [OF assms(3)] by blast
  then have "by_key nt_id (nw_rows w) (nt_id m) = Some m" by (rule by_key_mem [OF assms(1)])
  moreover have "by_key nt_id (nw_rows w) (nt_id n) = Some n" by (rule by_key_mem [OF assms(1,2)])
  ultimately show ?thesis using assms(4) by simp
qed

lemma due_batch_distinct: "keys_distinct nt_id (nw_rows w) \<Longrightarrow> distinct (map nt_id (due_batch now limit w))"
  by (simp add: due_batch_def find_where_def distinct_map distinct_sort)
     (auto simp: inj_on_def dest!: in_set_takeD)

lemma dispatchPending_facts:
  assumes "dispatchPending env limit w = (rep, w')" "notify_inv w"
  defines "batch \<equiv> due_batch (ne_now env) limit w"
  shows "dr_processed rep = length batch" "dr_delivered rep + dr_failed rep + dr_skipped rep = length batch"
    "keys_distinct nt_id (nw_rows w')"
    "\<And>k. k \<notin> nt_id ` set batch \<Longrightarrow> by_key nt_id (nw_rows w') k = by_key nt_id (nw_rows w) k"
    "\<And>n. n \<in> set batch \<Longrightarrow> handled env n (by_key nt_id (nw_rows w') (nt_id n))"
proof -
  have kd: "keys_distinct nt_id (nw_rows w)" using assms(2) by (simp add: notify_inv_def)
  have "\<forall>n \<in> set batch. live n \<and> row_ok n \<and> by_key nt_id (nw_rows w) (nt_id n) = Some n"
    using assms(2) by (auto simp: batch_def notify_inv_def dest!: set_due_batch due_live intro: by_key_mem)
  from dispatch_fold [OF _ this _ kd] assms(1) due_batch_distinct [OF kd]
  have "dr_processed rep = length batch \<and> dr_delivered rep + dr_failed rep + dr_skipped rep = length batch
    \<and> keys_distinct nt_id (nw_rows w')
    \<and> (\<forall>k. k \<notin> nt_id ` set batch \<longrightarrow> by_key nt_id (nw_rows w') k = by_key nt_id (nw_rows w) k)
    \<and> (\<forall>n \<in> set batch. handled env n (by_key nt_id (nw_rows w') (nt_id n)))"
    by (fastforce simp: dispatchPending_def batch_def Let_def)
  then show "dr_processed rep = length batch" "dr_delivered rep + dr_failed rep + dr_skipped rep = length batch"
    "keys_distinct nt_id (nw_rows w')"
    "\<And>k. k \<notin> nt_id ` set batch \<Longrightarrow> by_key nt_id (nw_rows w') k = by_key nt_id (nw_rows w) k"
    "\<And>n. n \<in> set batch \<Longrightarrow> handled env n (by_key nt_id (nw_rows w') (nt_id n))" by blast+
qed


section \<open>Notifications over time\<close>

text \<open>Since \<open>w\<close>: a row that no longer waited still does not, and was not tried again.\<close>

definition closed_kept :: "notify_world \<Rightarrow> notify_world \<Rightarrow> bool" where
  "closed_kept w w' \<longleftrightarrow>
     (\<forall>n \<in> set (nw_rows w). \<not> live n \<longrightarrow>
        (\<exists>n' \<in> set (nw_rows w'). nt_id n' = nt_id n \<and> \<not> live n' \<and> nt_attempts n' = nt_attempts n))"

definition keeps :: "notify_world \<Rightarrow> notify_world \<Rightarrow> bool" where
  "keeps w0 w \<longleftrightarrow> notify_inv w \<and> closed_kept w0 w"

lemma closed_kept_trans: "closed_kept w w1 \<Longrightarrow> closed_kept w1 w2 \<Longrightarrow> closed_kept w w2"
  unfolding closed_kept_def by metis

lemma keepsI:
  assumes "keeps w0 w" "notify_inv w'" "closed_kept w w'"
  shows "keeps w0 w'"
  using assms closed_kept_trans unfolding keeps_def by blast

lemma keeps_same: "keeps w0 w \<Longrightarrow> nw_rows w' = nw_rows w \<Longrightarrow> keeps w0 w'"
  by (simp add: keeps_def notify_inv_def closed_kept_def)

lemma keeps_add:
  assumes "keeps w0 w" "nw_rows w' = save_row nt_id n (nw_rows w)" "nt_id n \<notin> nt_id ` set (nw_rows w)" "row_ok n"
  shows "keeps w0 w'"
proof (rule keepsI [OF assms(1)])
  have rows: "nw_rows w' = nw_rows w @ [n]" using assms(2) save_row_new [OF assms(3)] by simp
  then show "closed_kept w w'" by (auto simp: closed_kept_def)
  show "notify_inv w'" using assms(1,3,4) rows by (auto simp: keeps_def notify_inv_def)
qed

lemma keeps_map:
  assumes "keeps w0 w" "nw_rows w' = map f (nw_rows w)"
    "\<And>n. nt_id (f n) = nt_id n" "\<And>n. row_ok n \<Longrightarrow> row_ok (f n)"
    "\<And>n. \<not> live n \<Longrightarrow> \<not> live (f n) \<and> nt_attempts (f n) = nt_attempts n"
  shows "keeps w0 w'"
proof (rule keepsI [OF assms(1)])
  have "nt_id \<circ> f = nt_id" using assms(3) by (simp add: fun_eq_iff)
  then show "notify_inv w'" using assms(1,2,4) by (auto simp: keeps_def notify_inv_def)
  show "closed_kept w w'" unfolding closed_kept_def assms(2) using assms(3,5) by auto
qed

lemma row_ok_new: "nt_attempts n = [] \<Longrightarrow> nt_retryCount n = 0 \<Longrightarrow> row_ok n"
  by (simp add: row_ok_def)

lemma getUserPreferences_rows: "getUserPreferences i T u w = (p, w') \<Longrightarrow> nw_rows w' = nw_rows w"
  by (auto simp: getUserPreferences_def Let_def split: option.splits)

lemma sendNotification_cases:
  assumes "sendNotification newId prefId now opts w = (r, w')"
  obtains "nw_rows w' = nw_rows w"
  | n where "r = Inr (Some n)" "nw_rows w' = save_row nt_id n (nw_rows w)" "nt_id n = newId" "row_ok n"
      "nt_status n = NtPending"
proof -
  obtain p w1 where p: "(if truthy_str (so_recipientId opts) \<and> is_uuid (the (so_recipientId opts))
      then map_prod Some id (getUserPreferences prefId (so_tenantId opts) (the (so_recipientId opts)) w) else (None, w)) = (p, w1)"
    by fastforce
  then have rows: "nw_rows w1 = nw_rows w"
    by (auto simp: map_prod_def split: if_splits prod.splits dest: getUserPreferences_rows)
  have new: "nt_id (new_notification newId now opts) = newId" "row_ok (new_notification newId now opts)"
      "nt_status (new_notification newId now opts) = NtPending"
    by (auto simp: new_notification_def intro: row_ok_new)
  have sched: "row_ok ((new_notification newId now opts)\<lparr>nt_recipientId := a, nt_recipientEmail := b, nt_scheduledAt := c\<rparr>)" for a b c
    by (rule row_ok_new) (simp_all add: new_notification_def)
  show thesis
    using assms p rows new sched
    by (auto simp: sendNotification_def scheduleNotification_def Let_def split: if_splits prod.splits intro: that)
qed

lemma send_keeps:
  assumes "keeps w0 w" "newId \<notin> nt_id ` set (nw_rows w)" "sendNotification newId prefId now opts w = (r, w')"
  shows "keeps w0 w'"
  using assms(3)
proof (cases rule: sendNotification_cases)
  case 1
  then show ?thesis by (rule keeps_same [OF assms(1)])
next
  case (2 n)
  then show ?thesis using assms(2) by (intro keeps_add [OF assms(1)]) simp_all
qed

abbreviation fresh_ids :: "(notify_world \<Rightarrow> str) \<Rightarrow> bool" where
  "fresh_ids ids \<equiv> \<forall>w. ids w \<notin> nt_id ` set (nw_rows w)"

lemma bulk_keeps:
  assumes "keeps w0 w" "fresh_ids ids" "sendBulkNotifications ids prefIds now T os w = (sent, w')"
  shows "keeps w0 w'"
proof -
  define f where "f = (\<lambda>o' (sent, w). case sendNotification (ids w) (prefIds w) now (o'\<lparr>so_tenantId := T\<rparr>) w of
      (Inr (Some n), w') \<Rightarrow> (sent @ [n], w') | (_, w') \<Rightarrow> (sent, w'))"
  have step: "keeps w0 (snd (f o' (s, w)))" if k: "keeps w0 w" for o' s w
  proof -
    obtain r w1 where r: "sendNotification (ids w) (prefIds w) now (o'\<lparr>so_tenantId := T\<rparr>) w = (r, w1)" by fastforce
    have fresh: "ids w \<notin> nt_id ` set (nw_rows w)" using assms(2) by blast
    have "keeps w0 w1" by (rule send_keeps [OF k fresh r])
    then show ?thesis using r by (auto simp: f_def split: sum.splits option.splits)
  qed
  have "keeps w0 (snd (fold f os (s, w)))" if "keeps w0 w" for s w
    using that
  proof (induction os arbitrary: s w)
    case (Cons o' os)
    obtain s1 w1 where "f o' (s, w) = (s1, w1)" by fastforce
    then show ?case using Cons.IH [of w1 s1] step [OF Cons.prems, of o' s] by simp
  qed simp
  from this [OF assms(1), of "[]"] show ?thesis using assms(3) by (simp add: sendBulkNotifications_def f_def)
qed

lemma dispatch_keeps:
  assumes "keeps w0 w" "dispatchPending env limit w = (rep, w')"
  shows "keeps w0 w'"
proof (rule keepsI [OF assms(1)])
  let ?batch = "due_batch (ne_now env) limit w"
  have inv: "notify_inv w" using assms(1) by (simp add: keeps_def)
  note facts = dispatchPending_facts [OF assms(2) inv]
  have kd: "keys_distinct nt_id (nw_rows w)" and ok: "\<forall>n \<in> set (nw_rows w). row_ok n"
    using inv by (simp_all add: notify_inv_def)
  show "notify_inv w'"
    unfolding notify_inv_def
  proof (intro conjI ballI)
    fix n' assume "n' \<in> set (nw_rows w')"
    then have n': "by_key nt_id (nw_rows w') (nt_id n') = Some n'" by (rule by_key_mem [OF facts(3)])
    show "row_ok n'"
    proof (cases "nt_id n' \<in> nt_id ` set ?batch")
      case True
      then obtain n where n: "n \<in> set ?batch" "nt_id n' = nt_id n" by auto
      have "row_ok n" using set_due_batch [OF n(1)] ok by blast
      then show ?thesis using facts(5) [OF n(1)] n' n(2) by (auto simp: handled_def split: if_splits)
    next
      case False
      then have "by_key nt_id (nw_rows w) (nt_id n') = Some n'" using facts(4) n' by metis
      then show ?thesis using ok by (auto dest!: by_key_SomeD)
    qed
  qed (rule facts(3))
  show "closed_kept w w'"
    unfolding closed_kept_def
  proof (intro ballI impI)
    fix n assume n: "n \<in> set (nw_rows w)" "\<not> live n"
    have "nt_id n \<notin> nt_id ` set ?batch"
    proof
      assume "nt_id n \<in> nt_id ` set ?batch"
      then have "n \<in> set ?batch" using batch_unique [OF kd n(1)] by auto
      then show False using set_due_batch due_live n(2) by blast
    qed
    then have "by_key nt_id (nw_rows w') (nt_id n) = Some n" using facts(4) by_key_mem [OF kd n(1)] by simp
    then show "\<exists>n' \<in> set (nw_rows w'). nt_id n' = nt_id n \<and> \<not> live n' \<and> nt_attempts n' = nt_attempts n"
      using n(2) by (auto dest!: by_key_SomeD)
  qed
qed

lemma mark_keeps: "keeps w0 w \<Longrightarrow> keeps w0 (mark_read P now w)"
  by (rule keeps_map [where f = "\<lambda>n. if P n then n\<lparr>nt_status := NtRead, nt_readAt := Some now\<rparr> else n"])
     (auto simp: mark_read_def row_ok_def live_def)

lemma retry_keeps: "keeps w0 w \<Longrightarrow> retryFailed limit w = (n, w') \<Longrightarrow> keeps w0 w'"
  by (rule keeps_map [where f = "\<lambda>n. if nt_status n = NtRetrying then n\<lparr>nt_status := NtPending\<rparr> else n"])
     (auto simp: retryFailed_def row_ok_def live_def)


interpretation scheduled_sweep: sweep_body nt_tenantId emit_scheduled "keeps w0" for w0
  by unfold_locales (auto simp: emit_scheduled_def intro: keeps_same)

interpretation digest_sweep:
  sweep_items pf_tenantId "digest_one ids prefIds now" "\<lambda>w. fresh_ids ids \<and> keeps w0 w" "\<lambda>_ _. True" for ids prefIds now w0
proof unfold_locales
  fix w p r w'
  assume w: "fresh_ids ids \<and> keeps w0 w"
    and run: "digest_one ids prefIds now p (Some (item_store (pf_tenantId p))) w = (r, w')"
  have "keeps w0 w1" if "sendNotification (ids w) (prefIds w) now os w = (r1, w1)" for os r1 w1
    using w that by (blast intro: send_keeps)
  then have "keeps w0 w'" using w run by (auto simp: digest_one_def split: if_splits prod.splits sum.splits)
  then show "(fresh_ids ids \<and> keeps w0 w') \<and> (\<forall>j. True \<longrightarrow> True)" using w by simp
qed

inductive notify_step :: "notify_world \<Rightarrow> notify_world \<Rightarrow> bool" where
  send: "newId \<notin> nt_id ` set (nw_rows w) \<Longrightarrow> sendNotification newId prefId now opts w = (r, w') \<Longrightarrow> notify_step w w'"
| bulk: "fresh_ids ids \<Longrightarrow> sendBulkNotifications ids prefIds now T os w = (sent, w') \<Longrightarrow> notify_step w w'"
| from_template: "newId \<notin> nt_id ` set (nw_rows w)
    \<Longrightarrow> sendFromTemplate pins_ok packs ctx newId prefId now T key u vars vertical email meta w = (r, w') \<Longrightarrow> notify_step w w'"
| preferences: "updatePreferences prefId T u f w = (p, w') \<Longrightarrow> notify_step w w'"
| template: "createTemplate t w = (t', w') \<Longrightarrow> notify_step w w'"
| mark_some: "markAsRead ctx now is u w = (r, w') \<Longrightarrow> notify_step w w'"
| mark_every: "notify_step w (markAllAsRead now T u w)"
| dispatch: "dispatchPending env limit w = (rep, w') \<Longrightarrow> notify_step w w'"
| retry: "retryFailed limit w = (c, w') \<Longrightarrow> notify_step w w'"
| scheduled: "processScheduledNotifications now ctx w = (sr, w') \<Longrightarrow> notify_step w w'"
| digest: "fresh_ids ids \<Longrightarrow> sendDigestEmails ids prefIds now ctx w = (sr, w') \<Longrightarrow> notify_step w w'"

inductive_cases notify_stepE: "notify_step w w'"

lemma notify_step_keeps: "notify_step w w' \<Longrightarrow> keeps w0 w \<Longrightarrow> keeps w0 w'"
proof (induction rule: notify_step.induct)
  case (from_template newId w pins_ok packs ctx prefId now T key u vars vertical email meta r w')
  obtain x y where prefs: "getUserPreferences prefId T u w = (x, y)" by fastforce
  have "keeps w0 y" by (rule keeps_same [OF from_template.prems getUserPreferences_rows [OF prefs]])
  with from_template prefs show ?case
    by (auto simp: sendFromTemplate_def Let_def split: sum.splits option.splits if_splits intro: send_keeps)
next
  case (preferences prefId T u f w p w')
  then show ?case
    by (auto simp: updatePreferences_def Let_def split: prod.splits dest!: getUserPreferences_rows intro: keeps_same)
next
  case (mark_some ctx now "is" u w r w')
  then show ?case by (auto simp: markAsRead_def mark_keeps split: if_splits)
next
  case (scheduled now ctx w sr w')
  show ?case
    by (rule scheduled_sweep.sweep_keeps [OF _ scheduled.prems scheduled.hyps [unfolded processScheduledNotifications_def]]) simp
next
  case (digest ids prefIds now ctx w sr w')
  have "fresh_ids ids \<and> keeps w0 w" using digest by blast
  from digest_sweep.sweep_keeps_items [OF _ this digest.hyps(2) [unfolded sendDigestEmails_def]] show ?case by auto
qed (auto simp: createTemplate_def markAllAsRead_def intro: send_keeps bulk_keeps dispatch_keeps retry_keeps mark_keeps keeps_same)


text \<open>
  Claim C22: the counts a dispatch sweep returns add up to the rows it took; a row it did not take is as it was,
  and a row it took is settled or waits to be put back for another attempt, unless the database
  refused both to store it and to park it as failed.
\<close>

theorem dispatch_sweep_moves_on:
  assumes "dispatchPending env limit w = (rep, w')" "notify_inv w"
  shows "dr_processed rep = length (due_batch (ne_now env) limit w)
     \<and> dr_delivered rep + dr_failed rep + dr_skipped rep = dr_processed rep
     \<and> (\<forall>n \<in> set (nw_rows w). n \<notin> set (due_batch (ne_now env) limit w) \<longrightarrow> n \<in> set (nw_rows w'))
     \<and> (\<forall>n \<in> set (due_batch (ne_now env) limit w). \<not> stuck env n \<longrightarrow>
          (\<exists>n' \<in> set (nw_rows w'). nt_id n' = nt_id n \<and> \<not> notification_due now' n'))"
proof (intro conjI ballI impI)
  note facts = dispatchPending_facts [OF assms]
  have kd: "keys_distinct nt_id (nw_rows w)" using assms(2) by (simp add: notify_inv_def)
  show "dr_processed rep = length (due_batch (ne_now env) limit w)"
    "dr_delivered rep + dr_failed rep + dr_skipped rep = dr_processed rep" using facts(1,2) by simp_all
  show "n \<in> set (nw_rows w')" if n: "n \<in> set (nw_rows w)" "n \<notin> set (due_batch (ne_now env) limit w)" for n
  proof -
    have "nt_id n \<notin> nt_id ` set (due_batch (ne_now env) limit w)"
      using n(2) batch_unique [OF kd n(1)] by auto
    then have "by_key nt_id (nw_rows w') (nt_id n) = Some n" using facts(4) by_key_mem [OF kd n(1)] by simp
    then show ?thesis by (auto dest!: by_key_SomeD)
  qed
  show "\<exists>n' \<in> set (nw_rows w'). nt_id n' = nt_id n \<and> \<not> notification_due now' n'"
    if "n \<in> set (due_batch (ne_now env) limit w)" "\<not> stuck env n" for n
    using facts(5) [OF that(1)] that(2)
    by (auto simp: handled_def notification_due_def split: option.splits dest!: by_key_SomeD)
qed


text \<open>
  A webhook that answers 500, a push message and an address: the first is put back, the second is given up, the third
  is sent; the row marked as read is not taken.
\<close>

definition sample_notification :: "str \<Rightarrow> channel \<Rightarrow> notification_status \<Rightarrow> notification" where
  "sample_notification i c st =
     (new_notification i 0 \<lparr>so_tenantId = ''t'', so_type = c, so_recipientId = Some ''u'', so_recipientEmail = Some ''a@b'',
        so_subject = ''s'', so_content = ''c'', so_priority = None, so_category = None,
        so_metadata = Some [(''url'', JStr ''http'')], so_templateData = None\<rparr>)\<lparr>nt_status := st\<rparr>"

definition sample_world :: notify_world where
  "sample_world = \<lparr>nw_rows = [sample_notification ''w'' ChWebhook NtPending, sample_notification ''p'' ChPush NtPending,
       sample_notification ''e'' ChEmail NtQueued, sample_notification ''r'' ChEmail NtRead],
     nw_preferences = [], nw_templates = [], nw_events = [], nw_calls = []\<rparr>"

definition sample_env :: notify_env where
  "sample_env = \<lparr>ne_now = 5, ne_mail = (\<lambda>_ _ _. True), ne_web = (\<lambda>_ _. WebStatus 500), ne_secret = None,
     ne_hmac = (\<lambda>_ _. []), ne_refuses = (\<lambda>_. None), ne_users = []\<rparr>"

lemma sample_world_inv: "notify_inv sample_world"
  by (simp add: notify_inv_def sample_world_def sample_notification_def new_notification_def row_ok_def)


theorem dispatch_sweep_moves_on_witness:
  "\<exists>rep w'. dispatchPending sample_env 50 sample_world = (rep, w')
     \<and> dr_processed rep = 3 \<and> dr_delivered rep = 1 \<and> dr_failed rep = 2
     \<and> dr_delivered rep + dr_failed rep + dr_skipped rep = dr_processed rep
     \<and> sample_notification ''r'' ChEmail NtRead \<in> set (nw_rows w')"
proof -
  obtain rep w' where d: "dispatchPending sample_env 50 sample_world = (rep, w')" by fastforce
  have "dr_processed (fst (dispatchPending sample_env 50 sample_world)) = 3
      \<and> dr_delivered (fst (dispatchPending sample_env 50 sample_world)) = 1
      \<and> dr_failed (fst (dispatchPending sample_env 50 sample_world)) = 2"
    by code_simp
  moreover have "sample_notification ''r'' ChEmail NtRead \<in> set (nw_rows sample_world)"
    "\<not> notification_due 5 (sample_notification ''r'' ChEmail NtRead)"
    by (simp_all add: sample_world_def notification_due_def sample_notification_def)
  moreover have "ne_now sample_env = 5" by (simp add: sample_env_def)
  ultimately show ?thesis
    using dispatch_sweep_moves_on [OF d sample_world_inv] d set_due_batch by (metis fst_conv)
qed

section \<open>Where preferences and marks do not reach\<close>

text \<open>Marking everything read leaves the unread count as it was.\<close>

lemma mark_read_count:
  "length (find_where (\<lambda>n. nt_tenantId n = T \<and> nt_recipientId n = u) (nw_rows (mark_read P now w)))
   = length (find_where (\<lambda>n. nt_tenantId n = T \<and> nt_recipientId n = u) (nw_rows w))"
  by (simp add: mark_read_def find_where_def filter_map comp_def if_distrib [of nt_tenantId] if_distrib [of nt_recipientId])

theorem unread_count_ignores_reads:
  "getUnreadCount (markAllAsRead now T u w) T u = getUnreadCount w T u"
  by (simp add: getUnreadCount_def markAllAsRead_def mark_read_count)

text \<open>Quiet hours that end at a time of the day.\<close>

definition well_formed_hours :: "quiet_hours \<Rightarrow> nat \<Rightarrow> nat \<Rightarrow> bool" where
  "well_formed_hours q h m \<longleftrightarrow> h < 24 \<and> m < 60 \<and> qh_endTime q = pad_int 2 (int h) @ '':'' @ pad_int 2 (int m)"


lemma two_digits_table:
  "list_all (\<lambda>n. length (pad_int 2 (int n)) = 2 \<and> digits_value (pad_int 2 (int n)) = int n) [0..<60]"
  by code_simp

lemma two_digits: "n < 60 \<Longrightarrow> length (pad_int 2 (int n)) = 2 \<and> digits_value (pad_int 2 (int n)) = int n"
  using two_digits_table by (simp add: list_all_iff)

lemma quiet_end:
  assumes "pf_quietHours p = Some q" "well_formed_hours q h m"
  shows "getQuietHoursEnd p now =
    (let t = now - now mod ms_per_day + int h * 3600000 + int m * 60000 in if t < now then t + ms_per_day else t)"
proof -
  have hm: "h < 60" "m < 60" and e: "qh_endTime q = pad_int 2 (int h) @ '':'' @ pad_int 2 (int m)"
    using assms(2) by (simp_all add: well_formed_hours_def)
  have "take 2 (qh_endTime q) = pad_int 2 (int h)" "take 2 (drop 3 (qh_endTime q)) = pad_int 2 (int m)" "qh_endTime q \<noteq> []"
    using two_digits [OF hm(1)] two_digits [OF hm(2)] by (simp_all add: e)
  then show ?thesis
    using assms(1) two_digits [OF hm(1)] two_digits [OF hm(2)] by (simp add: getQuietHoursEnd_def Let_def)
qed

lemma str_less_asym: "str_less s t \<Longrightarrow> \<not> str_less t s"
  using str_less_trans [of s t s] by auto

text \<open>
  What is sent in the quiet hours of the recipient waits for their end, at most a day; but in the
  minute they end, in which they still hold, it waits for the end of the next day's.
\<close>

theorem quiet_hours_defer:
  assumes "pf_quietHours p = Some q" "well_formed_hours q h m"
  shows "now \<le> getQuietHoursEnd p now \<and> getQuietHoursEnd p now \<le> now + ms_per_day
     \<and> getQuietHoursEnd p now mod ms_per_day = int h * 3600000 + int m * 60000
     \<and> (qh_enabled q \<and> now mod ms_per_day div 60000 = int (60 * h + m) \<and> now mod 60000 \<noteq> 0 \<longrightarrow>
          isInQuietHours p now \<and> now + ms_per_day - 60000 < getQuietHoursEnd p now)"
proof -
  let ?t = "int h * 3600000 + int m * 60000" and ?r = "now mod ms_per_day" and ?e = "getQuietHoursEnd p now"
  have hm: "h < 24" "m < 60" using assms(2) by (simp_all add: well_formed_hours_def)
  have day: "(ms_per_day :: int) = 86400000" by simp
  have t: "0 \<le> ?t" "?t < ms_per_day" and r: "0 \<le> ?r" "?r < ms_per_day" using hm by simp_all
  have e: "?e = (if ?t < ?r then now - ?r + ?t + ms_per_day else now - ?r + ?t)"
    using quiet_end [OF assms, of now] by (auto simp: Let_def)
  have "now - ?r + ?t = ?t + (now div ms_per_day) * ms_per_day" by (simp add: minus_mod_eq_div_mult)
  then have m0: "(now - ?r + ?t) mod ms_per_day = ?t" using t by (simp only: mod_mult_self1 mod_pos_pos_trivial)
  show ?thesis
  proof (intro conjI impI)
    show "now \<le> ?e" "?e \<le> now + ms_per_day" using e t r by auto
    show "?e mod ms_per_day = ?t" using e m0 by auto
  next
    assume a: "qh_enabled q \<and> ?r div 60000 = int (60 * h + m) \<and> now mod 60000 \<noteq> 0"
    have c: "clock_text now = qh_endTime q"
    proof -
      have "?r div 3600000 = ?r div 60000 div 60" by (simp add: zdiv_zmult2_eq [symmetric])
      also have "\<dots> = int h" using a hm by (simp add: zdiv_int [symmetric])
      finally have h: "?r div 3600000 = int h" .
      have "?r div 60000 mod 60 = int m" using a hm by (simp add: zmod_int [symmetric])
      with h assms(2) show ?thesis by (simp add: clock_text_def well_formed_hours_def Let_def)
    qed
    show "isInQuietHours p now"
      using assms(1) a c str_less_asym by (auto simp: isInQuietHours_def Let_def)
  next
    assume a: "qh_enabled q \<and> ?r div 60000 = int (60 * h + m) \<and> now mod 60000 \<noteq> 0"
    have "?r mod 60000 = now mod 60000" by (simp add: mod_mod_cancel)
    moreover have "?r = 60000 * (?r div 60000) + ?r mod 60000" by simp
    moreover have "0 < now mod 60000 \<and> now mod 60000 < 60000" 
      using a pos_mod_bound [of 60000 now] pos_mod_sign [of 60000 now] by linarith
    ultimately have "?t < ?r" "?r < ?t + 60000" using a by linarith+
    then show "now + ms_per_day - 60000 < ?e" using e by simp
  qed
qed

text \<open>Nights from 22:00 to 07:00, thirty seconds past seven: the message waits for the next morning.\<close>

theorem quiet_hours_defer_witness:
  "isInQuietHours ((default_preferences ''p'' ''t'' ''u'')\<lparr>pf_quietHours := Some \<lparr>qh_enabled = True, qh_startTime = ''22:00'', qh_endTime = ''07:00''\<rparr>\<rparr>) 25230000
   \<and> getQuietHoursEnd ((default_preferences ''p'' ''t'' ''u'')\<lparr>pf_quietHours := Some \<lparr>qh_enabled = True, qh_startTime = ''22:00'', qh_endTime = ''07:00''\<rparr>\<rparr>) 25230000
     = 25200000 + ms_per_day"
proof -
  let ?q = "\<lparr>qh_enabled = True, qh_startTime = ''22:00'', qh_endTime = ''07:00''\<rparr>"
  let ?p = "(default_preferences ''p'' ''t'' ''u'')\<lparr>pf_quietHours := Some ?q\<rparr>"
  have "well_formed_hours ?q 7 0" by code_simp
  from quiet_hours_defer [OF _ this, of ?p 25230000] have "isInQuietHours ?p 25230000" by simp
  moreover have "getQuietHoursEnd ?p 25230000 = 25200000 + ms_per_day" by code_simp
  ultimately show ?thesis by blast
qed

text \<open>
  The in-app switch a user has is under a name that is no channel's: whatever it says, an in-app message is
  let through or kept as if it were not there.
\<close>

theorem in_app_switch_is_not_read:
  assumes "so_type opts = ChInApp" "map_of (pf_channels p) ''in_app'' = None"
  shows "shouldSendNotification (p\<lparr>pf_channels := (''inApp'', on) # pf_channels p\<rparr>) opts = shouldSendNotification p opts
     \<and> shouldSendNotification (p\<lparr>pf_channels := []\<rparr>) opts = shouldSendNotification p opts"
  using assms by (auto simp: shouldSendNotification_def split: option.splits)

theorem in_app_switch_is_not_read_witness:
  "shouldSendNotification ((default_preferences ''p'' ''t'' ''u'')\<lparr>pf_channels := (''inApp'', False) # [(''email'', True), (''inApp'', True)]\<rparr>)
     \<lparr>so_tenantId = ''t'', so_type = ChInApp, so_recipientId = Some ''u'', so_recipientEmail = None, so_subject = [],
      so_content = [], so_priority = None, so_category = None, so_metadata = None, so_templateData = None\<rparr>"
proof -
  let ?p = "default_preferences ''p'' ''t'' ''u''" and ?o = "\<lparr>so_tenantId = ''t'', so_type = ChInApp, so_recipientId = Some ''u'',
      so_recipientEmail = None, so_subject = [], so_content = [], so_priority = None, so_category = None, so_metadata = None,
      so_templateData = None\<rparr> :: send_options"
  have "shouldSendNotification ?p ?o" by code_simp
  moreover have "pf_channels ?p = [(''email'', True), (''inApp'', True)]" by (simp add: default_preferences_def)
  ultimately show ?thesis using in_app_switch_is_not_read [of ?o ?p False] by simp
qed


end
