(* ===== verification/Records.thy ===== *)
theory Records
  imports Access DeepMerge VerticalPack
begin

text \<open>
  The rows of \<^verbatim>\<open>universal_entities\<close> as the CRM services see them, and \<^verbatim>\<open>src/crm/record-identity.ts\<close>: which types
  are numbered, in which series, and how the next number is claimed from the counter of a tenant.
\<close>

section \<open>Rows\<close>

datatype entity_status = EntityOpen | EntityInProgress | EntityBlocked | EntityResolved | EntityClosed | EntityCancelled

record crm_entity = entity +
  ce_lastName :: "str option"
  ce_phoneNumber :: "str option"
  ce_status :: "entity_status option"
  ce_dueDate :: "instant option"
  ce_recordNumber :: "str option"
  ce_verticalAttributes :: js_obj
  ce_metadata :: js_obj
  ce_relationships :: "(str \<times> str) list"
  ce_vertical :: str
  ce_environment :: str
  ce_createdAt :: instant
  ce_updatedAt :: instant
  ce_deletedAt :: "instant option"

text \<open>What the access checks read of a row.\<close>

abbreviation row_of :: "crm_entity \<Rightarrow> entity" where
  "row_of e \<equiv> entity.truncate e"

fun entity_type_text :: "entity_type \<Rightarrow> str" where
  "entity_type_text Person = ''person''"
| "entity_type_text Organization = ''organization''"
| "entity_type_text Case = ''case''"
| "entity_type_text Note = ''note''"
| "entity_type_text Tag = ''tag''"
| "entity_type_text Asset = ''asset''"
| "entity_type_text Obligation = ''obligation''"
| "entity_type_text Breach = ''breach''"
| "entity_type_text Lead = ''lead''"
| "entity_type_text KnowledgeArticle = ''knowledge_article''"
| "entity_type_text TrainingModule = ''training_module''"
| "entity_type_text Vendor = ''vendor''"
| "entity_type_text ControlTest = ''control_test''"
| "entity_type_text RiskScenario = ''risk_scenario''"
| "entity_type_text Milestone = ''milestone''"
| "entity_type_text TurnoverRecord = ''turnover_record''"
| "entity_type_text Rfi = ''rfi''"
| "entity_type_text ScreeningMatch = ''screening_match''"
| "entity_type_text Sar = ''sar''"
| "entity_type_text TradeInstrument = ''trade_instrument''"

fun entity_status_text :: "entity_status \<Rightarrow> str" where
  "entity_status_text EntityOpen = ''open''"
| "entity_status_text EntityInProgress = ''in_progress''"
| "entity_status_text EntityBlocked = ''blocked''"
| "entity_status_text EntityResolved = ''resolved''"
| "entity_status_text EntityClosed = ''closed''"
| "entity_status_text EntityCancelled = ''cancelled''"

definition text_or_null :: "str option \<Rightarrow> js" where
  "text_or_null s = (case s of None \<Rightarrow> JNull | Some t \<Rightarrow> JStr t)"

definition date_or_null :: "instant option \<Rightarrow> js" where
  "date_or_null d = (case d of None \<Rightarrow> JNull | Some t \<Rightarrow> JDate (Some t))"

text \<open>A loaded row as the object it is, a property for every column in the order of the class.\<close>

definition entity_obj :: "crm_entity \<Rightarrow> js_obj" where
  "entity_obj e =
     [(''id'', JStr (en_id e)), (''tenantId'', JStr (en_tenantId e)), (''type'', JStr (entity_type_text (en_type e))),
      (''firstName'', text_or_null (en_firstName e)), (''lastName'', text_or_null (ce_lastName e)),
      (''email'', text_or_null (en_email e)), (''phoneNumber'', text_or_null (ce_phoneNumber e)),
      (''status'', text_or_null (map_option entity_status_text (ce_status e))), (''dueDate'', date_or_null (ce_dueDate e)),
      (''assignedTo'', text_or_null (en_assignedTo e)), (''subjectEmail'', text_or_null (en_subjectEmail e)),
      (''recordNumber'', text_or_null (ce_recordNumber e)), (''verticalAttributes'', JObj (ce_verticalAttributes e)),
      (''metadata'', JObj (ce_metadata e)),
      (''relationships'', JArr (map (\<lambda>(i, t). JObj [(''id'', JStr i), (''type'', JStr t)]) (ce_relationships e))),
      (''vertical'', JStr (ce_vertical e)), (''environment'', JStr (ce_environment e)),
      (''createdAt'', date_or_null (Some (ce_createdAt e))), (''updatedAt'', date_or_null (Some (ce_updatedAt e))),
      (''deletedAt'', date_or_null (ce_deletedAt e))]"

section \<open>Record numbers\<close>

definition SUBJECT_TYPES :: "entity_type list" where
  "SUBJECT_TYPES = [Person, Organization]"

datatype record_series = CL | CS

fun series_text :: "record_series \<Rightarrow> str" where
  "series_text CL = ''CL''"
| "series_text CS = ''CS''"

definition seriesFor :: "entity_type \<Rightarrow> record_series option" where
  "seriesFor ty = (if ty \<in> set SUBJECT_TYPES then Some CL else if ty = Case then Some CS else None)"

definition formatRecordNumber :: "record_series \<Rightarrow> nat \<Rightarrow> str" where
  "formatRecordNumber series n = series_text series @ ''-'' @ pad_int 6 (int n)"

record record_counter =
  nr_tenantId :: str
  nr_series :: record_series
  nr_value :: nat

abbreviation counter_key :: "record_counter \<Rightarrow> str \<times> record_series" where
  "counter_key c \<equiv> (nr_tenantId c, nr_series c)"

text \<open>
  The upsert: one is the first number of a series. The policy of the counter table refuses a row of
  another tenant than the connection is bound to.
\<close>

definition claimRecordNumber ::
  "als \<Rightarrow> str \<Rightarrow> record_series \<Rightarrow> record_counter list \<Rightarrow> (str \<times> record_counter list) option" where
  "claimRecordNumber ctx tenantId series counters =
     (if \<not> rls_visible ctx tenantId then None
      else let n = (case by_key counter_key counters (tenantId, series) of None \<Rightarrow> 1 | Some c \<Rightarrow> Suc (nr_value c))
           in Some (formatRecordNumber series n,
                    save_row counter_key \<lparr>nr_tenantId = tenantId, nr_series = series, nr_value = n\<rparr> counters))"

interpretation counter_repo:
  repository counter_key "\<lambda>t. by_key counter_key t" "save_row counter_key" "remove_row counter_key" "keys_distinct counter_key"
  by unfold_locales (auto simp: table_simps keys_distinct_save keys_distinct_remove dest: by_key_SomeD)

section \<open>Lemmas\<close>

lemma digits_value_snoc: "digits_value (s @ [c]) = 10 * digits_value s + (int (of_char c) - 48)"
  by (simp add: digits_value_def)

lemma digits_value_digits_of [simp]: "digits_value (digits_of n) = int n"
proof (induction n rule: digits_of.induct)
  case (1 n)
  show ?case
  proof (cases "n < 10")
    case True
    then show ?thesis by (simp add: digits_of.simps [of n] digits_value_def)
  next
    case False
    have "digits_value (digits_of n) = 10 * int (n div 10) + int (n mod 10)"
      using False 1 by (simp add: digits_of.simps [of n] digits_value_snoc)
    also have "\<dots> = int (10 * (n div 10) + n mod 10)" by (simp only: of_nat_add of_nat_mult of_nat_numeral)
    also have "\<dots> = int n" by (simp only: mult_div_mod_eq)
    finally show ?thesis .
  qed
qed

lemma digits_value_zeros: "digits_value (replicate k (CHR ''0'') @ s) = digits_value s"
  by (induction k) (simp_all add: digits_value_def)

lemma digits_value_pad [simp]: "digits_value (pad_int w (int n)) = int n"
  by (simp add: pad_int_def Let_def digits_value_zeros)

lemma formatRecordNumber_inj:
  "formatRecordNumber s n = formatRecordNumber s' n' \<longleftrightarrow> s = s' \<and> n = n'"
proof
  assume eq: "formatRecordNumber s n = formatRecordNumber s' n'"
  have s: "s = s'" using eq by (cases s; cases s') (simp_all add: formatRecordNumber_def)
  with eq have "pad_int 6 (int n) = pad_int 6 (int n')" by (simp add: formatRecordNumber_def)
  then have "digits_value (pad_int 6 (int n)) = digits_value (pad_int 6 (int n'))" by simp
  with s show "s = s' \<and> n = n'" by simp
qed simp

text \<open>The last number a tenant was given in a series.\<close>

definition issued :: "record_counter list \<Rightarrow> str \<Rightarrow> record_series \<Rightarrow> nat" where
  "issued counters tenantId series =
     (case by_key counter_key counters (tenantId, series) of None \<Rightarrow> 0 | Some c \<Rightarrow> nr_value c)"

lemma claim_result:
  assumes "claimRecordNumber ctx T s counters = Some (number, counters')"
  shows "number = formatRecordNumber s (Suc (issued counters T s)) \<and> issued counters' T s = Suc (issued counters T s)
    \<and> (\<forall>T' s'. issued counters T' s' \<le> issued counters' T' s')"
  using assms by (auto simp: claimRecordNumber_def issued_def Let_def by_key_save split: if_splits option.splits)

text \<open>
  Numbers of a tenant are never claimed twice: between two claims in one series there lies at least one,
  and the texts of different series differ.
\<close>

lemma claim_new:
  assumes "claimRecordNumber ctx T s counters = Some (number, counters')" "n \<le> issued counters T s'"
  shows "number \<noteq> formatRecordNumber s' n"
  using claim_result [OF assms(1)] assms(2) by (auto simp: formatRecordNumber_inj)

end
