(* ===== verification/Relations.thy ===== *)
theory Relations
  imports Records
begin

text \<open>
  \<^verbatim>\<open>src/crm/entity-relation.service.ts\<close>: typed edges between records, which the relationships of the pack define,
  with their cardinality; what a caller sees of them, and which open records keep another from being completed.
\<close>

section \<open>Definitions of the pack\<close>

datatype cardinality = OneToOne | OneToMany | ManyToMany

definition cardinalities :: "(str \<times> cardinality) list" where
  "cardinalities = [(''one_to_one'', OneToOne), (''one_to_many'', OneToMany), (''many_to_many'', ManyToMany)]"

record relationship =
  rl_key :: str
  rl_label :: str
  rl_fromType :: str
  rl_toType :: str
  rl_cardinality :: "cardinality option"
  rl_inverseLabel :: "str option"
  rl_blocksCompletion :: bool

definition relationship_of :: "js_obj \<Rightarrow> relationship" where
  "relationship_of ob =
     \<lparr>rl_key = nullish (text_of ''key'' ob) [], rl_label = nullish (text_of ''label'' ob) [],
      rl_fromType = nullish (text_of ''fromType'' ob) [], rl_toType = nullish (text_of ''toType'' ob) [],
      rl_cardinality = Option.bind (text_of ''cardinality'' ob) (map_of cardinalities),
      rl_inverseLabel = text_of ''inverseLabel'' ob,
      rl_blocksCompletion = (obj_get ''blocksCompletion'' ob = Some (JBool True))\<rparr>"

text \<open>Where the definitions come from: the pack that serves the vertical in the caller's context.\<close>

record pack_view =
  pv_pins_ok :: bool
  pv_packs :: pack_db
  pv_ctx :: als
  pv_vertical :: "str option"

definition relation_definitions :: "pack_view \<Rightarrow> relationship list" where
  "relation_definitions pv =
     map (\<lambda>x. relationship_of (obj_of x))
       (list_section (pv_pins_ok pv) (pv_packs pv) (pv_ctx pv) (pv_vertical pv) ''relationships'')"

section \<open>Edges\<close>

record entity_relation =
  eg_id :: str
  eg_tenantId :: str
  eg_relationKey :: str
  eg_fromId :: str
  eg_fromType :: str
  eg_toId :: str
  eg_toType :: str
  eg_createdBy :: "str option"
  eg_createdAt :: instant

datatype relation_error =
    SelfRelation
  | RelationUndefined str
  | EntityMissing str
  | RelationDenied access_error
  | WrongTypes str
  | AlreadyLinked cardinality str
  | StillOpen nat "str list"

definition entity_in :: "str \<Rightarrow> crm_entity list \<Rightarrow> str \<Rightarrow> relation_error + crm_entity" where
  "entity_in tenantId rows i =
     (case find_one (\<lambda>e. en_tenantId e = tenantId \<and> en_id e = i) rows of
        None \<Rightarrow> Inl (EntityMissing i) | Some e \<Rightarrow> Inr e)"

definition relation_definition :: "pack_view \<Rightarrow> str \<Rightarrow> relation_error + relationship" where
  "relation_definition pv key =
     (case find_one (\<lambda>d. rl_key d = key) (relation_definitions pv) of
        None \<Rightarrow> Inl (RelationUndefined key) | Some d \<Rightarrow> Inr d)"

definition read_check :: "als \<Rightarrow> actor \<Rightarrow> crm_entity \<Rightarrow> relation_error + unit" where
  "read_check ctx a e =
     (case crm_assert ctx a CrmRead (row_of e) of Inl x \<Rightarrow> Inl (RelationDenied x) | Inr _ \<Rightarrow> Inr ())"

abbreviation edge_of :: "str \<Rightarrow> str \<Rightarrow> str \<Rightarrow> str \<Rightarrow> entity_relation \<Rightarrow> bool" where
  "edge_of T key fromId toId r \<equiv>
     eg_tenantId r = T \<and> eg_relationKey r = key \<and> eg_fromId r = fromId \<and> eg_toId r = toId"

definition enforceCardinality :: "str \<Rightarrow> relationship \<Rightarrow> str \<Rightarrow> str \<Rightarrow> entity_relation list \<Rightarrow> relation_error + unit" where
  "enforceCardinality tenantId d fromId toId edges =
     (let c = nullish (rl_cardinality d) ManyToMany in
      if c = ManyToMany then Inr ()
      else if 0 < length (find_where (\<lambda>r. eg_tenantId r = tenantId \<and> eg_relationKey r = rl_key d \<and> eg_fromId r = fromId) edges)
      then Inl (AlreadyLinked c fromId)
      else if c = OneToOne
        \<and> 0 < length (find_where (\<lambda>r. eg_tenantId r = tenantId \<and> eg_relationKey r = rl_key d \<and> eg_toId r = toId) edges)
      then Inl (AlreadyLinked OneToOne toId)
      else Inr ())"

definition link_row ::
  "pack_view \<Rightarrow> str \<Rightarrow> instant \<Rightarrow> str \<Rightarrow> actor \<Rightarrow> str \<Rightarrow> str \<Rightarrow> str \<Rightarrow> str option \<Rightarrow> crm_entity list \<Rightarrow> entity_relation list
   \<Rightarrow> relation_error + (entity_relation \<times> bool)" where
  "link_row pv newId now tenantId a relationKey fromId toId createdBy rows edges =
     (if fromId = toId then Inl SelfRelation
      else and_then (relation_definition pv relationKey) (\<lambda>d.
           and_then (entity_in tenantId rows fromId) (\<lambda>from'.
           and_then (entity_in tenantId rows toId) (\<lambda>to'.
           and_then (read_check (pv_ctx pv) a from') (\<lambda>_.
           and_then (read_check (pv_ctx pv) a to') (\<lambda>_.
           if entity_type_text (en_type from') \<noteq> rl_fromType d \<or> entity_type_text (en_type to') \<noteq> rl_toType d
           then Inl (WrongTypes relationKey)
           else case find_one (edge_of tenantId relationKey fromId toId) edges of
                  Some r \<Rightarrow> Inr (r, True)
                | None \<Rightarrow>
                    and_then (enforceCardinality tenantId d fromId toId edges) (\<lambda>_.
                    Inr (\<lparr>eg_id = newId, eg_tenantId = tenantId, eg_relationKey = relationKey, eg_fromId = fromId,
                          eg_fromType = entity_type_text (en_type from'), eg_toId = toId,
                          eg_toType = entity_type_text (en_type to'), eg_createdBy = createdBy, eg_createdAt = now\<rparr>, False))))))))"

text \<open>The flag says that the edge is there already, so that nothing is saved.\<close>

definition link ::
  "pack_view \<Rightarrow> str \<Rightarrow> instant \<Rightarrow> str \<Rightarrow> actor \<Rightarrow> str \<Rightarrow> str \<Rightarrow> str \<Rightarrow> str option \<Rightarrow> crm_entity list \<Rightarrow> entity_relation list
   \<Rightarrow> (relation_error + entity_relation) \<times> entity_relation list" where
  "link pv newId now tenantId a relationKey fromId toId createdBy rows edges =
     (case link_row pv newId now tenantId a relationKey fromId toId createdBy rows edges of
        Inl e \<Rightarrow> (Inl e, edges)
      | Inr (row, existing) \<Rightarrow> (Inr row, if existing then edges else save_row eg_id row edges))"

definition unlink ::
  "als \<Rightarrow> str \<Rightarrow> actor \<Rightarrow> str \<Rightarrow> str \<Rightarrow> str \<Rightarrow> crm_entity list \<Rightarrow> entity_relation list
   \<Rightarrow> (relation_error + unit) \<times> entity_relation list" where
  "unlink ctx tenantId a relationKey fromId toId rows edges =
     (case and_then (entity_in tenantId rows fromId) (read_check ctx a) of
        Inl e \<Rightarrow> (Inl e, edges)
      | Inr _ \<Rightarrow> (Inr (), filter (\<lambda>r. \<not> edge_of tenantId relationKey fromId toId r) edges))"

section \<open>Reading the graph\<close>

record neighbour =
  nb_relationKey :: str
  nb_label :: str
  nb_entity :: crm_entity

definition readable_by :: "als \<Rightarrow> actor \<Rightarrow> crm_entity \<Rightarrow> bool" where
  "readable_by ctx a e = crm_canAccess ctx a CrmRead (row_of e)"

definition traverse ::
  "pack_view \<Rightarrow> str \<Rightarrow> actor \<Rightarrow> str \<Rightarrow> crm_entity list \<Rightarrow> entity_relation list
   \<Rightarrow> relation_error + (neighbour list \<times> neighbour list)" where
  "traverse pv tenantId a entityId rows edges =
     and_then (entity_in tenantId rows entityId) (\<lambda>parent.
     and_then (read_check (pv_ctx pv) a parent) (\<lambda>_.
       let byKey = map_get rl_key (relation_definitions pv);
           out = find_where (\<lambda>r. eg_tenantId r = tenantId \<and> eg_fromId r = entityId) edges;
           into = find_where (\<lambda>r. eg_tenantId r = tenantId \<and> eg_toId r = entityId) edges;
           ids = map eg_toId out @ map eg_fromId into;
           entityById = map_get en_id (filter (readable_by (pv_ctx pv) a)
             (find_where (\<lambda>e. en_tenantId e = tenantId \<and> en_id e \<in> set ids) rows))
       in Inr
         (List.map_filter (\<lambda>r. map_option (\<lambda>e. \<lparr>nb_relationKey = eg_relationKey r,
              nb_label = (case byKey (eg_relationKey r) of None \<Rightarrow> eg_relationKey r | Some d \<Rightarrow> rl_label d),
              nb_entity = e\<rparr>) (entityById (eg_toId r))) out,
          List.map_filter (\<lambda>r. map_option (\<lambda>e. \<lparr>nb_relationKey = eg_relationKey r,
              nb_label = (case byKey (eg_relationKey r) of
                            None \<Rightarrow> eg_relationKey r
                          | Some d \<Rightarrow> nullish (rl_inverseLabel d) (rl_label d @ '' (inverse)'')),
              nb_entity = e\<rparr>) (entityById (eg_fromId r))) into)))"

definition CLOSED_STATUSES :: "entity_status list" where
  "CLOSED_STATUSES = [EntityResolved, EntityClosed, EntityCancelled]"

definition openBlockers :: "pack_view \<Rightarrow> str \<Rightarrow> str \<Rightarrow> crm_entity list \<Rightarrow> entity_relation list \<Rightarrow> crm_entity list" where
  "openBlockers pv tenantId entityId rows edges =
     (let blocking = filter rl_blocksCompletion (relation_definitions pv);
          out = find_where (\<lambda>r. eg_tenantId r = tenantId \<and> eg_fromId r = entityId
                              \<and> eg_relationKey r \<in> rl_key ` set blocking) edges;
          targets = find_where (\<lambda>e. en_tenantId e = tenantId \<and> en_id e \<in> eg_toId ` set out) rows
      in if blocking = [] \<or> out = [] then []
         else filter (\<lambda>t. case ce_status t of None \<Rightarrow> False | Some s \<Rightarrow> s \<notin> set CLOSED_STATUSES) targets)"

definition completionBlockers ::
  "pack_view \<Rightarrow> str \<Rightarrow> actor \<Rightarrow> str \<Rightarrow> crm_entity list \<Rightarrow> entity_relation list \<Rightarrow> relation_error + crm_entity list" where
  "completionBlockers pv tenantId a entityId rows edges =
     and_then (entity_in tenantId rows entityId) (\<lambda>parent.
     and_then (read_check (pv_ctx pv) a parent) (\<lambda>_.
     Inr (filter (readable_by (pv_ctx pv) a) (openBlockers pv tenantId entityId rows edges))))"

text \<open>The error names at most three of the blockers the caller may read, and counts them all.\<close>

definition assertCompletable ::
  "pack_view \<Rightarrow> str \<Rightarrow> actor \<Rightarrow> str \<Rightarrow> crm_entity list \<Rightarrow> entity_relation list \<Rightarrow> relation_error + unit" where
  "assertCompletable pv tenantId a entityId rows edges =
     (let blockers = openBlockers pv tenantId entityId rows edges in
      if blockers = [] then Inr ()
      else Inl (StillOpen (length blockers)
             (map (\<lambda>b. entity_type_text (en_type b) @ '' '' @ take 8 (en_id b))
               (take 3 (filter (readable_by (pv_ctx pv) a) blockers)))))"

section \<open>Linking\<close>

interpretation relation_repo:
  repository eg_id "\<lambda>t. by_key eg_id t" "save_row eg_id" "remove_row eg_id" "keys_distinct eg_id"
  by unfold_locales (auto simp: table_simps keys_distinct_save keys_distinct_remove dest: by_key_SomeD)

lemma entity_in_Inr: "entity_in T rows i = Inr e \<Longrightarrow> e \<in> set rows \<and> en_tenantId e = T \<and> en_id e = i"
  by (auto simp: entity_in_def split: option.splits dest: find_one_SomeD)

lemma read_check_Inr [simp]: "read_check ctx a e = Inr u \<longleftrightarrow> readable_by ctx a e"
  by (auto simp: read_check_def readable_by_def crm_assert_def)

text \<open>The definition a key names, and how many edges it allows.\<close>

definition defined_as :: "relationship list \<Rightarrow> str \<Rightarrow> relationship option" where
  "defined_as ds key = find_one (\<lambda>d. rl_key d = key) ds"

definition allowed :: "relationship list \<Rightarrow> str \<Rightarrow> cardinality" where
  "allowed ds key = nullish (Option.bind (defined_as ds key) rl_cardinality) ManyToMany"

lemma relation_definition_Inr: "relation_definition pv key = Inr d \<longleftrightarrow> defined_as (relation_definitions pv) key = Some d"
  by (auto simp: relation_definition_def defined_as_def split: option.splits)

text \<open>Two edges of a tenant under one key that may not both be there.\<close>

definition clash :: "relationship list \<Rightarrow> entity_relation \<Rightarrow> entity_relation \<Rightarrow> bool" where
  "clash ds r r' \<longleftrightarrow> eg_tenantId r = eg_tenantId r' \<and> eg_relationKey r = eg_relationKey r'
     \<and> (eg_fromId r = eg_fromId r' \<and> eg_toId r = eg_toId r'
        \<or> allowed ds (eg_relationKey r) \<noteq> ManyToMany \<and> eg_fromId r = eg_fromId r'
        \<or> allowed ds (eg_relationKey r) = OneToOne \<and> eg_toId r = eg_toId r')"

definition edge_ok :: "relationship list \<Rightarrow> entity_relation \<Rightarrow> bool" where
  "edge_ok ds r \<longleftrightarrow> eg_fromId r \<noteq> eg_toId r
     \<and> (\<exists>d. defined_as ds (eg_relationKey r) = Some d \<and> eg_fromType r = rl_fromType d \<and> eg_toType r = rl_toType d)"

definition edges_inv :: "relationship list \<Rightarrow> entity_relation list \<Rightarrow> bool" where
  "edges_inv ds edges \<longleftrightarrow> keys_distinct eg_id edges \<and> (\<forall>r \<in> set edges. edge_ok ds r)
     \<and> (\<forall>r \<in> set edges. \<forall>r' \<in> set edges. clash ds r r' \<longrightarrow> r = r')"

lemma clash_sym: "clash ds r r' \<Longrightarrow> clash ds r' r"
  by (auto simp: clash_def)

lemma enforceCardinality_Inr:
  "enforceCardinality T d fromId toId edges = Inr u \<longleftrightarrow>
     (let c = nullish (rl_cardinality d) ManyToMany in
      (c \<noteq> ManyToMany \<longrightarrow> (\<forall>r \<in> set edges. \<not> (eg_tenantId r = T \<and> eg_relationKey r = rl_key d \<and> eg_fromId r = fromId)))
      \<and> (c = OneToOne \<longrightarrow> (\<forall>r \<in> set edges. \<not> (eg_tenantId r = T \<and> eg_relationKey r = rl_key d \<and> eg_toId r = toId))))"
  by (auto simp: enforceCardinality_def Let_def find_where_def filter_empty_conv)

text \<open>A link that is granted: an edge that is there, or a new one the cardinality leaves room for.\<close>

lemma link_Inr:
  assumes "link pv newId now T a key fromId toId by' rows edges = (Inr r, edges')"
  obtains d e e' where "fromId \<noteq> toId" "defined_as (relation_definitions pv) key = Some d"
    "entity_in T rows fromId = Inr e" "entity_in T rows toId = Inr e'"
    "readable_by (pv_ctx pv) a e" "readable_by (pv_ctx pv) a e'"
    "entity_type_text (en_type e) = rl_fromType d" "entity_type_text (en_type e') = rl_toType d"
    "r \<in> set edges \<and> edges' = edges \<and> edge_of T key fromId toId r
     \<or> edges' = save_row eg_id r edges \<and> eg_id r = newId \<and> edge_of T key fromId toId r
       \<and> eg_fromType r = rl_fromType d \<and> eg_toType r = rl_toType d
       \<and> (\<forall>r' \<in> set edges. \<not> edge_of T key fromId toId r') \<and> enforceCardinality T d fromId toId edges = Inr ()"
proof -
  obtain ex where row: "link_row pv newId now T a key fromId toId by' rows edges = Inr (r, ex)"
    and edges': "edges' = (if ex then edges else save_row eg_id r edges)"
    using assms by (auto simp: link_def split: sum.splits)
  have ne: "fromId \<noteq> toId" using row by (auto simp: link_row_def)
  obtain d e e' where d: "defined_as (relation_definitions pv) key = Some d"
    and e: "entity_in T rows fromId = Inr e" "entity_in T rows toId = Inr e'"
      "readable_by (pv_ctx pv) a e" "readable_by (pv_ctx pv) a e'"
    and inner: "(if entity_type_text (en_type e) \<noteq> rl_fromType d \<or> entity_type_text (en_type e') \<noteq> rl_toType d
           then Inl (WrongTypes key)
           else case find_one (edge_of T key fromId toId) edges of
                  Some r \<Rightarrow> Inr (r, True)
                | None \<Rightarrow>
                    and_then (enforceCardinality T d fromId toId edges) (\<lambda>_.
                    Inr (\<lparr>eg_id = newId, eg_tenantId = T, eg_relationKey = key, eg_fromId = fromId,
                          eg_fromType = entity_type_text (en_type e), eg_toId = toId,
                          eg_toType = entity_type_text (en_type e'), eg_createdBy = by', eg_createdAt = now\<rparr>, False)))
        = Inr (r, ex)"
    using row ne unfolding link_row_def by (simp only: if_False and_then_Inr_iff relation_definition_Inr read_check_Inr) blast
  have types: "entity_type_text (en_type e) = rl_fromType d" "entity_type_text (en_type e') = rl_toType d"
    using inner by (auto split: if_splits)
  show thesis
  proof (cases "find_one (edge_of T key fromId toId) edges")
    case None
    then have "\<forall>r' \<in> set edges. \<not> edge_of T key fromId toId r'" by (simp add: find_one_None_iff)
    with None inner types edges' show thesis
      by (intro that [OF ne d e types]) (auto simp: and_then_Inr_iff)
  next
    case (Some r')
    then have "r' \<in> set edges" "edge_of T key fromId toId r'" by (auto dest: find_one_SomeD)
    with Some inner types edges' show thesis by (intro that [OF ne d e types]) simp
  qed
qed

lemma link_Inl: "link pv newId now T a key fromId toId by' rows edges = (Inl x, edges') \<Longrightarrow> edges' = edges"
  by (auto simp: link_def split: sum.splits)

lemma link_keeps:
  assumes "edges_inv ds edges" "relation_definitions pv = ds" "newId \<notin> eg_id ` set edges"
    "link pv newId now T a key fromId toId by' rows edges = (r, edges')"
  shows "edges_inv ds edges'"
proof (cases r)
  case (Inl x)
  then show ?thesis using assms link_Inl by blast
next
  case (Inr row)
  from assms(4) [unfolded Inr] show ?thesis
  proof (cases rule: link_Inr)
    case (1 d e e')
    from 1(9) show ?thesis
    proof
      assume new: "edges' = save_row eg_id row edges \<and> eg_id row = newId \<and> edge_of T key fromId toId row
          \<and> eg_fromType row = rl_fromType d \<and> eg_toType row = rl_toType d
          \<and> (\<forall>r' \<in> set edges. \<not> edge_of T key fromId toId r') \<and> enforceCardinality T d fromId toId edges = Inr ()"
      then have edges': "edges' = edges @ [row]" using save_row_new [of eg_id row edges] assms(3) by simp
      have d: "defined_as ds key = Some d" "rl_key d = key"
        using 1(2) assms(2) by (auto simp: defined_as_def dest: find_one_SomeD)
      have ok: "edge_ok ds row" using new d 1(1) by (auto simp: edge_ok_def)
      have no_clash: "\<not> clash ds row r'" if "r' \<in> set edges" for r'
        using new that d by (auto simp: clash_def allowed_def enforceCardinality_Inr Let_def)
      then have apart: "\<forall>r' \<in> set edges. \<not> clash ds row r' \<and> \<not> clash ds r' row" using clash_sym by blast
      have "eg_id row \<notin> eg_id ` set edges" using new assms(3) by simp
      then show ?thesis
        using assms(1) ok apart unfolding edges' edges_inv_def by auto
    qed (use assms(1) in simp)
  qed
qed

text \<open>The pack stays the same while edges come and go.\<close>

inductive relation_step :: "relationship list \<Rightarrow> entity_relation list \<Rightarrow> entity_relation list \<Rightarrow> bool"
  for ds where
  linked: "relation_definitions pv = ds \<Longrightarrow> newId \<notin> eg_id ` set edges
    \<Longrightarrow> link pv newId now T a key fromId toId by' rows edges = (r, edges') \<Longrightarrow> relation_step ds edges edges'"
| unlinked: "unlink ctx T a key fromId toId rows edges = (u, edges') \<Longrightarrow> relation_step ds edges edges'"

inductive_cases relation_stepE: "relation_step ds edges edges'"

lemma relation_step_keeps: "relation_step ds edges edges' \<Longrightarrow> edges_inv ds edges \<Longrightarrow> edges_inv ds edges'"
proof (induction rule: relation_step.induct)
  case (unlinked ctx T a key fromId toId rows edges u edges')
  then have "edges' = edges \<or> edges' = filter (\<lambda>r. \<not> edge_of T key fromId toId r) edges"
    by (auto simp: unlink_def split: sum.splits)
  then show ?case using unlinked.prems by (auto simp: edges_inv_def distinct_map_filter)
qed (rule link_keeps)


text \<open>
  An edge is made, or found, only between two records of the tenant that the caller may both read.
\<close>

theorem links_join_readable_records:
  assumes "link pv newId now T a key fromId toId by' rows edges = (Inr r, edges')"
  shows "\<exists>e \<in> set rows. \<exists>e' \<in> set rows. en_id e = fromId \<and> en_id e' = toId \<and> en_tenantId e = T \<and> en_tenantId e' = T
     \<and> readable_by (pv_ctx pv) a e \<and> readable_by (pv_ctx pv) a e' \<and> edge_of T key fromId toId r \<and> r \<in> set edges'"
  using assms
proof (cases rule: link_Inr)
  case (1 d e e')
  have "r \<in> set (save_row eg_id r edges)" by (induction edges) auto
  then show ?thesis using 1 by (blast dest: entity_in_Inr)
qed

section \<open>Reading the graph and completing\<close>

lemma readable_neighbour:
  assumes "map_get en_id (filter (readable_by ctx a) (find_where (\<lambda>e. en_tenantId e = T \<and> en_id e \<in> ids) rows)) k = Some e"
  shows "e \<in> set rows \<and> en_tenantId e = T \<and> readable_by ctx a e \<and> en_id e = k"
  using map_get_SomeD [OF assms] by (simp add: find_where_def)

lemma set_map_filter_option: "y \<in> set (List.map_filter f xs) \<longleftrightarrow> (\<exists>x \<in> set xs. f x = Some y)"
  by (induction xs) (auto simp: List.map_filter_simps split: option.splits)

text \<open>
  A traversal shows a caller who may read the record it starts from only neighbours the caller may
  read, each of the tenant and at the other end of an edge.
\<close>

theorem traversal_discloses_readable:
  assumes "traverse pv T a i rows edges = Inr (out, into)"
  shows "\<forall>n \<in> set out \<union> set into. nb_entity n \<in> set rows \<and> en_tenantId (nb_entity n) = T
     \<and> readable_by (pv_ctx pv) a (nb_entity n)
     \<and> (\<exists>r \<in> set edges. eg_tenantId r = T \<and> eg_relationKey r = nb_relationKey n
          \<and> (eg_fromId r = i \<and> eg_toId r = en_id (nb_entity n) \<or> eg_toId r = i \<and> eg_fromId r = en_id (nb_entity n)))"
proof -
  define near where "near = map_get en_id (filter (readable_by (pv_ctx pv) a) (find_where (\<lambda>e. en_tenantId e = T
      \<and> en_id e \<in> set (map eg_toId (find_where (\<lambda>r. eg_tenantId r = T \<and> eg_fromId r = i) edges)
                       @ map eg_fromId (find_where (\<lambda>r. eg_tenantId r = T \<and> eg_toId r = i) edges))) rows))"
  have near: "e \<in> set rows \<and> en_tenantId e = T \<and> readable_by (pv_ctx pv) a e \<and> en_id e = k" if "near k = Some e" for k e
    using readable_neighbour that unfolding near_def by blast
  have "\<exists>f g. out = List.map_filter (\<lambda>r. map_option (f r) (near (eg_toId r))) (find_where (\<lambda>r. eg_tenantId r = T \<and> eg_fromId r = i) edges)
      \<and> into = List.map_filter (\<lambda>r. map_option (g r) (near (eg_fromId r))) (find_where (\<lambda>r. eg_tenantId r = T \<and> eg_toId r = i) edges)
      \<and> (\<forall>r e. nb_entity (f r e) = e \<and> nb_relationKey (f r e) = eg_relationKey r)
      \<and> (\<forall>r e. nb_entity (g r e) = e \<and> nb_relationKey (g r e) = eg_relationKey r)"
    using assms unfolding traverse_def Let_def and_then_Inr_iff near_def
    by (elim exE conjE) (simp, elim conjE, intro exI conjI, (erule sym)+, simp_all)
  then obtain f g where fg: "out = List.map_filter (\<lambda>r. map_option (f r) (near (eg_toId r))) (find_where (\<lambda>r. eg_tenantId r = T \<and> eg_fromId r = i) edges)"
    "into = List.map_filter (\<lambda>r. map_option (g r) (near (eg_fromId r))) (find_where (\<lambda>r. eg_tenantId r = T \<and> eg_toId r = i) edges)"
    "\<And>r e. nb_entity (f r e) = e" "\<And>r e. nb_relationKey (f r e) = eg_relationKey r"
    "\<And>r e. nb_entity (g r e) = e" "\<And>r e. nb_relationKey (g r e) = eg_relationKey r" by blast
  show ?thesis
    unfolding fg(1,2) ball_Un
    by (auto simp: set_map_filter_option set_find_where fg(3-6) dest!: near; blast)
qed

lemma openBlockers_iff:
  "b \<in> set (openBlockers pv T i rows edges) \<longleftrightarrow>
     b \<in> set rows \<and> en_tenantId b = T \<and> (\<exists>s. ce_status b = Some s \<and> s \<notin> set CLOSED_STATUSES)
     \<and> (\<exists>r \<in> set edges. \<exists>d \<in> set (relation_definitions pv). rl_blocksCompletion d \<and> eg_tenantId r = T
          \<and> eg_relationKey r = rl_key d \<and> eg_fromId r = i \<and> eg_toId r = en_id b)"
proof -
  let ?blocking = "filter rl_blocksCompletion (relation_definitions pv)"
  let ?out = "filter (\<lambda>r. eg_tenantId r = T \<and> eg_fromId r = i \<and> eg_relationKey r \<in> rl_key ` set ?blocking) edges"
  have "openBlockers pv T i rows edges =
      filter (\<lambda>t. case ce_status t of None \<Rightarrow> False | Some s \<Rightarrow> s \<notin> set CLOSED_STATUSES)
        (filter (\<lambda>e. en_tenantId e = T \<and> en_id e \<in> eg_toId ` set ?out) rows)"
  proof (cases "?blocking = []")
    case True
    then have "?out = []" by simp
    then show ?thesis by (simp add: openBlockers_def Let_def find_where_def)
  qed (cases "?out = []"; auto simp: openBlockers_def Let_def find_where_def)
  moreover have "en_id b \<in> eg_toId ` set ?out \<longleftrightarrow>
      (\<exists>r \<in> set edges. \<exists>d \<in> set (relation_definitions pv). rl_blocksCompletion d \<and> eg_tenantId r = T
          \<and> eg_relationKey r = rl_key d \<and> eg_fromId r = i \<and> eg_toId r = en_id b)"
    by (fastforce simp: image_iff)
  ultimately show ?thesis by (auto split: option.splits)
qed

text \<open>
  Claim C23: a record may be completed exactly when no open record of the tenant is at the other end of a
  blocking edge of it, whether the caller may read that record or not; a refusal counts them all and
  names only records the caller may read.
\<close>

theorem completion_waits_for_blockers:
  "(assertCompletable pv T a i rows edges = Inr () \<longleftrightarrow>
     \<not> (\<exists>b \<in> set rows. en_tenantId b = T \<and> (\<exists>s. ce_status b = Some s \<and> s \<notin> set CLOSED_STATUSES)
        \<and> (\<exists>r \<in> set edges. \<exists>d \<in> set (relation_definitions pv). rl_blocksCompletion d \<and> eg_tenantId r = T
             \<and> eg_relationKey r = rl_key d \<and> eg_fromId r = i \<and> eg_toId r = en_id b)))
   \<and> (\<exists>names. assertCompletable pv T a i rows edges \<in> {Inr (), Inl (StillOpen (length (openBlockers pv T i rows edges)) names)}
        \<and> length names \<le> 3
        \<and> set names \<subseteq> (\<lambda>b. entity_type_text (en_type b) @ '' '' @ take 8 (en_id b))
             ` {b \<in> set rows. readable_by (pv_ctx pv) a b})"
proof (intro conjI)
  have "assertCompletable pv T a i rows edges = Inr () \<longleftrightarrow> (\<forall>b. b \<notin> set (openBlockers pv T i rows edges))"
    by (cases "openBlockers pv T i rows edges") (auto simp: assertCompletable_def Let_def)
  then show "assertCompletable pv T a i rows edges = Inr () \<longleftrightarrow>
     \<not> (\<exists>b \<in> set rows. en_tenantId b = T \<and> (\<exists>s. ce_status b = Some s \<and> s \<notin> set CLOSED_STATUSES)
        \<and> (\<exists>r \<in> set edges. \<exists>d \<in> set (relation_definitions pv). rl_blocksCompletion d \<and> eg_tenantId r = T
             \<and> eg_relationKey r = rl_key d \<and> eg_fromId r = i \<and> eg_toId r = en_id b))"
    unfolding openBlockers_iff by blast
  let ?names = "map (\<lambda>b. entity_type_text (en_type b) @ '' '' @ take 8 (en_id b))
      (take 3 (filter (readable_by (pv_ctx pv) a) (openBlockers pv T i rows edges)))"
  have "set ?names \<subseteq> (\<lambda>b. entity_type_text (en_type b) @ '' '' @ take 8 (en_id b))
      ` {b \<in> set rows. readable_by (pv_ctx pv) a b}"
    by (auto simp: openBlockers_iff dest!: in_set_takeD)
  then show "\<exists>names. assertCompletable pv T a i rows edges \<in> {Inr (), Inl (StillOpen (length (openBlockers pv T i rows edges)) names)}
        \<and> length names \<le> 3
        \<and> set names \<subseteq> (\<lambda>b. entity_type_text (en_type b) @ '' '' @ take 8 (en_id b))
             ` {b \<in> set rows. readable_by (pv_ctx pv) a b}"
    by (intro exI [of _ ?names]) (simp add: assertCompletable_def Let_def)
qed


section \<open>An example\<close>

text \<open>A pack with a note a case may have, and two cases of one applicant.\<close>

definition linked_pack :: config_pack where
  "linked_pack = demo_base\<lparr>cp_schema := [(''relationships'', JArr [
     JObj [(''key'', JStr ''note''), (''label'', JStr ''Note''), (''fromType'', JStr ''case''), (''toType'', JStr ''note''),
           (''cardinality'', JStr ''one_to_many'')],
     JObj [(''key'', JStr ''after''), (''label'', JStr ''After''), (''fromType'', JStr ''case''), (''toType'', JStr ''case''),
           (''blocksCompletion'', JBool True)]])]\<rparr>"

definition demo_view :: pack_view where
  "demo_view = \<lparr>pv_pins_ok = True, pv_packs = \<lparr>pd_packs = [linked_pack], pd_pins = [], pd_audit = []\<rparr>, pv_ctx = None,
     pv_vertical = Some ''grc''\<rparr>"

definition demo_record :: "str \<Rightarrow> entity_type \<Rightarrow> crm_entity" where
  "demo_record i ty =
     \<lparr>en_id = i, en_tenantId = ''T'', en_type = ty, en_email = None, en_firstName = None, en_assignedTo = Some ''ann'',
      en_subjectEmail = None, ce_lastName = None, ce_phoneNumber = None,
      ce_status = (if ty = Case then Some EntityOpen else None), ce_dueDate = None,
      ce_recordNumber = None, ce_verticalAttributes = [], ce_metadata = [], ce_relationships = [], ce_vertical = ''grc'',
      ce_environment = ''production'', ce_createdAt = 0, ce_updatedAt = 0, ce_deletedAt = None\<rparr>"

definition demo_rows :: "crm_entity list" where
  "demo_rows = [demo_record ''c1'' Case, demo_record ''c2'' Case, demo_record ''n1'' Note, demo_record ''n2'' Note]"

definition demo_ann :: actor where
  "demo_ann = \<lparr>ac_id = ''ann'', ac_roles = [CLIENT], ac_email = None\<rparr>"

definition demo_edge :: entity_relation where
  "demo_edge = \<lparr>eg_id = ''r1'', eg_tenantId = ''T'', eg_relationKey = ''note'', eg_fromId = ''c1'', eg_fromType = ''case'',
     eg_toId = ''n1'', eg_toType = ''note'', eg_createdBy = None, eg_createdAt = 5\<rparr>"

lemma demo_links: "link demo_view ''r1'' 5 ''T'' demo_ann ''note'' ''c1'' ''n1'' None demo_rows [] = (Inr demo_edge, [demo_edge])"
  by code_simp

text \<open>A key that is one-to-many gives a source one edge, and a target any number.\<close>

lemma one_to_many_is_many_to_one:
  "fst (link demo_view ''r2'' 6 ''T'' demo_ann ''note'' ''c1'' ''n2'' None demo_rows [demo_edge]) = Inl (AlreadyLinked OneToMany ''c1'')"
  "fst (link demo_view ''r2'' 6 ''T'' demo_ann ''note'' ''c2'' ''n1'' None demo_rows [demo_edge])
     = Inr (demo_edge\<lparr>eg_id := ''r2'', eg_fromId := ''c2'', eg_createdAt := 6\<rparr>)"
  by code_simp+


theorem links_join_readable_records_witness:
  "\<exists>e \<in> set demo_rows. \<exists>e' \<in> set demo_rows. en_id e = ''c1'' \<and> en_id e' = ''n1'' \<and> readable_by None demo_ann e \<and> readable_by None demo_ann e'"
proof -
  have "pv_ctx demo_view = None" by (simp add: demo_view_def)
  then show ?thesis using links_join_readable_records [OF demo_links] by auto
qed

theorem traversal_discloses_readable_witness:
  "\<exists>n. traverse demo_view ''T'' demo_ann ''c1'' demo_rows [demo_edge] = Inr ([n], [])
     \<and> nb_label n = ''Note'' \<and> en_id (nb_entity n) = ''n1'' \<and> readable_by None demo_ann (nb_entity n)"
proof -
  have "traverse demo_view ''T'' demo_ann ''c1'' demo_rows [demo_edge]
      = Inr ([\<lparr>nb_relationKey = ''note'', nb_label = ''Note'', nb_entity = demo_record ''n1'' Note\<rparr>], [])"
    by code_simp
  moreover have "pv_ctx demo_view = None" by (simp add: demo_view_def)
  ultimately show ?thesis
    using traversal_discloses_readable [of demo_view "''T''" demo_ann "''c1''" demo_rows "[demo_edge]"]
    by (auto simp: demo_record_def)
qed


text \<open>The first case waits for the second, which another caller owns.\<close>

theorem completion_waits_for_blockers_witness:
  "assertCompletable demo_view ''T'' (demo_ann\<lparr>ac_id := ''bob''\<rparr>) ''c1'' demo_rows
      [demo_edge\<lparr>eg_relationKey := ''after'', eg_toId := ''c2'', eg_toType := ''case''\<rparr>] \<noteq> Inr ()"
proof -
  let ?edge = "demo_edge\<lparr>eg_relationKey := ''after'', eg_toId := ''c2'', eg_toType := ''case''\<rparr>"
  let ?d = "relationship_of [(''key'', JStr ''after''), (''label'', JStr ''After''), (''fromType'', JStr ''case''),
      (''toType'', JStr ''case''), (''blocksCompletion'', JBool True)]"
  have d: "?d \<in> set (relation_definitions demo_view)" by code_simp
  have "rl_blocksCompletion ?d" "rl_key ?d = ''after''" by code_simp+
  moreover have "demo_record ''c2'' Case \<in> set demo_rows" "en_tenantId (demo_record ''c2'' Case) = ''T''"
    "ce_status (demo_record ''c2'' Case) = Some EntityOpen" "en_id (demo_record ''c2'' Case) = ''c2''"
    by (simp_all add: demo_rows_def demo_record_def)
  moreover have "EntityOpen \<notin> set CLOSED_STATUSES" by (simp add: CLOSED_STATUSES_def)
  moreover have "eg_tenantId ?edge = ''T''" "eg_relationKey ?edge = ''after''" "eg_fromId ?edge = ''c1''" "eg_toId ?edge = ''c2''"
    by (simp_all add: demo_edge_def)
  moreover have "?edge \<in> set [?edge]" by simp
  ultimately show ?thesis
    unfolding completion_waits_for_blockers [THEN conjunct1] using d by metis
qed

end
