(* ===== verification/Profile.thy ===== *)
theory Profile
  imports Relations
begin

text \<open>
  \<^verbatim>\<open>src/crm/profile/profile-section.service.ts\<close>: the repeating sets a pack declares on an entity type, the check of a
  write against their shape, and the report of what a record carries. The values of a write come from JSON. The
  percentage of a report is the rounded exact quotient.
\<close>

section \<open>Declarations\<close>

record item_field =
  if_key :: str
  if_label :: str
  if_type :: str
  if_required :: bool

record profile_field =
  pl_key :: str
  pl_label :: str
  pl_type :: str
  pl_required :: bool
  pl_itemFields :: "item_field list"
  pl_lockedWhen :: "js option"

record type_declaration =
  ty_type :: str
  ty_fields :: "profile_field list"

definition objects_of :: "str \<Rightarrow> js_obj \<Rightarrow> js_obj list" where
  "objects_of k ob = (case obj_get k ob of Some (JArr xs) \<Rightarrow> map obj_of xs | _ \<Rightarrow> [])"

definition item_field_of :: "js_obj \<Rightarrow> item_field" where
  "item_field_of ob =
     \<lparr>if_key = nullish (text_of ''key'' ob) [], if_label = nullish (text_of ''label'' ob) [],
      if_type = nullish (text_of ''type'' ob) [], if_required = (obj_get ''required'' ob = Some (JBool True))\<rparr>"

text \<open>Item fields that are absent or no list are no fields; a lock that is null is no lock.\<close>

definition profile_field_of :: "js_obj \<Rightarrow> profile_field" where
  "profile_field_of ob =
     \<lparr>pl_key = nullish (text_of ''key'' ob) [], pl_label = nullish (text_of ''label'' ob) [],
      pl_type = nullish (text_of ''type'' ob) [], pl_required = (obj_get ''required'' ob = Some (JBool True)),
      pl_itemFields = map item_field_of (objects_of ''itemFields'' ob),
      pl_lockedWhen = (case obj_get ''lockedWhen'' ob of
                         None \<Rightarrow> None | Some v \<Rightarrow> if v = JNull \<or> v = JUndef then None else Some v)\<rparr>"

definition type_declaration_of :: "js_obj \<Rightarrow> type_declaration" where
  "type_declaration_of ob =
     \<lparr>ty_type = nullish (text_of ''type'' ob) [], ty_fields = map profile_field_of (objects_of ''fields'' ob)\<rparr>"

definition declarations :: "pack_view \<Rightarrow> type_declaration list" where
  "declarations pv =
     map (\<lambda>x. type_declaration_of (obj_of x))
       (list_section (pv_pins_ok pv) (pv_packs pv) (pv_ctx pv) (pv_vertical pv) ''entityTypes'')"

definition declarationFor :: "pack_view \<Rightarrow> str \<Rightarrow> type_declaration option" where
  "declarationFor pv ty = find_one (\<lambda>d. ty_type d = ty) (declarations pv)"

section \<open>The check of a write\<close>

definition MAX_SET_ITEMS :: nat where "MAX_SET_ITEMS = 200"

definition MAX_ITEM_VALUE_LENGTH :: nat where "MAX_ITEM_VALUE_LENGTH = 4000"

datatype profile_error =
    NotASet str
  | TooManyItems str nat
  | ItemNotObject str nat
  | FieldUndeclared str nat str
  | FieldNotScalar str nat str
  | FieldTooLong str nat str
  | FieldRequired str nat str

text \<open>\<open>forEach\<close> with a body that may throw.\<close>

primrec for_each :: "('a \<Rightarrow> 'e + unit) \<Rightarrow> 'a list \<Rightarrow> 'e + unit" where
  "for_each f [] = Inr ()"
| "for_each f (x # xs) = and_then (f x) (\<lambda>_. for_each f xs)"

fun object_value :: "js \<Rightarrow> bool" where
  "object_value (JArr xs) = True"
| "object_value (JObj kvs) = True"
| "object_value (JDate d) = True"
| "object_value _ = False"

definition check_entry :: "str \<Rightarrow> nat \<Rightarrow> str list \<Rightarrow> str \<times> js \<Rightarrow> profile_error + unit" where
  "check_entry key index declared entry =
     (let (name, v) = entry in
      if name \<notin> set declared then Inl (FieldUndeclared key index name)
      else if object_value v then Inl (FieldNotScalar key index name)
      else case v of JStr s \<Rightarrow> if MAX_ITEM_VALUE_LENGTH < length s then Inl (FieldTooLong key index name) else Inr ()
                   | _ \<Rightarrow> Inr ())"

definition blank :: "js option \<Rightarrow> bool" where
  "blank v \<longleftrightarrow> v \<in> {None, Some JUndef, Some JNull, Some (JStr [])}"

definition check_required :: "str \<Rightarrow> nat \<Rightarrow> js_obj \<Rightarrow> item_field \<Rightarrow> profile_error + unit" where
  "check_required key index item f =
     (if if_required f \<and> blank (obj_get (if_key f) item) then Inl (FieldRequired key index (if_key f)) else Inr ())"

definition check_item :: "profile_field \<Rightarrow> js \<times> nat \<Rightarrow> profile_error + unit" where
  "check_item s item =
     (case item of
        (JObj kvs, index) \<Rightarrow>
          and_then (for_each (check_entry (pl_key s) index (map if_key (pl_itemFields s))) kvs) (\<lambda>_.
          for_each (check_required (pl_key s) index kvs) (pl_itemFields s))
      | (_, index) \<Rightarrow> Inl (ItemNotObject (pl_key s) index))"

definition check_set :: "js_obj \<Rightarrow> profile_field \<Rightarrow> profile_error + unit" where
  "check_set incoming s =
     (if \<not> key_in (pl_key s) incoming then Inr ()
      else case obj_get (pl_key s) incoming of
             Some JNull \<Rightarrow> Inr ()
           | Some JUndef \<Rightarrow> Inr ()
           | Some (JArr xs) \<Rightarrow>
               if MAX_SET_ITEMS < length xs then Inl (TooManyItems (pl_key s) (length xs))
               else for_each (check_item s) (zip xs [0..<length xs])
           | _ \<Rightarrow> Inl (NotASet (pl_key s)))"

definition declared_sets :: "type_declaration \<Rightarrow> profile_field list" where
  "declared_sets d = filter (\<lambda>f. pl_itemFields f \<noteq> []) (ty_fields d)"

definition assertDeclaredSetsValid :: "type_declaration \<Rightarrow> js_obj \<Rightarrow> profile_error + unit" where
  "assertDeclaredSetsValid d incoming = for_each (check_set incoming) (declared_sets d)"

definition assertSetsValid :: "pack_view \<Rightarrow> str \<Rightarrow> js_obj option \<Rightarrow> profile_error + unit" where
  "assertSetsValid pv ty incoming =
     (case incoming of
        None \<Rightarrow> Inr ()
      | Some ob \<Rightarrow>
          if ob = [] then Inr ()
          else case declarationFor pv ty of None \<Rightarrow> Inr () | Some d \<Rightarrow> assertDeclaredSetsValid d ob)"

section \<open>The report\<close>

datatype profile_state = StateRecorded | DeclaredNone | NotRecorded

definition setState :: "js option \<Rightarrow> profile_state" where
  "setState v =
     (case v of None \<Rightarrow> NotRecorded | Some JUndef \<Rightarrow> NotRecorded | Some JNull \<Rightarrow> NotRecorded
      | Some (JArr xs) \<Rightarrow> if xs = [] then DeclaredNone else StateRecorded | Some _ \<Rightarrow> StateRecorded)"

record field_report =
  fr_key :: str
  fr_label :: str
  fr_type :: str
  fr_required :: bool
  fr_state :: profile_state
  fr_value :: js

record set_report =
  sx_key :: str
  sx_label :: str
  sx_state :: profile_state
  sx_items :: "nat option"
  sx_itemFields :: "item_field list"

record completeness =
  cm_declared :: nat
  cm_recorded :: nat
  cm_notRecorded :: nat
  cm_percentRecorded :: "nat option"

record profile_report =
  px_entityId :: str
  px_type :: str
  px_recordNumber :: "str option"
  px_pack :: "(str \<times> str) option"
  px_declared :: bool
  px_fields :: "field_report list"
  px_sets :: "set_report list"
  px_undeclaredAttributes :: "str list"
  px_completeness :: completeness

definition field_report_of :: "js_obj \<Rightarrow> profile_field \<Rightarrow> field_report" where
  "field_report_of attrs f =
     (let v = obj_get (pl_key f) attrs
      in \<lparr>fr_key = pl_key f, fr_label = pl_label f, fr_type = pl_type f, fr_required = pl_required f,
          fr_state = (if blank v then NotRecorded else StateRecorded),
          fr_value = (case v of None \<Rightarrow> JNull | Some JUndef \<Rightarrow> JNull | Some x \<Rightarrow> x)\<rparr>)"

definition set_report_of :: "js_obj \<Rightarrow> profile_field \<Rightarrow> set_report" where
  "set_report_of attrs f =
     (let v = obj_get (pl_key f) attrs
      in \<lparr>sx_key = pl_key f, sx_label = pl_label f, sx_state = setState v,
          sx_items = (case v of Some (JArr xs) \<Rightarrow> if xs = [] then None else Some (length xs) | _ \<Rightarrow> None),
          sx_itemFields = pl_itemFields f\<rparr>)"

definition percent :: "nat \<Rightarrow> nat \<Rightarrow> nat" where
  "percent part whole = (200 * part + whole) div (2 * whole)"

definition profile_report_of :: "pack_view \<Rightarrow> crm_entity \<Rightarrow> profile_report" where
  "profile_report_of pv e =
     (let (pack, _) = sectionWithPack (pv_pins_ok pv) (pv_packs pv) (pv_ctx pv) (pv_vertical pv) ''entityTypes'';
          attrs = ce_verticalAttributes e; ty = entity_type_text (en_type e);
          base = \<lparr>px_entityId = en_id e, px_type = ty, px_recordNumber = ce_recordNumber e,
                  px_pack = map_option (\<lambda>p. (cp_code p, cp_version p)) pack, px_declared = False, px_fields = [], px_sets = [],
                  px_undeclaredAttributes = map fst attrs,
                  px_completeness = \<lparr>cm_declared = 0, cm_recorded = 0, cm_notRecorded = 0, cm_percentRecorded = None\<rparr>\<rparr>
      in case declarationFor pv ty of
           None \<Rightarrow> base
         | Some d \<Rightarrow>
             let fields = map (field_report_of attrs) (filter (\<lambda>f. pl_itemFields f = []) (ty_fields d));
                 sets = map (set_report_of attrs) (declared_sets d);
                 n = length fields + length sets;
                 recorded = length (filter (\<lambda>f. fr_state f = StateRecorded) fields)
                            + length (filter (\<lambda>s. sx_state s \<noteq> NotRecorded) sets)
             in base\<lparr>px_declared := True, px_fields := fields, px_sets := sets,
                     px_undeclaredAttributes := filter (\<lambda>k. k \<notin> pl_key ` set (ty_fields d)) (map fst attrs),
                     px_completeness := \<lparr>cm_declared = n, cm_recorded = recorded, cm_notRecorded = n - recorded,
                       cm_percentRecorded = (if n = 0 then None else Some (percent recorded n))\<rparr>\<rparr>)"

section \<open>What a write may contain\<close>

lemma for_each_Inr: "for_each f xs = Inr u \<longleftrightarrow> (\<forall>x \<in> set xs. f x = Inr ())"
  by (induction xs) (auto simp: and_then_Inr_iff)

lemma for_each_Inl: "for_each f xs = Inl e \<Longrightarrow> \<exists>x \<in> set xs. f x = Inl e"
  by (induction xs) (auto simp: and_then_def split: sum.splits)

text \<open>The shape a set is declared with: flat entries of declared fields, no long text, nothing required left blank.\<close>

definition entry_shaped :: "profile_field \<Rightarrow> js \<Rightarrow> bool" where
  "entry_shaped s item =
     (case item of
        JObj kvs \<Rightarrow>
          (\<forall>(name, v) \<in> set kvs. name \<in> if_key ` set (pl_itemFields s) \<and> \<not> object_value v
             \<and> (\<forall>t. v = JStr t \<longrightarrow> length t \<le> MAX_ITEM_VALUE_LENGTH))
          \<and> (\<forall>f \<in> set (pl_itemFields s). if_required f \<longrightarrow> \<not> blank (obj_get (if_key f) kvs))
      | _ \<Rightarrow> False)"

definition set_shaped :: "profile_field \<Rightarrow> js \<Rightarrow> bool" where
  "set_shaped s v = (case v of JArr xs \<Rightarrow> length xs \<le> MAX_SET_ITEMS \<and> (\<forall>x \<in> set xs. entry_shaped s x) | _ \<Rightarrow> False)"

lemma check_entry_Inr:
  "check_entry key i declared (name, v) = Inr () \<longleftrightarrow>
     name \<in> set declared \<and> \<not> object_value v \<and> (\<forall>t. v = JStr t \<longrightarrow> length t \<le> MAX_ITEM_VALUE_LENGTH)"
  by (auto simp: check_entry_def split: js.splits)

lemma check_item_Inr: "check_item s (item, i) = Inr () \<longleftrightarrow> entry_shaped s item"
  by (cases item)
     (auto simp: check_item_def entry_shaped_def and_then_Inr_iff for_each_Inr check_entry_Inr check_required_def split: if_splits)

lemma check_items_Inr: "for_each (check_item s) (zip xs [0..<length xs]) = Inr () \<longleftrightarrow> (\<forall>x \<in> set xs. entry_shaped s x)"
proof -
  have "(\<forall>p \<in> set (zip xs [0..<length xs]). check_item s p = Inr ()) \<longleftrightarrow> (\<forall>i < length xs. entry_shaped s (xs ! i))"
    by (auto simp: set_zip check_item_Inr)
  then show ?thesis by (simp add: for_each_Inr all_set_conv_all_nth)
qed

lemma check_set_Inr:
  "check_set incoming s = Inr () \<longleftrightarrow>
     (key_in (pl_key s) incoming \<longrightarrow>
       (\<exists>v. obj_get (pl_key s) incoming = Some v \<and> (v = JNull \<or> v = JUndef \<or> set_shaped s v)))"
proof (cases "key_in (pl_key s) incoming")
  case True
  show ?thesis
  proof (cases "obj_get (pl_key s) incoming")
    case (Some v)
    have "(case v of JNull \<Rightarrow> Inr () | JUndef \<Rightarrow> Inr ()
        | JArr xs \<Rightarrow> if MAX_SET_ITEMS < length xs then Inl (TooManyItems (pl_key s) (length xs))
                   else for_each (check_item s) (zip xs [0..<length xs])
        | _ \<Rightarrow> Inl (NotASet (pl_key s))) = Inr () \<longleftrightarrow> v = JNull \<or> v = JUndef \<or> set_shaped s v"
      by (cases v) (simp_all add: set_shaped_def check_items_Inr not_less)
    moreover have "check_set incoming s = (case v of JNull \<Rightarrow> Inr () | JUndef \<Rightarrow> Inr ()
        | JArr xs \<Rightarrow> if MAX_SET_ITEMS < length xs then Inl (TooManyItems (pl_key s) (length xs))
                   else for_each (check_item s) (zip xs [0..<length xs])
        | _ \<Rightarrow> Inl (NotASet (pl_key s)))"
      using True Some by (cases v) (simp_all add: check_set_def)
    ultimately show ?thesis using True Some by simp
  qed (use True in \<open>simp add: check_set_def\<close>)
qed (simp add: check_set_def)

text \<open>
  Claim C36: a write is let through exactly when every set it mentions is cleared or is a list, of at most 200, of flat
  entries with declared fields, no text over 4,000 characters and nothing required left blank; what is
  refused is refused for a set it mentions.
\<close>

theorem set_writes_are_checked:
  "(assertDeclaredSetsValid d incoming = Inr () \<longleftrightarrow>
      (\<forall>s \<in> set (declared_sets d). key_in (pl_key s) incoming \<longrightarrow>
         (\<exists>v. obj_get (pl_key s) incoming = Some v \<and> (v = JNull \<or> v = JUndef \<or> set_shaped s v))))
   \<and> (\<forall>e. assertDeclaredSetsValid d incoming = Inl e \<longrightarrow>
        (\<exists>s \<in> set (declared_sets d). key_in (pl_key s) incoming \<and> check_set incoming s = Inl e))"
proof (intro conjI allI impI)
  fix e assume "assertDeclaredSetsValid d incoming = Inl e"
  then obtain s where s: "s \<in> set (declared_sets d)" "check_set incoming s = Inl e"
    unfolding assertDeclaredSetsValid_def by (auto dest: for_each_Inl)
  have "key_in (pl_key s) incoming" using s(2) by (rule contrapos_pp) (simp add: check_set_def)
  with s show "\<exists>s \<in> set (declared_sets d). key_in (pl_key s) incoming \<and> check_set incoming s = Inl e"
    by blast
qed (simp add: assertDeclaredSetsValid_def for_each_Inr check_set_Inr)

text \<open>The sets of a record have the shape they are declared with.\<close>

definition sets_shaped :: "type_declaration \<Rightarrow> js_obj \<Rightarrow> bool" where
  "sets_shaped d attrs \<longleftrightarrow>
     (\<forall>s \<in> set (declared_sets d). \<forall>v. obj_get (pl_key s) attrs = Some v \<longrightarrow> set_shaped s v)"

lemma set_shaped_array: "set_shaped s v \<Longrightarrow> \<exists>xs. v = JArr xs"
  by (auto simp: set_shaped_def split: js.splits)

text \<open>
  A record whose sets have their declared shape keeps it when a write that was let through is merged into its
  attributes: a list replaces the one before, null removes it.
\<close>

lemma merged_sets_shaped:
  assumes "sets_shaped d attrs" "obj_wf incoming" "assertDeclaredSetsValid d incoming = Inr ()"
  shows "sets_shaped d (deep_merge attrs incoming)"
  unfolding sets_shaped_def
proof (intro ballI allI impI)
  fix s v
  assume s: "s \<in> set (declared_sets d)" and v: "obj_get (pl_key s) (deep_merge attrs incoming) = Some v"
  have old: "set_shaped s x" if "obj_get (pl_key s) attrs = Some x" for x
    using assms(1) s that by (simp add: sets_shaped_def)
  have checked: "check_set incoming s = Inr ()"
    using assms(3) s by (simp add: assertDeclaredSetsValid_def for_each_Inr)
  show "set_shaped s v"
  proof (cases "obj_get (pl_key s) incoming")
    case None
    then show ?thesis using v old assms(2) by (auto simp: deep_merge_get merged_def split: if_splits)
  next
    case (Some new)
    then have "key_in (pl_key s) incoming" unfolding key_in_def by (metis obj_get_None_iff option.distinct(1))
    then have "new = JNull \<or> new = JUndef \<or> set_shaped s new" using checked Some by (auto simp: check_set_Inr)
    then show ?thesis
      using v old assms(2) Some
      by (auto simp: deep_merge_get merged_def dest!: set_shaped_array split: if_splits option.splits)
  qed
qed

section \<open>What the report says\<close>

lemma filter_le: "length (filter P xs) \<le> length xs"
  by simp

text \<open>
  A report on a record whose type is declared has every declared field once, as a field or a set; what is
  recorded and what is not add up to what is declared; a set counts as answered by none only
  when the record has an empty list; and there is a percentage, at most a hundred, exactly when something is declared.
\<close>

theorem profile_report_adds_up:
  assumes "declarationFor pv (entity_type_text (en_type e)) = Some d"
  defines "r \<equiv> profile_report_of pv e"
  shows "map fr_key (px_fields r) = map pl_key (filter (\<lambda>f. pl_itemFields f = []) (ty_fields d))
    \<and> map sx_key (px_sets r) = map pl_key (filter (\<lambda>f. pl_itemFields f \<noteq> []) (ty_fields d))
    \<and> cm_declared (px_completeness r) = length (ty_fields d)
    \<and> cm_recorded (px_completeness r) + cm_notRecorded (px_completeness r) = length (ty_fields d)
    \<and> (\<forall>s \<in> set (px_sets r). sx_state s = DeclaredNone \<longleftrightarrow> obj_get (sx_key s) (ce_verticalAttributes e) = Some (JArr []))
    \<and> (cm_percentRecorded (px_completeness r) = None \<longleftrightarrow> ty_fields d = [])
    \<and> (\<forall>p. cm_percentRecorded (px_completeness r) = Some p \<longrightarrow> p \<le> 100)"
proof -
  let ?F = "filter (\<lambda>f. pl_itemFields f = []) (ty_fields d)" and ?S = "filter (\<lambda>f. pl_itemFields f \<noteq> []) (ty_fields d)"
  let ?attrs = "ce_verticalAttributes e"
  define rec where "rec = length (filter (\<lambda>f. fr_state f = StateRecorded) (map (field_report_of ?attrs) ?F))
      + length (filter (\<lambda>s. sx_state s \<noteq> NotRecorded) (map (set_report_of ?attrs) ?S))"
  have n: "length ?F + length ?S = length (ty_fields d)" by (induction "ty_fields d") (auto simp: sum_length_filter_compl)
  have empty: "?F = [] \<and> ?S = [] \<longleftrightarrow> ty_fields d = []" using n by (metis add_is_0 length_0_conv filter.simps(1))
  have le: "rec \<le> length (ty_fields d)"
    using filter_le [of "\<lambda>f. fr_state f = StateRecorded" "map (field_report_of ?attrs) ?F"]
      filter_le [of "\<lambda>s. sx_state s \<noteq> NotRecorded" "map (set_report_of ?attrs) ?S"] n
    by (simp add: rec_def)
  have r: "px_fields r = map (field_report_of ?attrs) ?F" "px_sets r = map (set_report_of ?attrs) ?S"
    "px_completeness r = \<lparr>cm_declared = length (ty_fields d), cm_recorded = rec, cm_notRecorded = length (ty_fields d) - rec,
       cm_percentRecorded = (if length (ty_fields d) = 0 then None else Some (percent rec (length (ty_fields d))))\<rparr>"
    using assms(1) n empty by (simp_all add: r_def profile_report_of_def Let_def declared_sets_def rec_def split: prod.splits)
  have "percent rec (length (ty_fields d)) \<le> 100" if "ty_fields d \<noteq> []"
  proof -
    have "200 * rec + length (ty_fields d) \<le> 200 * length (ty_fields d) + length (ty_fields d)" using le by simp
    also have "\<dots> < 101 * (2 * length (ty_fields d))" using that by simp
    finally have "(200 * rec + length (ty_fields d)) div (2 * length (ty_fields d)) < 101" by (rule less_mult_imp_div_less)
    then show ?thesis by (simp add: percent_def)
  qed
  moreover have "sx_state s = DeclaredNone \<longleftrightarrow> obj_get (sx_key s) ?attrs = Some (JArr [])" if "s \<in> set (px_sets r)" for s
    using that unfolding r(2) by (auto simp: set_report_of_def setState_def Let_def split: option.splits js.splits if_splits)
  moreover have "map fr_key (px_fields r) = map pl_key ?F" "map sx_key (px_sets r) = map pl_key ?S"
    unfolding r by (simp_all add: field_report_of_def set_report_of_def Let_def)
  ultimately show ?thesis using le by (auto simp: r(3))
qed

section \<open>An example\<close>

text \<open>A person with a list of refusals, each with a country.\<close>

definition refusal_type :: type_declaration where
  "refusal_type = type_declaration_of [(''type'', JStr ''person''), (''fields'', JArr [
     JObj [(''key'', JStr ''refusals''), (''label'', JStr ''Refusals''), (''itemFields'', JArr [
       JObj [(''key'', JStr ''country''), (''required'', JBool True)]])],
     JObj [(''key'', JStr ''born''), (''label'', JStr ''Born'')]])]"

definition profiled_view :: pack_view where
  "profiled_view = demo_view\<lparr>pv_packs := \<lparr>pd_packs = [demo_base\<lparr>cp_schema := [(''entityTypes'', JArr [
     JObj [(''type'', JStr ''person''), (''fields'', JArr [
       JObj [(''key'', JStr ''refusals''), (''label'', JStr ''Refusals''), (''itemFields'', JArr [
         JObj [(''key'', JStr ''country''), (''required'', JBool True)]])],
       JObj [(''key'', JStr ''born''), (''label'', JStr ''Born'')]])]])]\<rparr>], pd_pins = [], pd_audit = []\<rparr>\<rparr>"

lemma refused_writes:
  "assertDeclaredSetsValid refusal_type [(''refusals'', JStr ''none'')] = Inl (NotASet ''refusals'')"
  "assertDeclaredSetsValid refusal_type [(''refusals'', JArr [JObj [(''country'', JStr [])]])]
     = Inl (FieldRequired ''refusals'' 0 ''country'')"
  "assertDeclaredSetsValid refusal_type [(''refusals'', JArr [])] = Inr ()"
  by code_simp+

theorem set_writes_are_checked_witness:
  "\<exists>s \<in> set (declared_sets refusal_type). key_in (pl_key s) [(''refusals'', JStr ''none'')]
     \<and> check_set [(''refusals'', JStr ''none'')] s = Inl (NotASet ''refusals'')"
  using set_writes_are_checked [of refusal_type "[(''refusals'', JStr ''none'')]"] refused_writes(1) by blast

lemma merged_sets_example:
  "sets_shaped refusal_type
     (deep_merge [(''refusals'', JArr []), (''born'', JNum ''1'')] [(''refusals'', JArr [JObj [(''country'', JStr ''AU'')]])])"
proof (rule merged_sets_shaped)
  have "declared_sets refusal_type = [profile_field_of [(''key'', JStr ''refusals''), (''label'', JStr ''Refusals''),
      (''itemFields'', JArr [JObj [(''key'', JStr ''country''), (''required'', JBool True)]])]]"
    by code_simp
  then show "sets_shaped refusal_type [(''refusals'', JArr []), (''born'', JNum ''1'')]"
    by (simp add: sets_shaped_def profile_field_of_def text_of_def set_shaped_def)
  show "assertDeclaredSetsValid refusal_type [(''refusals'', JArr [JObj [(''country'', JStr ''AU'')]])] = Inr ()"
    by code_simp
qed simp

theorem profile_report_adds_up_witness:
  "px_sets (profile_report_of profiled_view ((demo_record ''p'' Person)\<lparr>ce_verticalAttributes := [(''refusals'', JArr [])]\<rparr>)) \<noteq> []
   \<and> cm_recorded (px_completeness (profile_report_of profiled_view
         ((demo_record ''p'' Person)\<lparr>ce_verticalAttributes := [(''refusals'', JArr [])]\<rparr>)))
     + cm_notRecorded (px_completeness (profile_report_of profiled_view
         ((demo_record ''p'' Person)\<lparr>ce_verticalAttributes := [(''refusals'', JArr [])]\<rparr>))) = 2"
proof -
  let ?e = "(demo_record ''p'' Person)\<lparr>ce_verticalAttributes := [(''refusals'', JArr [])]\<rparr>"
  have "declarationFor profiled_view (entity_type_text (en_type ?e)) = Some refusal_type" by code_simp
  from profile_report_adds_up [OF this] have "map sx_key (px_sets (profile_report_of profiled_view ?e))
      = map pl_key (filter (\<lambda>f. pl_itemFields f \<noteq> []) (ty_fields refusal_type))"
    "cm_recorded (px_completeness (profile_report_of profiled_view ?e))
      + cm_notRecorded (px_completeness (profile_report_of profiled_view ?e)) = length (ty_fields refusal_type)" by blast+
  moreover have "length (ty_fields refusal_type) = 2" "map pl_key (filter (\<lambda>f. pl_itemFields f \<noteq> []) (ty_fields refusal_type)) = [''refusals'']"
    by code_simp+
  ultimately show ?thesis by auto
qed

end
