(* ===== verification/Aging.thy ===== *)
theory Aging
  imports Records
begin

text \<open>
  \<^verbatim>\<open>src/crm/aging/case-aging.service.ts\<close>: how long a record has been in its stage, by the history the record
  keeps, and how long ago its client was last in contact, by the messages that were sent or received. What the
  host's \<^verbatim>\<open>Date\<close> makes of the text of an instant is an argument; a difference with no number has no days.
\<close>

section \<open>Stage history\<close>

definition STAGE_HISTORY_LIMIT :: nat where "STAGE_HISTORY_LIMIT = 50"

definition STAGE_HISTORY_RETURNED :: nat where "STAGE_HISTORY_RETURNED = 20"

record stage_entry =
  sh_stage :: str
  sh_at :: str
  sh_by :: js

text \<open>Entries that are no objects, or have no stage or instant, are left out.\<close>

definition stage_entry_of :: "js \<Rightarrow> stage_entry option" where
  "stage_entry_of v =
     (case v of
        JObj ob \<Rightarrow> (case (text_of ''stage'' ob, text_of ''at'' ob) of
                     (Some s, Some t) \<Rightarrow> Some \<lparr>sh_stage = s, sh_at = t, sh_by = nullish (obj_get ''by'' ob) JUndef\<rparr>
                   | _ \<Rightarrow> None)
      | _ \<Rightarrow> None)"

text \<open>A stable sort, latest first.\<close>

fun insert_entry :: "stage_entry \<Rightarrow> stage_entry list \<Rightarrow> stage_entry list" where
  "insert_entry x [] = [x]"
| "insert_entry x (y # ys) = (if str_less (sh_at x) (sh_at y) then y # insert_entry x ys else x # y # ys)"

definition historyOf :: "crm_entity \<Rightarrow> stage_entry list" where
  "historyOf e =
     (case obj_get ''stageHistory'' (ce_metadata e) of
        Some (JArr xs) \<Rightarrow> foldr insert_entry (List.map_filter stage_entry_of xs) []
      | _ \<Rightarrow> [])"

definition daysBetween :: "instant option \<Rightarrow> instant \<Rightarrow> int option" where
  "daysBetween from' to' = map_option (\<lambda>t. if to' - t \<le> 0 then 0 else (to' - t) div ms_per_day) from'"

section \<open>Messages\<close>

record contact_row =
  cw_tenantId :: str
  cw_recipientEmail :: "str option"
  cw_channel :: str
  cw_inbound :: bool
  cw_createdAt :: instant
  cw_sentAt :: "instant option"
  cw_deliveredAt :: "instant option"

record contact =
  cx_at :: instant
  cx_channel :: str
  cx_inbound :: bool

definition contact_time :: "contact_row \<Rightarrow> instant option" where
  "contact_time r = (if cw_inbound r then Some (cw_createdAt r) else nullish_opt (cw_deliveredAt r) (cw_sentAt r))"

definition subject_of :: "crm_entity \<Rightarrow> str option" where
  "subject_of e = js_norm (en_subjectEmail e)"

text \<open>
  The rows of the query, and its map: the last of an address's messages that were received, sent or
  delivered. Of two at one instant the database may give either; the model takes the first.
\<close>

definition lastContactByEmail :: "str \<Rightarrow> crm_entity list \<Rightarrow> contact_row list \<Rightarrow> str \<Rightarrow> contact option" where
  "lastContactByEmail tenantId entities rows email =
     (let emails = filter (\<lambda>s. s \<noteq> []) (List.map_filter subject_of entities);
          hits = sort_key (\<lambda>r. - the (contact_time r))
                   (find_where (\<lambda>r. cw_tenantId r = tenantId \<and> sql_norm (cw_recipientEmail r) = Some email
                                    \<and> contact_time r \<noteq> None) rows)
      in if email \<notin> set emails then None
         else case hits of [] \<Rightarrow> None
              | r # _ \<Rightarrow> Some \<lparr>cx_at = the (contact_time r), cx_channel = cw_channel r, cx_inbound = cw_inbound r\<rparr>)"

section \<open>The report\<close>

datatype aging_basis = StageChangeRecorded | BasisUnknown

record stage_aging =
  sa_value :: "str option"
  sa_since :: "str option"
  sa_days :: "int option"
  sa_basis :: aging_basis
  sa_history :: "stage_entry list"

record contact_aging =
  ca_at :: "instant option"
  ca_days :: "int option"
  ca_channel :: "str option"
  ca_inbound :: "bool option"

record entity_aging =
  ea_entityId :: str
  ea_createdAt :: instant
  ea_days :: "int option"
  ea_stage :: stage_aging
  ea_contact :: contact_aging

definition stage_value :: "js_obj \<Rightarrow> str option" where
  "stage_value attrs = (if truthy_str (text_of ''stage'' attrs) then text_of ''stage'' attrs else None)"

definition stage_aging_of :: "(str \<Rightarrow> instant option) \<Rightarrow> instant \<Rightarrow> crm_entity \<Rightarrow> stage_aging" where
  "stage_aging_of host_date now e =
     (let stage = stage_value (ce_verticalAttributes e); history = historyOf e;
          unknown = \<lparr>sa_value = stage, sa_since = None, sa_days = None, sa_basis = BasisUnknown,
                     sa_history = take STAGE_HISTORY_RETURNED history\<rparr>
      in if stage = None then unknown
         else case find_one (\<lambda>h. Some (sh_stage h) = stage) history of
                None \<Rightarrow> unknown
              | Some h \<Rightarrow> unknown\<lparr>sa_since := Some (sh_at h), sa_days := daysBetween (host_date (sh_at h)) now,
                                 sa_basis := StageChangeRecorded\<rparr>)"

definition contact_aging_of :: "instant \<Rightarrow> (str \<Rightarrow> contact option) \<Rightarrow> crm_entity \<Rightarrow> contact_aging" where
  "contact_aging_of now contacts e =
     (case (if truthy_str (subject_of e) then contacts (the (subject_of e)) else None) of
        None \<Rightarrow> \<lparr>ca_at = None, ca_days = None, ca_channel = None, ca_inbound = None\<rparr>
      | Some c \<Rightarrow> \<lparr>ca_at = Some (cx_at c), ca_days = daysBetween (Some (cx_at c)) now,
                   ca_channel = Some (cx_channel c), ca_inbound = Some (cx_inbound c)\<rparr>)"

definition assemble :: "(str \<Rightarrow> instant option) \<Rightarrow> instant \<Rightarrow> (str \<Rightarrow> contact option) \<Rightarrow> crm_entity \<Rightarrow> entity_aging" where
  "assemble host_date now contacts e =
     \<lparr>ea_entityId = en_id e, ea_createdAt = ce_createdAt e, ea_days = daysBetween (Some (ce_createdAt e)) now,
      ea_stage = stage_aging_of host_date now e, ea_contact = contact_aging_of now contacts e\<rparr>"

definition forEntity :: "(str \<Rightarrow> instant option) \<Rightarrow> instant \<Rightarrow> str \<Rightarrow> crm_entity \<Rightarrow> contact_row list \<Rightarrow> entity_aging" where
  "forEntity host_date now tenantId e rows = assemble host_date now (lastContactByEmail tenantId [e] rows) e"

definition forEntities ::
  "(str \<Rightarrow> instant option) \<Rightarrow> instant \<Rightarrow> str \<Rightarrow> crm_entity list \<Rightarrow> contact_row list \<Rightarrow> str \<Rightarrow> entity_aging option" where
  "forEntities host_date now tenantId es rows i =
     map_get ea_entityId (map (assemble host_date now (lastContactByEmail tenantId es rows)) es) i"

section \<open>Lemmas\<close>

lemma sort_key_hd: "sort_key f xs = y # ys \<Longrightarrow> x \<in> set xs \<Longrightarrow> f y \<le> f x"
proof -
  assume "sort_key f xs = y # ys" "x \<in> set xs"
  then have "sorted (map f (y # ys))" "x \<in> set (y # ys)" by (metis sorted_sort_key, metis set_sort)
  then show ?thesis by auto
qed

lemma last_contact_Some:
  assumes "lastContactByEmail T es rows email = Some c"
  shows "(\<exists>r \<in> set rows. cw_tenantId r = T \<and> sql_norm (cw_recipientEmail r) = Some email \<and> contact_time r = Some (cx_at c)
            \<and> cx_channel c = cw_channel r \<and> cx_inbound c = cw_inbound r)
    \<and> (\<forall>r \<in> set rows. \<forall>t. cw_tenantId r = T \<and> sql_norm (cw_recipientEmail r) = Some email \<and> contact_time r = Some t
         \<longrightarrow> t \<le> cx_at c)"
proof -
  define hits where "hits = find_where (\<lambda>r. cw_tenantId r = T \<and> sql_norm (cw_recipientEmail r) = Some email
      \<and> contact_time r \<noteq> None) rows"
  obtain r rs where rs: "sort_key (\<lambda>r. - the (contact_time r)) hits = r # rs"
    and c: "c = \<lparr>cx_at = the (contact_time r), cx_channel = cw_channel r, cx_inbound = cw_inbound r\<rparr>"
    using assms unfolding lastContactByEmail_def hits_def [symmetric] by (auto simp: Let_def split: if_splits list.splits)
  have "r \<in> set hits" using rs by (metis list.set_intros(1) set_sort)
  then have r: "r \<in> set rows" "cw_tenantId r = T" "sql_norm (cw_recipientEmail r) = Some email" "contact_time r = Some (cx_at c)"
    unfolding hits_def set_find_where by (simp_all add: c)
  have "t \<le> cx_at c"
    if "x \<in> set rows" "cw_tenantId x = T" "sql_norm (cw_recipientEmail x) = Some email" "contact_time x = Some t" for x t
  proof -
    have "x \<in> set hits" unfolding hits_def set_find_where using that by simp
    from sort_key_hd [OF rs this] show ?thesis using that(4) by (simp add: c)
  qed
  moreover have "cx_channel c = cw_channel r \<and> cx_inbound c = cw_inbound r" by (simp add: c)
  ultimately show ?thesis using r by blast
qed

lemma last_contact_None:
  assumes "lastContactByEmail T es rows email = None" "email \<noteq> []" "e \<in> set es" "subject_of e = Some email"
  shows "\<not> (\<exists>r \<in> set rows. cw_tenantId r = T \<and> sql_norm (cw_recipientEmail r) = Some email \<and> contact_time r \<noteq> None)"
proof -
  have "email \<in> set (filter (\<lambda>s. s \<noteq> []) (List.map_filter subject_of es))"
    using assms(2-4) by (induction es) (auto simp: List.map_filter_simps split: option.splits)
  then have "sort_key (\<lambda>r. - the (contact_time r)) (find_where (\<lambda>r. cw_tenantId r = T
      \<and> sql_norm (cw_recipientEmail r) = Some email \<and> contact_time r \<noteq> None) rows) = []" (is "sort_key _ ?hits = []")
    using assms(1) by (auto simp: lastContactByEmail_def Let_def split: list.splits)
  then have "set ?hits = {}" using set_sort [of "\<lambda>r. - the (contact_time r)" ?hits] by simp
  then show ?thesis unfolding set_find_where by blast
qed

text \<open>The aging of a record does not depend on the records it is asked for with.\<close>

lemma last_contact_page:
  assumes "e \<in> set es" "subject_of e = Some email" "email \<noteq> []"
  shows "lastContactByEmail T es rows email = lastContactByEmail T [e] rows email"
proof -
  have "email \<in> set (filter (\<lambda>s. s \<noteq> []) (List.map_filter subject_of es))"
    using assms by (induction es) (auto simp: List.map_filter_simps split: option.splits)
  then show ?thesis using assms(2,3) by (simp add: lastContactByEmail_def Let_def List.map_filter_simps)
qed

lemma assemble_page: "e \<in> set es \<Longrightarrow>
  assemble host_date now (lastContactByEmail T es rows) e = forEntity host_date now T e rows"
  using last_contact_page [of e es "the (subject_of e)" T rows]
  by (cases "subject_of e") (auto simp: assemble_def forEntity_def contact_aging_of_def truthy_str_def)

definition counted_message :: "str \<Rightarrow> contact_row list \<Rightarrow> str \<Rightarrow> instant \<Rightarrow> bool" where
  "counted_message T rows email t \<longleftrightarrow> (\<exists>r \<in> set rows. cw_tenantId r = T \<and> sql_norm (cw_recipientEmail r) = Some email \<and> contact_time r = Some t)"

text \<open>
  Last contact is reported, with the days since, exactly when a message to the client was received, sent or
  delivered, and it is the latest of them; a message that only waits, or failed, never counts, and a
  record of which nothing is known has no number of days.
\<close>

theorem contact_is_the_latest_message:
  assumes "subject_of e = Some email" "email \<noteq> []" "c = ea_contact (forEntity host_date now T e rows)"
  shows "(ca_at c = None \<longleftrightarrow> (\<forall>t. \<not> counted_message T rows email t))
    \<and> (ca_days c = None \<longleftrightarrow> ca_at c = None)
    \<and> (\<forall>t. ca_at c = Some t \<longrightarrow> counted_message T rows email t \<and> (\<forall>t'. counted_message T rows email t' \<longrightarrow> t' \<le> t))"
proof (cases "lastContactByEmail T [e] rows email")
  case None
  have "\<forall>t. \<not> counted_message T rows email t"
    using last_contact_None [OF None assms(2) _ assms(1)] unfolding counted_message_def by auto
  moreover have "ca_at c = None" "ca_days c = None"
    using None assms(1,3) by (simp_all add: forEntity_def assemble_def contact_aging_of_def)
  ultimately show ?thesis by simp
next
  case (Some x)
  have "ca_at c = Some (cx_at x)" "ca_days c \<noteq> None"
    using Some assms by (simp_all add: forEntity_def assemble_def contact_aging_of_def truthy_str_def daysBetween_def)
  moreover have "counted_message T rows email (cx_at x)" "\<forall>t'. counted_message T rows email t' \<longrightarrow> t' \<le> cx_at x"
    using last_contact_Some [OF Some] unfolding counted_message_def by blast+
  ultimately show ?thesis by auto
qed

text \<open>A page of records is aged as each of them alone.\<close>

theorem aging_of_a_page:
  assumes "distinct (map en_id es)" "e \<in> set es"
  shows "forEntities host_date now T es rows (en_id e) = Some (forEntity host_date now T e rows)"
proof -
  let ?f = "assemble host_date now (lastContactByEmail T es rows)"
  have id: "ea_entityId (?f x) = en_id x" for x by (simp add: assemble_def)
  have "map_get ea_entityId (map ?f es) (en_id e) \<noteq> None"
    using imageI [OF assms(2), of "ea_entityId \<circ> ?f"] id by (simp add: map_get_None_iff image_comp)
  then obtain x where x: "map_get ea_entityId (map ?f es) (en_id e) = Some x" by blast
  then obtain e' where e': "e' \<in> set es" "x = ?f e'" "en_id e' = en_id e"
    using id by (auto dest!: map_get_SomeD)
  have "e' = e" using assms e' by (metis distinct_map inj_onD)
  then show ?thesis using x e' assemble_page [OF assms(2)] by (simp add: forEntities_def)
qed

section \<open>An example\<close>

definition aged_record :: crm_entity where
  "aged_record =
     \<lparr>en_id = ''c'', en_tenantId = ''T'', en_type = Case, en_email = None, en_firstName = None, en_assignedTo = None,
      en_subjectEmail = Some '' Ann@x.org'', ce_lastName = None, ce_phoneNumber = None, ce_status = None, ce_dueDate = None,
      ce_recordNumber = None, ce_verticalAttributes = [(''stage'', JStr ''lodged'')],
      ce_metadata = [(''stageHistory'', JArr [JObj [(''stage'', JStr ''lodged''), (''at'', JStr ''2024-01-02T00:00:00.000Z'')],
         JNull, JObj [(''stage'', JStr ''draft''), (''at'', JStr ''2024-01-01T00:00:00.000Z'')]])],
      ce_relationships = [], ce_vertical = ''immigration'', ce_environment = ''production'', ce_createdAt = 0,
      ce_updatedAt = 0, ce_deletedAt = None\<rparr>"

definition message :: "bool \<Rightarrow> instant \<Rightarrow> instant option \<Rightarrow> contact_row" where
  "message inbound created sent = \<lparr>cw_tenantId = ''T'', cw_recipientEmail = Some ''ann@x.org'', cw_channel = ''email'',
     cw_inbound = inbound, cw_createdAt = created, cw_sentAt = sent, cw_deliveredAt = None\<rparr>"

lemma stage_example:
  "sa_days (stage_aging_of (\<lambda>_. Some 1000) (1000 + 3 * ms_per_day + 5) aged_record) = Some 3"
  by code_simp

theorem contact_is_the_latest_message_witness:
  "ca_days (ea_contact (forEntity (\<lambda>_. None) (9 * ms_per_day) ''T'' aged_record
      [message True ms_per_day None, message False (8 * ms_per_day) None, message False 0 (Some (2 * ms_per_day))])) \<noteq> None"
proof -
  let ?rows = "[message True ms_per_day None, message False (8 * ms_per_day) None, message False 0 (Some (2 * ms_per_day))]"
  have s: "subject_of aged_record = Some ''ann@x.org''" by code_simp
  have "counted_message ''T'' ?rows ''ann@x.org'' ms_per_day" by code_simp
  moreover note contact_is_the_latest_message [OF s _ refl, of "\<lambda>_. None" "9 * ms_per_day" "''T''" ?rows]
  ultimately show ?thesis by (metis list.distinct(1))
qed

theorem aging_of_a_page_witness:
  "forEntities (\<lambda>_. None) 5 ''T'' [aged_record] [] ''c'' = Some (forEntity (\<lambda>_. None) 5 ''T'' aged_record [])"
  using aging_of_a_page [of "[aged_record]" aged_record "\<lambda>_. None" 5 "''T''" "[]"] by (simp add: aged_record_def)

end
