(* ===== verification/Crm.thy ===== *)
theory Crm
  imports Profile Aging Csv Rules
begin

text \<open>
  \<^verbatim>\<open>src/crm/crm.service.ts\<close>: creating, listing, exporting, changing, converting and deleting the records of a tenant.
  Every read goes through the row-level policy of the connection. JsonLogic and what the host's \<^verbatim>\<open>Date\<close> makes
  of a text are arguments. A failed statement rolls its transaction back, so an error leaves the tables as they were.
\<close>

section \<open>Tables, inputs, errors\<close>

record crm_env =
  cv_view :: pack_view
  cv_logic :: json_logic
  cv_date :: "str \<Rightarrow> instant option"
  cv_now :: instant

record crm_db =
  db_entities :: "crm_entity list"
  db_counters :: "record_counter list"
  db_edges :: "entity_relation list"

record create_input =
  ci_type :: entity_type
  ci_firstName :: "str option"
  ci_lastName :: "str option"
  ci_email :: "str option"
  ci_subjectEmail :: "str option"
  ci_phoneNumber :: "str option"
  ci_verticalAttributes :: "js_obj option"
  ci_status :: "entity_status option"
  ci_dueDate :: "str option"
  ci_assignedTo :: "str option"

text \<open>A field of a patch is absent, null or a value.\<close>

record entity_patch =
  up_firstName :: "str option option"
  up_lastName :: "str option option"
  up_email :: "str option option"
  up_subjectEmail :: "str option option"
  up_phoneNumber :: "str option option"
  up_status :: "entity_status option option"
  up_dueDate :: "instant option option"
  up_assignedTo :: "str option option"
  up_verticalAttributes :: "js_obj option"

datatype crm_error =
    MissingAttribute str
  | SetRefused profile_error
  | DuplicateEmail
  | CreateFailed
  | RecordNotFound
  | RecordUnknown
  | RecordDenied access_error
  | CompletionRefused relation_error
  | FieldLocked str
  | AlreadyOfType entity_type
  | NotConvertible entity_type entity_type
  | SaveFailed

section \<open>Constants\<close>

definition COMPLETION_STATUSES :: "entity_status list" where
  "COMPLETION_STATUSES = [EntityResolved, EntityClosed, EntityCancelled]"

definition WORKABLE_TYPES :: "entity_type list" where
  "WORKABLE_TYPES = [Case, Obligation, Breach, Lead, Vendor, ControlTest, RiskScenario, Milestone, Rfi, ScreeningMatch, Sar]"

definition defaultStatusFor :: "entity_type \<Rightarrow> entity_status option" where
  "defaultStatusFor ty = (if ty \<in> set WORKABLE_TYPES then Some EntityOpen else None)"

definition CONVERTIBLE_TYPES :: "(entity_type \<times> entity_type list) list" where
  "CONVERTIBLE_TYPES = [(Lead, [Person, Organization]), (Person, [Organization]), (Organization, [Person])]"

section \<open>Settings\<close>

text \<open>\<^verbatim>\<open>src/tenant/tenant-settings.service.ts\<close>: the fields a tenant requires of its subject records.\<close>

record setting_field =
  tf_key :: str
  tf_label :: str
  tf_required :: bool

record tenant_setting =
  tg_tenantId :: str
  tg_fields :: "setting_field list option"

definition getDefaultConfig :: "setting_field list" where
  "getDefaultConfig =
     [\<lparr>tf_key = ''taxId'', tf_label = ''Tax ID'', tf_required = True\<rparr>,
      \<lparr>tf_key = ''riskScore'', tf_label = ''Risk Score'', tf_required = False\<rparr>]"

definition getSettings :: "tenant_setting list \<Rightarrow> str \<Rightarrow> setting_field list option" where
  "getSettings settings tenantId =
     (case find_one (\<lambda>s. tg_tenantId s = tenantId) settings of None \<Rightarrow> Some getDefaultConfig | Some s \<Rightarrow> tg_fields s)"

definition updateSettings :: "str \<Rightarrow> setting_field list option \<Rightarrow> tenant_setting list \<Rightarrow> tenant_setting list" where
  "updateSettings tenantId wanted settings =
     save_row tg_tenantId \<lparr>tg_tenantId = tenantId, tg_fields = wanted\<rparr> settings"

section \<open>Reads\<close>

definition visible_rows :: "als \<Rightarrow> crm_entity list \<Rightarrow> crm_entity list" where
  "visible_rows ctx rows = find_where (\<lambda>e. rls_visible ctx (en_tenantId e)) rows"

definition findEntityById :: "als \<Rightarrow> crm_db \<Rightarrow> str \<Rightarrow> str \<Rightarrow> crm_entity option" where
  "findEntityById ctx db i tenantId =
     find_one (\<lambda>e. en_id e = i \<and> en_tenantId e = tenantId) (visible_rows ctx (db_entities db))"

definition getEntity :: "als \<Rightarrow> crm_db \<Rightarrow> str \<Rightarrow> str \<Rightarrow> actor \<Rightarrow> crm_error + crm_entity" where
  "getEntity ctx db i tenantId a =
     (case findEntityById ctx db i tenantId of
        None \<Rightarrow> Inl RecordNotFound
      | Some e \<Rightarrow> (case crm_assert ctx a CrmRead (row_of e) of Inl x \<Rightarrow> Inl (RecordDenied x) | Inr _ \<Rightarrow> Inr e))"

definition getEntitiesByTenant :: "als \<Rightarrow> crm_db \<Rightarrow> str \<Rightarrow> crm_entity list" where
  "getEntitiesByTenant ctx db tenantId =
     sort_key (\<lambda>e. - ce_createdAt e) (find_where (\<lambda>e. en_tenantId e = tenantId) (visible_rows ctx (db_entities db)))"

record list_filters =
  li_type :: "entity_type option"
  li_status :: "entity_status option"
  li_assignedTo :: "str option"
  li_subjectEmail :: "str option"
  li_dueBefore :: "instant option"
  li_dueAfter :: "instant option"
  li_page :: "int option"
  li_limit :: "int option"

definition entity_matches :: "str \<Rightarrow> list_filters \<Rightarrow> crm_entity \<Rightarrow> bool" where
  "entity_matches tenantId fs e \<longleftrightarrow>
     en_tenantId e = tenantId \<and> ce_deletedAt e = None
     \<and> (case li_type fs of None \<Rightarrow> True | Some ty \<Rightarrow> en_type e = ty)
     \<and> (case li_status fs of None \<Rightarrow> True | Some s \<Rightarrow> ce_status e = Some s)
     \<and> (truthy_str (li_assignedTo fs) \<longrightarrow> en_assignedTo e = li_assignedTo fs)
     \<and> (case li_subjectEmail fs of
          None \<Rightarrow> True
        | Some s \<Rightarrow> (let needle = to_lower (trim s) in needle \<noteq> [] \<and> sql_norm (en_subjectEmail e) = Some needle))
     \<and> (case li_dueAfter fs of None \<Rightarrow> True | Some t \<Rightarrow> (case ce_dueDate e of None \<Rightarrow> False | Some d \<Rightarrow> t \<le> d))
     \<and> (case li_dueBefore fs of None \<Rightarrow> True | Some t \<Rightarrow> (case ce_dueDate e of None \<Rightarrow> False | Some d \<Rightarrow> d \<le> t))"

text \<open>By due date, undated records last, then the newest first.\<close>

definition buildEntityListQuery :: "als \<Rightarrow> crm_db \<Rightarrow> str \<Rightarrow> list_filters \<Rightarrow> crm_entity list" where
  "buildEntityListQuery ctx db tenantId fs =
     sort_key (\<lambda>e. if ce_dueDate e = None then 1 else (0 :: nat))
       (sort_key (\<lambda>e. case ce_dueDate e of None \<Rightarrow> 0 | Some t \<Rightarrow> t)
         (sort_key (\<lambda>e. - ce_createdAt e)
           (find_where (entity_matches tenantId fs) (visible_rows ctx (db_entities db)))))"

record entity_page =
  ep_items :: "crm_entity list"
  ep_total :: nat
  ep_page :: int
  ep_limit :: int

definition listEntities :: "als \<Rightarrow> crm_db \<Rightarrow> str \<Rightarrow> list_filters \<Rightarrow> entity_page" where
  "listEntities ctx db tenantId fs =
     (let page = max 1 (or_default (li_page fs) 1); limit = min 200 (max 1 (or_default (li_limit fs) 50));
          rows = buildEntityListQuery ctx db tenantId fs
      in \<lparr>ep_items = take (nat limit) (drop (nat ((page - 1) * limit)) rows), ep_total = length rows,
          ep_page = page, ep_limit = limit\<rparr>)"

definition EXPORT_MAX_ROWS :: nat where "EXPORT_MAX_ROWS = 10000"

definition export_row :: "crm_entity \<Rightarrow> js list" where
  "export_row e =
     [JStr (en_id e), JStr (entity_type_text (en_type e)), text_or_null (en_firstName e), text_or_null (ce_lastName e),
      text_or_null (en_email e), text_or_null (ce_phoneNumber e), text_or_null (map_option entity_status_text (ce_status e)),
      date_or_null (ce_dueDate e), text_or_null (en_assignedTo e), date_or_null (Some (ce_createdAt e)),
      date_or_null (Some (ce_updatedAt e)), JObj (ce_verticalAttributes e)]"

definition export_headers :: "str list" where
  "export_headers = [''id'', ''type'', ''firstName'', ''lastName'', ''email'', ''phoneNumber'', ''status'', ''dueDate'',
     ''assignedTo'', ''createdAt'', ''updatedAt'', ''verticalAttributes'']"

definition exportEntitiesCsv :: "als \<Rightarrow> crm_db \<Rightarrow> str \<Rightarrow> list_filters \<Rightarrow> csv_error + (str \<times> nat \<times> bool)" where
  "exportEntitiesCsv ctx db tenantId fs =
     (let rows = buildEntityListQuery ctx db tenantId fs; items = take EXPORT_MAX_ROWS rows
      in and_then (toCsv export_headers (map export_row items)) (\<lambda>csv.
         Inr (csv, length items, length items < length rows)))"

section \<open>Checks of a write\<close>

definition assertNoLockedFieldChanged :: "crm_env \<Rightarrow> crm_entity \<Rightarrow> js_obj option \<Rightarrow> crm_error + unit" where
  "assertNoLockedFieldChanged env e incoming =
     (case incoming of
        None \<Rightarrow> Inr ()
      | Some ob \<Rightarrow>
          if ob = [] then Inr ()
          else case declarationFor (cv_view env) (entity_type_text (en_type e)) of
                 None \<Rightarrow> Inr ()
               | Some d \<Rightarrow>
                   let attrs = ce_verticalAttributes e; data = obj_spread attrs (entity_obj e)
                   in for_each (\<lambda>f. case pl_lockedWhen f of
                          None \<Rightarrow> Inr ()
                        | Some rule \<Rightarrow>
                            if \<not> key_in (pl_key f) ob then Inr ()
                            else if strict_eq (js_member (JObj ob) (pl_key f)) (js_member (JObj attrs) (pl_key f)) then Inr ()
                            else if validate (cv_logic env) rule \<noteq> RuleValid then Inr ()
                            else if matches (cv_logic env) (cv_date env) (cv_now env) rule data
                            then Inl (FieldLocked (pl_key f)) else Inr ())
                        (ty_fields d))"

definition assertProfileSetsValid :: "pack_view \<Rightarrow> entity_type \<Rightarrow> js_obj option \<Rightarrow> crm_error + unit" where
  "assertProfileSetsValid pv ty incoming =
     (case incoming of
        None \<Rightarrow> Inr ()
      | Some ob \<Rightarrow>
          if ob = [] then Inr ()
          else case declarationFor pv (entity_type_text ty) of
                 None \<Rightarrow> Inr ()
               | Some d \<Rightarrow> (case assertDeclaredSetsValid d ob of Inl x \<Rightarrow> Inl (SetRefused x) | Inr _ \<Rightarrow> Inr ()))"

definition recordStageChange :: "instant \<Rightarrow> str option \<Rightarrow> js_obj \<Rightarrow> crm_entity \<Rightarrow> crm_entity" where
  "recordStageChange now actorId attrs1 e =
     (case obj_get ''stage'' attrs1 of
        Some (JStr after) \<Rightarrow>
          if after = [] \<or> obj_get ''stage'' (ce_verticalAttributes e) = Some (JStr after) then e
          else let history = (case obj_get ''stageHistory'' (ce_metadata e) of Some (JArr xs) \<Rightarrow> xs | _ \<Rightarrow> []);
                   entry = JObj [(''stage'', JStr after), (''at'', JStr (iso_string now)), (''by'', text_or_null actorId)]
               in e\<lparr>ce_metadata := obj_set ''stageHistory'' (JArr (take STAGE_HISTORY_LIMIT (entry # history))) (ce_metadata e)\<rparr>
      | _ \<Rightarrow> e)"


section \<open>Writes\<close>

definition write_check :: "als \<Rightarrow> actor \<Rightarrow> crm_action \<Rightarrow> crm_entity \<Rightarrow> crm_error + unit" where
  "write_check ctx a act e =
     (case crm_assert ctx a act (row_of e) of Inl x \<Rightarrow> Inl (RecordDenied x) | Inr _ \<Rightarrow> Inr ())"

text \<open>The unique index on the record numbers of a tenant.\<close>

definition number_taken :: "crm_entity list \<Rightarrow> crm_entity \<Rightarrow> bool" where
  "number_taken rows e \<longleftrightarrow> ce_recordNumber e \<noteq> None
     \<and> find_one (\<lambda>r. en_id r \<noteq> en_id e \<and> en_tenantId r = en_tenantId e \<and> ce_recordNumber r = ce_recordNumber e) rows \<noteq> None"

definition claim_for :: "als \<Rightarrow> str \<Rightarrow> record_series option \<Rightarrow> record_counter list \<Rightarrow> (str option \<times> record_counter list) option" where
  "claim_for ctx tenantId series counters =
     (case series of
        None \<Rightarrow> Some (None, counters)
      | Some s \<Rightarrow> map_option (\<lambda>(number, counters'). (Some number, counters')) (claimRecordNumber ctx tenantId s counters))"

definition missing_attribute :: "setting_field list option \<Rightarrow> create_input \<Rightarrow> str option" where
  "missing_attribute wanted dto =
     (if ci_type dto \<notin> set SUBJECT_TYPES then None
      else map_option tf_key
        (find_one (\<lambda>f. tf_required f
             \<and> \<not> (case ci_verticalAttributes dto of None \<Rightarrow> False | Some ob \<Rightarrow> js_truthy (js_member (JObj ob) (tf_key f))))
           (nullish wanted [])))"

definition subject_email :: "create_input \<Rightarrow> str option" where
  "subject_email dto =
     (if truthy_str (js_norm (ci_subjectEmail dto)) then js_norm (ci_subjectEmail dto)
      else if ci_type dto = Person \<and> truthy_str (js_norm (ci_email dto)) then js_norm (ci_email dto) else None)"

definition new_record :: "str \<Rightarrow> instant \<Rightarrow> str \<Rightarrow> create_input \<Rightarrow> instant option \<Rightarrow> str option \<Rightarrow> crm_entity" where
  "new_record newId now tenantId dto due number =
     \<lparr>en_id = newId, en_tenantId = tenantId, en_type = ci_type dto, en_email = ci_email dto, en_firstName = ci_firstName dto,
      en_assignedTo = ci_assignedTo dto, en_subjectEmail = subject_email dto, ce_lastName = ci_lastName dto,
      ce_phoneNumber = ci_phoneNumber dto,
      ce_status = (case ci_status dto of None \<Rightarrow> defaultStatusFor (ci_type dto) | Some s \<Rightarrow> Some s),
      ce_dueDate = due, ce_recordNumber = number, ce_verticalAttributes = nullish (ci_verticalAttributes dto) [],
      ce_metadata = [], ce_relationships = [], ce_vertical = ''immigration'', ce_environment = ''production'',
      ce_createdAt = now, ce_updatedAt = now, ce_deletedAt = None\<rparr>"

text \<open>Number and row are written in one transaction.\<close>

definition insert_record ::
  "crm_env \<Rightarrow> str \<Rightarrow> str \<Rightarrow> create_input \<Rightarrow> instant option \<Rightarrow> crm_db \<Rightarrow> crm_error + (crm_entity \<times> crm_db)" where
  "insert_record env newId tenantId dto due db =
     (let ctx = pv_ctx (cv_view env) in
      case claim_for ctx tenantId (seriesFor (ci_type dto)) (db_counters db) of
        None \<Rightarrow> Inl CreateFailed
      | Some (number, counters') \<Rightarrow>
          let e = new_record newId (cv_now env) tenantId dto due number in
          if \<not> rls_visible ctx tenantId \<or> number_taken (db_entities db) e then Inl CreateFailed
          else Inr (e, db\<lparr>db_entities := save_row en_id e (db_entities db), db_counters := counters'\<rparr>))"

definition createEntity ::
  "crm_env \<Rightarrow> tenant_setting list \<Rightarrow> str \<Rightarrow> str \<Rightarrow> create_input \<Rightarrow> crm_db \<Rightarrow> crm_error + (crm_entity \<times> crm_db)" where
  "createEntity env settings newId tenantId dto db =
     (case missing_attribute (getSettings settings tenantId) dto of
        Some key \<Rightarrow> Inl (MissingAttribute key)
      | None \<Rightarrow>
          and_then (assertProfileSetsValid (cv_view env) (ci_type dto) (ci_verticalAttributes dto)) (\<lambda>_.
            if truthy_str (ci_email dto)
              \<and> find_one (\<lambda>e. en_tenantId e = tenantId \<and> en_email e = ci_email dto)
                  (visible_rows (pv_ctx (cv_view env)) (db_entities db)) \<noteq> None
            then Inl DuplicateEmail
            else if truthy_str (ci_dueDate dto)
            then (case cv_date env (the (ci_dueDate dto)) of
                    None \<Rightarrow> Inl CreateFailed
                  | Some t \<Rightarrow> insert_record env newId tenantId dto (Some t) db)
            else insert_record env newId tenantId dto None db))"

text \<open>A row that did not change is not written.\<close>

definition touched :: "instant \<Rightarrow> crm_entity \<Rightarrow> crm_entity \<Rightarrow> crm_entity" where
  "touched now old e = (if e = old then e else e\<lparr>ce_updatedAt := now\<rparr>)"

definition addRelationship :: "als \<Rightarrow> instant \<Rightarrow> str \<Rightarrow> str \<Rightarrow> str \<Rightarrow> crm_db \<Rightarrow> crm_error + (crm_entity \<times> crm_db)" where
  "addRelationship ctx now parentId childId relationType db =
     (let rows = visible_rows ctx (db_entities db) in
      case (find_one (\<lambda>e. en_id e = parentId) rows, find_one (\<lambda>e. en_id e = childId) rows) of
        (Some parent, Some _) \<Rightarrow>
          let p = touched now parent (parent\<lparr>ce_relationships := ce_relationships parent @ [(childId, relationType)]\<rparr>)
          in Inr (p, db\<lparr>db_entities := save_row en_id p (db_entities db)\<rparr>)
      | _ \<Rightarrow> Inl RecordUnknown)"

definition deleteEntity :: "als \<Rightarrow> str \<Rightarrow> str \<Rightarrow> actor \<Rightarrow> crm_db \<Rightarrow> crm_error + crm_db" where
  "deleteEntity ctx i tenantId a db =
     (case findEntityById ctx db i tenantId of
        None \<Rightarrow> Inl RecordUnknown
      | Some e \<Rightarrow>
          and_then (write_check ctx a CrmDelete e) (\<lambda>_.
          Inr (db\<lparr>db_entities := remove_row en_id (en_id e) (db_entities db)\<rparr>)))"

definition closing :: "entity_patch \<Rightarrow> crm_entity \<Rightarrow> bool" where
  "closing p e \<longleftrightarrow>
     (case up_status p of
        Some (Some s) \<Rightarrow> s \<in> set COMPLETION_STATUSES
          \<and> (case ce_status e of None \<Rightarrow> True | Some s' \<Rightarrow> s' \<notin> set COMPLETION_STATUSES)
      | _ \<Rightarrow> False)"

definition apply_patch :: "entity_patch \<Rightarrow> crm_entity \<Rightarrow> crm_entity" where
  "apply_patch p e =
     e\<lparr>en_firstName := nullish (up_firstName p) (en_firstName e), ce_lastName := nullish (up_lastName p) (ce_lastName e),
       en_email := nullish (up_email p) (en_email e), ce_phoneNumber := nullish (up_phoneNumber p) (ce_phoneNumber e),
       ce_status := nullish (up_status p) (ce_status e), ce_dueDate := nullish (up_dueDate p) (ce_dueDate e),
       en_assignedTo := nullish (up_assignedTo p) (en_assignedTo e),
       en_subjectEmail := (case up_subjectEmail p of
                             None \<Rightarrow> en_subjectEmail e
                           | Some s \<Rightarrow> if truthy_str (js_norm s) then js_norm s else None)\<rparr>"

definition merge_attributes :: "instant \<Rightarrow> actor \<Rightarrow> js_obj option \<Rightarrow> crm_entity \<Rightarrow> crm_entity" where
  "merge_attributes now a incoming e =
     (case incoming of
        None \<Rightarrow> e
      | Some ob \<Rightarrow>
          let attrs1 = deep_merge (ce_verticalAttributes e) ob
          in (recordStageChange now (Some (ac_id a)) attrs1 e)\<lparr>ce_verticalAttributes := attrs1\<rparr>)"

definition completion_check :: "crm_env \<Rightarrow> str \<Rightarrow> actor \<Rightarrow> entity_patch \<Rightarrow> crm_entity \<Rightarrow> crm_db \<Rightarrow> crm_error + unit" where
  "completion_check env tenantId a p e db =
     (if closing p e
      then (case assertCompletable (cv_view env) tenantId a (en_id e)
                   (visible_rows (pv_ctx (cv_view env)) (db_entities db)) (db_edges db) of
              Inl x \<Rightarrow> Inl (CompletionRefused x) | Inr _ \<Rightarrow> Inr ())
      else Inr ())"

definition updateEntity ::
  "crm_env \<Rightarrow> str \<Rightarrow> str \<Rightarrow> actor \<Rightarrow> entity_patch \<Rightarrow> crm_db \<Rightarrow> crm_error + (crm_entity \<times> crm_db)" where
  "updateEntity env i tenantId a p db =
     (let ctx = pv_ctx (cv_view env) in
      case findEntityById ctx db i tenantId of
        None \<Rightarrow> Inl RecordNotFound
      | Some e \<Rightarrow>
          and_then (write_check ctx a CrmWrite e) (\<lambda>_.
          and_then (completion_check env tenantId a p e db) (\<lambda>_.
          and_then (assertNoLockedFieldChanged env e (up_verticalAttributes p)) (\<lambda>_.
          and_then (assertProfileSetsValid (cv_view env) (en_type e) (up_verticalAttributes p)) (\<lambda>_.
            let e' = touched (cv_now env) e
                       (merge_attributes (cv_now env) a (up_verticalAttributes p) (apply_patch p e))
            in Inr (e', db\<lparr>db_entities := save_row en_id e' (db_entities db)\<rparr>))))))"

definition converted :: "instant \<Rightarrow> entity_type \<Rightarrow> crm_entity \<Rightarrow> crm_entity" where
  "converted now toType e =
     e\<lparr>en_type := toType,
       ce_status := (if toType \<in> set WORKABLE_TYPES then (if ce_status e = None then Some EntityOpen else ce_status e) else None),
       ce_verticalAttributes := deep_merge (ce_verticalAttributes e)
         [(''conversion'', JObj [(''fromType'', JStr (entity_type_text (en_type e))), (''toType'', JStr (entity_type_text toType)),
                                 (''convertedAt'', JStr (iso_string now))])]\<rparr>"

definition convertEntity ::
  "crm_env \<Rightarrow> str \<Rightarrow> str \<Rightarrow> actor \<Rightarrow> entity_type \<Rightarrow> crm_db \<Rightarrow> crm_error + (crm_entity \<times> crm_db)" where
  "convertEntity env i tenantId a toType db =
     (let ctx = pv_ctx (cv_view env) in
      case findEntityById ctx db i tenantId of
        None \<Rightarrow> Inl RecordNotFound
      | Some e \<Rightarrow>
          and_then (write_check ctx a CrmWrite e) (\<lambda>_.
            if en_type e = toType then Inl (AlreadyOfType toType)
            else if toType \<notin> set (nullish (map_of CONVERTIBLE_TYPES (en_type e)) []) then Inl (NotConvertible (en_type e) toType)
            else case claim_for ctx tenantId (if ce_recordNumber e = None then seriesFor toType else None) (db_counters db) of
                   None \<Rightarrow> Inl SaveFailed
                 | Some (number, counters') \<Rightarrow>
                     let e1 = (converted (cv_now env) toType e)\<lparr>ce_recordNumber := nullish_opt (ce_recordNumber e) number\<rparr>;
                         e' = touched (cv_now env) e e1
                     in if number_taken (db_entities db) e' then Inl SaveFailed
                        else Inr (e', db\<lparr>db_entities := save_row en_id e' (db_entities db), db_counters := counters'\<rparr>)))"


section \<open>Lemmas on the operations\<close>

lemma findEntityById_SomeD:
  "findEntityById ctx db i T = Some e \<Longrightarrow> e \<in> set (db_entities db) \<and> en_id e = i \<and> en_tenantId e = T \<and> rls_visible ctx T"
  by (auto simp: findEntityById_def visible_rows_def set_find_where dest!: find_one_SomeD)

lemma createEntity_Inr:
  assumes "createEntity env settings newId T dto db = Inr (e, db')"
  obtains due number counters' where
    "claim_for (pv_ctx (cv_view env)) T (seriesFor (ci_type dto)) (db_counters db) = Some (number, counters')"
    "e = new_record newId (cv_now env) T dto due number" "\<not> number_taken (db_entities db) e"
    "missing_attribute (getSettings settings T) dto = None"
    "assertProfileSetsValid (cv_view env) (ci_type dto) (ci_verticalAttributes dto) = Inr ()"
    "db' = db\<lparr>db_entities := save_row en_id e (db_entities db), db_counters := counters'\<rparr>"
proof -
  have ok: "missing_attribute (getSettings settings T) dto = None"
    "assertProfileSetsValid (cv_view env) (ci_type dto) (ci_verticalAttributes dto) = Inr ()"
    using assms by (auto simp: createEntity_def and_then_Inr_iff split: option.splits)
  then obtain due where "insert_record env newId T dto due db = Inr (e, db')"
    using assms by (auto simp: createEntity_def split: if_splits option.splits)
  then show thesis
    using that ok by (auto simp: insert_record_def Let_def split: option.splits if_splits)
qed

lemma updateEntity_Inr:
  assumes "updateEntity env i T a p db = Inr (e', db')"
  obtains e where "findEntityById (pv_ctx (cv_view env)) db i T = Some e"
    "write_check (pv_ctx (cv_view env)) a CrmWrite e = Inr ()" "completion_check env T a p e db = Inr ()"
    "assertNoLockedFieldChanged env e (up_verticalAttributes p) = Inr ()"
    "assertProfileSetsValid (cv_view env) (en_type e) (up_verticalAttributes p) = Inr ()"
    "e' = touched (cv_now env) e (merge_attributes (cv_now env) a (up_verticalAttributes p) (apply_patch p e))"
    "db' = db\<lparr>db_entities := save_row en_id e' (db_entities db)\<rparr>"
  using assms by (auto simp: updateEntity_def Let_def and_then_Inr_iff split: option.splits)

lemma convertEntity_Inr:
  assumes "convertEntity env i T a ty db = Inr (e', db')"
  obtains e number counters' where "findEntityById (pv_ctx (cv_view env)) db i T = Some e"
    "write_check (pv_ctx (cv_view env)) a CrmWrite e = Inr ()" "ty \<in> set (nullish (map_of CONVERTIBLE_TYPES (en_type e)) [])"
    "claim_for (pv_ctx (cv_view env)) T (if ce_recordNumber e = None then seriesFor ty else None) (db_counters db)
       = Some (number, counters')"
    "e' = touched (cv_now env) e ((converted (cv_now env) ty e)\<lparr>ce_recordNumber := nullish_opt (ce_recordNumber e) number\<rparr>)"
    "db' = db\<lparr>db_entities := save_row en_id e' (db_entities db), db_counters := counters'\<rparr>"
  using assms by (auto simp: convertEntity_def Let_def and_then_Inr_iff split: option.splits if_splits)

lemma record_stage_fields [simp]:
  "en_id (recordStageChange now a m e) = en_id e" "en_tenantId (recordStageChange now a m e) = en_tenantId e"
  "en_type (recordStageChange now a m e) = en_type e" "ce_recordNumber (recordStageChange now a m e) = ce_recordNumber e"
  "ce_status (recordStageChange now a m e) = ce_status e"
  by (auto simp: recordStageChange_def Let_def split: option.splits js.splits)

lemma touched_fields [simp]:
  "en_id (touched now e e') = en_id e'" "en_tenantId (touched now e e') = en_tenantId e'"
  "en_type (touched now e e') = en_type e'" "ce_recordNumber (touched now e e') = ce_recordNumber e'"
  "ce_status (touched now e e') = ce_status e'" "ce_verticalAttributes (touched now e e') = ce_verticalAttributes e'"
  "ce_metadata (touched now e e') = ce_metadata e'"
  by (auto simp: touched_def)

lemma merge_attributes_fields [simp]:
  "en_id (merge_attributes now a ob e) = en_id e" "en_tenantId (merge_attributes now a ob e) = en_tenantId e"
  "en_type (merge_attributes now a ob e) = en_type e" "ce_recordNumber (merge_attributes now a ob e) = ce_recordNumber e"
  "ce_status (merge_attributes now a ob e) = ce_status e"
  "ce_verticalAttributes (merge_attributes now a ob e)
     = (case ob of None \<Rightarrow> ce_verticalAttributes e | Some x \<Rightarrow> deep_merge (ce_verticalAttributes e) x)"
  by (auto simp: merge_attributes_def Let_def split: option.splits)

lemma apply_patch_fields [simp]:
  "en_id (apply_patch p e) = en_id e" "en_tenantId (apply_patch p e) = en_tenantId e" "en_type (apply_patch p e) = en_type e"
  "ce_recordNumber (apply_patch p e) = ce_recordNumber e" "ce_verticalAttributes (apply_patch p e) = ce_verticalAttributes e"
  "ce_metadata (apply_patch p e) = ce_metadata e"
  by (simp_all add: apply_patch_def)

section \<open>Record numbers\<close>

definition was_issued :: "record_counter list \<Rightarrow> str \<Rightarrow> str \<Rightarrow> bool" where
  "was_issued counters T x \<longleftrightarrow> (\<exists>s n. x = formatRecordNumber s n \<and> 0 < n \<and> n \<le> issued counters T s)"

text \<open>Numbers on records were issued, and no two records of a tenant share one.\<close>

definition numbers_inv :: "crm_db \<Rightarrow> bool" where
  "numbers_inv db \<longleftrightarrow> keys_distinct en_id (db_entities db)
     \<and> (\<forall>e \<in> set (db_entities db). \<forall>x. ce_recordNumber e = Some x \<longrightarrow> was_issued (db_counters db) (en_tenantId e) x)
     \<and> (\<forall>e \<in> set (db_entities db). \<forall>e' \<in> set (db_entities db). ce_recordNumber e \<noteq> None
          \<and> ce_recordNumber e = ce_recordNumber e' \<and> en_tenantId e = en_tenantId e' \<longrightarrow> e = e')"

text \<open>What was issued stays issued, and is seen again only on the record that had it.\<close>

definition numbers_kept :: "crm_db \<Rightarrow> crm_db \<Rightarrow> bool" where
  "numbers_kept db db' \<longleftrightarrow>
     (\<forall>T x. was_issued (db_counters db) T x \<longrightarrow> was_issued (db_counters db') T x)
     \<and> (\<forall>e' \<in> set (db_entities db'). \<forall>x. ce_recordNumber e' = Some x \<and> was_issued (db_counters db) (en_tenantId e') x \<longrightarrow>
          (\<exists>e \<in> set (db_entities db). en_id e = en_id e' \<and> en_tenantId e = en_tenantId e' \<and> ce_recordNumber e = Some x))"

lemma numbers_kept_refl: "numbers_kept db db"
  by (auto simp: numbers_kept_def)

lemma numbers_kept_trans: "numbers_kept db db' \<Longrightarrow> numbers_kept db' db'' \<Longrightarrow> numbers_kept db db''"
  unfolding numbers_kept_def by (metis (no_types, lifting))

lemma claim_issued:
  assumes "claimRecordNumber ctx T s counters = Some (number, counters')"
  shows "was_issued counters' T number" "\<not> was_issued counters T number"
    "was_issued counters T' x \<Longrightarrow> was_issued counters' T' x"
proof -
  note r = claim_result [OF assms]
  show "was_issued counters' T number" unfolding was_issued_def using r by (metis le_refl zero_less_Suc)
  show "\<not> was_issued counters T number" unfolding was_issued_def using claim_new [OF assms] by blast
  show "was_issued counters T' x \<Longrightarrow> was_issued counters' T' x" unfolding was_issued_def using r by (metis le_trans)
qed

text \<open>A row is put into the table with the number it had, or a number just claimed.\<close>

lemma numbers_put:
  assumes inv: "numbers_inv db"
    and here: "\<forall>e \<in> set (db_entities db). en_id e = en_id e' \<longrightarrow> en_tenantId e = en_tenantId e' \<and> (ce_recordNumber e = None \<or> ce_recordNumber e = ce_recordNumber e')"
    and number: "counters' = db_counters db \<and> (ce_recordNumber e' = None
         \<or> (\<exists>e \<in> set (db_entities db). en_id e = en_id e' \<and> ce_recordNumber e' = ce_recordNumber e))
       \<or> (\<exists>ctx s x. claimRecordNumber ctx (en_tenantId e') s (db_counters db) = Some (x, counters') \<and> ce_recordNumber e' = Some x)"
  defines "db' \<equiv> db\<lparr>db_entities := save_row en_id e' (db_entities db), db_counters := counters'\<rparr>"
  shows "numbers_inv db' \<and> numbers_kept db db'"
proof -
  have rows: "set (db_entities db') = insert e' {e \<in> set (db_entities db). en_id e \<noteq> en_id e'}"
    and cs: "db_counters db' = counters'"
    using inv by (simp_all add: db'_def set_save_row numbers_inv_def)
  have dist: "keys_distinct en_id (db_entities db')"
    using inv by (simp add: db'_def numbers_inv_def keys_distinct_save)
  have mono: "was_issued (db_counters db) T x \<Longrightarrow> was_issued counters' T x" for T x
    using number claim_issued(3) by blast
  have old: "was_issued (db_counters db) (en_tenantId e) x" if "e \<in> set (db_entities db)" "ce_recordNumber e = Some x" for e x
    using inv that by (simp add: numbers_inv_def)
  have uniq: "e = e2" if "e \<in> set (db_entities db)" "e2 \<in> set (db_entities db)" "ce_recordNumber e = Some x"
    "ce_recordNumber e2 = Some x" "en_tenantId e = en_tenantId e2" for e e2 x
    using inv that unfolding numbers_inv_def by (metis option.distinct(1))
  have new: "(\<exists>e \<in> set (db_entities db). en_id e = en_id e' \<and> en_tenantId e = en_tenantId e' \<and> ce_recordNumber e = Some x)
      \<or> was_issued counters' (en_tenantId e') x \<and> \<not> was_issued (db_counters db) (en_tenantId e') x"
    if "ce_recordNumber e' = Some x" for x
    using number here that claim_issued(1,2) by (metis option.distinct(1) option.inject)
  have fresh: "e2 = e'" if e2: "e2 \<in> set (db_entities db')" "ce_recordNumber e2 = Some x" "ce_recordNumber e' = Some x"
    "en_tenantId e2 = en_tenantId e'" for e2 x
  proof (rule ccontr)
    assume "e2 \<noteq> e'"
    then have e2': "e2 \<in> set (db_entities db)" "en_id e2 \<noteq> en_id e'" using e2(1) rows by auto
    then have "was_issued (db_counters db) (en_tenantId e') x" using old e2(2,4) by metis
    then obtain e where "e \<in> set (db_entities db)" "en_id e = en_id e'" "en_tenantId e = en_tenantId e'" "ce_recordNumber e = Some x"
      using new [OF e2(3)] by blast
    then show False using uniq [OF e2'(1)] e2(2,4) e2'(2) by metis
  qed
  have issued': "was_issued counters' (en_tenantId e) x" if "e \<in> set (db_entities db')" "ce_recordNumber e = Some x" for e x
    using that rows old new mono by (metis (mono_tags, lifting) insertE mem_Collect_eq)
  have "e = e2" if "e \<in> set (db_entities db')" "e2 \<in> set (db_entities db')" "ce_recordNumber e = Some x"
    "ce_recordNumber e2 = Some x" "en_tenantId e = en_tenantId e2" for e e2 x
    using that rows fresh uniq by (metis (mono_tags, lifting) insertE mem_Collect_eq)
  then have "numbers_inv db'" unfolding numbers_inv_def cs using dist issued' by (metis not_None_eq)
  moreover have "numbers_kept db db'"
    unfolding numbers_kept_def cs using mono rows new by auto
  ultimately show ?thesis by blast
qed


lemma claim_for_Some:
  "claim_for ctx T series counters = Some (number, counters') \<longleftrightarrow>
     (series = None \<and> number = None \<and> counters' = counters)
     \<or> (\<exists>s x. series = Some s \<and> number = Some x \<and> claimRecordNumber ctx T s counters = Some (x, counters'))"
  by (auto simp: claim_for_def split: option.splits)

lemma db_update_counters [simp]: "db\<lparr>db_entities := es, db_counters := db_counters db\<rparr> = db\<lparr>db_entities := es\<rparr>"
  by simp

text \<open>What the operations do to the tables; edges are linked and unlinked beside them.\<close>

inductive crm_step :: "crm_db \<Rightarrow> crm_db \<Rightarrow> bool" where
  created: "newId \<notin> en_id ` set (db_entities db) \<Longrightarrow> createEntity env settings newId T dto db = Inr (e, db') \<Longrightarrow> crm_step db db'"
| updated: "updateEntity env i T a p db = Inr (e, db') \<Longrightarrow> crm_step db db'"
| converted: "convertEntity env i T a ty db = Inr (e, db') \<Longrightarrow> crm_step db db'"
| related: "addRelationship ctx now i j rt db = Inr (e, db') \<Longrightarrow> crm_step db db'"
| deleted: "deleteEntity ctx i T a db = Inr db' \<Longrightarrow> crm_step db db'"
| linked: "link pv newId now T a key i j by' (visible_rows ctx (db_entities db)) (db_edges db) = (r, edges)
    \<Longrightarrow> crm_step db (db\<lparr>db_edges := edges\<rparr>)"
| unlinked: "unlink ctx T a key i j (visible_rows ctx (db_entities db)) (db_edges db) = (u, edges)
    \<Longrightarrow> crm_step db (db\<lparr>db_edges := edges\<rparr>)"

lemma id_is_row: "numbers_inv db \<Longrightarrow> e \<in> set (db_entities db) \<Longrightarrow> e2 \<in> set (db_entities db) \<Longrightarrow> en_id e = en_id e2 \<Longrightarrow> e = e2"
  unfolding numbers_inv_def by (metis distinct_map inj_onD)

text \<open>A row in place of itself, with the number it had.\<close>

lemma numbers_replace:
  assumes "numbers_inv db" "e \<in> set (db_entities db)" "en_id e' = en_id e" "en_tenantId e' = en_tenantId e"
    "ce_recordNumber e' = ce_recordNumber e"
  shows "numbers_inv (db\<lparr>db_entities := save_row en_id e' (db_entities db)\<rparr>)
    \<and> numbers_kept db (db\<lparr>db_entities := save_row en_id e' (db_entities db)\<rparr>)"
  using numbers_put [OF assms(1), of e' "db_counters db"] id_is_row [OF assms(1,2)] assms(2-5) by fastforce

lemma numbers_create:
  assumes "numbers_inv db" "newId \<notin> en_id ` set (db_entities db)" "createEntity env settings newId T dto db = Inr (e, db')"
  shows "numbers_inv db' \<and> numbers_kept db db'"
  using assms(3)
proof (cases rule: createEntity_Inr)
  case (1 due number counters')
  have e: "en_id e = newId" "en_tenantId e = T" "ce_recordNumber e = number" using 1(2) by (simp_all add: new_record_def)
  have "\<forall>x \<in> set (db_entities db). en_id x \<noteq> en_id e" using assms(2) e(1) by (metis imageI)
  moreover have "counters' = db_counters db \<and> ce_recordNumber e = None
      \<or> (\<exists>ctx s x. claimRecordNumber ctx (en_tenantId e) s (db_counters db) = Some (x, counters') \<and> ce_recordNumber e = Some x)"
    using 1(1) e unfolding claim_for_Some by blast
  ultimately show ?thesis using numbers_put [OF assms(1), of e counters'] 1(6) by blast
qed

lemma numbers_convert:
  assumes "numbers_inv db" "convertEntity env i T a ty db = Inr (e', db')"
  shows "numbers_inv db' \<and> numbers_kept db db'"
  using assms(2)
proof (cases rule: convertEntity_Inr)
  case (1 e number counters')
  have e: "e \<in> set (db_entities db)" "en_id e = i" "en_tenantId e = T" using findEntityById_SomeD [OF 1(1)] by simp_all
  have e': "en_id e' = i" "en_tenantId e' = T" "ce_recordNumber e' = nullish_opt (ce_recordNumber e) number"
    using 1(5) e by (simp_all add: converted_def)
  have other: "x = e" if "x \<in> set (db_entities db)" "en_id x = en_id e'" for x
    using id_is_row [OF assms(1) that(1) e(1)] that e' e by simp
  have here: "\<forall>x \<in> set (db_entities db). en_id x = en_id e' \<longrightarrow> en_tenantId x = en_tenantId e'
      \<and> (ce_recordNumber x = None \<or> ce_recordNumber x = ce_recordNumber e')"
  proof (intro ballI impI)
    fix x assume "x \<in> set (db_entities db)" "en_id x = en_id e'"
    from other [OF this] show "en_tenantId x = en_tenantId e' \<and> (ce_recordNumber x = None \<or> ce_recordNumber x = ce_recordNumber e')"
      using e(3) e'(2,3) by (cases "ce_recordNumber e") simp_all
  qed
  have "counters' = db_counters db \<and> (ce_recordNumber e' = None
         \<or> (\<exists>x \<in> set (db_entities db). en_id x = en_id e' \<and> ce_recordNumber e' = ce_recordNumber x))
      \<or> (\<exists>ctx s x. claimRecordNumber ctx (en_tenantId e') s (db_counters db) = Some (x, counters') \<and> ce_recordNumber e' = Some x)"
  proof (cases "ce_recordNumber e")
    case None
    then have "ce_recordNumber e' = number" using e'(3) by simp
    moreover have "number = None \<and> counters' = db_counters db
        \<or> (\<exists>s x. number = Some x \<and> claimRecordNumber (pv_ctx (cv_view env)) T s (db_counters db) = Some (x, counters'))"
      using 1(4) unfolding claim_for_Some by blast
    ultimately show ?thesis using e'(2) by metis
  next
    case (Some y)
    then have "counters' = db_counters db" "ce_recordNumber e' = ce_recordNumber e" using 1(4) e' by (simp_all add: claim_for_Some)
    then show ?thesis using e e' by metis
  qed
  then show ?thesis using numbers_put [OF assms(1) here] 1(6) by simp
qed

lemma crm_step_numbers: "crm_step db db' \<Longrightarrow> numbers_inv db \<Longrightarrow> numbers_inv db' \<and> numbers_kept db db'"
proof (induction rule: crm_step.induct)
  case (created newId db env settings T dto e db')
  then show ?case using numbers_create by metis
next
  case (updated env i T a p db e' db')
  from updated.hyps show ?case
  proof (cases rule: updateEntity_Inr)
    case (1 e)
    then show ?thesis using numbers_replace [OF updated.prems, of e e'] findEntityById_SomeD [OF 1(1)] by simp
  qed
next
  case (converted env i T a ty db e db')
  then show ?case using numbers_convert by metis
next
  case (related ctx now i j rt db e db')
  from related.hyps obtain p where p: "p \<in> set (db_entities db)"
    "e = touched now p (p\<lparr>ce_relationships := ce_relationships p @ [(j, rt)]\<rparr>)"
    "db' = db\<lparr>db_entities := save_row en_id e (db_entities db)\<rparr>"
    by (auto simp: addRelationship_def Let_def visible_rows_def set_find_where split: option.splits dest!: find_one_SomeD)
  then show ?case using numbers_replace [OF related.prems p(1), of e] by simp
next
  case (deleted ctx i T a db db')
  then obtain k where "db' = db\<lparr>db_entities := remove_row en_id k (db_entities db)\<rparr>"
    by (auto simp: deleteEntity_def and_then_Inr_iff split: option.splits)
  then show ?case
    using deleted.prems by (auto simp: numbers_inv_def numbers_kept_def set_remove_row keys_distinct_remove)
qed (simp_all add: numbers_inv_def numbers_kept_def, blast+)

text \<open>
  Claim C3: over every sequence of creations, changes, conversions, links and deletions no two records of a tenant share
  a number, and a number that was once issued to a tenant is seen again only on the record that holds it now, so
  that the number of a deleted record is never given out again.
\<close>

theorem record_numbers_are_never_reused:
  assumes "crm_step\<^sup>*\<^sup>* db db'" "numbers_inv db"
  shows "numbers_inv db' \<and> numbers_kept db db'"
  using assms
proof (induction rule: rtranclp_induct)
  case (step db1 db2)
  then show ?case using crm_step_numbers [of db1 db2] numbers_kept_trans by blast
qed (simp add: numbers_kept_refl)


section \<open>Completion, locks, sets\<close>

lemma updated_status:
  assumes "updateEntity env i T a p db = Inr (e', db')"
  shows "\<exists>e. findEntityById (pv_ctx (cv_view env)) db i T = Some e \<and> ce_status e' = nullish (up_status p) (ce_status e)"
  using assms by (cases rule: updateEntity_Inr) (simp add: apply_patch_def)

text \<open>
  Claim C16: a change that closes a record goes through only when no visible record that is still open is at the other end of
  a blocking edge of it; a change that does not close it never asks.
\<close>

theorem closing_waits_for_blockers:
  assumes "updateEntity env i T a p db = Inr (e', db')" "findEntityById (pv_ctx (cv_view env)) db i T = Some e"
    "ce_status e' = Some s" "s \<in> set COMPLETION_STATUSES" "\<forall>s'. ce_status e = Some s' \<longrightarrow> s' \<notin> set COMPLETION_STATUSES"
  shows "openBlockers (cv_view env) T i (visible_rows (pv_ctx (cv_view env)) (db_entities db)) (db_edges db) = []"
  using assms(1)
proof (cases rule: updateEntity_Inr)
  case (1 e0)
  then have e0: "e0 = e" "en_id e = i" using assms(2) findEntityById_SomeD [OF assms(2)] by simp_all
  have "ce_status e' = nullish (up_status p) (ce_status e)" using 1(6) e0 by (simp add: apply_patch_def)
  then have "closing p e"
    using assms(3-5) by (cases "up_status p"; cases "ce_status e") (auto simp: closing_def)
  then show ?thesis
    using 1(3) e0 by (auto simp: completion_check_def assertCompletable_def Let_def split: sum.splits if_splits)
qed

text \<open>The value of an attribute, with null for an attribute that is not there.\<close>

definition attribute :: "js_obj \<Rightarrow> str \<Rightarrow> js" where
  "attribute attrs k = (case obj_get k attrs of None \<Rightarrow> JNull | Some JUndef \<Rightarrow> JNull | Some v \<Rightarrow> v)"

lemma strict_eq_scalar: "strict_eq v w \<Longrightarrow> v = w \<and> \<not> isPlainObject v"
  by (cases v; cases w) auto

lemma js_member_own: "obj_get k ob = Some v \<Longrightarrow> js_member (JObj ob) k = v"
  by simp

lemma same_value_merges:
  assumes "obj_wf ob" "k \<notin> set inherited_keys" "strict_eq (js_member (JObj ob) k) (js_member (JObj attrs) k)"
  shows "attribute (deep_merge attrs ob) k = attribute attrs k"
proof (cases "obj_get k ob")
  case None
  then show ?thesis using assms(1) by (simp add: attribute_def deep_merge_get)
next
  case (Some v)
  then have eq: "strict_eq v (case obj_get k attrs of Some w \<Rightarrow> w | None \<Rightarrow> JUndef)" using assms(2,3) by (simp split: option.splits)
  then have v: "v = (case obj_get k attrs of Some w \<Rightarrow> w | None \<Rightarrow> JUndef)" "\<not> isPlainObject v"
    using strict_eq_scalar by blast+
  show ?thesis
    using v Some assms(1) by (cases "obj_get k attrs"; cases v) (auto simp: attribute_def deep_merge_get merged_def)
qed

text \<open>A field whose lock holds on the record as it stands.\<close>

definition field_locked :: "crm_env \<Rightarrow> crm_entity \<Rightarrow> str \<Rightarrow> bool" where
  "field_locked env e k \<longleftrightarrow>
     (\<exists>d f rule. declarationFor (cv_view env) (entity_type_text (en_type e)) = Some d \<and> f \<in> set (ty_fields d) \<and> pl_key f = k
        \<and> pl_lockedWhen f = Some rule \<and> validate (cv_logic env) rule = RuleValid
        \<and> matches (cv_logic env) (cv_date env) (cv_now env) rule (obj_spread (ce_verticalAttributes e) (entity_obj e)))"

lemma locked_unchanged:
  assumes "assertNoLockedFieldChanged env e (Some ob) = Inr ()" "field_locked env e k" "key_in k ob" "ob \<noteq> []"
  shows "strict_eq (js_member (JObj ob) k) (js_member (JObj (ce_verticalAttributes e)) k)"
proof -
  obtain d f rule where d: "declarationFor (cv_view env) (entity_type_text (en_type e)) = Some d" "f \<in> set (ty_fields d)" "pl_key f = k"
    "pl_lockedWhen f = Some rule" "validate (cv_logic env) rule = RuleValid"
    "matches (cv_logic env) (cv_date env) (cv_now env) rule (obj_spread (ce_verticalAttributes e) (entity_obj e))"
    using assms(2) unfolding field_locked_def by blast
  have "\<forall>f \<in> set (ty_fields d). (case pl_lockedWhen f of
                          None \<Rightarrow> Inr ()
                        | Some rule \<Rightarrow>
                            if \<not> key_in (pl_key f) ob then Inr ()
                            else if strict_eq (js_member (JObj ob) (pl_key f)) (js_member (JObj (ce_verticalAttributes e)) (pl_key f)) then Inr ()
                            else if validate (cv_logic env) rule \<noteq> RuleValid then Inr ()
                            else if matches (cv_logic env) (cv_date env) (cv_now env) rule (obj_spread (ce_verticalAttributes e) (entity_obj e))
                            then Inl (FieldLocked (pl_key f)) else Inr ()) = Inr ()"
    using assms(1,4) d(1) unfolding assertNoLockedFieldChanged_def by (simp only: option.case if_False Let_def for_each_Inr)
  from bspec [OF this d(2)] show ?thesis
    using d(3-6) assms(3) by (simp split: if_splits del: js_member.simps)
qed

text \<open>
  Claim C17: an attribute the pack locks, when the lock is a valid rule that holds on the record as it stands, has the same
  value after every change that goes through.
\<close>

theorem locked_attributes_stay:
  assumes "updateEntity env i T a p db = Inr (e', db')" "findEntityById (pv_ctx (cv_view env)) db i T = Some e"
    "field_locked env e k" "k \<notin> set inherited_keys" "\<forall>ob. up_verticalAttributes p = Some ob \<longrightarrow> obj_wf ob"
  shows "attribute (ce_verticalAttributes e') k = attribute (ce_verticalAttributes e) k"
  using assms(1)
proof (cases rule: updateEntity_Inr)
  case (1 e0)
  then have e0: "e0 = e" using assms(2) by simp
  show ?thesis
  proof (cases "up_verticalAttributes p")
    case None
    then show ?thesis using 1(6) e0 by simp
  next
    case (Some ob)
    then have e': "ce_verticalAttributes e' = deep_merge (ce_verticalAttributes e) ob" using 1(6) e0 by simp
    show ?thesis
    proof (cases "key_in k ob \<and> ob \<noteq> []")
      case True
      then have "strict_eq (js_member (JObj ob) k) (js_member (JObj (ce_verticalAttributes e)) k)"
        using locked_unchanged [OF _ assms(3)] 1(4) Some e0 by simp
      then show ?thesis using same_value_merges [OF _ assms(4)] assms(5) Some e' by simp
    next
      case False
      then have "obj_get k ob = None" unfolding obj_get_None_iff by (auto simp: key_in_def)
      then show ?thesis using assms(5) Some e' by (simp add: attribute_def deep_merge_get)
    qed
  qed
qed

text \<open>
  Claim C34: a change that goes through leaves the declared sets of the record in their declared shape when they were in it
  before.
\<close>

theorem updates_keep_sets_shaped:
  assumes "updateEntity env i T a p db = Inr (e', db')" "findEntityById (pv_ctx (cv_view env)) db i T = Some e"
    "declarationFor (cv_view env) (entity_type_text (en_type e)) = Some d" "sets_shaped d (ce_verticalAttributes e)"
    "\<forall>ob. up_verticalAttributes p = Some ob \<longrightarrow> obj_wf ob"
  shows "sets_shaped d (ce_verticalAttributes e')"
  using assms(1)
proof (cases rule: updateEntity_Inr)
  case (1 e0)
  then have e0: "e0 = e" using assms(2) by simp
  show ?thesis
  proof (cases "up_verticalAttributes p")
    case (Some ob)
    have "ob = [] \<or> assertDeclaredSetsValid d ob = Inr ()"
      using 1(5) Some assms(3) e0 by (auto simp: assertProfileSetsValid_def split: sum.splits if_splits)
    moreover have "ce_verticalAttributes e' = deep_merge (ce_verticalAttributes e) ob" using 1(6) Some e0 by simp
    ultimately show ?thesis using merged_sets_shaped [OF assms(4)] assms(4,5) Some by auto
  qed (use 1(6) e0 assms(4) in simp)
qed


section \<open>Stages\<close>

lemma set_insert_entry: "set (insert_entry x ys) = insert x (set ys)"
  by (induction ys) auto

lemma set_sorted_entries: "set (foldr insert_entry xs []) = set xs"
  by (induction xs) (simp_all add: set_insert_entry)

lemma insert_latest: "\<forall>y \<in> set ys. \<not> str_less (sh_at x) (sh_at y) \<Longrightarrow> insert_entry x ys = x # ys"
  by (cases ys) simp_all

lemma entries_of_take: "set (List.map_filter f (take n xs)) \<subseteq> set (List.map_filter f xs)"
  by (induction xs arbitrary: n) (auto simp: List.map_filter_simps take_Cons' split: option.splits)

definition stage_entry_now :: "instant \<Rightarrow> str \<Rightarrow> str \<Rightarrow> stage_entry" where
  "stage_entry_now now actorId s = \<lparr>sh_stage = s, sh_at = iso_string now, sh_by = JStr actorId\<rparr>"

text \<open>A recorded change is the head of the history, when none of it lies ahead.\<close>

lemma history_of_change:
  assumes "obj_get ''stage'' attrs1 = Some (JStr s)" "s \<noteq> []"
    "obj_get ''stage'' (ce_verticalAttributes e) \<noteq> Some (JStr s)"
    "\<forall>h \<in> set (historyOf e). \<not> str_less (iso_string now) (sh_at h)"
  shows "\<exists>hs. historyOf (recordStageChange now (Some i) attrs1 e) = stage_entry_now now i s # hs \<and> set hs \<subseteq> set (historyOf e)"
proof -
  define xs where "xs = (case obj_get ''stageHistory'' (ce_metadata e) of Some (JArr xs) \<Rightarrow> xs | _ \<Rightarrow> [])"
  let ?entry = "JObj [(''stage'', JStr s), (''at'', JStr (iso_string now)), (''by'', JStr i)]"
  have old: "historyOf e = foldr insert_entry (List.map_filter stage_entry_of xs) []"
    by (auto simp: historyOf_def xs_def List.map_filter_simps split: option.splits js.splits)
  have "take STAGE_HISTORY_LIMIT (?entry # xs) = ?entry # take 49 xs" by (simp add: STAGE_HISTORY_LIMIT_def)
  then have "obj_get ''stageHistory'' (ce_metadata (recordStageChange now (Some i) attrs1 e)) = Some (JArr (?entry # take 49 xs))"
    using assms(1-3) by (simp add: recordStageChange_def Let_def text_or_null_def xs_def [symmetric])
  then have new: "historyOf (recordStageChange now (Some i) attrs1 e)
      = insert_entry (stage_entry_now now i s) (foldr insert_entry (List.map_filter stage_entry_of (take 49 xs)) [])"
    by (simp add: historyOf_def List.map_filter_simps stage_entry_of_def text_of_def stage_entry_now_def)
  have sub: "set (foldr insert_entry (List.map_filter stage_entry_of (take 49 xs)) []) \<subseteq> set (historyOf e)"
    unfolding old set_sorted_entries by (rule entries_of_take)
  then have "\<forall>y \<in> set (foldr insert_entry (List.map_filter stage_entry_of (take 49 xs)) []).
      \<not> str_less (sh_at (stage_entry_now now i s)) (sh_at y)"
    using assms(4) by (auto simp: stage_entry_now_def)
  then show ?thesis unfolding new using insert_latest sub by blast
qed

lemma recordStageChange_attributes [simp]:
  "ce_verticalAttributes (recordStageChange now a m e) = ce_verticalAttributes e"
  by (auto simp: recordStageChange_def Let_def split: option.splits js.splits)

lemma historyOf_metadata: "ce_metadata e = ce_metadata e' \<Longrightarrow> historyOf e = historyOf e'"
  by (simp add: historyOf_def)

text \<open>
  Claim C40: after a change that gives a record another stage, its time in the stage counts from that change: the report says
  the stage, the instant and the days since, and names the change as its basis. A history without
  an entry dated ahead of the change is all it needs.
\<close>

theorem stage_age_counts_from_the_change:
  assumes "updateEntity env i T a p db = Inr (e', db')" "findEntityById (pv_ctx (cv_view env)) db i T = Some e"
    "up_verticalAttributes p = Some ob" "obj_wf ob" "obj_get ''stage'' ob = Some (JStr s)" "s \<noteq> []"
    "obj_get ''stage'' (ce_verticalAttributes e) \<noteq> Some (JStr s)"
    "\<forall>h \<in> set (historyOf e). \<not> str_less (iso_string (cv_now env)) (sh_at h)"
  shows "sa_value (stage_aging_of host_date later e') = Some s
    \<and> sa_since (stage_aging_of host_date later e') = Some (iso_string (cv_now env))
    \<and> sa_days (stage_aging_of host_date later e') = daysBetween (host_date (iso_string (cv_now env))) later
    \<and> sa_basis (stage_aging_of host_date later e') = StageChangeRecorded"
  using assms(1)
proof (cases rule: updateEntity_Inr)
  case (1 e0)
  then have e0: "e0 = e" using assms(2) by simp
  let ?attrs = "deep_merge (ce_verticalAttributes e) ob"
  have stage: "obj_get ''stage'' ?attrs = Some (JStr s)"
    using assms(4,5) by (auto simp: deep_merge_get merged_def FORBIDDEN_KEYS_def split: option.splits)
  have attrs: "ce_verticalAttributes e' = ?attrs" using 1(6) e0 assms(3) by simp
  have e1: "ce_verticalAttributes (apply_patch p e) = ce_verticalAttributes e" "ce_metadata (apply_patch p e) = ce_metadata e"
    by simp_all
  have "ce_metadata e' = ce_metadata (recordStageChange (cv_now env) (Some (ac_id a)) ?attrs (apply_patch p e))"
    using 1(6) e0 assms(3) by (simp add: merge_attributes_def Let_def)
  then have h: "historyOf e' = historyOf (recordStageChange (cv_now env) (Some (ac_id a)) ?attrs (apply_patch p e))"
    by (rule historyOf_metadata)
  have "\<forall>h \<in> set (historyOf (apply_patch p e)). \<not> str_less (iso_string (cv_now env)) (sh_at h)"
    using assms(8) historyOf_metadata [OF e1(2)] by simp
  from history_of_change [OF stage assms(6) _ this] assms(7) h
  obtain hs where "historyOf e' = stage_entry_now (cv_now env) (ac_id a) s # hs" by auto
  moreover have "stage_value (ce_verticalAttributes e') = Some s"
    using attrs stage assms(6) by (simp add: stage_value_def text_of_def)
  ultimately show ?thesis by (simp add: stage_aging_of_def Let_def stage_entry_now_def)
qed

section \<open>Lists and exports\<close>

lemma set_list_query:
  "set (buildEntityListQuery ctx db T fs) = {e \<in> set (db_entities db). rls_visible ctx (en_tenantId e) \<and> entity_matches T fs e}"
  by (auto simp: buildEntityListQuery_def set_find_where visible_rows_def)

text \<open>
  The pages of a listing, put together, are the whole list, with nothing left out and nothing twice, whatever page
  size is asked for; a page has at most 200 rows, and the total it reports is that of the list.
\<close>

theorem pages_make_the_list:
  "concat (map (\<lambda>k. ep_items (listEntities ctx db T (fs\<lparr>li_page := Some (int k + 1)\<rparr>))) [0..<n])
     = take (n * nat (ep_limit (listEntities ctx db T fs))) (buildEntityListQuery ctx db T fs)
   \<and> length (ep_items (listEntities ctx db T fs)) \<le> 200 \<and> 1 \<le> ep_limit (listEntities ctx db T fs)
   \<and> ep_total (listEntities ctx db T fs) = length (buildEntityListQuery ctx db T fs)"
proof (intro conjI)
  let ?q = "buildEntityListQuery ctx db T fs" and ?l = "min 200 (max 1 (or_default (li_limit fs) 50))"
  have "entity_matches T (fs\<lparr>li_page := x\<rparr>) = entity_matches T fs" for x
    by (simp add: entity_matches_def fun_eq_iff)
  then have query: "buildEntityListQuery ctx db T (fs\<lparr>li_page := x\<rparr>) = ?q" for x
    by (simp add: buildEntityListQuery_def)
  have item: "ep_items (listEntities ctx db T (fs\<lparr>li_page := Some (int k + 1)\<rparr>)) = take (nat ?l) (drop (k * nat ?l) ?q)" for k
  proof -
    have "nat ((max 1 (int k + 1) - 1) * ?l) = k * nat ?l" by (simp add: nat_mult_distrib)
    moreover have "or_default (Some (int k + 1)) 1 = int k + 1" by simp
    ultimately show ?thesis unfolding listEntities_def Let_def query by simp
  qed
  have limit: "ep_limit (listEntities ctx db T fs) = ?l" by (simp add: listEntities_def Let_def)
  show "concat (map (\<lambda>k. ep_items (listEntities ctx db T (fs\<lparr>li_page := Some (int k + 1)\<rparr>))) [0..<n])
     = take (n * nat (ep_limit (listEntities ctx db T fs))) ?q"
    unfolding item limit
  proof (induction n)
    case (Suc n)
    have "take (Suc n * nat ?l) ?q = take (n * nat ?l) ?q @ take (nat ?l) (drop (n * nat ?l) ?q)"
      using take_add [of "n * nat ?l" "nat ?l" ?q] by (simp add: add.commute)
    then show ?case using Suc by simp
  qed simp
  show "1 \<le> ep_limit (listEntities ctx db T fs)" unfolding limit by simp
  have "nat ?l \<le> 200" by (simp add: nat_le_iff)
  then show "length (ep_items (listEntities ctx db T fs)) \<le> 200"
    unfolding listEntities_def Let_def by (simp add: min.coboundedI2)
qed (simp_all add: listEntities_def Let_def)

lemma csv_value_Inr: "(\<forall>t. v = JDate t \<longrightarrow> t \<noteq> None) \<Longrightarrow> \<exists>s. csvField v = Inr s"
  by (cases v) (auto simp: csvField_def)

lemma map_res_Inr: "\<forall>x \<in> set xs. \<exists>y. f x = Inr y \<Longrightarrow> \<exists>ys. map_res f xs = Inr ys"
  by (induction xs) fastforce+

lemma csv_line_Inr: "\<forall>v \<in> set vs. \<forall>t. v = JDate t \<longrightarrow> t \<noteq> None \<Longrightarrow> \<exists>s. csv_line vs = Inr s"
  using map_res_Inr [of vs csvField] csv_value_Inr by (fastforce simp: csv_line_def)

lemma export_row_line: "\<exists>s. csv_line (export_row e) = Inr s"
  by (rule csv_line_Inr)
     (auto simp: export_row_def text_or_null_def date_or_null_def split: option.splits)

lemma export_lines: "\<exists>s. toCsv export_headers (map export_row es) = Inr s"
proof -
  have "\<exists>s. csv_line (map JStr export_headers) = Inr s" by (rule csv_line_Inr) auto
  then have "\<exists>ls. map_res csv_line (map JStr export_headers # map export_row es) = Inr ls"
    by (intro map_res_Inr) (auto simp: export_row_line)
  then show ?thesis by (auto simp: toCsv_def)
qed

text \<open>
  An export of records never fails: it has the first ten thousand records of the whole list, whatever page was
  asked for, says how many those are, and says that it is cut exactly when the list has more.
\<close>

theorem exports_say_when_they_are_cut:
  "\<exists>csv. exportEntitiesCsv ctx db T fs =
       Inr (csv, min 10000 (length (buildEntityListQuery ctx db T fs)), 10000 < length (buildEntityListQuery ctx db T fs))
     \<and> toCsv export_headers (map export_row (take 10000 (buildEntityListQuery ctx db T fs))) = Inr csv"
proof -
  obtain csv where "toCsv export_headers (map export_row (take 10000 (buildEntityListQuery ctx db T fs))) = Inr csv"
    using export_lines by blast
  then show ?thesis by (auto simp: exportEntitiesCsv_def Let_def EXPORT_MAX_ROWS_def min_def)
qed

text \<open>
  A listing for an address shows only records of the tenant about that address, and none at all when the address
  is blank.
\<close>

theorem listings_for_a_client:
  assumes "li_subjectEmail fs = Some s" "e \<in> set (buildEntityListQuery ctx db T fs)"
  shows "to_lower (trim s) \<noteq> [] \<and> sql_norm (en_subjectEmail e) = Some (to_lower (trim s)) \<and> en_tenantId e = T
    \<and> ce_deletedAt e = None \<and> rls_visible ctx T"
  using assms by (auto simp: set_list_query entity_matches_def Let_def)


section \<open>Creations and conversions\<close>

text \<open>
  Claim C37: a record that was created has the tenant and a number exactly when its type is numbered; a subject has every
  attribute the tenant requires, with a value that counts; its email is on no record of the tenant the caller's
  connection sees, and a record that is worked on is open unless the caller said otherwise.
\<close>

theorem creations_are_checked:
  assumes "createEntity env settings newId T dto db = Inr (e, db')"
  shows "en_tenantId e = T \<and> e \<in> set (db_entities db')
    \<and> (ce_recordNumber e = None \<longleftrightarrow> en_type e \<notin> {Person, Organization, Case})
    \<and> (truthy_str (en_email e) \<longrightarrow> (\<forall>x \<in> set (db_entities db). rls_visible (pv_ctx (cv_view env)) T \<and> en_tenantId x = T
         \<longrightarrow> en_email x \<noteq> en_email e))
    \<and> (en_type e \<in> set SUBJECT_TYPES \<longrightarrow> (\<forall>f \<in> set (nullish (getSettings settings T) []). tf_required f
         \<longrightarrow> js_truthy (js_member (JObj (ce_verticalAttributes e)) (tf_key f))))
    \<and> (ci_status dto = None \<longrightarrow> ce_status e = (if en_type e \<in> set WORKABLE_TYPES then Some EntityOpen else None))"
  using assms
proof (cases rule: createEntity_Inr)
  case (1 due number counters')
  have e: "en_tenantId e = T" "en_type e = ci_type dto" "en_email e = ci_email dto" "ce_recordNumber e = number"
    "ce_verticalAttributes e = nullish (ci_verticalAttributes dto) []"
    "ci_status dto = None \<longrightarrow> ce_status e = defaultStatusFor (ci_type dto)"
    using 1(2) by (simp_all add: new_record_def)
  have mem: "e \<in> set (save_row en_id e rows)" for rows by (induction rows) auto
  have number: "number = None \<longleftrightarrow> seriesFor (ci_type dto) = None" using 1(1) by (auto simp: claim_for_Some)
  have email: "truthy_str (ci_email dto) \<Longrightarrow> find_one (\<lambda>e. en_tenantId e = T \<and> en_email e = ci_email dto)
      (visible_rows (pv_ctx (cv_view env)) (db_entities db)) = None"
    using assms 1(4,5) by (auto simp: createEntity_def split: if_splits option.splits)
  have required: "js_truthy (js_member (JObj (ce_verticalAttributes e)) (tf_key f))"
    if "ci_type dto \<in> set SUBJECT_TYPES" "f \<in> set (nullish (getSettings settings T) [])" "tf_required f" for f
  proof -
    have "case ci_verticalAttributes dto of None \<Rightarrow> False | Some ob \<Rightarrow> js_truthy (js_member (JObj ob) (tf_key f))"
      using 1(4) that by (auto simp: missing_attribute_def find_one_None_iff)
    then show ?thesis by (cases "ci_verticalAttributes dto") (simp_all add: e(5) del: js_member.simps)
  qed
  have "number = None \<longleftrightarrow> en_type e \<notin> {Person, Organization, Case}"
    unfolding number e(2) by (auto simp: seriesFor_def SUBJECT_TYPES_def)
  moreover have "\<forall>x \<in> set (db_entities db). rls_visible (pv_ctx (cv_view env)) T \<and> en_tenantId x = T \<longrightarrow> en_email x \<noteq> en_email e"
    if "truthy_str (en_email e)"
    using email that e(3) by (auto simp: find_one_None_iff visible_rows_def set_find_where)
  ultimately show ?thesis
    using e(1,2,4,6) mem [of "db_entities db"] 1(6) required by (simp add: defaultStatusFor_def)
qed

text \<open>
  A conversion is one of four, keeps the record's identity, its name, its addresses and its metadata, keeps a
  number it has and gives it one it lacks, and leaves it without a status.
\<close>

theorem conversion_keeps_the_record:
  assumes "convertEntity env i T a ty db = Inr (e', db')" "findEntityById (pv_ctx (cv_view env)) db i T = Some e"
  shows "(en_type e, ty) \<in> {(Lead, Person), (Lead, Organization), (Person, Organization), (Organization, Person)}
    \<and> en_type e' = ty \<and> en_id e' = i \<and> en_tenantId e' = T \<and> en_firstName e' = en_firstName e \<and> en_email e' = en_email e
    \<and> en_subjectEmail e' = en_subjectEmail e \<and> ce_metadata e' = ce_metadata e \<and> ce_status e' = None
    \<and> ce_recordNumber e' \<noteq> None \<and> (ce_recordNumber e \<noteq> None \<longrightarrow> ce_recordNumber e' = ce_recordNumber e \<and> db_counters db' = db_counters db)
    \<and> by_key en_id (db_entities db') i = Some e'"
  using assms(1)
proof (cases rule: convertEntity_Inr)
  case (1 e0 number counters')
  have e0: "e0 = e" "en_id e = i" "en_tenantId e = T" using 1(1) assms(2) findEntityById_SomeD [OF assms(2)] by simp_all
  have pair: "(en_type e, ty) \<in> {(Lead, Person), (Lead, Organization), (Person, Organization), (Organization, Person)}"
    using 1(3) e0 by (cases "en_type e") (auto simp: CONVERTIBLE_TYPES_def)
  then have ty: "ty \<notin> set WORKABLE_TYPES" "seriesFor ty = Some CL" by (auto simp: WORKABLE_TYPES_def seriesFor_def SUBJECT_TYPES_def)
  have e': "en_type e' = ty" "en_id e' = i" "en_tenantId e' = T" "ce_status e' = None" "ce_metadata e' = ce_metadata e"
    "ce_recordNumber e' = nullish_opt (ce_recordNumber e) number"
    using 1(5) e0 ty by (simp_all add: converted_def)
  have kept: "en_firstName e' = en_firstName e" "en_email e' = en_email e" "en_subjectEmail e' = en_subjectEmail e"
    using 1(5) e0 by (auto simp: touched_def converted_def)
  have "ce_recordNumber e = None \<Longrightarrow> number \<noteq> None" "ce_recordNumber e \<noteq> None \<Longrightarrow> counters' = db_counters db"
    using 1(4) e0 ty by (auto simp: claim_for_Some split: if_splits)
  then have "ce_recordNumber e' \<noteq> None
      \<and> (ce_recordNumber e \<noteq> None \<longrightarrow> ce_recordNumber e' = ce_recordNumber e \<and> db_counters db' = db_counters db)"
    using e'(6) 1(6) by (cases "ce_recordNumber e") auto
  then show ?thesis using pair e' kept 1(6) by (simp add: by_key_save)
qed


section \<open>An example\<close>

text \<open>
  A pack with a blocking relation between cases, a set on persons, and a fee that is locked as soon as the record says
  so. JsonLogic is a function that knows \<open>{"var": "agreed"}\<close>.
\<close>

definition demo_logic :: json_logic where
  "demo_logic rule data = Inr (nullish (obj_get ''agreed'' data) JNull)"

definition crm_pack :: config_pack where
  "crm_pack = demo_base\<lparr>cp_schema := [
     (''relationships'', JArr [JObj [(''key'', JStr ''after''), (''label'', JStr ''After''), (''fromType'', JStr ''case''),
        (''toType'', JStr ''case''), (''blocksCompletion'', JBool True)]]),
     (''entityTypes'', JArr [
        JObj [(''type'', JStr ''person''), (''fields'', JArr [
          JObj [(''key'', JStr ''refusals''), (''itemFields'', JArr [JObj [(''key'', JStr ''country''), (''required'', JBool True)]])]])],
        JObj [(''type'', JStr ''case''), (''fields'', JArr [
          JObj [(''key'', JStr ''fee''), (''lockedWhen'', JObj [(''var'', JStr ''agreed'')])]])]])]\<rparr>"

definition crm_demo :: crm_env where
  "crm_demo = \<lparr>cv_view = \<lparr>pv_pins_ok = True, pv_packs = \<lparr>pd_packs = [crm_pack], pd_pins = [], pd_audit = []\<rparr>,
       pv_ctx = Some \<lparr>ts_tenantId = Some ''T'', ts_bypass = None\<rparr>, pv_vertical = Some ''grc''\<rparr>,
     cv_logic = demo_logic, cv_date = (\<lambda>_. None), cv_now = 7 * ms_per_day\<rparr>"

definition demo_staff :: actor where
  "demo_staff = \<lparr>ac_id = ''sam'', ac_roles = [STAFF], ac_email = None\<rparr>"

definition demo_patch :: entity_patch where
  "demo_patch = \<lparr>up_firstName = None, up_lastName = None, up_email = None, up_subjectEmail = None, up_phoneNumber = None,
     up_status = None, up_dueDate = None, up_assignedTo = None, up_verticalAttributes = None\<rparr>"

definition demo_input :: "entity_type \<Rightarrow> create_input" where
  "demo_input ty = \<lparr>ci_type = ty, ci_firstName = None, ci_lastName = None, ci_email = Some ''ann@x.org'', ci_subjectEmail = None,
     ci_phoneNumber = None, ci_verticalAttributes = Some [(''taxId'', JStr ''1'')], ci_status = None, ci_dueDate = None,
     ci_assignedTo = None\<rparr>"

definition demo_db :: "crm_entity list \<Rightarrow> crm_db" where
  "demo_db rows = \<lparr>db_entities = rows, db_counters = [], db_edges = []\<rparr>"

definition demo_case :: crm_entity where
  "demo_case = (demo_record ''c1'' Case)\<lparr>ce_verticalAttributes := [(''agreed'', JBool True), (''fee'', JStr ''flat'')]\<rparr>"

definition stage_patch :: entity_patch where
  "stage_patch = demo_patch\<lparr>up_status := Some (Some EntityClosed),
     up_verticalAttributes := Some [(''stage'', JStr ''lodged''), (''fee'', JStr ''flat'')]\<rparr>"

definition changed_case :: crm_entity where
  "changed_case = demo_case\<lparr>ce_status := Some EntityClosed, ce_updatedAt := 7 * ms_per_day,
     ce_verticalAttributes := [(''agreed'', JBool True), (''fee'', JStr ''flat''), (''stage'', JStr ''lodged'')],
     ce_metadata := [(''stageHistory'', JArr [JObj [(''stage'', JStr ''lodged''), (''at'', JStr (iso_string (7 * ms_per_day))),
        (''by'', JStr ''sam'')]])]\<rparr>"

lemma demo_update: "updateEntity crm_demo ''c1'' ''T'' demo_staff stage_patch (demo_db [demo_case])
    = Inr (changed_case, demo_db [changed_case])"
  by code_simp

lemma demo_find: "findEntityById (pv_ctx (cv_view crm_demo)) (demo_db [demo_case]) ''c1'' ''T'' = Some demo_case"
  by code_simp

lemma refused_changes:
  "updateEntity crm_demo ''c1'' ''T'' demo_staff (demo_patch\<lparr>up_verticalAttributes := Some [(''fee'', JStr ''hourly'')]\<rparr>) (demo_db [demo_case])
     = Inl (FieldLocked ''fee'')"
  "updateEntity crm_demo ''c1'' ''T'' demo_ann demo_patch (demo_db [demo_case]) = Inl (RecordDenied ForbiddenException)"
  "updateEntity crm_demo ''c1'' ''U'' demo_staff demo_patch (demo_db [demo_case]) = Inl RecordNotFound"
  "createEntity crm_demo [] ''p'' ''T'' ((demo_input Person)\<lparr>ci_verticalAttributes := None\<rparr>) (demo_db []) = Inl (MissingAttribute ''taxId'')"
  "convertEntity crm_demo ''c1'' ''T'' demo_staff Person (demo_db [demo_case]) = Inl (NotConvertible Case Person)"
  by code_simp+

text \<open>A list that is sent again as it is counts as a change of a locked field.\<close>

lemma equal_list_is_refused:
  "updateEntity crm_demo ''c1'' ''T'' demo_staff (demo_patch\<lparr>up_verticalAttributes := Some [(''fee'', JArr [])]\<rparr>)
     (demo_db [demo_case\<lparr>ce_verticalAttributes := [(''agreed'', JBool True), (''fee'', JArr [])]\<rparr>]) = Inl (FieldLocked ''fee'')"
  by code_simp

text \<open>A lead that becomes a person does not become its own subject, as a person that is created does.\<close>

lemma converted_lead_has_no_subject:
  "case convertEntity crm_demo ''l'' ''T'' demo_staff Person (demo_db [(demo_record ''l'' Lead)\<lparr>en_email := Some ''ann@x.org''\<rparr>]) of
     Inr (e, _) \<Rightarrow> en_type e = Person \<and> en_subjectEmail e = None | Inl _ \<Rightarrow> False"
  "case createEntity crm_demo [] ''p'' ''T'' (demo_input Person) (demo_db []) of
     Inr (e, _) \<Rightarrow> en_subjectEmail e = Some ''ann@x.org'' | Inl _ \<Rightarrow> False"
  by code_simp+

definition demo_person :: crm_entity where
  "demo_person = new_record ''p'' (7 * ms_per_day) ''T'' (demo_input Person) None (Some ''CL-000001'')"

definition person_db :: crm_db where
  "person_db = \<lparr>db_entities = [demo_person], db_counters = [\<lparr>nr_tenantId = ''T'', nr_series = CL, nr_value = 1\<rparr>], db_edges = []\<rparr>"

lemma demo_create: "createEntity crm_demo [] ''p'' ''T'' (demo_input Person) (demo_db []) = Inr (demo_person, person_db)"
  by code_simp

theorem record_numbers_are_never_reused_witness:
  "numbers_inv (person_db\<lparr>db_entities := []\<rparr>) \<and> numbers_kept (demo_db []) (person_db\<lparr>db_entities := []\<rparr>)"
proof -
  have "crm_step (demo_db []) person_db" by (rule crm_step.created [OF _ demo_create]) (simp add: demo_db_def)
  moreover have "deleteEntity (pv_ctx (cv_view crm_demo)) ''p'' ''T'' demo_staff person_db = Inr (person_db\<lparr>db_entities := []\<rparr>)"
    by code_simp
  then have "crm_step person_db (person_db\<lparr>db_entities := []\<rparr>)" by (rule crm_step.deleted)
  ultimately have "crm_step\<^sup>*\<^sup>* (demo_db []) (person_db\<lparr>db_entities := []\<rparr>)" by (meson rtranclp.rtrancl_into_rtrancl r_into_rtranclp)
  moreover have "numbers_inv (demo_db [])" by (simp add: numbers_inv_def demo_db_def)
  ultimately show ?thesis using record_numbers_are_never_reused by blast
qed

theorem closing_waits_for_blockers_witness:
  "openBlockers (cv_view crm_demo) ''T'' ''c1'' (visible_rows (pv_ctx (cv_view crm_demo)) (db_entities (demo_db [demo_case])))
     (db_edges (demo_db [demo_case])) = []"
  by (rule closing_waits_for_blockers [OF demo_update demo_find, of EntityClosed])
     (simp_all add: changed_case_def demo_case_def demo_record_def COMPLETION_STATUSES_def)

theorem locked_attributes_stay_witness:
  "attribute (ce_verticalAttributes changed_case) ''fee'' = attribute (ce_verticalAttributes demo_case) ''fee''"
proof (rule locked_attributes_stay [OF demo_update demo_find])
  let ?f = "profile_field_of [(''key'', JStr ''fee''), (''lockedWhen'', JObj [(''var'', JStr ''agreed'')])]"
  let ?d = "type_declaration_of [(''type'', JStr ''case''), (''fields'', JArr [
      JObj [(''key'', JStr ''fee''), (''lockedWhen'', JObj [(''var'', JStr ''agreed'')])]])]"
  have "declarationFor (cv_view crm_demo) (entity_type_text (en_type demo_case)) = Some ?d" by code_simp
  moreover have "?f \<in> set (ty_fields ?d)" by code_simp
  moreover have "pl_key ?f = ''fee'' \<and> pl_lockedWhen ?f = Some (JObj [(''var'', JStr ''agreed'')])" by code_simp
  moreover have "validate (cv_logic crm_demo) (JObj [(''var'', JStr ''agreed'')]) = RuleValid" by code_simp
  moreover have "matches (cv_logic crm_demo) (cv_date crm_demo) (cv_now crm_demo) (JObj [(''var'', JStr ''agreed'')])
      (obj_spread (ce_verticalAttributes demo_case) (entity_obj demo_case))" by code_simp
  ultimately show "field_locked crm_demo demo_case ''fee''" unfolding field_locked_def by blast
qed (simp_all add: inherited_keys_def stage_patch_def demo_patch_def)

theorem updates_keep_sets_shaped_witness:
  "sets_shaped refusal_type [(''refusals'', JArr [JObj [(''country'', JStr ''AU'')]])]"
proof -
  let ?e = "(demo_record ''p'' Person)\<lparr>ce_verticalAttributes := [(''refusals'', JArr [])]\<rparr>"
  let ?env = "crm_demo\<lparr>cv_view := profiled_view\<lparr>pv_ctx := pv_ctx (cv_view crm_demo)\<rparr>\<rparr>"
  let ?e' = "?e\<lparr>ce_verticalAttributes := [(''refusals'', JArr [JObj [(''country'', JStr ''AU'')]])], ce_updatedAt := 7 * ms_per_day\<rparr>"
  let ?p = "demo_patch\<lparr>up_verticalAttributes := Some [(''refusals'', JArr [JObj [(''country'', JStr ''AU'')]])]\<rparr>"
  have "updateEntity ?env ''p'' ''T'' demo_staff ?p (demo_db [?e]) = Inr (?e', demo_db [?e'])" by code_simp
  moreover have "findEntityById (pv_ctx (cv_view ?env)) (demo_db [?e]) ''p'' ''T'' = Some ?e" by code_simp
  moreover have "declarationFor (cv_view ?env) (entity_type_text (en_type ?e)) = Some refusal_type" by code_simp
  moreover have "declared_sets refusal_type = [profile_field_of [(''key'', JStr ''refusals''), (''label'', JStr ''Refusals''),
      (''itemFields'', JArr [JObj [(''key'', JStr ''country''), (''required'', JBool True)]])]]"
    by code_simp
  then have "sets_shaped refusal_type (ce_verticalAttributes ?e)"
    by (simp add: sets_shaped_def profile_field_of_def text_of_def set_shaped_def)
  ultimately have "sets_shaped refusal_type (ce_verticalAttributes ?e')"
    by (rule updates_keep_sets_shaped) (simp add: demo_patch_def)
  then show ?thesis by simp
qed

theorem stage_age_counts_from_the_change_witness:
  "sa_days (stage_aging_of (\<lambda>_. Some (7 * ms_per_day)) (9 * ms_per_day) changed_case) = Some 2"
proof -
  have "obj_get ''stage'' (ce_verticalAttributes demo_case) \<noteq> Some (JStr ''lodged'')" "historyOf demo_case = []"
    by code_simp+
  then have "sa_days (stage_aging_of (\<lambda>_. Some (7 * ms_per_day)) (9 * ms_per_day) changed_case)
      = daysBetween (Some (7 * ms_per_day)) (9 * ms_per_day)"
    using stage_age_counts_from_the_change [OF demo_update demo_find, of _ "''lodged''" "\<lambda>_. Some (7 * ms_per_day)" "9 * ms_per_day"]
    by (simp add: stage_patch_def demo_patch_def)
  then show ?thesis by (simp add: daysBetween_def)
qed

theorem listings_for_a_client_witness:
  "\<exists>e. e \<in> set (buildEntityListQuery (pv_ctx (cv_view crm_demo)) person_db ''T''
         \<lparr>li_type = None, li_status = None, li_assignedTo = None, li_subjectEmail = Some '' Ann@X.org'', li_dueBefore = None,
          li_dueAfter = None, li_page = None, li_limit = None\<rparr>)
     \<and> sql_norm (en_subjectEmail e) = Some ''ann@x.org''"
proof -
  let ?fs = "\<lparr>li_type = None, li_status = None, li_assignedTo = None, li_subjectEmail = Some '' Ann@X.org'', li_dueBefore = None,
          li_dueAfter = None, li_page = None, li_limit = None\<rparr>"
  have e: "demo_person \<in> set (buildEntityListQuery (pv_ctx (cv_view crm_demo)) person_db ''T'' ?fs)"
    unfolding set_list_query by code_simp
  have "to_lower (trim '' Ann@X.org'') = ''ann@x.org''" by code_simp
  with listings_for_a_client [OF _ e, of "'' Ann@X.org''"] e show ?thesis by auto
qed

theorem creations_are_checked_witness:
  "ce_recordNumber demo_person \<noteq> None \<and> js_truthy (js_member (JObj (ce_verticalAttributes demo_person)) ''taxId'')"
proof -
  have "en_type demo_person = Person" "getSettings [] ''T'' = Some getDefaultConfig" by code_simp+
  then show ?thesis
    using creations_are_checked [OF demo_create] by (auto simp: SUBJECT_TYPES_def getDefaultConfig_def simp del: js_member.simps)
qed

theorem conversion_keeps_the_record_witness:
  "\<exists>e' db'. convertEntity crm_demo ''p'' ''T'' demo_staff Organization person_db = Inr (e', db')
     \<and> en_type e' = Organization \<and> ce_recordNumber e' = Some ''CL-000001'' \<and> db_counters db' = db_counters person_db"
proof -
  have "\<not> isl (convertEntity crm_demo ''p'' ''T'' demo_staff Organization person_db)" by code_simp
  then obtain e' db' where c: "convertEntity crm_demo ''p'' ''T'' demo_staff Organization person_db = Inr (e', db')"
    by (metis isl_def sum.exhaust surj_pair)
  have f: "findEntityById (pv_ctx (cv_view crm_demo)) person_db ''p'' ''T'' = Some demo_person" by code_simp
  have "ce_recordNumber demo_person = Some ''CL-000001''" by code_simp
  with conversion_keeps_the_record [OF c f] c show ?thesis by auto
qed

end
