(* ===== verification/AuditLog.thy ===== *)
theory AuditLog
  imports Alerts Csv
begin

text \<open>
  \<^verbatim>\<open>src/audit\<close>: the log of \<^verbatim>\<open>audit.service.ts\<close> with its checksum per row and its chain of hashes per tenant, the
  checks of both, queries and exports; the sweep of \<^verbatim>\<open>retention.service.ts\<close>; and the trigger of the
  migration that seals a row. SHA-256 as hexadecimal text is an argument, and so is the form in which a \<^verbatim>\<open>jsonb\<close> column gives an
  object back. The server's time zone is UTC.
\<close>

section \<open>Rows\<close>

datatype log_action =
    LogCreate | LogUpdate | LogDelete | LogRead | LogLogin | LogLogout | LogExport | LogDownload | LogShare | LogApprove | LogReject
  | LogWorkflowTransition | LogInviteIssued | LogInviteResent | LogPasswordResetRequested | LogTokenRedeemed | LogSessionRevoked
  | LogRoleChanged | LogStatusChanged

fun log_action_text :: "log_action \<Rightarrow> str" where
  "log_action_text LogCreate = ''create''"
| "log_action_text LogUpdate = ''update''"
| "log_action_text LogDelete = ''delete''"
| "log_action_text LogRead = ''read''"
| "log_action_text LogLogin = ''login''"
| "log_action_text LogLogout = ''logout''"
| "log_action_text LogExport = ''export''"
| "log_action_text LogDownload = ''download''"
| "log_action_text LogShare = ''share''"
| "log_action_text LogApprove = ''approve''"
| "log_action_text LogReject = ''reject''"
| "log_action_text LogWorkflowTransition = ''workflow_transition''"
| "log_action_text LogInviteIssued = ''invite_issued''"
| "log_action_text LogInviteResent = ''invite_resent''"
| "log_action_text LogPasswordResetRequested = ''password_reset_requested''"
| "log_action_text LogTokenRedeemed = ''token_redeemed''"
| "log_action_text LogSessionRevoked = ''session_revoked''"
| "log_action_text LogRoleChanged = ''role_changed''"
| "log_action_text LogStatusChanged = ''status_changed''"

datatype log_severity = LogInfo | LogWarning | LogError | LogCritical

fun log_severity_text :: "log_severity \<Rightarrow> str" where
  "log_severity_text LogInfo = ''info''"
| "log_severity_text LogWarning = ''warning''"
| "log_severity_text LogError = ''error''"
| "log_severity_text LogCritical = ''critical''"

datatype compliance_standard = Gdpr | Hipaa | Sox | PciDss | Iso27001

record audit_log =
  lg_id :: str
  lg_tenantId :: str
  lg_vertical :: "js option"
  lg_environment :: "js option"
  lg_timestamp :: instant
  lg_userId :: str
  lg_userEmail :: "str option"
  lg_userRole :: "str option"
  lg_action :: log_action
  lg_entityType :: str
  lg_entityId :: str
  lg_description :: "str option"
  lg_severity :: log_severity
  lg_beforeState :: "js_obj option"
  lg_afterState :: "js_obj option"
  lg_changes :: "(str \<times> js option \<times> js option) list"
  lg_context :: js_obj
  lg_complianceStandard :: "compliance_standard option"
  lg_complianceMetadata :: js_obj
  lg_checksum :: str
  lg_previousChainHash :: str
  lg_chainHash :: str
  lg_archived :: bool
  lg_createdAt :: instant

record audit_event =
  av_tenantId :: str
  av_userId :: str
  av_userEmail :: "str option"
  av_userRole :: "str option"
  av_action :: log_action
  av_entityType :: str
  av_entityId :: str
  av_description :: "str option"
  av_severity :: "log_severity option"
  av_beforeState :: "js_obj option"
  av_afterState :: "js_obj option"
  av_context :: "js_obj option"
  av_complianceStandard :: "compliance_standard option"
  av_complianceMetadata :: "js_obj option"

section \<open>Writing\<close>

text \<open>\<open>JSON.stringify\<close> has no text for a property that is not there.\<close>

definition stringified :: "str \<Rightarrow> js_obj \<Rightarrow> str option" where
  "stringified k ob = (case obj_get k ob of None \<Rightarrow> None | Some v \<Rightarrow> if v = JUndef then None else Some (json_str v))"

definition calculateChanges :: "js_obj option \<Rightarrow> js_obj option \<Rightarrow> (str \<times> js option \<times> js option) list" where
  "calculateChanges before after =
     (case (before, after) of
        (Some b, Some a) \<Rightarrow>
          map (\<lambda>k. (k, obj_get k b, obj_get k a))
            (filter (\<lambda>k. stringified k b \<noteq> stringified k a) (fold set_add (map fst b @ map fst a) []))
      | _ \<Rightarrow> [])"

definition checksum_text :: "str \<Rightarrow> instant \<Rightarrow> str \<Rightarrow> log_action \<Rightarrow> str \<Rightarrow> js \<Rightarrow> js \<Rightarrow> str" where
  "checksum_text tenantId t userId action entityId before after =
     json_str (JObj [(''tenantId'', JStr tenantId), (''timestamp'', JDate (Some t)), (''userId'', JStr userId),
       (''action'', JStr (log_action_text action)), (''entityId'', JStr entityId), (''beforeState'', before), (''afterState'', after)])"

definition genesis_text :: "str \<Rightarrow> str" where
  "genesis_text tenantId = ''GENESIS:meru:'' @ tenantId"

definition genesisHash :: "(str \<Rightarrow> str) \<Rightarrow> str \<Rightarrow> str" where
  "genesisHash sha tenantId = sha (genesis_text tenantId)"

definition chain_text :: "str \<Rightarrow> str \<Rightarrow> instant \<Rightarrow> log_action \<Rightarrow> str \<Rightarrow> str \<Rightarrow> str \<Rightarrow> str" where
  "chain_text previous tenantId t action entityId userId checksum =
     join '':'' [previous, tenantId, iso_string t, log_action_text action, entityId, userId, checksum]"

definition computeChainHash ::
  "(str \<Rightarrow> str) \<Rightarrow> str \<Rightarrow> str \<Rightarrow> instant \<Rightarrow> log_action \<Rightarrow> str \<Rightarrow> str \<Rightarrow> str \<Rightarrow> str" where
  "computeChainHash sha previous tenantId t action entityId userId checksum =
     sha (chain_text previous tenantId t action entityId userId checksum)"

text \<open>A tenant's rows by timestamp, then by creation.\<close>

definition ordered_logs :: "str \<Rightarrow> audit_log list \<Rightarrow> audit_log list" where
  "ordered_logs tenantId rows =
     sort_key lg_timestamp (sort_key lg_createdAt (find_where (\<lambda>l. lg_tenantId l = tenantId) rows))"

definition getLastChainHash :: "(str \<Rightarrow> str) \<Rightarrow> str \<Rightarrow> audit_log list \<Rightarrow> str" where
  "getLastChainHash sha tenantId rows =
     (case rev (ordered_logs tenantId rows) of [] \<Rightarrow> genesisHash sha tenantId | l # _ \<Rightarrow> lg_chainHash l)"

text \<open>A state that was not given is undefined in the text of the checksum and null in the row.\<close>

definition given_state :: "js_obj option \<Rightarrow> js" where
  "given_state s = (case s of None \<Rightarrow> JUndef | Some ob \<Rightarrow> JObj ob)"

definition stored_state :: "js_obj option \<Rightarrow> js" where
  "stored_state s = (case s of None \<Rightarrow> JNull | Some ob \<Rightarrow> JObj ob)"

definition audit_row ::
  "(str \<Rightarrow> str) \<Rightarrow> (js_obj \<Rightarrow> js_obj) \<Rightarrow> str \<Rightarrow> instant \<Rightarrow> instant \<Rightarrow> audit_event \<Rightarrow> audit_log list \<Rightarrow> audit_log" where
  "audit_row sha jsonb newId now created dto rows =
     (let checksum = sha (checksum_text (av_tenantId dto) now (av_userId dto) (av_action dto) (av_entityId dto)
                           (given_state (av_beforeState dto)) (given_state (av_afterState dto)));
          previous = getLastChainHash sha (av_tenantId dto) rows
      in \<lparr>lg_id = newId, lg_tenantId = av_tenantId dto, lg_vertical = obj_get ''vertical'' (nullish (av_context dto) []),
          lg_environment = obj_get ''environment'' (nullish (av_context dto) []), lg_timestamp = now, lg_userId = av_userId dto,
          lg_userEmail = av_userEmail dto, lg_userRole = av_userRole dto, lg_action = av_action dto,
          lg_entityType = av_entityType dto, lg_entityId = av_entityId dto, lg_description = av_description dto,
          lg_severity = nullish (av_severity dto) LogInfo,
          lg_beforeState = map_option jsonb (av_beforeState dto), lg_afterState = map_option jsonb (av_afterState dto),
          lg_changes = calculateChanges (av_beforeState dto) (av_afterState dto),
          lg_context = jsonb (nullish (av_context dto) []), lg_complianceStandard = av_complianceStandard dto,
          lg_complianceMetadata = jsonb (nullish (av_complianceMetadata dto) []), lg_checksum = checksum,
          lg_previousChainHash = previous,
          lg_chainHash = computeChainHash sha previous (av_tenantId dto) now (av_action dto) (av_entityId dto) (av_userId dto) checksum,
          lg_archived = False, lg_createdAt = created\<rparr>)"

definition logEvent ::
  "(str \<Rightarrow> str) \<Rightarrow> (js_obj \<Rightarrow> js_obj) \<Rightarrow> str \<Rightarrow> instant \<Rightarrow> instant \<Rightarrow> audit_event \<Rightarrow> audit_log list \<Rightarrow> audit_log list" where
  "logEvent sha jsonb newId now created dto rows = save_row lg_id (audit_row sha jsonb newId now created dto rows) rows"

definition plain_event :: "str \<Rightarrow> str \<Rightarrow> log_action \<Rightarrow> str \<Rightarrow> str \<Rightarrow> str \<Rightarrow> js_obj option \<Rightarrow> js_obj option \<Rightarrow> js_obj option \<Rightarrow> audit_event" where
  "plain_event tenantId userId action entityType entityId description before after ctx =
     \<lparr>av_tenantId = tenantId, av_userId = userId, av_userEmail = None, av_userRole = None, av_action = action,
      av_entityType = entityType, av_entityId = entityId, av_description = Some description, av_severity = None,
      av_beforeState = before, av_afterState = after, av_context = ctx, av_complianceStandard = None,
      av_complianceMetadata = None\<rparr>"

definition create_event :: "str \<Rightarrow> str \<Rightarrow> str \<Rightarrow> str \<Rightarrow> js_obj \<Rightarrow> js_obj option \<Rightarrow> audit_event" where
  "create_event tenantId userId entityType entityId after ctx =
     plain_event tenantId userId LogCreate entityType entityId (''Created '' @ entityType) None (Some after) ctx"

definition update_event :: "str \<Rightarrow> str \<Rightarrow> str \<Rightarrow> str \<Rightarrow> js_obj \<Rightarrow> js_obj \<Rightarrow> js_obj option \<Rightarrow> audit_event" where
  "update_event tenantId userId entityType entityId before after ctx =
     plain_event tenantId userId LogUpdate entityType entityId (''Updated '' @ entityType) (Some before) (Some after) ctx"

definition delete_event :: "str \<Rightarrow> str \<Rightarrow> str \<Rightarrow> str \<Rightarrow> js_obj \<Rightarrow> js_obj option \<Rightarrow> audit_event" where
  "delete_event tenantId userId entityType entityId before ctx =
     plain_event tenantId userId LogDelete entityType entityId (''Deleted '' @ entityType) (Some before) None ctx"

definition transition_event :: "str \<Rightarrow> str \<Rightarrow> str \<Rightarrow> str \<Rightarrow> str \<Rightarrow> js_obj option \<Rightarrow> audit_event" where
  "transition_event tenantId userId instanceId fromState toState ctx =
     plain_event tenantId userId LogWorkflowTransition ''workflow_instance'' instanceId
       (''Workflow transitioned from '' @ fromState @ '' to '' @ toState)
       (Some [(''state'', JStr fromState)]) (Some [(''state'', JStr toState)]) ctx"

definition document_event :: "str \<Rightarrow> str \<Rightarrow> str \<Rightarrow> log_action \<Rightarrow> js_obj option \<Rightarrow> audit_event" where
  "document_event tenantId userId documentId action ctx =
     plain_event tenantId userId action ''document'' documentId (''Document '' @ log_action_text action) None None ctx"

section \<open>Reading\<close>

record audit_query =
  qa_tenantId :: str
  qa_startDate :: "instant option"
  qa_endDate :: "instant option"
  qa_userId :: "str option"
  qa_action :: "log_action option"
  qa_entityType :: "str option"
  qa_entityId :: "str option"
  qa_severity :: "log_severity option"
  qa_complianceStandard :: "compliance_standard option"
  qa_limit :: "int option"
  qa_offset :: "int option"

definition query_matches :: "audit_query \<Rightarrow> audit_log \<Rightarrow> bool" where
  "query_matches q l \<longleftrightarrow>
     lg_tenantId l = qa_tenantId q
     \<and> (case (qa_startDate q, qa_endDate q) of (Some s, Some t) \<Rightarrow> s \<le> lg_timestamp l \<and> lg_timestamp l \<le> t | _ \<Rightarrow> True)
     \<and> (truthy_str (qa_userId q) \<longrightarrow> Some (lg_userId l) = qa_userId q)
     \<and> (case qa_action q of None \<Rightarrow> True | Some a \<Rightarrow> lg_action l = a)
     \<and> (truthy_str (qa_entityType q) \<longrightarrow> Some (lg_entityType l) = qa_entityType q)
     \<and> (truthy_str (qa_entityId q) \<longrightarrow> Some (lg_entityId l) = qa_entityId q)
     \<and> (case qa_severity q of None \<Rightarrow> True | Some s \<Rightarrow> lg_severity l = s)
     \<and> (case qa_complianceStandard q of None \<Rightarrow> True | Some s \<Rightarrow> lg_complianceStandard l = Some s)"

definition queryLogs :: "audit_query \<Rightarrow> audit_log list \<Rightarrow> audit_log list \<times> nat" where
  "queryLogs q rows =
     (let hits = sort_key (\<lambda>l. - lg_timestamp l) (find_where (query_matches q) rows)
      in (take (nat (or_default (qa_limit q) 100)) (drop (nat (or_default (qa_offset q) 0)) hits), length hits))"

definition getEntityHistory :: "str \<Rightarrow> str \<Rightarrow> str \<Rightarrow> audit_log list \<Rightarrow> audit_log list" where
  "getEntityHistory tenantId entityType entityId rows =
     sort_key lg_timestamp
       (find_where (\<lambda>l. lg_tenantId l = tenantId \<and> lg_entityType l = entityType \<and> lg_entityId l = entityId) rows)"

definition getUserActivity :: "str \<Rightarrow> str \<Rightarrow> instant \<Rightarrow> instant \<Rightarrow> audit_log list \<Rightarrow> audit_log list" where
  "getUserActivity tenantId userId startDate endDate rows =
     sort_key (\<lambda>l. - lg_timestamp l)
       (find_where (\<lambda>l. lg_tenantId l = tenantId \<and> lg_userId l = userId \<and> startDate \<le> lg_timestamp l \<and> lg_timestamp l \<le> endDate) rows)"

section \<open>Verification\<close>

definition checksum_ok :: "(str \<Rightarrow> str) \<Rightarrow> audit_log \<Rightarrow> bool" where
  "checksum_ok sha l \<longleftrightarrow>
     lg_checksum l = sha (checksum_text (lg_tenantId l) (lg_timestamp l) (lg_userId l) (lg_action l) (lg_entityId l)
                           (stored_state (lg_beforeState l)) (stored_state (lg_afterState l)))"

datatype audit_error = LogNotFound

definition verifyLogIntegrity :: "(str \<Rightarrow> str) \<Rightarrow> audit_log list \<Rightarrow> str \<Rightarrow> audit_error + bool" where
  "verifyLogIntegrity sha rows logId =
     (case by_key lg_id rows logId of None \<Rightarrow> Inl LogNotFound | Some l \<Rightarrow> Inr (checksum_ok sha l))"

datatype chain_status = ChainValid | ChainTampered

record chain_report =
  cr_status :: chain_status
  cr_total :: nat
  cr_valid :: nat
  cr_firstBrokenAt :: "str option"
  cr_details :: str

definition expected_hash :: "(str \<Rightarrow> str) \<Rightarrow> str \<Rightarrow> audit_log \<Rightarrow> str" where
  "expected_hash sha running l =
     computeChainHash sha running (lg_tenantId l) (lg_timestamp l) (lg_action l) (lg_entityId l) (lg_userId l) (lg_checksum l)"

fun verify_walk :: "(str \<Rightarrow> str) \<Rightarrow> nat \<Rightarrow> str \<Rightarrow> nat \<Rightarrow> audit_log list \<Rightarrow> chain_report" where
  "verify_walk sha n running valid [] = 
     \<lparr>cr_status = ChainValid, cr_total = n, cr_valid = valid, cr_firstBrokenAt = None,
      cr_details = ''Chain intact ('' @ digits_of valid @ '' logs verified)''\<rparr>"
| "verify_walk sha n running valid (l # ls) =
     (if lg_chainHash l \<noteq> expected_hash sha running l \<or> lg_previousChainHash l \<noteq> running
      then \<lparr>cr_status = ChainTampered, cr_total = n, cr_valid = valid, cr_firstBrokenAt = Some (lg_id l),
            cr_details = ''Chain breaks at log '' @ lg_id l @ '' (timestamp '' @ iso_string (lg_timestamp l) @ '')''\<rparr>
      else verify_walk sha n (lg_chainHash l) (Suc valid) ls)"

definition verifyChain :: "(str \<Rightarrow> str) \<Rightarrow> str \<Rightarrow> audit_log list \<Rightarrow> chain_report" where
  "verifyChain sha tenantId rows =
     (let logs = ordered_logs tenantId rows in
      if logs = [] then \<lparr>cr_status = ChainValid, cr_total = 0, cr_valid = 0, cr_firstBrokenAt = None, cr_details = ''No logs''\<rparr>
      else verify_walk sha (length logs) (genesisHash sha tenantId) 0 logs)"

record tenant_verification =
  tv_total :: nat
  tv_valid :: nat
  tv_invalid :: nat
  tv_invalidLogIds :: "str list"

definition verifyTenantLogs :: "(str \<Rightarrow> str) \<Rightarrow> str \<Rightarrow> audit_log list \<Rightarrow> tenant_verification" where
  "verifyTenantLogs sha tenantId rows =
     (let logs = find_where (\<lambda>l. lg_tenantId l = tenantId) rows;
          bad = filter (\<lambda>l. verifyLogIntegrity sha rows (lg_id l) \<noteq> Inr True) logs
      in \<lparr>tv_total = length logs, tv_valid = length logs - length bad, tv_invalid = length bad, tv_invalidLogIds = map lg_id bad\<rparr>)"

definition count_by :: "('a \<Rightarrow> 'k) \<Rightarrow> 'a list \<Rightarrow> ('k \<times> nat) list" where
  "count_by f xs = map (\<lambda>k. (k, length (filter (\<lambda>x. f x = k) xs))) (rev (remdups (rev (map f xs))))"

record compliance_report =
  cq_standard :: compliance_standard
  cq_totalEvents :: nat
  cq_byAction :: "(log_action \<times> nat) list"
  cq_bySeverity :: "(log_severity \<times> nat) list"
  cq_dataAccess :: "nat \<times> nat \<times> nat"
  cq_integrityStatus :: tenant_verification

definition getComplianceReport ::
  "(str \<Rightarrow> str) \<Rightarrow> str \<Rightarrow> compliance_standard \<Rightarrow> instant \<Rightarrow> instant \<Rightarrow> audit_log list \<Rightarrow> compliance_report" where
  "getComplianceReport sha tenantId std startDate endDate rows =
     (let logs = find_where (\<lambda>l. lg_tenantId l = tenantId \<and> lg_complianceStandard l = Some std
                    \<and> startDate \<le> lg_timestamp l \<and> lg_timestamp l \<le> endDate) rows;
          reads = filter (\<lambda>l. lg_action l \<in> {LogRead, LogDownload}) logs
      in \<lparr>cq_standard = std, cq_totalEvents = length logs, cq_byAction = count_by lg_action logs,
          cq_bySeverity = count_by lg_severity logs,
          cq_dataAccess = (length reads, length (remdups (map lg_userId reads)), length (remdups (map lg_entityId reads))),
          cq_integrityStatus = verifyTenantLogs sha tenantId rows\<rparr>)"


section \<open>Exports\<close>

text \<open>\<open>JSON.stringify(v, null, 2)\<close>.\<close>

fun json_pretty :: "nat \<Rightarrow> js \<Rightarrow> str" where
  "json_pretty d (JArr xs) =
     (if xs = [] then ''[]''
      else ''['' @ join '','' (map (\<lambda>x. CHR 0x0A # replicate (d + 2) (CHR '' '') @ json_pretty (d + 2) x) xs)
           @ CHR 0x0A # replicate d (CHR '' '') @ '']'')"
| "json_pretty d (JObj kvs) =
     (let shown = filter (\<lambda>kv. snd kv \<noteq> JUndef) kvs in
      if shown = [] then ''{}''
      else ''{'' @ join '','' (map (\<lambda>kv. CHR 0x0A # replicate (d + 2) (CHR '' '') @ json_quote (fst kv) @ '': ''
                                      @ json_pretty (d + 2) (snd kv)) shown)
           @ CHR 0x0A # replicate d (CHR '' '') @ ''}'')"
| "json_pretty d v = json_str v"

definition export_csv_row :: "audit_log \<Rightarrow> js list" where
  "export_csv_row l =
     [JDate (Some (lg_timestamp l)), JStr (lg_userId l), JStr (log_action_text (lg_action l)), JStr (lg_entityType l),
      JStr (lg_entityId l), JStr (log_severity_text (lg_severity l)),
      JStr (if truthy_str (lg_description l) then the (lg_description l) else [])]"

definition convertToCSV :: "audit_log list \<Rightarrow> csv_error + str" where
  "convertToCSV logs =
     (if logs = [] then Inr []
      else toCsv [''timestamp'', ''userId'', ''action'', ''entityType'', ''entityId'', ''severity'', ''description'']
             (map export_csv_row logs))"

definition newline :: str where "newline = [CHR 0x0A]"

definition xml_entry :: "audit_log \<Rightarrow> str" where
  "xml_entry l =
     newline @ ''    <entry>'' @ newline
     @ ''      <timestamp>'' @ iso_string (lg_timestamp l) @ ''</timestamp>'' @ newline
     @ ''      <userId>'' @ lg_userId l @ ''</userId>'' @ newline
     @ ''      <action>'' @ log_action_text (lg_action l) @ ''</action>'' @ newline
     @ ''      <entityType>'' @ lg_entityType l @ ''</entityType>'' @ newline
     @ ''      <entityId>'' @ lg_entityId l @ ''</entityId>'' @ newline
     @ ''      <severity>'' @ log_severity_text (lg_severity l) @ ''</severity>'' @ newline
     @ ''    </entry>'' @ newline @ ''    ''"

definition convertToXML :: "audit_log list \<Rightarrow> str" where
  "convertToXML logs =
     ''<?xml version='' @ [CHR 0x22] @ ''1.0'' @ [CHR 0x22] @ '' encoding='' @ [CHR 0x22] @ ''UTF-8'' @ [CHR 0x22] @ ''?>'' @ newline
     @ ''<auditLog>'' @ newline @ ''  '' @ concat (map xml_entry logs) @ newline @ ''</auditLog>''"

datatype export_format = FormatJson | FormatCsv | FormatXml

text \<open>The rows as objects, with their columns in the order of the class, are the argument \<open>as_object\<close>.\<close>

definition exportLogs ::
  "(audit_log \<Rightarrow> js) \<Rightarrow> str \<Rightarrow> instant \<Rightarrow> instant \<Rightarrow> instant \<Rightarrow> export_format \<Rightarrow> audit_log list \<Rightarrow> csv_error + (str \<times> str)" where
  "exportLogs as_object tenantId startDate endDate now format rows =
     (let (logs, _) = queryLogs \<lparr>qa_tenantId = tenantId, qa_startDate = Some startDate, qa_endDate = Some endDate,
            qa_userId = None, qa_action = None, qa_entityType = None, qa_entityId = None, qa_severity = None,
            qa_complianceStandard = None, qa_limit = Some 10000, qa_offset = None\<rparr> rows;
          name = ''audit_logs_'' @ tenantId @ ''_'' @ takeWhile (\<lambda>c. c \<noteq> CHR ''T'') (iso_string now)
      in case format of
           FormatJson \<Rightarrow> Inr (json_pretty 0 (JArr (map as_object logs)), name @ ''.json'')
         | FormatCsv \<Rightarrow> and_then (convertToCSV logs) (\<lambda>csv. Inr (csv, name @ ''.csv''))
         | FormatXml \<Rightarrow> Inr (convertToXML logs, name @ ''.xml''))"

section \<open>The seal of a row, and retention\<close>

text \<open>The trigger lets an update through that changes the flag alone.\<close>

definition worm_allows :: "audit_log \<Rightarrow> audit_log \<Rightarrow> bool" where
  "worm_allows old new \<longleftrightarrow> new\<lparr>lg_archived := False\<rparr> = old\<lparr>lg_archived := False\<rparr>"

text \<open>\<open>setFullYear(getFullYear() - years)\<close>, with the years a pack may declare as a decimal.\<close>

fun years_before :: "int \<Rightarrow> js_num \<Rightarrow> int" where
  "years_before y (Fin m e) =
     (let k = 10 ^ nat (- e); x = y * k - m * 10 ^ nat e in if 0 \<le> x then x div k else - ((- x) div k))"
| "years_before y _ = y"

definition retention_cutoff :: "instant \<Rightarrow> js_num \<Rightarrow> instant" where
  "retention_cutoff now years =
     (let (y, m, d) = civil_of_days (now div ms_per_day)
      in days_of_civil (years_before y years) m d * ms_per_day + now mod ms_per_day)"

definition retention_years :: "js option \<Rightarrow> js_num option" where
  "retention_years compliance =
     (case compliance of
        Some (JObj ob) \<Rightarrow>
          (case obj_get ''retentionYears'' ob of
             Some (JNum n) \<Rightarrow>
               (case string_to_number n of Fin m e \<Rightarrow> if 0 < m then Some (Fin m e) else None | _ \<Rightarrow> None)
           | _ \<Rightarrow> None)
      | _ \<Rightarrow> None)"

record retention_line =
  rt_tenantId :: str
  rt_vertical :: "str option"
  rt_retentionYears :: "js_num option"
  rt_cutoff :: "str option"
  rt_archived :: nat

definition expired :: "str \<Rightarrow> instant \<Rightarrow> audit_log \<Rightarrow> bool" where
  "expired tenantId cutoff l \<longleftrightarrow> lg_tenantId l = tenantId \<and> lg_timestamp l < cutoff \<and> \<not> lg_archived l"

definition archive_rows :: "str \<Rightarrow> instant \<Rightarrow> audit_log list \<Rightarrow> audit_log list" where
  "archive_rows tenantId cutoff rows = map (\<lambda>l. if expired tenantId cutoff l then l\<lparr>lg_archived := True\<rparr> else l) rows"

definition retain_tenant ::
  "bool \<Rightarrow> pack_db \<Rightarrow> als \<Rightarrow> instant \<Rightarrow> tenant_row \<Rightarrow> retention_line list \<times> audit_log list \<Rightarrow> retention_line list \<times> audit_log list" where
  "retain_tenant pins_ok packs ctx now tenant st =
     (let (applied, rows) = st in
      case retention_years (pack_section pins_ok packs ctx (tn_vertical tenant) ''compliance'') of
        None \<Rightarrow> (applied @ [\<lparr>rt_tenantId = tn_id tenant, rt_vertical = tn_vertical tenant, rt_retentionYears = None,
                            rt_cutoff = None, rt_archived = 0\<rparr>], rows)
      | Some years \<Rightarrow>
          let cutoff = retention_cutoff now years
          in (applied @ [\<lparr>rt_tenantId = tn_id tenant, rt_vertical = tn_vertical tenant, rt_retentionYears = Some years,
                          rt_cutoff = Some (iso_string cutoff),
                          rt_archived = length (filter (expired (tn_id tenant) cutoff) rows)\<rparr>],
              archive_rows (tn_id tenant) cutoff rows))"

definition retention_sweep ::
  "bool \<Rightarrow> pack_db \<Rightarrow> als \<Rightarrow> instant \<Rightarrow> tenant_row list \<Rightarrow> audit_log list \<Rightarrow> retention_line list \<times> audit_log list" where
  "retention_sweep pins_ok packs ctx now tenants rows =
     runAsSystem ''retention sweep'' (\<lambda>ctx'. fold (retain_tenant pins_ok packs ctx' now) tenants ([], rows)) ctx"

section \<open>The chain\<close>

text \<open>Each row has the hash before it, and its own from that and what it says.\<close>

fun chain_from :: "(str \<Rightarrow> str) \<Rightarrow> str \<Rightarrow> audit_log list \<Rightarrow> bool" where
  "chain_from sha h [] \<longleftrightarrow> True"
| "chain_from sha h (l # ls) \<longleftrightarrow>
     lg_previousChainHash l = h \<and> lg_chainHash l = expected_hash sha h l \<and> chain_from sha (lg_chainHash l) ls"

fun chain_end :: "str \<Rightarrow> audit_log list \<Rightarrow> str" where
  "chain_end h [] = h"
| "chain_end h (l # ls) = chain_end (lg_chainHash l) ls"

lemma verify_walk_status: "cr_status (verify_walk sha n h v ls) = ChainValid \<longleftrightarrow> chain_from sha h ls"
  by (induction sha n h v ls rule: verify_walk.induct) auto

lemma verify_walk_counts:
  "chain_from sha h ls \<Longrightarrow> verify_walk sha n h v ls = \<lparr>cr_status = ChainValid, cr_total = n, cr_valid = v + length ls, cr_firstBrokenAt = None,
     cr_details = ''Chain intact ('' @ digits_of (v + length ls) @ '' logs verified)''\<rparr>"
  by (induction ls arbitrary: h v) auto

lemma verifyChain_valid:
  "cr_status (verifyChain sha T rows) = ChainValid \<longleftrightarrow> chain_from sha (genesisHash sha T) (ordered_logs T rows)"
  by (cases "ordered_logs T rows") (simp_all add: verifyChain_def Let_def verify_walk_status del: verify_walk.simps)

lemma chain_from_snoc:
  "chain_from sha h (ls @ [l]) \<longleftrightarrow>
     chain_from sha h ls \<and> lg_previousChainHash l = chain_end h ls \<and> lg_chainHash l = expected_hash sha (chain_end h ls) l"
  by (induction ls arbitrary: h) auto

lemma chain_end_snoc [simp]: "chain_end h (ls @ [l]) = lg_chainHash l"
  by (induction ls arbitrary: h) auto

lemma getLastChainHash_end: "getLastChainHash sha T rows = chain_end (genesisHash sha T) (ordered_logs T rows)"
proof (cases "ordered_logs T rows" rule: rev_cases)
  case (snoc ls l)
  then show ?thesis by (simp add: getLastChainHash_def)
qed (simp add: getLastChainHash_def)

lemma sort_key_snoc: "\<forall>x \<in> set xs. f x \<le> f y \<Longrightarrow> sort_key f (xs @ [y]) = sort_key f xs @ [y]"
proof (induction xs)
  case (Cons x xs)
  have "insort_key f x (zs @ [y]) = insort_key f x zs @ [y]" if "f x \<le> f y" for zs
    using that by (induction zs) auto
  then show ?case using Cons by simp
qed simp

text \<open>A row after all the others of its tenant comes last in the order of the chain.\<close>

lemma ordered_logs_snoc:
  assumes "\<forall>x \<in> set rows. lg_timestamp x \<le> lg_timestamp l \<and> lg_createdAt x \<le> lg_createdAt l"
  shows "ordered_logs T (rows @ [l]) = (if lg_tenantId l = T then ordered_logs T rows @ [l] else ordered_logs T rows)"
proof (cases "lg_tenantId l = T")
  case True
  have "sort_key lg_createdAt (filter (\<lambda>l. lg_tenantId l = T) rows @ [l])
      = sort_key lg_createdAt (filter (\<lambda>l. lg_tenantId l = T) rows) @ [l]"
    using assms by (intro sort_key_snoc) simp
  moreover have "sort_key lg_timestamp (sort_key lg_createdAt (filter (\<lambda>l. lg_tenantId l = T) rows) @ [l])
      = sort_key lg_timestamp (sort_key lg_createdAt (filter (\<lambda>l. lg_tenantId l = T) rows)) @ [l]"
    using assms by (intro sort_key_snoc) simp
  ultimately show ?thesis using True by (simp add: ordered_logs_def find_where_def)
qed (simp add: ordered_logs_def find_where_def)

lemma audit_row_fields [simp]:
  "lg_id (audit_row sha jsonb i now created dto rows) = i"
  "lg_tenantId (audit_row sha jsonb i now created dto rows) = av_tenantId dto"
  "lg_timestamp (audit_row sha jsonb i now created dto rows) = now"
  "lg_createdAt (audit_row sha jsonb i now created dto rows) = created"
  by (simp_all add: audit_row_def Let_def)

lemma audit_row_linked:
  "lg_previousChainHash (audit_row sha jsonb i now created dto rows) = getLastChainHash sha (av_tenantId dto) rows"
  "lg_chainHash (audit_row sha jsonb i now created dto rows)
     = expected_hash sha (getLastChainHash sha (av_tenantId dto) rows) (audit_row sha jsonb i now created dto rows)"
  by (simp_all add: audit_row_def Let_def expected_hash_def)

lemma logEvent_chain:
  assumes "\<forall>x \<in> set rows. lg_timestamp x \<le> now \<and> lg_createdAt x \<le> created" "i \<notin> lg_id ` set rows"
    "chain_from sha (genesisHash sha T) (ordered_logs T rows)"
  shows "chain_from sha (genesisHash sha T) (ordered_logs T (logEvent sha jsonb i now created dto rows))"
proof -
  let ?l = "audit_row sha jsonb i now created dto rows"
  have "logEvent sha jsonb i now created dto rows = rows @ [?l]"
    using save_row_new [of lg_id ?l rows] assms(2) by (simp add: logEvent_def)
  moreover have "ordered_logs T (rows @ [?l]) = (if av_tenantId dto = T then ordered_logs T rows @ [?l] else ordered_logs T rows)"
    using ordered_logs_snoc [of rows ?l T] assms(1) by simp
  ultimately show ?thesis
    using assms(3) audit_row_linked [of sha jsonb i now created dto rows] by (auto simp: chain_from_snoc getLastChainHash_end)
qed


lemma ordered_logs_map:
  assumes "\<And>l. lg_tenantId (f l) = lg_tenantId l \<and> lg_timestamp (f l) = lg_timestamp l \<and> lg_createdAt (f l) = lg_createdAt l"
  shows "ordered_logs T (map f rows) = map f (ordered_logs T rows)"
proof -
  have insort: "insort_key g (f x) (map f ys) = map f (insort_key g x ys)" if "\<And>l. g (f l) = g l" for g :: "audit_log \<Rightarrow> int" and x ys
    using that by (induction ys) auto
  have sort: "sort_key g (map f xs) = map f (sort_key g xs)" if "\<And>l. g (f l) = g l" for g :: "audit_log \<Rightarrow> int" and xs
    using that by (induction xs) (auto simp: insort)
  have "filter (\<lambda>l. lg_tenantId l = T) (map f rows) = map f (filter (\<lambda>l. lg_tenantId l = T) rows)"
    using assms by (simp add: filter_map comp_def)
  then show ?thesis using assms by (simp add: ordered_logs_def find_where_def sort)
qed

text \<open>What the chain covers of a row does not include the flag.\<close>

lemma chain_from_unflagged:
  assumes "\<And>l. f l\<lparr>lg_archived := False\<rparr> = l\<lparr>lg_archived := False\<rparr>"
  shows "chain_from sha h (map f ls) = chain_from sha h ls"
proof -
  have same: "lg_previousChainHash (f l) = lg_previousChainHash l" "lg_chainHash (f l) = lg_chainHash l"
    "expected_hash sha g (f l) = expected_hash sha g l" for l g
    using arg_cong [OF assms [of l], of lg_previousChainHash] arg_cong [OF assms [of l], of lg_chainHash]
      arg_cong [OF assms [of l], of "expected_hash sha g"]
    by (simp_all add: expected_hash_def)
  show ?thesis by (induction ls arbitrary: h) (simp_all add: same)
qed

lemma worm_update_chain:
  assumes "\<And>l. worm_allows l (f l)"
  shows "chain_from sha h (ordered_logs T (map f rows)) = chain_from sha h (ordered_logs T rows)"
proof -
  have same: "f l\<lparr>lg_archived := False\<rparr> = l\<lparr>lg_archived := False\<rparr>" for l using assms by (simp add: worm_allows_def)
  have "lg_tenantId (f l) = lg_tenantId l \<and> lg_timestamp (f l) = lg_timestamp l \<and> lg_createdAt (f l) = lg_createdAt l" for l
    using arg_cong [OF same [of l], of lg_tenantId] arg_cong [OF same [of l], of lg_timestamp]
      arg_cong [OF same [of l], of lg_createdAt] by simp
  then show ?thesis using ordered_logs_map [of f T rows] chain_from_unflagged [OF same] by simp
qed

text \<open>The table under the service and the trigger: events one after the other on one clock, and updates the trigger allows.\<close>

inductive audit_step :: "(str \<Rightarrow> str) \<Rightarrow> audit_log list \<Rightarrow> audit_log list \<Rightarrow> bool" for sha where
  logged: "\<forall>x \<in> set rows. lg_timestamp x \<le> now \<and> lg_createdAt x \<le> created \<Longrightarrow> i \<notin> lg_id ` set rows
    \<Longrightarrow> audit_step sha rows (logEvent sha jsonb i now created dto rows)"
| sealed: "(\<And>l. worm_allows l (f l)) \<Longrightarrow> audit_step sha rows (map f rows)"

text \<open>
  Claim C9: events written one after the other, and updates the trigger lets through, leave the chain of every tenant
  verifiable: the check reports it valid with every row of the tenant counted.
\<close>

theorem chains_stay_verifiable:
  assumes "(audit_step sha)\<^sup>*\<^sup>* [] rows"
  shows "cr_status (verifyChain sha T rows) = ChainValid \<and> cr_firstBrokenAt (verifyChain sha T rows) = None
    \<and> cr_total (verifyChain sha T rows) = length (ordered_logs T rows)
    \<and> cr_valid (verifyChain sha T rows) = length (ordered_logs T rows)"
proof -
  have "chain_from sha (genesisHash sha T) (ordered_logs T rows)"
    using assms
  proof (induction rule: rtranclp_induct)
    case base
    then show ?case by (simp add: ordered_logs_def find_where_def)
  next
    case (step rows rows')
    from step.hyps(2) show ?case
    proof (cases rule: audit_step.cases)
      case (logged now created i jsonb dto)
      then show ?thesis using logEvent_chain step.IH by blast
    next
      case (sealed f)
      then show ?thesis using worm_update_chain step.IH by blast
    qed
  qed
  then show ?thesis by (cases "ordered_logs T rows = []") (simp_all add: verifyChain_def Let_def verify_walk_counts)
qed

section \<open>Tampering\<close>

text \<open>What the hash of a row is the hash of.\<close>

definition sealed_text :: "audit_log \<Rightarrow> str" where
  "sealed_text l =
     chain_text (lg_previousChainHash l) (lg_tenantId l) (lg_timestamp l) (lg_action l) (lg_entityId l) (lg_userId l) (lg_checksum l)"

definition hex_digest :: "(str \<Rightarrow> str) \<Rightarrow> bool" where
  "hex_digest sha \<longleftrightarrow> (\<forall>s. length (sha s) = 64 \<and> CHR ''G'' \<notin> set (sha s))"

lemma sealed_text_start: "sealed_text l = lg_previousChainHash l @ '':'' @ join '':'' [lg_tenantId l, iso_string (lg_timestamp l),
    log_action_text (lg_action l), lg_entityId l, lg_userId l, lg_checksum l]"
  by (simp add: sealed_text_def chain_text_def)

lemma chain_hash_text: "chain_from sha h (ls @ [l]) \<Longrightarrow> lg_chainHash l = sha (sealed_text l) \<and> lg_previousChainHash l = chain_end h ls"
  by (auto simp: chain_from_snoc expected_hash_def computeChainHash_def sealed_text_def)

lemma chain_end_digest:
  assumes "chain_from sha (sha g) ls"
  shows "\<exists>t. chain_end (sha g) ls = sha t"
proof (cases ls rule: rev_cases)
  case (snoc xs x)
  then show ?thesis using assms chain_hash_text [of sha "sha g" xs x] by auto
qed auto

lemma sealed_not_genesis:
  assumes "hex_digest sha" "chain_from sha (genesisHash sha T) (ls @ [l])"
  shows "sealed_text l \<noteq> genesis_text T"
proof
  assume eq: "sealed_text l = genesis_text T"
  obtain t where "lg_previousChainHash l = sha t"
    using chain_end_digest [of sha "genesis_text T" ls] chain_hash_text [OF assms(2)] assms(2)
    by (auto simp: chain_from_snoc genesisHash_def)
  then have "length (lg_previousChainHash l) = 64" "CHR ''G'' \<notin> set (lg_previousChainHash l)"
    using assms(1) by (auto simp: hex_digest_def)
  moreover from this have "lg_previousChainHash l ! 0 = genesis_text T ! 0"
    unfolding eq [symmetric] sealed_text_start by (simp add: nth_append)
  ultimately show False using nth_mem [of 0 "lg_previousChainHash l"] by (simp add: genesis_text_def)
qed

lemma chains_agree:
  assumes "hex_digest sha" "inj_on sha (insert (genesis_text T) (sealed_text ` (set ls \<union> set ls')))"
    "chain_from sha (genesisHash sha T) ls" "chain_from sha (genesisHash sha T) ls'"
    "chain_end (genesisHash sha T) ls = chain_end (genesisHash sha T) ls'"
  shows "map sealed_text ls = map sealed_text ls'"
  using assms(2-5)
proof (induction ls arbitrary: ls' rule: rev_induct)
  case Nil
  show ?case
  proof (cases ls' rule: rev_cases)
    case (snoc xs x)
    then have "sha (sealed_text x) = sha (genesis_text T)"
      using Nil.prems chain_hash_text [of sha _ xs x] by (simp add: genesisHash_def)
    then have "sealed_text x = genesis_text T" by (rule inj_onD [OF Nil.prems(1)]) (simp_all add: snoc)
    then show ?thesis using sealed_not_genesis [OF assms(1)] Nil.prems(3) snoc by blast
  qed simp
next
  case (snoc l ls)
  show ?case
  proof (cases ls' rule: rev_cases)
    case Nil
    then have "sha (sealed_text l) = sha (genesis_text T)"
      using snoc.prems chain_hash_text [of sha _ ls l] by (simp add: genesisHash_def)
    then have "sealed_text l = genesis_text T" by (rule inj_onD [OF snoc.prems(1)]) simp_all
    then show ?thesis using sealed_not_genesis [OF assms(1)] snoc.prems(2) by blast
  next
    case (snoc xs x)
    have h: "lg_chainHash l = sha (sealed_text l)" "lg_previousChainHash l = chain_end (genesisHash sha T) ls"
      "lg_chainHash x = sha (sealed_text x)" "lg_previousChainHash x = chain_end (genesisHash sha T) xs"
      using chain_hash_text snoc.prems(2,3) snoc by blast+
    then have "sha (sealed_text l) = sha (sealed_text x)" using snoc.prems(4) snoc by simp
    then have eq: "sealed_text l = sealed_text x" by (rule inj_onD [OF snoc.prems(1)]) (simp_all add: snoc)
    have "length (lg_previousChainHash l) = 64" "length (lg_previousChainHash x) = 64"
      using h chain_end_digest [of sha "genesis_text T"] snoc.prems(2,3) snoc assms(1)
      by (auto simp: hex_digest_def chain_from_snoc genesisHash_def) metis+
    then have "lg_previousChainHash l = lg_previousChainHash x"
      using eq unfolding sealed_text_start by (metis append_eq_append_conv)
    then have "chain_end (genesisHash sha T) ls = chain_end (genesisHash sha T) xs" using h by simp
    moreover have "inj_on sha (insert (genesis_text T) (sealed_text ` (set ls \<union> set xs)))"
      by (rule inj_on_subset [OF snoc.prems(1)]) (use snoc in auto)
    ultimately have "map sealed_text ls = map sealed_text xs"
      using snoc.IH snoc.prems(2,3) snoc by (simp add: chain_from_snoc)
    then show ?thesis using eq snoc by simp
  qed
qed

text \<open>
  Claim C6: two chains of a tenant that both verify and end in the same hash seal the same texts in the same order, as long
  as the hash does not collide on the texts at hand: who knows the last hash notices every row that was changed in what
  the chain covers, taken out, put in or moved.
\<close>

theorem last_hash_fixes_the_chain:
  assumes "hex_digest sha"
    "inj_on sha (insert (genesis_text T) (sealed_text ` (set (ordered_logs T rows) \<union> set (ordered_logs T rows'))))"
    "cr_status (verifyChain sha T rows) = ChainValid" "cr_status (verifyChain sha T rows') = ChainValid"
    "getLastChainHash sha T rows = getLastChainHash sha T rows'"
  shows "map sealed_text (ordered_logs T rows) = map sealed_text (ordered_logs T rows')"
  using chains_agree [OF assms(1,2)] assms(3-5) by (simp add: verifyChain_valid getLastChainHash_end)

section \<open>Retention\<close>

lemma archive_rows_allowed: "\<exists>f. (\<forall>l. worm_allows l (f l)) \<and> archive_rows T cutoff rows = map f rows"
  by (rule exI [of _ "\<lambda>l. if expired T cutoff l then l\<lparr>lg_archived := True\<rparr> else l"]) (simp add: archive_rows_def worm_allows_def)

text \<open>What a sweep may do to a row: archive it, under a period of its tenant's pack.\<close>

definition archived_by :: "bool \<Rightarrow> pack_db \<Rightarrow> als \<Rightarrow> instant \<Rightarrow> tenant_row list \<Rightarrow> audit_log \<Rightarrow> bool" where
  "archived_by pins_ok packs ctx now tenants l \<longleftrightarrow>
     (\<exists>t \<in> set tenants. \<exists>years. tn_id t = lg_tenantId l
        \<and> retention_years (pack_section pins_ok packs ctx (tn_vertical t) ''compliance'') = Some years
        \<and> lg_timestamp l < retention_cutoff now years)"

lemma archive_rows_length [simp]: "length (archive_rows T cutoff rows) = length rows"
  by (simp add: archive_rows_def)

lemma retain_rows:
  assumes "snd (fold (retain_tenant pins_ok packs ctx now) tenants (applied, rows)) = rows'"
  shows "length rows' = length rows \<and> (\<forall>i < length rows.
    rows' ! i = rows ! i \<or> rows' ! i = (rows ! i)\<lparr>lg_archived := True\<rparr> \<and> archived_by pins_ok packs ctx now tenants (rows ! i))"
  using assms
proof (induction tenants arbitrary: applied rows)
  case (Cons t ts)
  obtain applied1 rows1 where s: "retain_tenant pins_ok packs ctx now t (applied, rows) = (applied1, rows1)" by force
  have here: "length rows1 = length rows \<and> (\<forall>i < length rows. rows1 ! i = rows ! i
      \<or> rows1 ! i = (rows ! i)\<lparr>lg_archived := True\<rparr> \<and> archived_by pins_ok packs ctx now [t] (rows ! i))"
  proof (cases "retention_years (pack_section pins_ok packs ctx (tn_vertical t) ''compliance'')")
    case None
    then show ?thesis using s by (simp add: retain_tenant_def)
  next
    case (Some years)
    then have rows1: "rows1 = archive_rows (tn_id t) (retention_cutoff now years) rows"
      using s by (simp add: retain_tenant_def Let_def)
    have "rows1 ! i = rows ! i \<or> rows1 ! i = (rows ! i)\<lparr>lg_archived := True\<rparr> \<and> archived_by pins_ok packs ctx now [t] (rows ! i)"
      if "i < length rows" for i
      using that Some by (cases "expired (tn_id t) (retention_cutoff now years) (rows ! i)")
        (simp_all add: rows1 archive_rows_def archived_by_def, simp add: expired_def)
    then show ?thesis by (simp add: rows1)
  qed
  have there: "length rows' = length rows1 \<and> (\<forall>i < length rows1. rows' ! i = rows1 ! i
      \<or> rows' ! i = (rows1 ! i)\<lparr>lg_archived := True\<rparr> \<and> archived_by pins_ok packs ctx now ts (rows1 ! i))"
    using Cons.IH [of applied1 rows1] Cons.prems s by simp
  have flag: "archived_by pins_ok packs ctx now xs (l\<lparr>lg_archived := True\<rparr>) = archived_by pins_ok packs ctx now xs l" for xs l
    by (simp add: archived_by_def)
  have more: "archived_by pins_ok packs ctx now [t] l \<Longrightarrow> archived_by pins_ok packs ctx now (t # ts) l"
    "archived_by pins_ok packs ctx now ts l \<Longrightarrow> archived_by pins_ok packs ctx now (t # ts) l" for l
    by (auto simp: archived_by_def)
  show ?case
  proof (intro conjI allI impI)
    show "length rows' = length rows" using here there by simp
    fix i assume i: "i < length rows"
    then have a: "rows1 ! i = rows ! i \<or> rows1 ! i = (rows ! i)\<lparr>lg_archived := True\<rparr> \<and> archived_by pins_ok packs ctx now (t # ts) (rows ! i)"
      and b: "rows' ! i = rows1 ! i \<or> rows' ! i = (rows1 ! i)\<lparr>lg_archived := True\<rparr> \<and> archived_by pins_ok packs ctx now (t # ts) (rows1 ! i)"
      using here there more by metis+
    from a show "rows' ! i = rows ! i \<or> rows' ! i = (rows ! i)\<lparr>lg_archived := True\<rparr> \<and> archived_by pins_ok packs ctx now (t # ts) (rows ! i)"
    proof
      assume "rows1 ! i = rows ! i"
      with b show ?thesis by simp
    next
      assume c: "rows1 ! i = (rows ! i)\<lparr>lg_archived := True\<rparr> \<and> archived_by pins_ok packs ctx now (t # ts) (rows ! i)"
      then have "rows' ! i = rows1 ! i" using b by auto
      with c show ?thesis by simp
    qed
  qed
qed simp

text \<open>
  Claim C38: a retention sweep deletes nothing and changes nothing but the flag; it archives only rows of a tenant whose
  pack declares a period, that are older than the period.
\<close>

theorem retention_only_archives:
  "length (snd (retention_sweep pins_ok packs ctx now tenants rows)) = length rows
   \<and> (\<forall>i < length rows. worm_allows (rows ! i) (snd (retention_sweep pins_ok packs ctx now tenants rows) ! i)
        \<and> (snd (retention_sweep pins_ok packs ctx now tenants rows) ! i \<noteq> rows ! i
             \<longrightarrow> runAsSystem ''retention sweep'' (\<lambda>ctx'. archived_by pins_ok packs ctx' now tenants (rows ! i)) ctx))"
proof -
  define ctx' where "ctx' = Some ((spread_store ctx)\<lparr>ts_bypass :=
      Some \<lparr>bp_kind = SystemBypass, bp_reason = ''retention sweep'', bp_actorId = None\<rparr>\<rparr>)"
  let ?rows' = "snd (fold (retain_tenant pins_ok packs ctx' now) tenants ([], rows))"
  have r: "snd (retention_sweep pins_ok packs ctx now tenants rows) = ?rows'"
    by (simp add: retention_sweep_def runAsSystem_def ctx'_def)
  have step: "length ?rows' = length rows" "\<And>i. i < length rows \<Longrightarrow> ?rows' ! i = rows ! i
      \<or> ?rows' ! i = (rows ! i)\<lparr>lg_archived := True\<rparr> \<and> archived_by pins_ok packs ctx' now tenants (rows ! i)"
    using retain_rows [OF refl, of pins_ok packs ctx' now tenants "[]" rows] by simp_all
  have allowed: "worm_allows (rows ! i) (?rows' ! i)" if "i < length rows" for i
    using step(2) [OF that] by (auto simp: worm_allows_def)
  show ?thesis unfolding r runAsSystem_def ctx'_def [symmetric] using step allowed by blast
qed

section \<open>Examples\<close>

definition no_collision :: "str \<Rightarrow> str" where
  "no_collision s = replicate 64 (if take 1 s = ''G'' then CHR ''a'' else CHR ''b'')"

definition demo_event :: audit_event where
  "demo_event = create_event ''T'' ''ann'' ''case'' ''c1'' [(''stage'', JStr ''new'')] None"

definition demo_log :: "audit_log list" where
  "demo_log = logEvent no_collision (\<lambda>ob. ob) ''l1'' 5 5 demo_event []"

text \<open>An event without a state before or after does not verify, as nothing has the checksum it was given.\<close>

lemma created_rows_fail_verification:
  "verifyLogIntegrity (\<lambda>s. s) (logEvent (\<lambda>s. s) (\<lambda>ob. ob) ''l1'' 5 5 demo_event []) ''l1'' = Inr False"
  "verifyLogIntegrity (\<lambda>s. s) (logEvent (\<lambda>s. s) (\<lambda>ob. ob) ''l2'' 5 5
     (update_event ''T'' ''ann'' ''case'' ''c1'' [] [(''stage'', JStr ''new'')] None) []) ''l2'' = Inr True"
  by code_simp+

text \<open>Two events written at once, both after the last row the other does not see, break the chain.\<close>

lemma concurrent_events_break_the_chain:
  "let first = audit_row (\<lambda>s. s) (\<lambda>ob. ob) ''l1'' 5 5 demo_event []; second = audit_row (\<lambda>s. s) (\<lambda>ob. ob) ''l2'' 6 6 demo_event []
   in cr_status (verifyChain (\<lambda>s. s) ''T'' [first, second]) = ChainTampered"
  by code_simp

text \<open>The chain says nothing of the states of a row, which the checksum covers; the last row can be left out.\<close>

lemma chain_does_not_cover_the_states:
  "let l = audit_row (\<lambda>s. s) (\<lambda>ob. ob) ''l1'' 5 5 demo_event []
   in cr_status (verifyChain (\<lambda>s. s) ''T'' [l\<lparr>lg_afterState := None, lg_description := None, lg_severity := LogCritical\<rparr>]) = ChainValid
      \<and> cr_status (verifyChain (\<lambda>s. s) ''T'' []) = ChainValid"
  by code_simp

theorem chains_stay_verifiable_witness:
  "cr_status (verifyChain no_collision ''T'' demo_log) = ChainValid \<and> length demo_log = 1"
proof -
  have "audit_step no_collision [] demo_log" unfolding demo_log_def by (rule audit_step.logged) simp_all
  then have "(audit_step no_collision)\<^sup>*\<^sup>* [] demo_log" by blast
  moreover have "length demo_log = 1" by (simp add: demo_log_def logEvent_def)
  ultimately show ?thesis using chains_stay_verifiable [of no_collision demo_log "''T''"] by simp
qed

lemma demo_log_row: "demo_log = [audit_row no_collision (\<lambda>ob. ob) ''l1'' 5 5 demo_event []]"
  by (simp add: demo_log_def logEvent_def)

lemma demo_log_ordered:
  "ordered_logs ''T'' demo_log = demo_log"
  "ordered_logs ''T'' (map (\<lambda>l. l\<lparr>lg_archived := True\<rparr>) demo_log) = map (\<lambda>l. l\<lparr>lg_archived := True\<rparr>) demo_log"
  by (simp_all add: demo_log_row ordered_logs_def find_where_def demo_event_def create_event_def plain_event_def)

lemma demo_log_chain: "chain_from no_collision (genesisHash no_collision ''T'') demo_log"
  using logEvent_chain [of "[]" 5 5 "''l1''" no_collision "''T''" "\<lambda>ob. ob" demo_event]
  by (simp add: demo_log_def [symmetric] demo_log_ordered(1)) (simp add: ordered_logs_def find_where_def)

lemma inj_on_pair: "f a \<noteq> f b \<Longrightarrow> inj_on f {a, b}"
  by (auto simp: inj_on_def)

theorem last_hash_fixes_the_chain_witness:
  "map sealed_text (ordered_logs ''T'' demo_log) = map sealed_text (ordered_logs ''T'' (map (\<lambda>l. l\<lparr>lg_archived := True\<rparr>) demo_log))"
proof (rule last_hash_fixes_the_chain)
  let ?f = "\<lambda>l. l\<lparr>lg_archived := True\<rparr> :: audit_log"
  show "hex_digest no_collision" by (simp add: hex_digest_def no_collision_def)
  have "sealed_text ` (set demo_log \<union> set (map ?f demo_log)) = {sealed_text (hd demo_log)}"
    by (simp add: demo_log_row sealed_text_def)
  moreover have "no_collision (genesis_text ''T'') = replicate 64 (CHR ''a'')" by (simp add: no_collision_def genesis_text_def)
  moreover have "lg_previousChainHash (hd demo_log) = replicate 64 (CHR ''a'')"
    by (simp add: demo_log_row audit_row_linked getLastChainHash_def ordered_logs_def find_where_def genesisHash_def
        no_collision_def genesis_text_def)
  then have "no_collision (sealed_text (hd demo_log)) = replicate 64 (CHR ''b'')"
    by (simp add: sealed_text_start no_collision_def)
  ultimately have "inj_on no_collision (insert (genesis_text ''T'') (sealed_text ` (set demo_log \<union> set (map ?f demo_log))))"
    using inj_on_pair [of no_collision "genesis_text ''T''" "sealed_text (hd demo_log)"] by (simp add: replicate_eq_replicate)
  then show "inj_on no_collision (insert (genesis_text ''T'')
      (sealed_text ` (set (ordered_logs ''T'' demo_log) \<union> set (ordered_logs ''T'' (map ?f demo_log)))))"
    by (simp only: demo_log_ordered)
  show "cr_status (verifyChain no_collision ''T'' demo_log) = ChainValid"
    by (simp add: verifyChain_valid demo_log_ordered demo_log_chain)
  show "cr_status (verifyChain no_collision ''T'' (map ?f demo_log)) = ChainValid"
    unfolding verifyChain_valid demo_log_ordered
    using chain_from_unflagged [of ?f no_collision _ demo_log] demo_log_chain by simp
  show "getLastChainHash no_collision ''T'' demo_log = getLastChainHash no_collision ''T'' (map ?f demo_log)"
    unfolding getLastChainHash_def demo_log_ordered by (simp add: demo_log_row)
qed

definition retention_packs :: pack_db where
  "retention_packs = \<lparr>pd_packs = [demo_base\<lparr>cp_schema := [(''compliance'', JObj [(''retentionYears'', JNum ''7'')])]\<rparr>],
     pd_pins = [], pd_audit = []\<rparr>"

theorem retention_only_archives_witness:
  "\<exists>i < length demo_log. snd (retention_sweep True retention_packs None (3000 * ms_per_day)
       [\<lparr>tn_id = ''T'', tn_status = TenantActive, tn_vertical = Some ''grc''\<rparr>] demo_log) ! i \<noteq> demo_log ! i
     \<and> lg_timestamp (demo_log ! i) < retention_cutoff (3000 * ms_per_day) (Fin 7 0)"
proof -
  let ?t = "\<lparr>tn_id = ''T'', tn_status = TenantActive, tn_vertical = Some ''grc''\<rparr>"
  let ?s = "snd (retention_sweep True retention_packs None (3000 * ms_per_day) [?t] demo_log)"
  have l: "length demo_log = 1" by (simp add: demo_log_def logEvent_def)
  have changed: "?s ! 0 \<noteq> demo_log ! 0" by code_simp
  have "runAsSystem ''retention sweep'' (\<lambda>ctx'. archived_by True retention_packs ctx' (3000 * ms_per_day) [?t] (demo_log ! 0)) None"
    using retention_only_archives [of True retention_packs None "3000 * ms_per_day" "[?t]" demo_log] l changed by simp
  moreover have "runAsSystem ''retention sweep'' (\<lambda>ctx'. retention_years (pack_section True retention_packs ctx' (Some ''grc'') ''compliance'')) None
      = Some (Fin 7 0)" by code_simp
  ultimately show ?thesis using changed l by (auto simp: archived_by_def runAsSystem_def)
qed

end
