(* ===== verification/Comments.thy ===== *)
theory Comments
  imports Crm AuditLog
begin

text \<open>
  What hangs off a record: the comments of \<^verbatim>\<open>src/crm/comment.service.ts\<close>, which are notes with the record as parent, and
  the acceptances of \<^verbatim>\<open>src/crm/acceptance.service.ts\<close>, a list in the attributes of the record with an entry in
  the audit log of \<open>AuditLog\<close> for each. SHA-256 is an argument.
\<close>

section \<open>Comments\<close>

datatype note_error =
    NoBody
  | NoParent str
  | ParentNotFound
  | CommentNotFound
  | ParentDenied access_error
  | NoSubject

record comment =
  cmt_id :: str
  cmt_body :: str
  cmt_authorId :: str
  cmt_parentEntityType :: str
  cmt_parentEntityId :: str
  cmt_internal :: bool
  cmt_createdAt :: instant
  cmt_updatedAt :: instant

text \<open>\<open>String(attrs.k ?? '')\<close>.\<close>

definition attr_text :: "str \<Rightarrow> js_obj \<Rightarrow> str" where
  "attr_text k attrs =
     (case obj_get k attrs of None \<Rightarrow> [] | Some v \<Rightarrow> if nullish_js v then [] else js_string v)"

definition toComment :: "crm_entity \<Rightarrow> comment" where
  "toComment row =
     (let attrs = ce_verticalAttributes row
      in \<lparr>cmt_id = en_id row, cmt_body = attr_text ''content'' attrs, cmt_authorId = attr_text ''authorId'' attrs,
          cmt_parentEntityType = attr_text ''parentEntityType'' attrs, cmt_parentEntityId = attr_text ''parentEntityId'' attrs,
          cmt_internal = (obj_get ''internal'' attrs = Some (JBool True)), cmt_createdAt = ce_createdAt row,
          cmt_updatedAt = ce_updatedAt row\<rparr>)"

definition parent_read :: "als \<Rightarrow> actor \<Rightarrow> crm_entity \<Rightarrow> note_error + unit" where
  "parent_read ctx a e = (case crm_assert ctx a CrmRead (row_of e) of Inl x \<Rightarrow> Inl (ParentDenied x) | Inr _ \<Rightarrow> Inr ())"

definition note_row :: "str \<Rightarrow> instant \<Rightarrow> str \<Rightarrow> crm_entity \<Rightarrow> str \<Rightarrow> str \<Rightarrow> bool \<Rightarrow> crm_entity" where
  "note_row newId now tenantId parent body authorId internal =
     \<lparr>en_id = newId, en_tenantId = tenantId, en_type = Note, en_email = None, en_firstName = None, en_assignedTo = None,
      en_subjectEmail = None, ce_lastName = None, ce_phoneNumber = None, ce_status = None, ce_dueDate = None,
      ce_recordNumber = None,
      ce_verticalAttributes = [(''content'', JStr body), (''authorId'', JStr authorId),
        (''parentEntityType'', JStr (entity_type_text (en_type parent))), (''parentEntityId'', JStr (en_id parent)),
        (''internal'', JBool internal)],
      ce_metadata = [], ce_relationships = [], ce_vertical = ce_vertical parent, ce_environment = ''production'',
      ce_createdAt = now, ce_updatedAt = now, ce_deletedAt = None\<rparr>"

definition add_comment ::
  "als \<Rightarrow> str \<Rightarrow> instant \<Rightarrow> str \<Rightarrow> str \<Rightarrow> str option \<Rightarrow> str \<Rightarrow> bool option \<Rightarrow> actor \<Rightarrow> crm_db
   \<Rightarrow> note_error + (comment \<times> crm_db)" where
  "add_comment ctx newId now tenantId parentId body authorId internal a db =
     (if \<not> truthy_str (map_option trim body) then Inl NoBody
      else case findEntityById ctx db parentId tenantId of
             None \<Rightarrow> Inl (NoParent parentId)
           | Some parent \<Rightarrow>
               and_then (parent_read ctx a parent) (\<lambda>_.
                 let flag = (if hasTenantWideReach ctx a then nullish internal False else False);
                     row = note_row newId now tenantId parent (trim (the body)) authorId flag
                 in Inr (toComment row, db\<lparr>db_entities := save_row en_id row (db_entities db)\<rparr>)))"

text \<open>The operator \<open>->>\<close> of the query gives no text for a null; what it finds equal to an id is a text.\<close>

definition comment_rows :: "als \<Rightarrow> str \<Rightarrow> str \<Rightarrow> crm_db \<Rightarrow> crm_entity list" where
  "comment_rows ctx tenantId parentId db =
     sort_key ce_createdAt
       (find_where (\<lambda>e. en_tenantId e = tenantId \<and> en_type e = Note
            \<and> obj_get ''parentEntityId'' (ce_verticalAttributes e) = Some (JStr parentId) \<and> ce_deletedAt e = None)
          (visible_rows ctx (db_entities db)))"

definition list_comments :: "als \<Rightarrow> str \<Rightarrow> str \<Rightarrow> actor \<Rightarrow> bool option \<Rightarrow> crm_db \<Rightarrow> note_error + comment list" where
  "list_comments ctx tenantId parentId a includeInternal db =
     (case findEntityById ctx db parentId tenantId of
        None \<Rightarrow> Inl ParentNotFound
      | Some parent \<Rightarrow>
          and_then (parent_read ctx a parent) (\<lambda>_.
            let internals = (nullish includeInternal False \<and> mayReadInternalNotes ctx a)
            in Inr (filter (\<lambda>c. internals \<or> \<not> cmt_internal c) (map toComment (comment_rows ctx tenantId parentId db)))))"

definition is_comment :: "als \<Rightarrow> str \<Rightarrow> str \<Rightarrow> crm_entity \<Rightarrow> bool" where
  "is_comment ctx tenantId i e \<longleftrightarrow>
     en_id e = i \<and> en_tenantId e = tenantId \<and> en_type e = Note \<and> rls_visible ctx (en_tenantId e)"

definition author_check :: "als \<Rightarrow> str \<Rightarrow> str \<Rightarrow> actor \<Rightarrow> crm_db \<Rightarrow> note_error + unit" where
  "author_check ctx tenantId i a db =
     (if hasTenantWideReach ctx a then Inr ()
      else case find_one (is_comment ctx tenantId i) (db_entities db) of
             None \<Rightarrow> Inl CommentNotFound
           | Some c \<Rightarrow> if attr_text ''authorId'' (ce_verticalAttributes c) \<noteq> ac_id a then Inl CommentNotFound else Inr ())"

definition remove_comment :: "als \<Rightarrow> instant \<Rightarrow> str \<Rightarrow> str \<Rightarrow> actor \<Rightarrow> crm_db \<Rightarrow> note_error + (bool \<times> crm_db)" where
  "remove_comment ctx now tenantId i a db =
     and_then (author_check ctx tenantId i a db) (\<lambda>_.
       Inr (0 < length (find_where (is_comment ctx tenantId i) (db_entities db)),
            db\<lparr>db_entities := map (\<lambda>e. if is_comment ctx tenantId i e then e\<lparr>ce_deletedAt := Some now, ce_updatedAt := now\<rparr> else e)
                 (db_entities db)\<rparr>))"

section \<open>Acceptances\<close>

record acceptance_input =
  ai_subject :: "str option"
  ai_userId :: str
  ai_email :: str
  ai_ip :: "str option"
  ai_userAgent :: "str option"
  ai_documentBytes :: "str option"
  ai_documentSha256 :: "str option"

definition acceptance_sha :: "(str \<Rightarrow> str) \<Rightarrow> acceptance_input \<Rightarrow> str option" where
  "acceptance_sha sha256 input = nullish_opt (ai_documentSha256 input) (map_option sha256 (ai_documentBytes input))"

definition acceptance_record :: "(str \<Rightarrow> str) \<Rightarrow> instant \<Rightarrow> acceptance_input \<Rightarrow> js_obj" where
  "acceptance_record sha256 now input =
     [(''subject'', JStr (trim (nullish (ai_subject input) []))), (''userId'', JStr (ai_userId input)),
           (''email'', JStr (ai_email input)), (''acceptedAt'', JStr (iso_string now)), (''ip'', text_or_null (ai_ip input)),
           (''userAgent'', text_or_null (ai_userAgent input)), (''documentSha256'', text_or_null (acceptance_sha sha256 input)),
           (''isSignature'', JBool False)]"

definition acceptances_of :: "js_obj \<Rightarrow> js list" where
  "acceptances_of attrs = (case obj_get ''acceptances'' attrs of Some (JArr xs) \<Rightarrow> xs | _ \<Rightarrow> [])"

text \<open>The entry of the audit log. An ellipsis is three bytes of UTF-8.\<close>

definition acceptance_event :: "(str \<Rightarrow> str) \<Rightarrow> instant \<Rightarrow> str \<Rightarrow> str \<Rightarrow> acceptance_input \<Rightarrow> audit_event" where
  "acceptance_event sha256 now tenantId entityId input =
     \<lparr>av_tenantId = tenantId, av_userId = ai_userId input, av_userEmail = Some (ai_email input), av_userRole = None,
      av_action = LogUpdate, av_entityType = ''entity_acceptance'', av_entityId = entityId,
      av_description = Some (''Acceptance recorded for '' @ [CHR 0x27] @ trim (nullish (ai_subject input) []) @ [CHR 0x27] @ '' by ''
        @ ai_email input
        @ (if truthy_str (acceptance_sha sha256 input)
           then '' (document sha256 '' @ take 16 (the (acceptance_sha sha256 input)) @ [CHR 0xE2, CHR 0x80, CHR 0xA6] @ '')''
           else '' (no document hash supplied)'')),
      av_severity = Some LogWarning, av_beforeState = None, av_afterState = Some (acceptance_record sha256 now input),
      av_context = Some [(''ip'', text_or_null (ai_ip input)), (''userAgent'', text_or_null (ai_userAgent input))],
      av_complianceStandard = None, av_complianceMetadata = None\<rparr>"

text \<open>The record is saved first, then the entry is logged.\<close>

definition record_acceptance ::
  "(str \<Rightarrow> str) \<Rightarrow> (js_obj \<Rightarrow> js_obj) \<Rightarrow> als \<Rightarrow> str \<Rightarrow> instant \<Rightarrow> str \<Rightarrow> str \<Rightarrow> acceptance_input \<Rightarrow> actor \<Rightarrow> crm_db
   \<Rightarrow> audit_log list \<Rightarrow> note_error + (js \<times> crm_db \<times> audit_log list)" where
  "record_acceptance sha256 jsonb ctx logId now tenantId entityId input a db logs =
     (case findEntityById ctx db entityId tenantId of
        None \<Rightarrow> Inl ParentNotFound
      | Some e \<Rightarrow>
          and_then (parent_read ctx a e) (\<lambda>_.
            if \<not> truthy_str (map_option trim (ai_subject input)) then Inl NoSubject
            else let accepted = JObj (acceptance_record sha256 now input); attrs = ce_verticalAttributes e;
                     e' = e\<lparr>ce_verticalAttributes := obj_set ''acceptances'' (JArr (acceptances_of attrs @ [accepted])) attrs,
                            ce_updatedAt := now\<rparr>
                 in Inr (accepted, db\<lparr>db_entities := save_row en_id e' (db_entities db)\<rparr>,
                         logEvent sha256 jsonb logId now now (acceptance_event sha256 now tenantId entityId input) logs)))"

definition list_acceptances :: "als \<Rightarrow> str \<Rightarrow> str \<Rightarrow> actor \<Rightarrow> crm_db \<Rightarrow> note_error + js list" where
  "list_acceptances ctx tenantId entityId a db =
     (case findEntityById ctx db entityId tenantId of
        None \<Rightarrow> Inl ParentNotFound
      | Some e \<Rightarrow> and_then (parent_read ctx a e) (\<lambda>_. Inr (acceptances_of (ce_verticalAttributes e))))"

section \<open>Lemmas\<close>

lemma parent_read_Inr: "parent_read ctx a e = Inr u \<longleftrightarrow> readable_by ctx a e"
  by (auto simp: parent_read_def readable_by_def crm_assert_def)

lemma list_acceptances_readable:
  "findEntityById ctx db i T = Some e \<Longrightarrow> readable_by ctx a e
   \<Longrightarrow> list_acceptances ctx T i a db = Inr (acceptances_of (ce_verticalAttributes e))"
  using parent_read_Inr [of ctx a e "()"] by (simp add: list_acceptances_def)

lemma findEntityById_save:
  assumes "findEntityById ctx db i T = Some e" "en_id e' = i" "en_tenantId e' = T" "keys_distinct en_id (db_entities db)"
  shows "findEntityById ctx (db\<lparr>db_entities := save_row en_id e' (db_entities db)\<rparr>) i T = Some e'"
proof -
  have vis: "rls_visible ctx T" using findEntityById_SomeD [OF assms(1)] by simp
  have "find_one (\<lambda>e. en_id e = i \<and> en_tenantId e = T) (filter (\<lambda>e. rls_visible ctx (en_tenantId e)) (save_row en_id e' rows)) = Some e'"
    if "\<forall>x \<in> set rows. en_id x = i \<longrightarrow> en_tenantId x = T" for rows
    using that vis assms(2,3) by (induction rows) auto
  moreover have "\<forall>x \<in> set (db_entities db). en_id x = i \<longrightarrow> en_tenantId x = T"
    using findEntityById_SomeD [OF assms(1)] assms(4) by (metis distinct_map inj_onD)
  ultimately show ?thesis by (simp add: findEntityById_def visible_rows_def find_where_def)
qed

text \<open>
  Claim C12: a caller without the reach of the tenant's staff is shown a comment only on a record that caller may read, and
  never one that is internal, whatever the request asks for; nor does such a caller ever write one that is internal.
\<close>

theorem internal_comments_stay_inside:
  assumes "\<not> hasTenantWideReach ctx a"
  shows "(\<forall>cs. list_comments ctx T i a flag db = Inr cs \<longrightarrow>
            (\<exists>e \<in> set (db_entities db). en_id e = i \<and> en_tenantId e = T \<and> readable_by ctx a e)
            \<and> (\<forall>c \<in> set cs. \<not> cmt_internal c
                 \<and> (\<exists>e \<in> set (db_entities db). c = toComment e \<and> en_tenantId e = T \<and> ce_deletedAt e = None)))
    \<and> (\<forall>c db'. add_comment ctx newId now T i body author internal a db = Inr (c, db') \<longrightarrow> \<not> cmt_internal c)"
proof (intro conjI allI impI)
  fix cs assume l: "list_comments ctx T i a flag db = Inr cs"
  then obtain e where e: "findEntityById ctx db i T = Some e" "readable_by ctx a e"
    and cs: "cs = filter (\<lambda>c. \<not> cmt_internal c) (map toComment (comment_rows ctx T i db))"
    using assms by (auto simp: list_comments_def and_then_Inr_iff parent_read_Inr mayReadInternalNotes_def Let_def split: option.splits)
  show "\<exists>e \<in> set (db_entities db). en_id e = i \<and> en_tenantId e = T \<and> readable_by ctx a e"
    using e findEntityById_SomeD by blast
  show "\<forall>c \<in> set cs. \<not> cmt_internal c
      \<and> (\<exists>e \<in> set (db_entities db). c = toComment e \<and> en_tenantId e = T \<and> ce_deletedAt e = None)"
    unfolding cs by (auto simp: comment_rows_def set_find_where visible_rows_def)
next
  fix c db' assume "add_comment ctx newId now T i body author internal a db = Inr (c, db')"
  then show "\<not> cmt_internal c"
    using assms by (auto simp: add_comment_def and_then_Inr_iff toComment_def note_row_def Let_def split: option.splits if_splits)
qed

text \<open>
  Claim C24: acceptances only accumulate: one that is recorded comes after those that were there, none of them changed, and is
  not called a signature; the audit log gains one row, with the acceptance as the state after, under the caller's tenant and
  chained to the tenant's last hash; the caller need only be able to read the record.
\<close>

theorem acceptances_accumulate:
  assumes "record_acceptance sha256 jsonb ctx logId now T i input a db logs = Inr (accepted, db', logs')"
    "keys_distinct en_id (db_entities db)" "logId \<notin> lg_id ` set logs"
  shows "\<exists>before. list_acceptances ctx T i a db = Inr before \<and> list_acceptances ctx T i a db' = Inr (before @ [accepted])
    \<and> (\<exists>ob. accepted = JObj ob \<and> obj_get ''isSignature'' ob = Some (JBool False)
         \<and> (\<exists>l. logs' = logs @ [l] \<and> lg_tenantId l = T \<and> lg_entityId l = i \<and> lg_afterState l = Some (jsonb ob)
              \<and> lg_previousChainHash l = getLastChainHash sha256 T logs
              \<and> lg_chainHash l = expected_hash sha256 (getLastChainHash sha256 T logs) l))"
proof -
  obtain e where e: "findEntityById ctx db i T = Some e" "readable_by ctx a e"
    using assms(1) by (auto simp: record_acceptance_def and_then_Inr_iff parent_read_Inr split: option.splits)
  define ob where "ob = acceptance_record sha256 now input"
  define e' where "e' = e\<lparr>ce_verticalAttributes := obj_set ''acceptances''
      (JArr (acceptances_of (ce_verticalAttributes e) @ [JObj ob])) (ce_verticalAttributes e), ce_updatedAt := now\<rparr>"
  have r: "accepted = JObj ob" "logs' = logEvent sha256 jsonb logId now now (acceptance_event sha256 now T i input) logs"
    "db' = db\<lparr>db_entities := save_row en_id e' (db_entities db)\<rparr>"
    using assms(1) e by (auto simp: record_acceptance_def and_then_Inr_iff Let_def e'_def ob_def split: if_splits)
  have "findEntityById ctx db' i T = Some e'"
    unfolding r(3) using findEntityById_SomeD [OF e(1)] by (intro findEntityById_save [OF e(1) _ _ assms(2)]) (simp_all add: e'_def)
  moreover have "readable_by ctx a e'" using e(2) by (simp add: readable_by_def e'_def entity.defs)
  ultimately have after: "list_acceptances ctx T i a db' = Inr (acceptances_of (ce_verticalAttributes e) @ [accepted])"
    using list_acceptances_readable by (simp add: e'_def acceptances_of_def r(1))
  have before: "list_acceptances ctx T i a db = Inr (acceptances_of (ce_verticalAttributes e))"
    using e by (rule list_acceptances_readable)
  define l where "l = audit_row sha256 jsonb logId now now (acceptance_event sha256 now T i input) logs"
  have "logs' = logs @ [l]" using assms(3) unfolding r(2) logEvent_def l_def by (intro save_row_new) simp
  moreover have "lg_tenantId l = T" "lg_entityId l = i" "lg_afterState l = Some (jsonb ob)"
    "lg_previousChainHash l = getLastChainHash sha256 T logs"
    "lg_chainHash l = expected_hash sha256 (getLastChainHash sha256 T logs) l"
    by (simp_all add: l_def audit_row_def acceptance_event_def Let_def expected_hash_def ob_def)
  moreover have "obj_get ''isSignature'' ob = Some (JBool False)" by (simp add: ob_def acceptance_record_def)
  ultimately show ?thesis using before after r(1) by blast
qed

section \<open>An example\<close>

definition ann_case :: crm_entity where
  "ann_case = (demo_record ''c1'' Case)\<lparr>en_assignedTo := None, en_subjectEmail := Some ''ann@x.org''\<rparr>"

definition ann_client :: actor where
  "ann_client = \<lparr>ac_id = ''ann'', ac_roles = [CLIENT], ac_email = Some ''Ann@x.org''\<rparr>"

definition bound :: als where
  "bound = Some \<lparr>ts_tenantId = Some ''T'', ts_bypass = None\<rparr>"

definition commented_db :: crm_db where
  "commented_db = demo_db [ann_case, note_row ''n1'' 1 ''T'' ann_case ''weak case'' ''sam'' True,
     note_row ''n2'' 2 ''T'' ann_case ''hello'' ''sam'' False]"

lemma demo_comments:
  "list_comments bound ''T'' ''c1'' ann_client (Some True) commented_db
     = Inr [toComment (note_row ''n2'' 2 ''T'' ann_case ''hello'' ''sam'' False)]"
  "remove_comment bound 3 ''T'' ''n2'' ann_client commented_db = Inl CommentNotFound"
  by code_simp+

theorem internal_comments_stay_inside_witness:
  "\<not> cmt_internal (toComment (note_row ''n2'' 2 ''T'' ann_case ''hello'' ''sam'' False))"
proof -
  have "\<not> hasTenantWideReach bound ann_client" by code_simp
  from internal_comments_stay_inside [OF this] demo_comments(1) show ?thesis by (metis list.set_intros(1))
qed

definition demo_acceptance :: acceptance_input where
  "demo_acceptance = \<lparr>ai_subject = Some '' terms '', ai_userId = ''ann'', ai_email = ''ann@x.org'', ai_ip = None,
     ai_userAgent = None, ai_documentBytes = Some ''abc'', ai_documentSha256 = None\<rparr>"

theorem acceptances_accumulate_witness:
  "\<exists>accepted db' audit'. record_acceptance (\<lambda>_. ''00'') (\<lambda>ob. ob) bound ''l1'' 5 ''T'' ''c1'' demo_acceptance ann_client commented_db []
       = Inr (accepted, db', audit') \<and> list_acceptances bound ''T'' ''c1'' ann_client db' = Inr [accepted] \<and> length audit' = 1"
proof -
  have "\<not> isl (record_acceptance (\<lambda>_. ''00'') (\<lambda>ob. ob) bound ''l1'' 5 ''T'' ''c1'' demo_acceptance ann_client commented_db [])" by code_simp
  then obtain accepted db' audit' where r: "record_acceptance (\<lambda>_. ''00'') (\<lambda>ob. ob) bound ''l1'' 5 ''T'' ''c1'' demo_acceptance ann_client commented_db []
      = Inr (accepted, db', audit')"
    by (metis isl_def sum.exhaust surj_pair)
  have "keys_distinct en_id (db_entities commented_db)" by code_simp
  moreover have "list_acceptances bound ''T'' ''c1'' ann_client commented_db = Inr []" by code_simp
  ultimately show ?thesis using acceptances_accumulate [OF r] r by fastforce
qed

end
