(* ===== verification/Sequences.thy ===== *)
theory Sequences
  imports Crm Notify Alerts
begin

text \<open>
  \<^verbatim>\<open>src/notifications/sequence-runner.service.ts\<close>: the messages a pack sends to records in steps. A record is enrolled
  when it matches the trigger, each sweep sends the steps that are due, and an enrolment ends by a condition, a reply, the
  number of its messages or by hand. Identifiers drawn are functions of what they are for.
\<close>

section \<open>Definitions of the pack\<close>

record sequence_step =
  ss_templateKey :: str
  ss_afterHours :: js_num
  ss_when :: "js option"

record sequence_definition =
  sd_key :: str
  sd_label :: str
  sd_entityType :: str
  sd_trigger :: "js option"
  sd_steps :: "sequence_step list"
  sd_stopWhen :: "js option"
  sd_stopOnReply :: bool
  sd_maxMessages :: "nat option"

definition condition_of :: "str \<Rightarrow> js_obj \<Rightarrow> js option" where
  "condition_of k ob = (case obj_get k ob of None \<Rightarrow> None | Some v \<Rightarrow> if nullish_js v then None else Some v)"

definition whole_number :: "str \<Rightarrow> js_obj \<Rightarrow> nat option" where
  "whole_number k ob =
     (case obj_get k ob of
        Some (JNum n) \<Rightarrow> (case string_to_number n of Fin m e \<Rightarrow> Some (nat (m * 10 ^ nat e)) | _ \<Rightarrow> None)
      | _ \<Rightarrow> None)"

definition sequence_step_of :: "js_obj \<Rightarrow> sequence_step" where
  "sequence_step_of ob =
     \<lparr>ss_templateKey = nullish (text_of ''templateKey'' ob) [],
      ss_afterHours = (case obj_get ''afterHours'' ob of Some (JNum n) \<Rightarrow> string_to_number n | _ \<Rightarrow> Fin 0 0),
      ss_when = condition_of ''when'' ob\<rparr>"

definition sequence_definition_of :: "js_obj \<Rightarrow> sequence_definition" where
  "sequence_definition_of ob =
     (let trigger = (case obj_get ''trigger'' ob of Some (JObj t) \<Rightarrow> t | _ \<Rightarrow> [])
      in \<lparr>sd_key = nullish (text_of ''key'' ob) [], sd_label = nullish (text_of ''label'' ob) [],
          sd_entityType = nullish (text_of ''entityType'' trigger) [], sd_trigger = condition_of ''when'' trigger,
          sd_steps = map sequence_step_of (objects_of ''steps'' ob), sd_stopWhen = condition_of ''stopWhen'' ob,
          sd_stopOnReply = (obj_get ''stopOnReply'' ob \<noteq> Some (JBool False)), sd_maxMessages = whole_number ''maxMessages'' ob\<rparr>)"

definition sequence_definitions :: "bool \<Rightarrow> pack_db \<Rightarrow> als \<Rightarrow> str option \<Rightarrow> sequence_definition list" where
  "sequence_definitions pins_ok packs ctx vertical =
     (case pack_section pins_ok packs ctx vertical ''messaging'' of
        Some (JObj m) \<Rightarrow> map sequence_definition_of (objects_of ''sequences'' m)
      | _ \<Rightarrow> [])"

section \<open>Enrolments\<close>

datatype stop_reason = StopCondition | TriggerCleared | Replied | MaxMessages | Completed | Manual

record sequence_enrolment =
  eo_id :: str
  eo_tenantId :: str
  eo_sequenceKey :: str
  eo_entityId :: str
  eo_entityType :: str
  eo_enrolledAt :: instant
  eo_stepsSent :: nat
  eo_lastSentAt :: "instant option"
  eo_stoppedAt :: "instant option"
  eo_stopReason :: "stop_reason option"

text \<open>The unique index.\<close>

abbreviation enrolment_key :: "sequence_enrolment \<Rightarrow> str \<times> str \<times> str" where
  "enrolment_key e \<equiv> (eo_tenantId e, eo_sequenceKey e, eo_entityId e)"

record seq_tenant = tenant_row +
  tq_name :: "str option"

record sequence_env =
  qv_pins_ok :: bool
  qv_packs :: pack_db
  qv_logic :: json_logic
  qv_date :: "str \<Rightarrow> instant option"
  qv_now :: instant
  qv_enrolmentId :: "str \<Rightarrow> str \<Rightarrow> str"
  qv_messageId :: "notify_world \<Rightarrow> str"
  qv_preferenceId :: "notify_world \<Rightarrow> str"

record sequence_summary =
  sy_tenantsScanned :: nat
  sy_sequencesEvaluated :: nat
  sy_enrolled :: nat
  sy_sent :: nat
  sy_stopped :: nat
  sy_refused :: "(str \<times> str \<times> str \<times> str list) list"
  sy_invalidSequences :: "(str \<times> str \<times> rule_verdict) list"

record sequence_world =
  qw_enrolments :: "sequence_enrolment list"
  qw_notify :: notify_world
  qw_summary :: sequence_summary

definition tallied :: "(sequence_summary \<Rightarrow> sequence_summary) \<Rightarrow> sequence_world \<Rightarrow> sequence_world" where
  "tallied f w = w\<lparr>qw_summary := f (qw_summary w)\<rparr>"

definition MAX_ENTITIES_PER_SEQUENCE :: nat where "MAX_ENTITIES_PER_SEQUENCE = 2000"

definition condition_matches :: "sequence_env \<Rightarrow> js option \<Rightarrow> js_obj \<Rightarrow> bool" where
  "condition_matches env rule data = matches (qv_logic env) (qv_date env) (qv_now env) (case rule of None \<Rightarrow> JUndef | Some r \<Rightarrow> r) data"

definition truthy_rule :: "js option \<Rightarrow> bool" where
  "truthy_rule rule = (case rule of None \<Rightarrow> False | Some r \<Rightarrow> js_truthy r)"

section \<open>Sending\<close>

definition hasRepliedSince :: "sequence_env \<Rightarrow> js_obj \<Rightarrow> instant \<Rightarrow> bool" where
  "hasRepliedSince env attrs enrolledAt =
     (let given = (\<lambda>k. case obj_get k attrs of None \<Rightarrow> None | Some v \<Rightarrow> if nullish_js v then None else Some v);
          repliedAt = (case nullish_opt (given ''repliedAt'') (given ''lastInboundAt'') of
                         Some (JStr s) \<Rightarrow> js_date (qv_date env) s | Some (JDate d) \<Rightarrow> d | _ \<Rightarrow> None)
      in case repliedAt of None \<Rightarrow> False | Some t \<Rightarrow> enrolledAt < t)"

definition variablesFor :: "seq_tenant \<Rightarrow> crm_entity \<Rightarrow> js_obj" where
  "variablesFor tenant e =
     obj_spread (ce_verticalAttributes e)
       [(''firstName'', JStr (nullish (en_firstName e) [])), (''lastName'', JStr (nullish (ce_lastName e) [])),
        (''firmName'', JStr (nullish (tq_name tenant) [])), (''entityId'', JStr (en_id e)),
        (''entityType'', JStr (entity_type_text (en_type e))),
        (''dueDate'', JStr (case ce_dueDate e of None \<Rightarrow> [] | Some t \<Rightarrow> iso_string t))]"

definition portalUrlFor :: "sequence_env \<Rightarrow> als \<Rightarrow> str option \<Rightarrow> str option" where
  "portalUrlFor env ctx vertical =
     (case forVertical (qv_pins_ok env) (qv_packs env) ctx vertical of
        None \<Rightarrow> None
      | Some p \<Rightarrow> (case text_of ''clientPortalUrl'' (cp_uiConfig p) of
                     None \<Rightarrow> None | Some url \<Rightarrow> if trim url = [] then None else Some url))"

text \<open>The address of the record, or the one its attributes have.\<close>

definition recipient_email :: "crm_entity \<Rightarrow> str option" where
  "recipient_email e = nullish_opt (en_email e) (text_of ''email'' (ce_verticalAttributes e))"

definition send_step ::
  "sequence_env \<Rightarrow> als \<Rightarrow> seq_tenant \<Rightarrow> sequence_definition \<Rightarrow> sequence_step \<Rightarrow> crm_entity \<Rightarrow> sequence_world \<Rightarrow> bool \<times> sequence_world" where
  "send_step env ctx tenant sq step e w =
     (let portal = portalUrlFor env ctx (tn_vertical tenant);
          variables = (if truthy_str portal then obj_set ''portalUrl'' (JStr (the portal)) (variablesFor tenant e) else variablesFor tenant e)
      in case renderTemplate (qv_pins_ok env) (qv_packs env) ctx (tn_id tenant) (ss_templateKey step) variables (tn_vertical tenant) (qw_notify w) of
           Inl _ \<Rightarrow> (False, w)
         | Inr r \<Rightarrow>
             if rd_unrendered r \<noteq> []
             then (False, tallied (\<lambda>s. s\<lparr>sy_refused := sy_refused s @ [(sd_key sq, ss_templateKey step, en_id e, rd_unrendered r)]\<rparr>) w)
             else case sendFromTemplate (qv_pins_ok env) (qv_packs env) ctx (qv_messageId env (qw_notify w)) (qv_preferenceId env (qw_notify w))
                         (qv_now env) (tn_id tenant) (ss_templateKey step) (en_id e) variables (tn_vertical tenant) (recipient_email e)
                         [(''sequenceKey'', JStr (sd_key sq)), (''templateKey'', JStr (ss_templateKey step)), (''entityId'', JStr (en_id e))]
                         (qw_notify w) of
                    (Inl _, nw) \<Rightarrow> (False, w\<lparr>qw_notify := nw\<rparr>)
                  | (Inr _, nw) \<Rightarrow> (True, w\<lparr>qw_notify := nw\<rparr>))"

definition max_messages :: "sequence_definition \<Rightarrow> nat" where
  "max_messages sq = nullish (sd_maxMessages sq) 5"

fun send_loop ::
  "sequence_env \<Rightarrow> als \<Rightarrow> seq_tenant \<Rightarrow> sequence_definition \<Rightarrow> crm_entity \<Rightarrow> (nat \<times> sequence_step) list
   \<Rightarrow> sequence_enrolment \<times> sequence_world \<Rightarrow> sequence_enrolment \<times> sequence_world" where
  "send_loop env ctx tenant sq e [] st = st"
| "send_loop env ctx tenant sq e ((i, step) # rest) (en, w) =
     (if max_messages sq \<le> eo_stepsSent en then (en, w)
      else if \<not> hours_passed (ss_afterHours step) (qv_now env - eo_enrolledAt en) then (en, w)
      else if truthy_rule (ss_when step) \<and> \<not> condition_matches env (ss_when step) (entity_obj e)
      then send_loop env ctx tenant sq e rest (en\<lparr>eo_stepsSent := Suc i\<rparr>, w)
      else let (sent, w') = send_step env ctx tenant sq step e w; en' = en\<lparr>eo_stepsSent := Suc i\<rparr>
           in if sent
              then send_loop env ctx tenant sq e rest
                     (en'\<lparr>eo_lastSentAt := Some (qv_now env)\<rparr>, tallied (\<lambda>s. s\<lparr>sy_sent := Suc (sy_sent s)\<rparr>) w')
              else send_loop env ctx tenant sq e rest (en', w'))"

definition stopped :: "instant \<Rightarrow> stop_reason \<Rightarrow> sequence_enrolment \<Rightarrow> sequence_enrolment" where
  "stopped now reason en = en\<lparr>eo_stoppedAt := Some now, eo_stopReason := Some reason\<rparr>"

definition end_reason :: "sequence_definition \<Rightarrow> sequence_enrolment \<Rightarrow> stop_reason option" where
  "end_reason sq en =
     (if min (max_messages sq) (length (sd_steps sq)) \<le> eo_stepsSent en
      then Some (if max_messages sq \<le> eo_stepsSent en then MaxMessages else Completed) else None)"

definition sendDueSteps ::
  "sequence_env \<Rightarrow> als \<Rightarrow> seq_tenant \<Rightarrow> sequence_definition \<Rightarrow> sequence_enrolment \<Rightarrow> crm_entity \<Rightarrow> sequence_world
   \<Rightarrow> sequence_enrolment \<times> sequence_world" where
  "sendDueSteps env ctx tenant sq en e w =
     (let (en', w') = send_loop env ctx tenant sq e (drop (eo_stepsSent en) (zip [0..<length (sd_steps sq)] (sd_steps sq))) (en, w)
      in case end_reason sq en' of
           None \<Rightarrow> (en', w')
         | Some r \<Rightarrow> (stopped (qv_now env) r en', tallied (\<lambda>s. s\<lparr>sy_stopped := Suc (sy_stopped s)\<rparr>) w'))"

definition stopReasonFor :: "sequence_env \<Rightarrow> sequence_definition \<Rightarrow> sequence_enrolment \<Rightarrow> crm_entity \<Rightarrow> stop_reason option" where
  "stopReasonFor env sq en e =
     (if truthy_rule (sd_stopWhen sq) \<and> condition_matches env (sd_stopWhen sq) (entity_obj e) then Some StopCondition
      else if \<not> condition_matches env (sd_trigger sq) (entity_obj e) then Some TriggerCleared
      else if sd_stopOnReply sq \<and> hasRepliedSince env (ce_verticalAttributes e) (eo_enrolledAt en) then Some Replied
      else end_reason sq en)"

section \<open>The sweep\<close>

definition enrolled_row :: "str \<Rightarrow> str \<Rightarrow> str \<Rightarrow> instant \<Rightarrow> crm_entity \<Rightarrow> sequence_enrolment" where
  "enrolled_row i tenantId key now e =
     \<lparr>eo_id = i, eo_tenantId = tenantId, eo_sequenceKey = key, eo_entityId = en_id e,
      eo_entityType = entity_type_text (en_type e), eo_enrolledAt = now, eo_stepsSent = 0, eo_lastSentAt = None,
      eo_stoppedAt = None, eo_stopReason = None\<rparr>"

definition save_enrolment :: "sequence_enrolment \<Rightarrow> sequence_world \<Rightarrow> sequence_world" where
  "save_enrolment en w = w\<lparr>qw_enrolments := save_row enrolment_key en (qw_enrolments w)\<rparr>"

definition proceed ::
  "sequence_env \<Rightarrow> als \<Rightarrow> seq_tenant \<Rightarrow> sequence_definition \<Rightarrow> sequence_enrolment \<Rightarrow> crm_entity \<Rightarrow> sequence_world \<Rightarrow> sequence_world" where
  "proceed env ctx tenant sq en e w =
     (case stopReasonFor env sq en e of
        Some r \<Rightarrow> tallied (\<lambda>s. s\<lparr>sy_stopped := Suc (sy_stopped s)\<rparr>) (save_enrolment (stopped (qv_now env) r en) w)
      | None \<Rightarrow> let (en', w') = sendDueSteps env ctx tenant sq en e w in save_enrolment en' w')"

text \<open>The enrolments were read before the first record.\<close>

definition run_entity ::
  "sequence_env \<Rightarrow> als \<Rightarrow> seq_tenant \<Rightarrow> sequence_definition \<Rightarrow> sequence_enrolment list \<Rightarrow> crm_entity \<Rightarrow> sequence_world \<Rightarrow> sequence_world" where
  "run_entity env ctx tenant sq known e w =
     (case map_get eo_entityId known (en_id e) of
        Some en \<Rightarrow> if eo_stoppedAt en \<noteq> None then w else proceed env ctx tenant sq en e w
      | None \<Rightarrow>
          if \<not> condition_matches env (sd_trigger sq) (entity_obj e) then w
          else proceed env ctx tenant sq (enrolled_row (qv_enrolmentId env (sd_key sq) (en_id e)) (tn_id tenant) (sd_key sq) (qv_now env) e) e
                 (tallied (\<lambda>s. s\<lparr>sy_enrolled := Suc (sy_enrolled s)\<rparr>) w))"

definition sequence_verdict :: "sequence_env \<Rightarrow> sequence_definition \<Rightarrow> rule_verdict" where
  "sequence_verdict env sq =
     (case find_one (\<lambda>v. v \<noteq> RuleValid)
             (map (validate (qv_logic env))
               (List.map_filter (\<lambda>c. c) (sd_trigger sq # sd_stopWhen sq # map ss_when (sd_steps sq)))) of
        None \<Rightarrow> RuleValid | Some v \<Rightarrow> v)"

definition sequence_entities :: "als \<Rightarrow> str \<Rightarrow> sequence_definition \<Rightarrow> crm_entity list \<Rightarrow> crm_entity list" where
  "sequence_entities ctx tenantId sq rows =
     take MAX_ENTITIES_PER_SEQUENCE
       (sort_key (\<lambda>e. - ce_updatedAt e)
         (find_where (\<lambda>e. en_tenantId e = tenantId \<and> entity_type_text (en_type e) = sd_entityType sq \<and> ce_deletedAt e = None)
            (visible_rows ctx rows)))"

definition runSequence ::
  "sequence_env \<Rightarrow> als \<Rightarrow> seq_tenant \<Rightarrow> crm_entity list \<Rightarrow> sequence_definition \<Rightarrow> sequence_world \<Rightarrow> sequence_world" where
  "runSequence env ctx tenant rows sq w =
     (let verdict = sequence_verdict env sq in
      if verdict \<noteq> RuleValid
      then tallied (\<lambda>s. s\<lparr>sy_invalidSequences := sy_invalidSequences s @ [(tn_id tenant, sd_key sq, verdict)]\<rparr>) w
      else if sd_steps sq = [] then w
      else let w = tallied (\<lambda>s. s\<lparr>sy_sequencesEvaluated := Suc (sy_sequencesEvaluated s)\<rparr>) w;
               known = find_where (\<lambda>en. eo_tenantId en = tn_id tenant \<and> eo_sequenceKey en = sd_key sq) (qw_enrolments w)
           in fold (run_entity env ctx tenant sq known) (sequence_entities ctx (tn_id tenant) sq rows) w)"

text \<open>The definitions are read under the caller's context with a bypass, the work is bound to the tenant.\<close>

definition run_tenant :: "sequence_env \<Rightarrow> als \<Rightarrow> crm_entity list \<Rightarrow> seq_tenant \<Rightarrow> sequence_world \<Rightarrow> sequence_world" where
  "run_tenant env ctx rows tenant w =
     (let sequences = runAsSystem ''sequence runner: read pack''
            (\<lambda>ctx'. sequence_definitions (qv_pins_ok env) (qv_packs env) ctx' (tn_vertical tenant)) ctx
      in if sequences = [] then w
         else tc_run \<lparr>ts_tenantId = Some (tn_id tenant), ts_bypass = None\<rparr>
                (\<lambda>ctx'. fold (runSequence env ctx' tenant rows) sequences
                   (tallied (\<lambda>s. s\<lparr>sy_tenantsScanned := Suc (sy_tenantsScanned s)\<rparr>) w)) ctx)"

definition sequence_run :: "sequence_env \<Rightarrow> als \<Rightarrow> seq_tenant list \<Rightarrow> crm_entity list \<Rightarrow> sequence_world \<Rightarrow> sequence_world" where
  "sequence_run env ctx tenants rows w =
     fold (run_tenant env ctx rows) (find_where (\<lambda>t. tn_status t \<in> {TenantActive, TenantTrial}) tenants)
       (w\<lparr>qw_summary := \<lparr>sy_tenantsScanned = 0, sy_sequencesEvaluated = 0, sy_enrolled = 0, sy_sent = 0, sy_stopped = 0,
            sy_refused = [], sy_invalidSequences = []\<rparr>\<rparr>)"

section \<open>By hand\<close>

datatype enrol_error = SequenceUnknown str | EnrolledUnknown str | WrongRecordType str | NotEnrolled str

definition enrol ::
  "sequence_env \<Rightarrow> als \<Rightarrow> str \<Rightarrow> str option \<Rightarrow> str \<Rightarrow> str \<Rightarrow> crm_db \<Rightarrow> sequence_world
   \<Rightarrow> enrol_error + (sequence_enrolment \<times> bool \<times> sequence_world)" where
  "enrol env ctx tenantId vertical key entityId db w =
     (case find_one (\<lambda>d. sd_key d = key) (sequence_definitions (qv_pins_ok env) (qv_packs env) ctx vertical) of
        None \<Rightarrow> Inl (SequenceUnknown key)
      | Some d \<Rightarrow>
          (case findEntityById ctx db entityId tenantId of
             None \<Rightarrow> Inl (EnrolledUnknown entityId)
           | Some e \<Rightarrow>
               if entity_type_text (en_type e) \<noteq> sd_entityType d then Inl (WrongRecordType key)
               else let existing = by_key enrolment_key (qw_enrolments w) (tenantId, key, entityId)
                    in case existing of
                         Some en \<Rightarrow>
                           if eo_stoppedAt en = None then Inr (en, False, w)
                           else let new = enrolled_row (eo_id en) tenantId key (qv_now env) e
                                in Inr (new, False, save_enrolment new w)
                       | None \<Rightarrow>
                           let new = enrolled_row (qv_enrolmentId env key entityId) tenantId key (qv_now env) e
                           in Inr (new, True, save_enrolment new w)))"

definition stop_enrolment ::
  "instant \<Rightarrow> str \<Rightarrow> str \<Rightarrow> str \<Rightarrow> sequence_world \<Rightarrow> enrol_error + (sequence_enrolment \<times> sequence_world)" where
  "stop_enrolment now tenantId key entityId w =
     (case by_key enrolment_key (qw_enrolments w) (tenantId, key, entityId) of
        None \<Rightarrow> Inl (NotEnrolled entityId)
      | Some en \<Rightarrow>
          if eo_stoppedAt en \<noteq> None then Inr (en, w)
          else let en' = stopped now Manual en in Inr (en', save_enrolment en' w))"

datatype enrolment_state = EnrolledActive | EnrolledStopped | EnrolledAll

definition enrolments :: "str \<Rightarrow> str \<Rightarrow> enrolment_state \<Rightarrow> nat \<Rightarrow> sequence_world \<Rightarrow> sequence_enrolment list" where
  "enrolments tenantId key state n w =
     take n (sort_key (\<lambda>en. - eo_enrolledAt en)
       (find_where (\<lambda>en. eo_tenantId en = tenantId \<and> eo_sequenceKey en = key
            \<and> (state = EnrolledActive \<longrightarrow> eo_stoppedAt en = None) \<and> (state = EnrolledStopped \<longrightarrow> eo_stoppedAt en \<noteq> None))
          (qw_enrolments w)))"

definition enrolment_counts :: "str \<Rightarrow> sequence_world \<Rightarrow> str \<Rightarrow> (nat \<times> nat) option" where
  "enrolment_counts tenantId w key =
     (let rows = find_where (\<lambda>en. eo_tenantId en = tenantId \<and> eo_sequenceKey en = key) (qw_enrolments w)
      in if rows = [] then None
         else Some (length (filter (\<lambda>en. eo_stoppedAt en = None) rows), length (filter (\<lambda>en. eo_stoppedAt en \<noteq> None) rows)))"

definition listActive :: "str \<Rightarrow> nat \<Rightarrow> sequence_world \<Rightarrow> sequence_enrolment list" where
  "listActive tenantId n w =
     take n (sort_key (\<lambda>en. - eo_enrolledAt en)
       (find_where (\<lambda>en. eo_tenantId en = tenantId \<and> eo_stoppedAt en = None) (qw_enrolments w)))"


section \<open>What a sweep does to an enrolment\<close>

lemma set_fold_set_add: "set (fold set_add xs acc) = set xs \<union> set acc"
  by (induction xs arbitrary: acc) (auto simp: set_add_def)

text \<open>No name of a variable is left in the text of a message.\<close>

definition filled :: "notification \<Rightarrow> bool" where
  "filled n \<longleftrightarrow> placeholders (nt_subject n) = [] \<and> placeholders (nt_content n) = []"

lemma sendNotification_texts:
  assumes "sendNotification newId prefId now opts nw = (r, nw')"
  shows "nw_rows nw' = nw_rows nw
    \<or> (\<exists>n. nw_rows nw' = save_row nt_id n (nw_rows nw) \<and> nt_subject n = so_subject opts \<and> nt_content n = so_content opts)"
proof -
  obtain p nw1 where p: "(if truthy_str (so_recipientId opts) \<and> is_uuid (the (so_recipientId opts))
      then map_prod Some id (getUserPreferences prefId (so_tenantId opts) (the (so_recipientId opts)) nw) else (None, nw)) = (p, nw1)"
    by fastforce
  then have rows: "nw_rows nw1 = nw_rows nw"
    by (auto simp: map_prod_def split: if_splits prod.splits dest: getUserPreferences_rows)
  have new: "nt_subject (new_notification newId now opts) = so_subject opts" "nt_content (new_notification newId now opts) = so_content opts"
    by (simp_all add: new_notification_def)
  show ?thesis
    using assms p rows new
    by (auto simp: sendNotification_def scheduleNotification_def Let_def split: if_splits prod.splits)
qed

lemma sendFromTemplate_filled:
  assumes "renderTemplate pins packs ctx T key vars v nw = Inr r" "rd_unrendered r = []"
    "sendFromTemplate pins packs ctx i pi now T key recipient vars v email meta nw = (x, nw')"
  shows "nw_rows nw' = nw_rows nw \<or> (\<exists>n. nw_rows nw' = save_row nt_id n (nw_rows nw) \<and> filled n)"
proof -
  have "rd_unrendered r = fold set_add (placeholders (rd_subject r) @ placeholders (rd_content r)) []"
    using assms(1) by (auto simp: renderTemplate_def and_then_Inr_iff Let_def)
  then have none: "placeholders (rd_subject r) = []" "placeholders (rd_content r) = []"
    using assms(2) set_fold_set_add [of "placeholders (rd_subject r) @ placeholders (rd_content r)" "[]"] by auto
  show ?thesis
  proof (cases "channel_of (rs_channel (rd_resolved r))")
    case None
    obtain p nw1 where "getUserPreferences pi T recipient nw = (p, nw1)" by fastforce
    then show ?thesis
      using assms(1,3) None getUserPreferences_rows [of pi T recipient nw p nw1]
      by (auto simp: sendFromTemplate_def Let_def split: if_splits)
  next
    case (Some c)
    then show ?thesis
      using assms(1,3) none sendNotification_texts by (fastforce simp: sendFromTemplate_def Let_def filled_def)
  qed
qed

lemma length_save_row: "length (save_row key r t) \<le> Suc (length t)"
  by (induction t) auto

lemma rows_save_row: "set (save_row key r t) \<subseteq> insert r (set t)"
  by (induction t) auto

abbreviation messages :: "sequence_world \<Rightarrow> notification list" where
  "messages w \<equiv> nw_rows (qw_notify w)"

lemma tallied_simps [simp]:
  "qw_enrolments (tallied f w) = qw_enrolments w" "qw_notify (tallied f w) = qw_notify w"
  by (simp_all add: tallied_def)

text \<open>A step writes at most one message, and one that is filled.\<close>

lemma send_step_effect:
  assumes "send_step env ctx tenant sq step e w = (sent, w')"
  shows "qw_enrolments w' = qw_enrolments w \<and> length (messages w') \<le> Suc (length (messages w))
    \<and> (\<forall>n \<in> set (messages w'). n \<in> set (messages w) \<or> filled n)"
proof -
  have "qw_enrolments w' = qw_enrolments w
      \<and> (messages w' = messages w \<or> (\<exists>n. messages w' = save_row nt_id n (messages w) \<and> filled n))"
    using assms by (auto simp: send_step_def Let_def split: if_splits sum.splits prod.splits dest: sendFromTemplate_filled)
  then show ?thesis
    using length_save_row [of nt_id _ "messages w"] rows_save_row [of nt_id _ "messages w"] by fastforce
qed

text \<open>An enrolment that goes on, towards the number of its steps and messages.\<close>

definition advanced :: "sequence_definition \<Rightarrow> sequence_enrolment \<Rightarrow> sequence_enrolment \<Rightarrow> bool" where
  "advanced sq en en' \<longleftrightarrow> eo_id en' = eo_id en \<and> enrolment_key en' = enrolment_key en \<and> eo_enrolledAt en' = eo_enrolledAt en
     \<and> eo_stepsSent en \<le> eo_stepsSent en'
     \<and> eo_stepsSent en' \<le> max (eo_stepsSent en) (min (max_messages sq) (length (sd_steps sq)))"

lemma send_loop_effect:
  assumes "send_loop env ctx tenant sq e steps (en, w) = (en', w')"
    "map fst steps = [eo_stepsSent en..<length (sd_steps sq)]"
  shows "advanced sq en en' \<and> eo_stoppedAt en' = eo_stoppedAt en \<and> eo_stopReason en' = eo_stopReason en
    \<and> qw_enrolments w' = qw_enrolments w
    \<and> length (messages w') + eo_stepsSent en \<le> length (messages w) + eo_stepsSent en'
    \<and> (\<forall>n \<in> set (messages w'). n \<in> set (messages w) \<or> filled n)"
  using assms
proof (induction steps arbitrary: en w)
  case Nil
  then show ?case by (simp add: advanced_def)
next
  case (Cons s rest)
  obtain i step where s: "s = (i, step)" by (cases s)
  have i: "i = eo_stepsSent en" "i < length (sd_steps sq)" "map fst rest = [Suc i..<length (sd_steps sq)]"
    using Cons.prems(2) s by (cases "eo_stepsSent en < length (sd_steps sq)"; simp add: upt_conv_Cons)+
  show ?case
  proof (cases "max_messages sq \<le> eo_stepsSent en \<or> \<not> hours_passed (ss_afterHours step) (qv_now env - eo_enrolledAt en)")
    case True
    then have "en' = en" "w' = w" using Cons.prems(1) s by (auto split: if_splits)
    then show ?thesis by (simp add: advanced_def)
  next
    case False
    have step: "advanced sq en en' \<and> eo_stoppedAt en' = eo_stoppedAt en \<and> eo_stopReason en' = eo_stopReason en
        \<and> qw_enrolments w' = qw_enrolments w
        \<and> length (messages w') + eo_stepsSent en \<le> length (messages w) + eo_stepsSent en'
        \<and> (\<forall>n \<in> set (messages w'). n \<in> set (messages w) \<or> filled n)"
      if go: "send_loop env ctx tenant sq e rest (en1, w1) = (en', w')"
        and en1: "eo_id en1 = eo_id en" "enrolment_key en1 = enrolment_key en" "eo_enrolledAt en1 = eo_enrolledAt en"
          "eo_stepsSent en1 = Suc i" "eo_stoppedAt en1 = eo_stoppedAt en" "eo_stopReason en1 = eo_stopReason en"
        and w1: "qw_enrolments w1 = qw_enrolments w" "length (messages w1) \<le> Suc (length (messages w))"
          "\<forall>n \<in> set (messages w1). n \<in> set (messages w) \<or> filled n"
      for en1 w1
    proof -
      note IH = Cons.IH [OF go]
      have "map fst rest = [eo_stepsSent en1..<length (sd_steps sq)]" using i en1 by simp
      from IH [OF this] show ?thesis
        using en1 w1 i False unfolding advanced_def by auto
    qed
    show ?thesis
    proof (cases "truthy_rule (ss_when step) \<and> \<not> condition_matches env (ss_when step) (entity_obj e)")
      case True
      then have "send_loop env ctx tenant sq e rest (en\<lparr>eo_stepsSent := Suc i\<rparr>, w) = (en', w')"
        using Cons.prems(1) s False by simp
      then show ?thesis by (rule step) simp_all
    next
      case no_skip: False
      obtain sent w1 where w1: "send_step env ctx tenant sq step e w = (sent, w1)" by fastforce
      note eff = send_step_effect [OF w1]
      show ?thesis
      proof (cases sent)
        case True
        then have "send_loop env ctx tenant sq e rest (en\<lparr>eo_stepsSent := Suc i, eo_lastSentAt := Some (qv_now env)\<rparr>,
            tallied (\<lambda>s. s\<lparr>sy_sent := Suc (sy_sent s)\<rparr>) w1) = (en', w')"
          using Cons.prems(1) s False no_skip w1 by (auto simp: Let_def split: if_splits)
        then show ?thesis by (rule step) (use eff in simp_all)
      next
        case no: False
        then have "send_loop env ctx tenant sq e rest (en\<lparr>eo_stepsSent := Suc i\<rparr>, w1) = (en', w')"
          using Cons.prems(1) s False no_skip w1 by (auto simp: Let_def split: if_splits)
        then show ?thesis by (rule step) (use eff in simp_all)
      qed
    qed
  qed
qed

lemma stopped_simps [simp]:
  "eo_id (stopped now r en) = eo_id en" "eo_tenantId (stopped now r en) = eo_tenantId en"
  "eo_sequenceKey (stopped now r en) = eo_sequenceKey en" "eo_entityId (stopped now r en) = eo_entityId en"
  "eo_enrolledAt (stopped now r en) = eo_enrolledAt en" "eo_stepsSent (stopped now r en) = eo_stepsSent en"
  "eo_stoppedAt (stopped now r en) = Some now" "eo_stopReason (stopped now r en) = Some r"
  by (simp_all add: stopped_def)

lemma sendDueSteps_effect:
  assumes "sendDueSteps env ctx tenant sq en e w = (en', w')" "eo_stoppedAt en = None \<longleftrightarrow> eo_stopReason en = None"
  shows "advanced sq en en' \<and> (eo_stoppedAt en' = None \<longleftrightarrow> eo_stopReason en' = None)
    \<and> qw_enrolments w' = qw_enrolments w
    \<and> length (messages w') + eo_stepsSent en \<le> length (messages w) + eo_stepsSent en'
    \<and> (\<forall>n \<in> set (messages w'). n \<in> set (messages w) \<or> filled n)"
proof -
  let ?steps = "drop (eo_stepsSent en) (zip [0..<length (sd_steps sq)] (sd_steps sq))"
  obtain en1 w1 where l: "send_loop env ctx tenant sq e ?steps (en, w) = (en1, w1)" by fastforce
  have "map fst ?steps = [eo_stepsSent en..<length (sd_steps sq)]" by (simp add: drop_map [symmetric])
  from send_loop_effect [OF l this] show ?thesis
    using assms l by (auto simp: sendDueSteps_def advanced_def split: option.splits)
qed


section \<open>Sweeps\<close>

definition enrolments_inv :: "sequence_world \<Rightarrow> bool" where
  "enrolments_inv w \<longleftrightarrow> keys_distinct enrolment_key (qw_enrolments w)
     \<and> (\<forall>en \<in> set (qw_enrolments w). eo_stoppedAt en = None \<longleftrightarrow> eo_stopReason en = None)"

abbreviation enrolment_at :: "sequence_world \<Rightarrow> str \<times> str \<times> str \<Rightarrow> sequence_enrolment option" where
  "enrolment_at w k \<equiv> by_key enrolment_key (qw_enrolments w) k"

interpretation enrolment_repo:
  repository enrolment_key "\<lambda>t. by_key enrolment_key t" "save_row enrolment_key" "remove_row enrolment_key" "keys_distinct enrolment_key"
  by unfold_locales (auto simp: table_simps keys_distinct_save keys_distinct_remove dest: by_key_SomeD)

definition steps_total :: "sequence_world \<Rightarrow> nat" where
  "steps_total w = sum_list (map eo_stepsSent (qw_enrolments w))"

text \<open>One world after another, as a sweep leaves them.\<close>

definition onward :: "sequence_world \<Rightarrow> sequence_world \<Rightarrow> bool" where
  "onward w w' \<longleftrightarrow> enrolments_inv w'
     \<and> (\<forall>k en. enrolment_at w k = Some en \<and> eo_stoppedAt en \<noteq> None \<longrightarrow> enrolment_at w' k = Some en)
     \<and> (\<forall>k en. enrolment_at w k = Some en \<longrightarrow> (\<exists>en'. enrolment_at w' k = Some en' \<and> eo_id en' = eo_id en
          \<and> eo_enrolledAt en' = eo_enrolledAt en \<and> eo_stepsSent en \<le> eo_stepsSent en'))
     \<and> length (messages w') + steps_total w \<le> length (messages w) + steps_total w'
     \<and> (\<forall>n \<in> set (messages w'). n \<in> set (messages w) \<or> filled n)"

lemma onward_refl: "enrolments_inv w \<Longrightarrow> onward w w"
  by (simp add: onward_def)

lemma onward_inv: "onward w w' \<Longrightarrow> enrolments_inv w'"
  by (simp add: onward_def)

lemma onward_trans:
  assumes "onward w w1" "onward w1 w2"
  shows "onward w w2"
proof -
  have "\<exists>en2. enrolment_at w2 k = Some en2 \<and> eo_id en2 = eo_id en \<and> eo_enrolledAt en2 = eo_enrolledAt en \<and> eo_stepsSent en \<le> eo_stepsSent en2"
    if "enrolment_at w k = Some en" for k en
  proof -
    obtain en1 where "enrolment_at w1 k = Some en1" "eo_id en1 = eo_id en" "eo_enrolledAt en1 = eo_enrolledAt en" "eo_stepsSent en \<le> eo_stepsSent en1"
      using assms(1) \<open>enrolment_at w k = Some en\<close> unfolding onward_def by blast
    moreover from this obtain en2 where "enrolment_at w2 k = Some en2" "eo_id en2 = eo_id en1" "eo_enrolledAt en2 = eo_enrolledAt en1"
      "eo_stepsSent en1 \<le> eo_stepsSent en2"
      using assms(2) unfolding onward_def by blast
    ultimately show ?thesis by auto
  qed
  moreover have "enrolment_at w2 k = Some en" if "enrolment_at w k = Some en" "eo_stoppedAt en \<noteq> None" for k en
    using assms that unfolding onward_def by blast
  moreover have "length (messages w2) + steps_total w \<le> length (messages w) + steps_total w2"
    using assms unfolding onward_def by linarith
  ultimately show ?thesis using assms unfolding onward_def by blast
qed

lemma onward_tallied: "onward w w' \<Longrightarrow> onward w (tallied f w')"
  by (simp add: onward_def enrolments_inv_def steps_total_def)

lemma onward_from_tallied: "onward (tallied f w) w' \<Longrightarrow> onward w w'"
  by (simp add: onward_def enrolments_inv_def steps_total_def)

lemma sum_save_row:
  "sum_list (map f (save_row key r t)) + (case by_key key t (key r) of None \<Rightarrow> 0 | Some o' \<Rightarrow> f o') = sum_list (map f t) + (f r :: nat)"
  by (induction t) (auto split: option.splits)

text \<open>An active or new enrolment is put in its place.\<close>

lemma onward_save:
  assumes "enrolments_inv w" "advanced sq en en'" "eo_stoppedAt en' = None \<longleftrightarrow> eo_stopReason en' = None"
    "enrolment_at w (enrolment_key en) = Some en \<and> eo_stoppedAt en = None \<or> enrolment_at w (enrolment_key en) = None \<and> eo_stepsSent en = 0"
    "qw_enrolments w' = save_row enrolment_key en' (qw_enrolments w)"
    "length (messages w') + eo_stepsSent en \<le> length (messages w) + eo_stepsSent en'"
    "\<forall>n \<in> set (messages w'). n \<in> set (messages w) \<or> filled n"
  shows "onward w w'"
proof -
  have key: "enrolment_key en' = enrolment_key en" using assms(2) unfolding advanced_def by blast
  have at: "enrolment_at w' k = (if k = enrolment_key en then Some en' else enrolment_at w k)" for k
    unfolding assms(5) by_key_save key ..
  have "steps_total w' + eo_stepsSent en = steps_total w + eo_stepsSent en'"
    using assms(4) sum_save_row [of eo_stepsSent enrolment_key en' "qw_enrolments w"]
    unfolding steps_total_def assms(5) key by (auto split: option.splits)
  moreover have "enrolments_inv w'"
    using assms(1,3) set_save_row [of enrolment_key "qw_enrolments w" en'] keys_distinct_save [of enrolment_key "qw_enrolments w" en']
    unfolding enrolments_inv_def assms(5) by auto
  ultimately show ?thesis
    using assms(2,4,6,7) unfolding onward_def at by (auto simp: advanced_def)
qed

lemma proceed_onward:
  assumes "enrolments_inv w" "eo_stoppedAt en = None" "eo_stopReason en = None"
    "enrolment_at w (enrolment_key en) = Some en \<or> enrolment_at w (enrolment_key en) = None \<and> eo_stepsSent en = 0"
  shows "onward w (proceed env ctx tenant sq en e w)"
    "k \<noteq> enrolment_key en \<Longrightarrow> enrolment_at (proceed env ctx tenant sq en e w) k = enrolment_at w k"
proof -
  have "onward w (proceed env ctx tenant sq en e w) \<and> (k \<noteq> enrolment_key en \<longrightarrow> enrolment_at (proceed env ctx tenant sq en e w) k = enrolment_at w k)"
  proof (cases "stopReasonFor env sq en e")
    case (Some r)
    have "onward w (save_enrolment (stopped (qv_now env) r en) w)"
      using assms by (intro onward_save [of w sq en "stopped (qv_now env) r en"]) (auto simp: advanced_def save_enrolment_def)
    then show ?thesis using Some onward_tallied by (simp add: proceed_def save_enrolment_def by_key_save)
  next
    case None
    obtain en' w' where s: "sendDueSteps env ctx tenant sq en e w = (en', w')" by fastforce
    have eff: "advanced sq en en'" "eo_stoppedAt en' = None \<longleftrightarrow> eo_stopReason en' = None" "qw_enrolments w' = qw_enrolments w"
      "length (messages w') + eo_stepsSent en \<le> length (messages w) + eo_stepsSent en'"
      "\<forall>n \<in> set (messages w'). n \<in> set (messages w) \<or> filled n"
      using sendDueSteps_effect [OF s] assms(2,3) by simp_all
    have "onward w (save_enrolment en' w')"
      using assms eff by (intro onward_save [of w sq en en']) (auto simp: save_enrolment_def)
    moreover have "enrolment_key en' = enrolment_key en" using eff(1) unfolding advanced_def by blast
    ultimately show ?thesis using None s eff(3) by (simp add: proceed_def save_enrolment_def by_key_save)
  qed
  then show "onward w (proceed env ctx tenant sq en e w)"
    "k \<noteq> enrolment_key en \<Longrightarrow> enrolment_at (proceed env ctx tenant sq en e w) k = enrolment_at w k" by blast+
qed

lemma run_entity_onward:
  assumes "enrolments_inv w" "enrolment_at w (tn_id tenant, sd_key sq, en_id e) = map_get eo_entityId known (en_id e)"
  shows "onward w (run_entity env ctx tenant sq known e w)"
    "k \<noteq> (tn_id tenant, sd_key sq, en_id e) \<Longrightarrow> enrolment_at (run_entity env ctx tenant sq known e w) k = enrolment_at w k"
proof -
  let ?k = "(tn_id tenant, sd_key sq, en_id e)"
  have "onward w (run_entity env ctx tenant sq known e w)
      \<and> (k \<noteq> ?k \<longrightarrow> enrolment_at (run_entity env ctx tenant sq known e w) k = enrolment_at w k)"
  proof (cases "map_get eo_entityId known (en_id e)")
    case None
    let ?new = "enrolled_row (qv_enrolmentId env (sd_key sq) (en_id e)) (tn_id tenant) (sd_key sq) (qv_now env) e"
    let ?w = "tallied (\<lambda>s. s\<lparr>sy_enrolled := Suc (sy_enrolled s)\<rparr>) w"
    have new: "enrolment_key ?new = ?k" "eo_stoppedAt ?new = None" "eo_stopReason ?new = None" "eo_stepsSent ?new = 0"
      by (simp_all add: enrolled_row_def)
    have inv: "enrolments_inv ?w" using assms(1) by (simp add: enrolments_inv_def)
    have none: "enrolment_at ?w (enrolment_key ?new) = None" using None assms(2) new(1) by simp
    note go = proceed_onward [OF inv new(2,3) disjI2 [OF conjI [OF none new(4)]]]
    show ?thesis
    proof (cases "condition_matches env (sd_trigger sq) (entity_obj e)")
      case True
      then have run: "run_entity env ctx tenant sq known e w = proceed env ctx tenant sq ?new e ?w"
        using None by (simp add: run_entity_def)
      have "onward w (proceed env ctx tenant sq ?new e ?w)" using go(1) by (rule onward_from_tallied)
      moreover have "enrolment_at (proceed env ctx tenant sq ?new e ?w) k = enrolment_at w k" if "k \<noteq> ?k"
        using go(2) [of k env ctx tenant sq e] that new(1) by simp
      ultimately show ?thesis unfolding run by blast
    next
      case False
      then show ?thesis using None onward_refl [OF assms(1)] by (simp add: run_entity_def)
    qed
  next
    case (Some en)
    then have at: "enrolment_at w ?k = Some en" using assms(2) by simp
    then have en: "enrolment_key en = ?k" "en \<in> set (qw_enrolments w)" using by_key_SomeD [OF at] by simp_all
    show ?thesis
    proof (cases "eo_stoppedAt en")
      case None
      moreover have "eo_stopReason en = None" using None assms(1) en(2) by (auto simp: enrolments_inv_def)
      moreover have "enrolment_at w (enrolment_key en) = Some en" using at en(1) by simp
      ultimately show ?thesis
        using proceed_onward(1) [OF assms(1), of en env ctx tenant sq e] proceed_onward(2) [OF assms(1), of en k env ctx tenant sq e]
          Some None en(1) by (simp add: run_entity_def)
    qed (use Some onward_refl [OF assms(1)] in \<open>simp add: run_entity_def\<close>)
  qed
  then show "onward w (run_entity env ctx tenant sq known e w)"
    "k \<noteq> ?k \<Longrightarrow> enrolment_at (run_entity env ctx tenant sq known e w) k = enrolment_at w k" by blast+
qed

lemma run_entities_onward:
  assumes "enrolments_inv w" "distinct (map en_id es)"
    "\<forall>e \<in> set es. enrolment_at w (tn_id tenant, sd_key sq, en_id e) = map_get eo_entityId known (en_id e)"
  shows "onward w (fold (run_entity env ctx tenant sq known) es w)"
  using assms
proof (induction es arbitrary: w)
  case (Cons e es)
  let ?w = "run_entity env ctx tenant sq known e w"
  have first: "onward w ?w" using run_entity_onward(1) Cons.prems(1,3) by simp
  have "\<forall>x \<in> set es. enrolment_at ?w (tn_id tenant, sd_key sq, en_id x) = map_get eo_entityId known (en_id x)"
  proof
    fix x assume x: "x \<in> set es"
    then have "en_id x \<noteq> en_id e" using Cons.prems(2) by (metis distinct.simps(2) image_eqI list.simps(9) set_map)
    then have "enrolment_at ?w (tn_id tenant, sd_key sq, en_id x) = enrolment_at w (tn_id tenant, sd_key sq, en_id x)"
      using run_entity_onward(2) [OF Cons.prems(1)] Cons.prems(3) by simp
    then show "enrolment_at ?w (tn_id tenant, sd_key sq, en_id x) = map_get eo_entityId known (en_id x)" using Cons.prems(3) x by simp
  qed
  then have "onward ?w (fold (run_entity env ctx tenant sq known) es ?w)"
    using Cons.IH [OF onward_inv [OF first]] Cons.prems(2) by simp
  then show ?case using onward_trans [OF first] by simp
qed (simp add: onward_refl)


lemma known_current:
  assumes "enrolments_inv w"
  shows "enrolment_at w (T, k, i) = map_get eo_entityId (find_where (\<lambda>en. eo_tenantId en = T \<and> eo_sequenceKey en = k) (qw_enrolments w)) i"
proof (cases "enrolment_at w (T, k, i)")
  case None
  then have "i \<notin> eo_entityId ` set (find_where (\<lambda>en. eo_tenantId en = T \<and> eo_sequenceKey en = k) (qw_enrolments w))"
    unfolding by_key_None_iff set_find_where by force
  then show ?thesis using None by (metis map_get_None_iff)
next
  case (Some en)
  then have en: "en \<in> set (qw_enrolments w)" "enrolment_key en = (T, k, i)" using by_key_SomeD [OF Some] by simp_all
  let ?known = "find_where (\<lambda>en. eo_tenantId en = T \<and> eo_sequenceKey en = k) (qw_enrolments w)"
  have "map_get eo_entityId ?known i \<noteq> None" unfolding map_get_None_iff set_find_where using en by force
  then obtain en' where m: "map_get eo_entityId ?known i = Some en'" by blast
  then have "en' \<in> set (qw_enrolments w)" "enrolment_key en' = (T, k, i)" using map_get_SomeD [OF m] by (auto simp: set_find_where)
  then have "en' = en" using assms en unfolding enrolments_inv_def by (metis (no_types, lifting) by_key_mem option.inject)
  then show ?thesis using m Some by simp
qed

lemma sequence_entities_distinct: "keys_distinct en_id rows \<Longrightarrow> keys_distinct en_id (sequence_entities ctx T sq rows)"
proof -
  assume d: "keys_distinct en_id rows"
  let ?hits = "find_where (\<lambda>e. en_tenantId e = T \<and> entity_type_text (en_type e) = sd_entityType sq \<and> ce_deletedAt e = None) (visible_rows ctx rows)"
  have "keys_distinct en_id ?hits" using d by (simp add: find_where_def visible_rows_def distinct_map_filter)
  then have "distinct (sort_key (\<lambda>e. - ce_updatedAt e) ?hits)" "inj_on en_id (set (sort_key (\<lambda>e. - ce_updatedAt e) ?hits))"
    by (simp_all add: distinct_map)
  then have "keys_distinct en_id (sort_key (\<lambda>e. - ce_updatedAt e) ?hits)" by (simp add: distinct_map)
  then show ?thesis by (simp add: sequence_entities_def take_map [symmetric])
qed

lemma runSequence_onward:
  assumes "enrolments_inv w" "keys_distinct en_id rows"
  shows "onward w (runSequence env ctx tenant rows sq w)"
proof -
  let ?w = "tallied (\<lambda>s. s\<lparr>sy_sequencesEvaluated := Suc (sy_sequencesEvaluated s)\<rparr>) w"
  let ?known = "find_where (\<lambda>en. eo_tenantId en = tn_id tenant \<and> eo_sequenceKey en = sd_key sq) (qw_enrolments ?w)"
  let ?es = "sequence_entities ctx (tn_id tenant) sq rows"
  have inv: "enrolments_inv ?w" using assms(1) by (simp add: enrolments_inv_def)
  have "onward ?w (fold (run_entity env ctx tenant sq ?known) ?es ?w)"
    using known_current [OF inv] by (intro run_entities_onward [OF inv sequence_entities_distinct [OF assms(2)]]) blast
  then have "onward w (fold (run_entity env ctx tenant sq ?known) ?es ?w)" by (rule onward_from_tallied)
  then show ?thesis
    using onward_refl [OF assms(1)] onward_tallied by (simp add: runSequence_def Let_def)
qed

lemma fold_onward:
  assumes "\<And>x w. x \<in> set xs \<Longrightarrow> enrolments_inv w \<Longrightarrow> onward w (f x w)" "enrolments_inv w"
  shows "onward w (fold f xs w)"
  using assms
proof (induction xs arbitrary: w)
  case (Cons x xs)
  have first: "onward w (f x w)" using Cons.prems by simp
  have "onward (f x w) (fold f xs (f x w))"
    by (rule Cons.IH [OF _ onward_inv [OF first]]) (use Cons.prems(1) in simp)
  then show ?case using onward_trans [OF first] by simp
qed (simp add: onward_refl)

lemma run_tenant_onward:
  assumes "enrolments_inv w" "keys_distinct en_id rows"
  shows "onward w (run_tenant env ctx rows tenant w)"
proof (cases "runAsSystem ''sequence runner: read pack''
    (\<lambda>ctx'. sequence_definitions (qv_pins_ok env) (qv_packs env) ctx' (tn_vertical tenant)) ctx = []")
  case False
  let ?w = "tallied (\<lambda>s. s\<lparr>sy_tenantsScanned := Suc (sy_tenantsScanned s)\<rparr>) w"
  have "enrolments_inv ?w" using assms(1) by (simp add: enrolments_inv_def)
  then have "onward ?w (fold (runSequence env ctx' tenant rows) sqs ?w)" for ctx' sqs
    by (rule fold_onward [rotated]) (rule runSequence_onward [OF _ assms(2)])
  then have "onward w (fold (runSequence env ctx' tenant rows) sqs ?w)" for ctx' sqs by (rule onward_from_tallied)
  then show ?thesis using False by (simp add: run_tenant_def tc_run_def Let_def)
qed (simp add: run_tenant_def onward_refl [OF assms(1)])

text \<open>
  Claim C14: a sweep touches no enrolment that has ended, moves no enrolment back or to another start, ends one only with
  a reason, writes at most one message for a step that an enrolment moves on by, and writes none in which a
  variable of the template is left unfilled.
\<close>

theorem sweeps_move_enrolments_on:
  assumes "enrolments_inv w" "keys_distinct en_id rows"
  shows "enrolments_inv (sequence_run env ctx tenants rows w)
    \<and> (\<forall>k en. enrolment_at w k = Some en \<longrightarrow>
         (\<exists>en'. enrolment_at (sequence_run env ctx tenants rows w) k = Some en' \<and> (eo_stoppedAt en \<noteq> None \<longrightarrow> en' = en)
            \<and> eo_enrolledAt en' = eo_enrolledAt en \<and> eo_stepsSent en \<le> eo_stepsSent en'))
    \<and> length (messages (sequence_run env ctx tenants rows w)) + steps_total w
        \<le> length (messages w) + steps_total (sequence_run env ctx tenants rows w)
    \<and> (\<forall>n \<in> set (messages (sequence_run env ctx tenants rows w)). n \<in> set (messages w) \<or> filled n)"
proof -
  define w0 where "w0 = w\<lparr>qw_summary := \<lparr>sy_tenantsScanned = 0, sy_sequencesEvaluated = 0, sy_enrolled = 0, sy_sent = 0,
      sy_stopped = 0, sy_refused = [], sy_invalidSequences = []\<rparr>\<rparr>"
  have same: "qw_enrolments w0 = qw_enrolments w" "qw_notify w0 = qw_notify w" by (simp_all add: w0_def)
  have inv: "enrolments_inv w0" using assms(1) by (simp add: enrolments_inv_def same)
  have "onward w0 (sequence_run env ctx tenants rows w)"
    unfolding sequence_run_def w0_def [symmetric] using inv by (rule fold_onward [rotated]) (rule run_tenant_onward [OF _ assms(2)])
  then have o: "onward w (sequence_run env ctx tenants rows w)" by (simp add: onward_def steps_total_def same)
  have "\<exists>en'. enrolment_at (sequence_run env ctx tenants rows w) k = Some en' \<and> (eo_stoppedAt en \<noteq> None \<longrightarrow> en' = en)
      \<and> eo_enrolledAt en' = eo_enrolledAt en \<and> eo_stepsSent en \<le> eo_stepsSent en'" if "enrolment_at w k = Some en" for k en
  proof (cases "eo_stoppedAt en = None")
    case True
    then show ?thesis using o that unfolding onward_def by blast
  next
    case False
    then have "enrolment_at (sequence_run env ctx tenants rows w) k = Some en" using o that unfolding onward_def by blast
    then show ?thesis by simp
  qed
  then show ?thesis using o unfolding onward_def by blast
qed

text \<open>
  Claim C35: an enrolment is never taken further by a sweep than the number of its steps and the number of messages
  allowed, beyond where it was.
\<close>

theorem steps_stay_within_the_limit:
  assumes "sendDueSteps env ctx tenant sq en e w = (en', w')"
  shows "eo_stepsSent en \<le> eo_stepsSent en' \<and> eo_stepsSent en' \<le> max (eo_stepsSent en) (min (max_messages sq) (length (sd_steps sq)))
    \<and> (eo_stoppedAt en = None \<and> eo_stoppedAt en' = None \<longrightarrow> eo_stepsSent en' < min (max_messages sq) (length (sd_steps sq)))"
proof -
  let ?steps = "drop (eo_stepsSent en) (zip [0..<length (sd_steps sq)] (sd_steps sq))"
  obtain en1 w1 where l: "send_loop env ctx tenant sq e ?steps (en, w) = (en1, w1)" by fastforce
  have "map fst ?steps = [eo_stepsSent en..<length (sd_steps sq)]" by (simp add: drop_map [symmetric])
  from send_loop_effect [OF l this] have "advanced sq en en1" by blast
  then show ?thesis
    using assms l by (auto simp: sendDueSteps_def advanced_def end_reason_def stopped_def split: if_splits)
qed


section \<open>An example\<close>

text \<open>A sequence of two messages, the second a day after the first.\<close>

definition sequence_pack :: config_pack where
  "sequence_pack = demo_base\<lparr>cp_schema := [(''messaging'', JObj [
     (''templates'', JArr [JObj [(''key'', JStr ''hello''), (''channel'', JStr ''email''), (''subject'', JStr ''Hi''),
        (''body'', JStr ''Dear {{firmName}}'')]]),
     (''sequences'', JArr [JObj [(''key'', JStr ''nurture''), (''label'', JStr ''Nurture''),
        (''trigger'', JObj [(''entityType'', JStr ''case''), (''when'', JObj [(''var'', JStr ''agreed'')])]),
        (''steps'', JArr [JObj [(''templateKey'', JStr ''hello'')],
           JObj [(''templateKey'', JStr ''hello''), (''afterHours'', JNum ''24'')]])]])])]\<rparr>"

definition demo_sequence_env :: sequence_env where
  "demo_sequence_env = \<lparr>qv_pins_ok = True, qv_packs = \<lparr>pd_packs = [sequence_pack], pd_pins = [], pd_audit = []\<rparr>,
     qv_logic = demo_logic, qv_date = (\<lambda>_. None), qv_now = 7 * ms_per_day, qv_enrolmentId = (\<lambda>k e. k @ e),
     qv_messageId = (\<lambda>nw. digits_of (length (nw_rows nw))), qv_preferenceId = (\<lambda>nw. ''p'')\<rparr>"

definition demo_tenant :: seq_tenant where
  "demo_tenant = \<lparr>tn_id = ''T'', tn_status = TenantActive, tn_vertical = Some ''grc'', tq_name = Some ''Firm''\<rparr>"

definition quiet_world :: sequence_world where
  "quiet_world = \<lparr>qw_enrolments = [], qw_notify = sample_world\<lparr>nw_rows := [], nw_templates := []\<rparr>,
     qw_summary = \<lparr>sy_tenantsScanned = 0, sy_sequencesEvaluated = 0, sy_enrolled = 0, sy_sent = 0, sy_stopped = 0,
        sy_refused = [], sy_invalidSequences = []\<rparr>\<rparr>"

lemma first_sweep:
  "map nt_content (messages (sequence_run demo_sequence_env None [demo_tenant] [demo_case] quiet_world)) = [''Dear Firm'']"
  "map (\<lambda>en. (eo_stepsSent en, eo_stoppedAt en)) (qw_enrolments (sequence_run demo_sequence_env None [demo_tenant] [demo_case] quiet_world))
     = [(1, None)]"
  by code_simp+

text \<open>A record enrolled by hand that the trigger does not match gets no message: the next sweep ends the enrolment.\<close>

lemma manual_enrolment_is_cleared:
  "case enrol demo_sequence_env bound' ''T'' (Some ''grc'') ''nurture'' ''c2'' (demo_db [demo_record ''c2'' Case]) quiet_world of
     Inl _ \<Rightarrow> False
   | Inr (_, created, w) \<Rightarrow> created
       \<and> map eo_stopReason (qw_enrolments (sequence_run demo_sequence_env None [demo_tenant] [demo_record ''c2'' Case] w)) = [Some TriggerCleared]
       \<and> messages (sequence_run demo_sequence_env None [demo_tenant] [demo_record ''c2'' Case] w) = []"
  if "bound' = Some \<lparr>ts_tenantId = Some ''T'', ts_bypass = None\<rparr>"
  unfolding that by code_simp

theorem sweeps_move_enrolments_on_witness:
  "\<exists>n. messages (sequence_run demo_sequence_env None [demo_tenant] [demo_case] quiet_world) = [n] \<and> filled n"
proof -
  have "enrolments_inv quiet_world" "keys_distinct en_id [demo_case]" by (simp_all add: enrolments_inv_def quiet_world_def)
  from sweeps_move_enrolments_on [OF this, of demo_sequence_env None "[demo_tenant]"]
  have f: "\<forall>n \<in> set (messages (sequence_run demo_sequence_env None [demo_tenant] [demo_case] quiet_world)). n \<in> set (messages quiet_world) \<or> filled n"
    by blast
  obtain n where n: "messages (sequence_run demo_sequence_env None [demo_tenant] [demo_case] quiet_world) = [n]"
    using first_sweep(1) by auto
  have "messages quiet_world = []" by (simp add: quiet_world_def)
  then show ?thesis using f n by simp
qed

theorem steps_stay_within_the_limit_witness:
  "eo_stepsSent (fst (sendDueSteps demo_sequence_env None demo_tenant
     (sequence_definition_of [(''steps'', JArr [JObj [(''templateKey'', JStr ''hello'')]])])
     (enrolled_row ''i'' ''T'' ''nurture'' 0 demo_case) demo_case quiet_world)) \<le> 1"
proof -
  let ?d = "sequence_definition_of [(''steps'', JArr [JObj [(''templateKey'', JStr ''hello'')]])]"
  have "length (sd_steps ?d) = 1" by code_simp
  then show ?thesis
    using steps_stay_within_the_limit [of demo_sequence_env None demo_tenant ?d "enrolled_row ''i'' ''T'' ''nurture'' 0 demo_case" demo_case
        quiet_world, OF surjective_pairing]
    by (simp add: enrolled_row_def)
qed

end
