(* ===== verification/Scoring.thy ===== *)
theory Scoring
  imports Complex_Main Profile JsOps
begin

text \<open>
  \<^verbatim>\<open>src/ai/engines/scoring.engine.ts\<close>: the weighted score of a record under a model of the pack, and the band it falls in.
  Weights and thresholds are exact decimals.
\<close>

section \<open>Models\<close>

record score_factor =
  fa_key :: str
  fa_label :: str
  fa_when :: js
  fa_weight :: rat

record score_band =
  bn_key :: str
  bn_label :: str
  bn_minScore :: rat
  bn_color :: "str option"

record scoring_model =
  sl_key :: str
  sl_label :: str
  sl_entityType :: str
  sl_factors :: "score_factor list"
  sl_bands :: "score_band list"

definition decimal :: "str \<Rightarrow> js_obj \<Rightarrow> rat" where
  "decimal k ob =
     (case obj_get k ob of
        Some (JNum n) \<Rightarrow> (case string_to_number n of Fin m e \<Rightarrow> of_int (m * 10 ^ nat e) / 10 ^ nat (- e) | _ \<Rightarrow> 0)
      | _ \<Rightarrow> 0)"

definition score_factor_of :: "js_obj \<Rightarrow> score_factor" where
  "score_factor_of ob =
     \<lparr>fa_key = nullish (text_of ''key'' ob) [], fa_label = nullish (text_of ''label'' ob) [],
      fa_when = nullish (obj_get ''when'' ob) JUndef, fa_weight = decimal ''weight'' ob\<rparr>"

definition score_band_of :: "js_obj \<Rightarrow> score_band" where
  "score_band_of ob =
     \<lparr>bn_key = nullish (text_of ''key'' ob) [], bn_label = nullish (text_of ''label'' ob) [],
      bn_minScore = decimal ''minScore'' ob, bn_color = text_of ''color'' ob\<rparr>"

definition scoring_model_of :: "js_obj \<Rightarrow> scoring_model" where
  "scoring_model_of ob =
     \<lparr>sl_key = nullish (text_of ''key'' ob) [], sl_label = nullish (text_of ''label'' ob) [],
      sl_entityType = nullish (text_of ''entityType'' ob) [], sl_factors = map score_factor_of (objects_of ''factors'' ob),
      sl_bands = map score_band_of (objects_of ''bands'' ob)\<rparr>"

definition scoring_models :: "pack_view \<Rightarrow> scoring_model list" where
  "scoring_models pv =
     map (\<lambda>x. scoring_model_of (obj_of x))
       (list_section (pv_pins_ok pv) (pv_packs pv) (pv_ctx pv) (pv_vertical pv) ''scoringModels'')"

section \<open>Scores\<close>

record contribution =
  cb_key :: str
  cb_label :: str
  cb_matched :: bool
  cb_weight :: rat

record score_result =
  sr_modelKey :: str
  sr_label :: str
  sr_score :: rat
  sr_maxScore :: rat
  sr_band :: "(str \<times> str \<times> str option) option"
  sr_contributions :: "contribution list"

definition contribution_of ::
  "json_logic \<Rightarrow> (str \<Rightarrow> instant option) \<Rightarrow> instant \<Rightarrow> js_obj \<Rightarrow> score_factor \<Rightarrow> contribution" where
  "contribution_of apply_logic host_date now data f =
     \<lparr>cb_key = fa_key f, cb_label = fa_label f,
      cb_matched = (if validate apply_logic (fa_when f) \<noteq> RuleValid then False
                    else matches apply_logic host_date now (fa_when f) data),
      cb_weight = fa_weight f\<rparr>"

definition bandFor :: "scoring_model \<Rightarrow> rat \<Rightarrow> (str \<times> str \<times> str option) option" where
  "bandFor model score =
     map_option (\<lambda>b. (bn_key b, bn_label b, bn_color b))
       (find_one (\<lambda>b. bn_minScore b \<le> score) (sort_key (\<lambda>b. - bn_minScore b) (sl_bands model)))"

definition apply_model ::
  "json_logic \<Rightarrow> (str \<Rightarrow> instant option) \<Rightarrow> instant \<Rightarrow> scoring_model \<Rightarrow> js_obj \<Rightarrow> score_result" where
  "apply_model apply_logic host_date now model data =
     (let contributions = map (contribution_of apply_logic host_date now data) (sl_factors model);
          score = foldl (\<lambda>acc c. acc + cb_weight c) 0 (filter cb_matched contributions)
      in \<lparr>sr_modelKey = sl_key model, sr_label = sl_label model, sr_score = score,
          sr_maxScore = foldl (\<lambda>acc f. acc + fa_weight f) 0 (filter (\<lambda>f. 0 < fa_weight f) (sl_factors model)),
          sr_band = bandFor model score, sr_contributions = contributions\<rparr>)"

datatype scoring_error = ModelUndefined str "str list"

definition score_record ::
  "json_logic \<Rightarrow> (str \<Rightarrow> instant option) \<Rightarrow> instant \<Rightarrow> pack_view \<Rightarrow> str \<Rightarrow> js_obj \<Rightarrow> scoring_error + score_result" where
  "score_record apply_logic host_date now pv modelKey data =
     (case find_one (\<lambda>m. sl_key m = modelKey) (scoring_models pv) of
        None \<Rightarrow> Inl (ModelUndefined modelKey (map sl_key (scoring_models pv)))
      | Some model \<Rightarrow> Inr (apply_model apply_logic host_date now model data))"

section \<open>What a score says\<close>

lemma foldl_sum: "foldl (\<lambda>acc x. acc + f x) a xs = a + sum_list (map f xs)" for f :: "'a \<Rightarrow> rat"
  by (induction xs arbitrary: a) auto

lemma matched_le_positive:
  "sum_list (map cb_weight (filter cb_matched (map (contribution_of al hd' now data) fs)))
     \<le> sum_list (map fa_weight (filter (\<lambda>f. 0 < fa_weight f) fs))"
  by (induction fs) (auto simp: contribution_of_def)

lemma negative_le_matched:
  "sum_list (map fa_weight (filter (\<lambda>f. fa_weight f < 0) fs))
     \<le> sum_list (map cb_weight (filter cb_matched (map (contribution_of al hd' now data) fs)))"
  by (induction fs) (auto simp: contribution_of_def)

lemma first_of_sorted:
  assumes "find_one P (sort_key f xs) = Some y"
  shows "y \<in> set xs \<and> P y \<and> (\<forall>x \<in> set xs. P x \<longrightarrow> f y \<le> f x)"
proof -
  have "\<forall>x \<in> set ys. P x \<longrightarrow> f y \<le> f x" if "find_one P ys = Some y" "sorted (map f ys)" for ys
    using that by (induction ys) (auto split: if_splits dest: find_one_SomeD)
  then show ?thesis using assms find_one_SomeD [OF assms] sorted_sort_key [of f xs] by auto
qed


section \<open>An example\<close>

definition lead_model :: scoring_model where
  "lead_model = scoring_model_of [(''key'', JStr ''lead''), (''factors'', JArr [
     JObj [(''key'', JStr ''a''), (''when'', JObj [(''var'', JStr ''x'')]), (''weight'', JNum ''30'')],
     JObj [(''key'', JStr ''b''), (''when'', JObj [(''var'', JStr ''x'')]), (''weight'', JNum ''-10'')],
     JObj [(''key'', JStr ''c''), (''when'', JObj [(''no_such_operator'', JNull)]), (''weight'', JNum ''50'')]]),
     (''bands'', JArr [JObj [(''key'', JStr ''cold''), (''minScore'', JNum ''0'')], JObj [(''key'', JStr ''warm''), (''minScore'', JNum ''20'')],
       JObj [(''key'', JStr ''hot''), (''minScore'', JNum ''60'')]])]"

text \<open>The band that is met first in the order of the pack would be the lowest.\<close>

lemma lead_score:
  "let r = apply_model (\<lambda>_ _. Inr (JBool True)) (\<lambda>_. None) 0 lead_model []
   in sr_score r = 20 \<and> sr_maxScore r = 80 \<and> sr_band r = Some (''warm'', [], None)"
  by code_simp


end
