(* ===== verification/Spec2Isabelle.thy ===== *)
theory Spec2Isabelle
  imports DeepMerge Csv Guards FeeSchedule JobQueue Rls Jobs Rules Tat PackWorkflow PackLoader Tasks Alerts PackRules Notify Crm Comments AuditLog Sequences Scoring
begin

text \<open>
  A verification of the core of the back end under \<^verbatim>\<open>src/src\<close>, a NestJS service for regulated
  practices (immigration, labour, compliance) with many tenants in one Postgres database. A tenant's product is a
  configuration pack: its entity types, fees, workflows, rules, navigation. The program reads packs from disk, pins
  them to tenants, turns their workflows into rows, drives cases through those workflows, charges fees when a case
  reaches a step, and runs its background work through a queue and a table of scheduled jobs. Every read and
  write happens under a tenant, enforced by row-level security and by the access checks of the services.

  \<^bold>\<open>Theories and the code they model\<close>

  Shared: \<open>Prelude\<close> has the result type, JavaScript's \<open>??\<close> and \<open>||\<close>, instants, decimal text,
  and row tables with the interface \<open>repository\<close> for what TypeORM's \<open>save\<close>, \<open>find\<close>,
  \<open>findOne\<close> and \<open>remove\<close> do. \<open>JsValue\<close>, \<open>JsOps\<close> and \<open>Json\<close> have the
  values of \<open>jsonb\<close> columns, the operators the code applies to them, and \<open>JSON.parse\<close>.

  Tenancy and access: \<open>Tenancy\<close> (\<^verbatim>\<open>core/tenancy\<close>: the async-local store as an argument, the
  operator path with its audit, sweeps that bind each item to its tenant), \<open>Rls\<close> (the session variables of a pooled
  connection and the policy), \<open>Access\<close> (\<^verbatim>\<open>common/access.ts\<close>, role grants, the CRM and document
  access services), \<open>Guards\<close> (the policy guard and the module-entitlement guard with their caches).

  Money: \<open>Payments\<close> (the ledger and its settlement states), \<open>FeeSchedule\<close> (pack fees, plans with stages and
  instalments, tenant prices).

  Background work: \<open>JobQueue\<close> (\<^verbatim>\<open>queue\<close>: create, claim, complete, fail, drain, recurring
  jobs), \<open>Jobs\<close> (\<^verbatim>\<open>jobs\<close>: catalogue, dispatch, the tick with its time budget, run rows), \<open>Tasks\<close>
  (\<^verbatim>\<open>tasks\<close>: tasks, the inbox, comments, the calendar, recurring jobs and their sweep).

  Rules: \<open>Rules\<close> (\<^verbatim>\<open>rules/rule-evaluator.service.ts\<close>: the whitelist of operators, derived
  dates, missing variables), \<open>Alerts\<close> (\<^verbatim>\<open>rules/alert-rule.service.ts\<close>: the sweep of alert rules, with a
  firing for a rule and a record that is opened, notified, escalated and resolved), \<open>PackRules\<close>
  (\<^verbatim>\<open>rules/pack-rule.service.ts\<close>: the report of a pack's rules on a record).

  Messages: \<open>Notify\<close> (\<^verbatim>\<open>notifications\<close>: preferences, quiet hours, templates, marks, dispatch
  with retries, the scheduled sweeps), \<open>Sequences\<close> (\<^verbatim>\<open>notifications/sequence-runner.service.ts\<close>: enrolments of
  records in the sequences of a pack, and their steps).

  Records: \<open>Records\<close> and \<open>Crm\<close> (\<^verbatim>\<open>crm/record-identity.ts\<close> and \<^verbatim>\<open>crm/crm.service.ts\<close>: the universal
  entity, its numbers, creation, changes, conversion, lists and exports), \<open>Relations\<close>
  (\<^verbatim>\<open>crm/entity-relation.service.ts\<close>: typed edges and what they block), \<open>Profile\<close> (\<^verbatim>\<open>crm/profile\<close>: the
  sections and sets a pack declares), \<open>Aging\<close> (\<^verbatim>\<open>crm/aging\<close>), \<open>Comments\<close> (comments and acceptances),
  \<open>Scoring\<close> (\<^verbatim>\<open>ai/engines/scoring.engine.ts\<close>).

  Evidence: \<open>AuditLog\<close> (\<^verbatim>\<open>audit\<close>: the chained log, its verification, exports, the retention sweep, and the
  trigger that seals a row).

  Workflow: \<open>Workflow\<close> (\<^verbatim>\<open>workflow/workflow.service.ts\<close>: definitions, starts, transitions
  through status, permission, sign-off and payment gates, conditions, queued actions, lists), \<open>Sla\<close> (the watchdog), \<open>Tat\<close>
  (turnaround times), \<open>PackCondition\<close> (the compiler of condition texts), \<open>PackWorkflow\<close> (making
  workflow rows out of a pack).

  Packs: \<open>PackMerge\<close> (deep merge by identity, the walk of \<open>extends\<close>), \<open>PackLoader\<close> (reading,
  checking and storing pack files), \<open>VerticalPack\<close> (packs, pins, the pack a tenant is served, navigation, flags).

  Small utilities: \<open>DeepMerge\<close> and \<open>Csv\<close> (\<^verbatim>\<open>common\<close>).

  \<^bold>\<open>How state and operations correspond\<close>

  A table is a list of records with the columns the code reads or writes, in insertion order; a repository
  call is \<open>find_where\<close>, \<open>find_one\<close>, \<open>save_row\<close>, \<open>remove_row\<close> or \<open>by_key\<close> on it, an
  ordered query a stable sort. A service method is one definition under the method's name, from its arguments and tables to its
  result and tables; a thrown exception is \<open>Inl\<close>. A
  transaction that rolls back returns the tables it began with. Effects that leave the
  program (a notification, a webhook, a job, an audit entry, an event) are appended to a list in the state, in
  the order the code sends them. The clock is an argument; where the code reads it again inside one call and the
  difference can matter (\<open>JobQueue\<close>, \<open>Jobs\<close>) it is a function of the number of readings, elsewhere one
  instant stands for the call. Identifiers drawn by the database are arguments.

  Arguments that stand for code outside the repository: cron-parser (validity and next date), json-logic-js (\<open>apply\<close>),
  the Zod schema of packs (the validated pack or the text of its issues), what the host's \<open>Date\<close> makes
  of a text, the outcome of an audit write, the handlers of jobs, the answers of the network.

  \<^bold>\<open>What the lemmas show\<close>

  Isolation: a bound connection sees its tenant's rows whatever its previous borrower did; sweeps run an item
  under the item's tenant; list filters select what single reads admit; no chain of grants makes a platform admin.
  Conservation: the portions of a fee add up to it, a retried expansion charges
  nobody twice, tenant prices quote what was set, a score is the sum of what holds. Evidence: record numbers are never reused, the audit chain
  stays verifiable and its last hash fixes what it seals, acceptances only accumulate, retention deletes nothing. Invariants over every reachable state: the queue, the
  settlement states, workflow instances and their histories, packs and pins, recurring jobs, alert firings, the edges between records, enrolments in sequences, notifications,
  which are tried a bounded number of times and never again once they are settled. Refinement and
  equivalence: a pass of an alert rule against the abstract incident, list filters against single reads, merging arrays by identity against the element-wise
  merge, a second reload or materialisation against the first. Round trips: CSV against a reader of RFC 4180, printed conditions against the
  compiler. Termination: the recursive functions are total, and the walk of \<open>extends\<close> ends where the theorem says.
  Findings, stated as theorems of what the code does, sit beside them: a named transition ignores its conditions, the
  effects of a transition see the record before it, delayed jobs never run, the watchdog never escalates a new instance,
  the pinned version decides nothing.

  The interfaces are locales: \<open>repository\<close> (interpreted on the tables of jobs, job runs, payments, price
  overrides, packs, pins, workflow instances, tasks, firings, notifications, edges, counters and enrolments), \<open>status_machine\<close> (the settlement of
  payments), \<open>access_decision\<close> (the two access services), \<open>cached_source\<close> (the two guard caches),
  \<open>sweep_items\<close> and its instance \<open>sweep_body\<close> (what a tenant-bound sweep keeps: the watchdog, the recurring jobs
  of the queue and of tasks, scheduled notifications, digests).

  \<^bold>\<open>Bounds\<close>

  The reader of \<open>Csv\<close> has fuel: the length of the text and one more, which
  \<open>parse_csv_document\<close> shows to be enough. The drain of \<open>JobQueue\<close> and the tick of \<open>Jobs\<close> recurse on the
  limit or the list the code gives them. The scanners of \<open>Json\<close>, \<open>PackCondition\<close> and the templates of \<open>Workflow\<close>
  decrease the text that is left, \<open>merge_value\<close> and \<open>deep_merge\<close> the value, \<open>walk_chain\<close> the pack codes not yet seen.

  \<^bold>\<open>Abstractions\<close>

  An object keeps its properties in insertion order, also those whose names are array indices. Numbers of
  \<open>jsonb\<close> values are exact decimals, printed as the double prints up to 15 significant digits. White space and
  letter case are ASCII, text is ordered by bytes. SLA hours are whole, so that \<open>setHours\<close> adds milliseconds.
  Money is in whole minor units, without a bound.

  \<^bold>\<open>Not modelled\<close>

  Controllers, modules, decorators and DTO validation are framework wiring; the types stand for validated input. The services
  for model providers, OCR, Stripe, object storage, mail, search, analytics, integrations and webhooks are calls to
  other systems, whose answers the repository does not contain. Identity (tokens, password hashes, sessions, the
  provisioning of tenants) rests on bcrypt, signatures and mail. Lead intake is a public form in front
  of the creation modelled in \<open>Crm\<close>. The document services move files and texts, their access checks are in \<open>Access\<close>.
  Migrations are DDL, but for the policy in \<open>Rls\<close> and the trigger in \<open>AuditLog\<close>.
\<close>

end
